(* ===== verification/Prelude.thy ===== *)
theory Prelude
  imports Main "HOL-Library.Word" "HOL-Library.Multiset" "HOL-Library.Monad_Syntax"
begin

text \<open>
  Shared vocabulary of the development: the machine types of the C code, the
  convention for aborts, the collections of rewrite rules the component
  theories extend, and generic facts on lists, sorting and words.

  A computation that the C code may end with \<open>abort ()\<close>, a failed
  \<open>assert\<close> or a NULL dereference has an option type: \<open>None\<close> is the
  death of the process, \<open>Some x\<close> a normal return of \<open>x\<close>. Such computations
  are sequenced with \<open>do\<close> blocks. A pointer that may be NULL is an option
  \<^emph>\<open>inside\<close> that result.
\<close>

subsection \<open>Machine types and aborts\<close>

type_synonym guint = "32 word"
type_synonym guint64 = "64 word"
type_synonym gbyte = "8 word"
type_synonym 'a abortable = "'a option"

definition c_assert :: "bool \<Rightarrow> unit abortable" where
  "c_assert b = (if b then Some () else None)"

definition c_nonnull :: "'a option \<Rightarrow> 'a abortable" where
  "c_nonnull p = p"

named_theorems queue_simps \<open>facts about the event queue that hold of every well-formed queue\<close>
named_theorems frame_simps \<open>fields of a state record an operation leaves alone\<close>
named_theorems co_defs \<open>definitions of coroutine segments, unfolded to follow one segment\<close>

lemma c_assert_simps [simp]:
  "c_assert True = Some ()" "c_assert False = None"
  by (simp_all add: c_assert_def)

lemma c_assert_eq_Some [simp]: "(c_assert b = Some u) = b"
  by (simp add: c_assert_def)

lemma c_assert_eq_None [simp]: "(c_assert b = None) = (\<not> b)"
  by (simp add: c_assert_def)

lemma c_nonnull_simps [simp]:
  "c_nonnull (Some x) = Some x" "c_nonnull None = None"
  by (simp_all add: c_nonnull_def)

lemma bind_assert_Some [simp]:
  "(c_assert b \<bind> f = Some y) = (b \<and> f () = Some y)"
  by (simp add: c_assert_def)

lemma bind_SomeE:
  assumes "Option.bind m f = Some y"
  obtains x where "m = Some x" and "f x = Some y"
  using assms by (auto simp: bind_eq_Some_conv)

subsection \<open>Sorted permutations\<close>

text \<open>
  Two sorted permutations of the same elements coincide when the order is
  antisymmetric on them; this is what makes the result of a library sort unique.
\<close>

lemma sorted_wrt_mset_unique:
  assumes "mset xs = mset ys" and "sorted_wrt R xs" and "sorted_wrt R ys"
    and anti: "\<And>x y. x \<in> set xs \<Longrightarrow> y \<in> set xs \<Longrightarrow> R x y \<Longrightarrow> R y x \<Longrightarrow> x = y"
  shows "xs = ys"
  using assms
proof (induction xs arbitrary: ys)
  case Nil
  then show ?case by simp
next
  case (Cons x xs)
  from Cons.prems(1) obtain z zs where ys: "ys = z # zs"
    by (cases ys) auto
  have sets: "set (x # xs) = set (z # zs)"
    using Cons.prems(1) ys by (metis set_mset_mset)
  have "x = z"
  proof (rule ccontr)
    assume "x \<noteq> z"
    with sets have "x \<in> set zs" "z \<in> set xs" by auto
    with Cons.prems(2,3) ys have "R x z" "R z x" by auto
    with Cons.prems(4) \<open>z \<in> set xs\<close> \<open>x \<noteq> z\<close> show False by auto
  qed
  moreover from this Cons.prems ys have "xs = zs"
    by (intro Cons.IH) auto
  ultimately show ?case using ys by simp
qed

lemma sorted_wrt_filter_split:
  assumes "\<And>x y. x \<in> set xs \<Longrightarrow> y \<in> set xs \<Longrightarrow> P x \<Longrightarrow> \<not> P y \<Longrightarrow> R x y"
    and "sorted_wrt R (filter P xs)" and "sorted_wrt R (filter (\<lambda>x. \<not> P x) xs)"
  shows "sorted_wrt R (filter P xs @ filter (\<lambda>x. \<not> P x) xs)"
  using assms by (auto simp: sorted_wrt_append)

lemma mset_filter_split: "mset (filter P xs @ filter (\<lambda>x. \<not> P x) xs) = mset xs"
  by (induction xs) auto

lemma filter_split_eq_Nil: "filter P xs @ filter (\<lambda>x. \<not> P x) xs = [] \<longleftrightarrow> xs = []"
  by (induction xs) auto

lemma hd_filter_split:
  "xs \<noteq> [] \<Longrightarrow> P (hd (filter P xs @ filter (\<lambda>x. \<not> P x) xs)) \<longleftrightarrow> (\<exists>x\<in>set xs. P x)"
proof (cases "filter P xs")
  case Nil
  moreover assume "xs \<noteq> []"
  ultimately have "hd (filter (\<lambda>x. \<not> P x) xs) \<in> set xs"
    by (metis filter_True filter_empty_conv hd_in_set)
  with Nil show ?thesis
    by (auto simp: filter_empty_conv)
next
  case (Cons y ys)
  then have "y \<in> {x \<in> set xs. P x}"
    by (metis list.set_intros(1) set_filter)
  with Cons show ?thesis by auto
qed

lemma set_last_in: "xs \<noteq> [] \<Longrightarrow> last xs \<in> set xs"
  by simp

subsection \<open>Words\<close>

lemma sint_ucast_of_int:
  fixes k :: int
  assumes "- (2 ^ 31) \<le> k" and "k < 2 ^ 31"
  shows "sint (ucast (of_int k :: guint64) :: guint) = k"
proof -
  have "sint (ucast (of_int k :: guint64) :: guint) = signed_take_bit 31 (take_bit 64 k)"
    by (simp add: sint_uint uint_word_of_int_eq unsigned_ucast_eq signed_take_bit_take_bit)
  also have "\<dots> = signed_take_bit 31 k"
    by (simp add: signed_take_bit_take_bit)
  also have "\<dots> = k"
    using assms by (simp add: signed_take_bit_int_eq_self)
  finally show ?thesis .
qed

lemma unat_below: "unat (w :: 'a::len word) < 2 ^ LENGTH('a)"
  by (rule unsigned_less)

lemma unat_add_1:
  fixes w :: "'a::len word"
  assumes "Suc (unat w) < 2 ^ LENGTH('a)"
  shows "unat (w + 1) = Suc (unat w)"
  using assms by (simp add: unat_word_ariths)

lemma unat_sub_1: "w \<noteq> 0 \<Longrightarrow> unat (w - 1) = unat w - 1"
  by (metis One_nat_def diff_Suc_1 unat_gt_0 unat_minus_one)

lemma ucast_of_int_down: "(ucast (of_int k :: guint64) :: guint) = of_int k"
  by (rule bit_word_eqI) (auto simp: bit_simps)

lemma sint_of_int_guint:
  "sint (of_int k :: guint) = signed_take_bit 31 k"
  by (simp add: sint_uint uint_word_of_int_eq signed_take_bit_take_bit)

end
