(* ===== verification/Glib.thy ===== *)
theory Glib
  imports Prelude
begin

text \<open>
  The part of GLib the daemon relies on. GLib is not under \<^verbatim>\<open>src/\<close>, so its
  functions are fields of a record that every definition using them takes as an
  argument, and what the code relies on is stated as two predicates:
  \<open>attach_lawful\<close> (\<^verbatim>\<open>g_idle_add\<close>, \<^verbatim>\<open>g_timeout_add\<close>, ... return an ID greater
  than 0 that no attached source has) and \<open>sequence_lawful\<close>
  (\<^verbatim>\<open>g_sequence_sort\<close> and \<^verbatim>\<open>g_sequence_insert_sorted\<close> permute, and sort by
  the comparison function when it is a valid one). \<open>ref_glib\<close> is a concrete
  instance, used by the witnesses.
\<close>

subsection \<open>The interface\<close>

record 'e glib =
  g_attach :: "guint list \<Rightarrow> guint"
  g_sequence_insert_sorted :: "('e \<Rightarrow> 'e \<Rightarrow> int) \<Rightarrow> 'e \<Rightarrow> 'e list \<Rightarrow> 'e list"
  g_sequence_sort :: "('e \<Rightarrow> 'e \<Rightarrow> int) \<Rightarrow> 'e list \<Rightarrow> 'e list"

text \<open>
  A \<^verbatim>\<open>GCompareDataFunc\<close> returns a negative value, zero or a positive value;
  it is valid on a set when it is a consistent total preorder there.
\<close>

definition cmp_le :: "('e \<Rightarrow> 'e \<Rightarrow> int) \<Rightarrow> 'e \<Rightarrow> 'e \<Rightarrow> bool" where
  "cmp_le cmp x y \<longleftrightarrow> cmp x y \<le> 0"

definition cmp_valid :: "('e \<Rightarrow> 'e \<Rightarrow> int) \<Rightarrow> 'e set \<Rightarrow> bool" where
  "cmp_valid cmp S \<longleftrightarrow>
     (\<forall>x\<in>S. \<forall>y\<in>S. cmp x y < 0 \<longleftrightarrow> 0 < cmp y x) \<and>
     (\<forall>x\<in>S. \<forall>y\<in>S. \<forall>z\<in>S. cmp x y \<le> 0 \<longrightarrow> cmp y z \<le> 0 \<longrightarrow> cmp x z \<le> 0)"

lemma cmp_valid_subset: "cmp_valid cmp T \<Longrightarrow> S \<subseteq> T \<Longrightarrow> cmp_valid cmp S"
  unfolding cmp_valid_def by (meson subsetD)

lemma cmp_validD:
  assumes "cmp_valid cmp S"
  shows "x \<in> S \<Longrightarrow> y \<in> S \<Longrightarrow> cmp x y < 0 \<longleftrightarrow> 0 < cmp y x"
    and "x \<in> S \<Longrightarrow> y \<in> S \<Longrightarrow> z \<in> S \<Longrightarrow> cmp x y \<le> 0 \<Longrightarrow> cmp y z \<le> 0 \<Longrightarrow> cmp x z \<le> 0"
  using assms unfolding cmp_valid_def by blast+

definition attach_lawful :: "'e glib \<Rightarrow> bool" where
  "attach_lawful G \<longleftrightarrow> (\<forall>ids. g_attach G ids \<noteq> 0) \<and>
     (\<forall>ids. length ids < 2 ^ 32 - 1 \<longrightarrow> g_attach G ids \<notin> set ids)"

definition sequence_lawful :: "'e glib \<Rightarrow> bool" where
  "sequence_lawful G \<longleftrightarrow>
     (\<forall>cmp xs. mset (g_sequence_sort G cmp xs) = mset xs) \<and>
     (\<forall>cmp x xs. mset (g_sequence_insert_sorted G cmp x xs) = add_mset x (mset xs)) \<and>
     (\<forall>cmp xs. cmp_valid cmp (set xs) \<longrightarrow>
        sorted_wrt (cmp_le cmp) (g_sequence_sort G cmp xs)) \<and>
     (\<forall>cmp x xs. cmp_valid cmp (insert x (set xs)) \<longrightarrow> sorted_wrt (cmp_le cmp) xs \<longrightarrow>
        sorted_wrt (cmp_le cmp) (g_sequence_insert_sorted G cmp x xs))"

definition glib_lawful :: "'e glib \<Rightarrow> bool" where
  "glib_lawful G \<longleftrightarrow> attach_lawful G \<and> sequence_lawful G"

lemma sequence_lawfulD:
  assumes "sequence_lawful G"
  shows "mset (g_sequence_sort G cmp xs) = mset xs"
    and "mset (g_sequence_insert_sorted G cmp x xs) = add_mset x (mset xs)"
    and "cmp_valid cmp (set xs) \<Longrightarrow> sorted_wrt (cmp_le cmp) (g_sequence_sort G cmp xs)"
    and "cmp_valid cmp (insert x (set xs)) \<Longrightarrow> sorted_wrt (cmp_le cmp) xs \<Longrightarrow>
      sorted_wrt (cmp_le cmp) (g_sequence_insert_sorted G cmp x xs)"
  using assms by (auto simp: sequence_lawful_def)

lemma sequence_lawful_set:
  assumes "sequence_lawful G"
  shows "set (g_sequence_sort G cmp xs) = set xs"
    and "set (g_sequence_insert_sorted G cmp x xs) = insert x (set xs)"
    and "length (g_sequence_sort G cmp xs) = length xs"
    and "length (g_sequence_insert_sorted G cmp x xs) = Suc (length xs)"
  using sequence_lawfulD(1,2) [OF assms]
  by (metis set_mset_mset, metis set_mset_mset set_mset_add_mset_insert,
      metis size_mset, metis size_mset size_add_mset)

lemma attach_lawfulD:
  assumes "attach_lawful G"
  shows "g_attach G ids \<noteq> 0"
    and "length ids < 2 ^ 32 - 1 \<Longrightarrow> g_attach G ids \<notin> set ids"
  using assms by (auto simp: attach_lawful_def)

lemma glib_lawfulD:
  assumes "glib_lawful G"
  shows "attach_lawful G" and "sequence_lawful G"
  using assms by (auto simp: glib_lawful_def)

subsection \<open>The sources attached to the main context\<close>

text \<open>
  The default main context holds the attached sources: their IDs with what their
  callback is (a value of type \<open>'d\<close> that stands for the function and its user
  data). Adding a source returns an unused ID, \<^verbatim>\<open>g_source_remove\<close> detaches.
\<close>

type_synonym 'd sources = "(guint \<times> 'd) list"

definition source_ids :: "'d sources \<Rightarrow> guint set" where
  "source_ids ss = fst ` set ss"

definition g_source_add :: "'e glib \<Rightarrow> 'd \<Rightarrow> 'd sources \<Rightarrow> guint \<times> 'd sources" where
  "g_source_add G d ss = (let i = g_attach G (map fst ss) in (i, (i, d) # ss))"

definition g_source_remove :: "guint \<Rightarrow> 'd sources \<Rightarrow> 'd sources" where
  "g_source_remove i ss = filter (\<lambda>(j, d). j \<noteq> i) ss"

lemma source_ids_simps [simp]:
  "source_ids [] = {}" "source_ids ((i, d) # ss) = insert i (source_ids ss)"
  by (auto simp: source_ids_def)

lemma source_ids_remove [simp]: "source_ids (g_source_remove i ss) = source_ids ss - {i}"
  by (force simp: source_ids_def g_source_remove_def)

lemma set_g_source_remove [simp]: "set (g_source_remove i ss) = {x \<in> set ss. fst x \<noteq> i}"
  by (auto simp: g_source_remove_def)

lemma source_ids_mem: "(i, d) \<in> set ss \<Longrightarrow> i \<in> source_ids ss"
  by (force simp: source_ids_def)

lemma g_source_remove_absent [simp]: "i \<notin> source_ids ss \<Longrightarrow> g_source_remove i ss = ss"
  by (force simp: g_source_remove_def source_ids_def intro!: filter_True)

lemma g_source_remove_Cons [simp]:
  "g_source_remove i ((j, d) # ss) =
     (if i = j then g_source_remove i ss else (j, d) # g_source_remove i ss)"
  by (auto simp: g_source_remove_def)

lemma g_source_remove_Nil [simp]: "g_source_remove i [] = []"
  by (simp add: g_source_remove_def)

text \<open>No more than \<open>2 ^ 32 - 2\<close> sources are attached and their IDs differ.\<close>

definition sources_ok :: "'d sources \<Rightarrow> bool" where
  "sources_ok ss \<longleftrightarrow> distinct (map fst ss) \<and> 0 \<notin> source_ids ss"

definition sources_room :: "'d sources \<Rightarrow> bool" where
  "sources_room ss \<longleftrightarrow> length ss < 2 ^ 32 - 1"

lemma g_source_add_ok:
  assumes "attach_lawful G" and "g_source_add G d ss = (i, ss')"
  shows "i \<noteq> 0" and "ss' = (i, d) # ss" and "i \<in> source_ids ss'"
    and "sources_room ss \<Longrightarrow> i \<notin> source_ids ss"
    and "sources_room ss \<Longrightarrow> sources_ok ss \<Longrightarrow> sources_ok ss'"
  using assms attach_lawfulD [OF assms(1), of "map fst ss"]
  by (auto simp: g_source_add_def sources_ok_def sources_room_def source_ids_def Let_def)

lemma sources_ok_remove: "sources_ok ss \<Longrightarrow> sources_ok (g_source_remove i ss)"
  by (auto simp: sources_ok_def g_source_remove_def source_ids_def distinct_map
      intro: inj_on_subset distinct_filter)

subsection \<open>A reference instance\<close>

fun insert_by :: "('e \<Rightarrow> 'e \<Rightarrow> int) \<Rightarrow> 'e \<Rightarrow> 'e list \<Rightarrow> 'e list" where
  "insert_by cmp x [] = [x]"
| "insert_by cmp x (y # ys) = (if cmp x y < 0 then x # y # ys else y # insert_by cmp x ys)"

definition sort_by :: "('e \<Rightarrow> 'e \<Rightarrow> int) \<Rightarrow> 'e list \<Rightarrow> 'e list" where
  "sort_by cmp xs = fold (insert_by cmp) xs []"

fun first_unused :: "nat \<Rightarrow> guint \<Rightarrow> guint list \<Rightarrow> guint" where
  "first_unused 0 i ids = i"
| "first_unused (Suc n) i ids = (if i \<in> set ids then first_unused n (i + 1) ids else i)"

definition next_id :: "guint list \<Rightarrow> guint" where
  "next_id ids = (let i = first_unused (length ids) 1 ids in if i = 0 then 1 else i)"

definition ref_glib :: "'e glib" where
  "ref_glib = \<lparr>g_attach = next_id, g_sequence_insert_sorted = insert_by, g_sequence_sort = sort_by\<rparr>"

lemma mset_insert_by [simp]: "mset (insert_by cmp x xs) = add_mset x (mset xs)"
  by (induction xs) auto

lemma set_insert_by [simp]: "set (insert_by cmp x xs) = insert x (set xs)"
  by (induction xs) auto

lemma mset_fold_insert_by: "mset (fold (insert_by cmp) xs ys) = mset xs + mset ys"
  by (induction xs arbitrary: ys) auto

lemma sorted_insert_by:
  assumes "cmp_valid cmp (insert x (set xs))" and "sorted_wrt (cmp_le cmp) xs"
  shows "sorted_wrt (cmp_le cmp) (insert_by cmp x xs)"
  using assms
proof (induction xs)
  case Nil
  then show ?case by simp
next
  case (Cons y ys)
  have sub: "cmp_valid cmp (insert x (set ys))"
    by (rule cmp_valid_subset [OF Cons.prems(1)]) auto
  have trans: "cmp x z \<le> 0" if "z \<in> set ys" "cmp x y \<le> 0" "cmp y z \<le> 0" for z
    using cmp_validD(2) [OF Cons.prems(1), of x y z] that by simp
  have flip: "\<not> cmp x y < 0 \<Longrightarrow> cmp y x \<le> 0"
    using cmp_validD(1) [OF Cons.prems(1), of x y] cmp_validD(1) [OF Cons.prems(1), of y x]
    by fastforce
  from Cons.IH [OF sub] Cons.prems(2) show ?case
    using trans flip by (auto simp: cmp_le_def)
qed

lemma sorted_fold_insert_by:
  assumes "cmp_valid cmp (set xs \<union> set ys)" and "sorted_wrt (cmp_le cmp) ys"
  shows "sorted_wrt (cmp_le cmp) (fold (insert_by cmp) xs ys)"
  using assms
proof (induction xs arbitrary: ys)
  case Nil
  then show ?case by simp
next
  case (Cons x xs)
  have "cmp_valid cmp (insert x (set ys))"
    by (rule cmp_valid_subset [OF Cons.prems(1)]) auto
  with Cons.prems(2) have "sorted_wrt (cmp_le cmp) (insert_by cmp x ys)"
    by (intro sorted_insert_by)
  with Cons.prems(1) show ?case by (auto intro!: Cons.IH)
qed

lemma mset_sort_by: "mset (sort_by cmp xs) = mset xs"
  by (simp add: sort_by_def mset_fold_insert_by)

lemma sorted_sort_by: "cmp_valid cmp (set xs) \<Longrightarrow> sorted_wrt (cmp_le cmp) (sort_by cmp xs)"
  by (simp add: sort_by_def sorted_fold_insert_by)

lemma ref_sequence_lawful: "sequence_lawful ref_glib"
  by (auto simp: sequence_lawful_def ref_glib_def mset_sort_by
      intro: sorted_insert_by sorted_sort_by)

text \<open>Another lawful instance: insertion by sorting again.\<close>

lemma resort_sequence_lawful:
  "sequence_lawful (ref_glib\<lparr>g_sequence_insert_sorted := (\<lambda>cmp x xs. sort_by cmp (x # xs))\<rparr>)"
  by (auto simp: sequence_lawful_def ref_glib_def mset_sort_by intro: sorted_sort_by)

lemma first_unused_range:
  "\<exists>k\<le>n. first_unused n i ids = i + of_nat k \<and> (\<forall>j<k. i + of_nat j \<in> set ids) \<and>
     (k < n \<longrightarrow> i + of_nat k \<notin> set ids)"
proof (induction n arbitrary: i)
  case 0
  then show ?case by simp
next
  case (Suc n)
  show ?case
  proof (cases "i \<in> set ids")
    case True
    from Suc obtain k where k: "k \<le> n" "first_unused n (i + 1) ids = (i + 1) + of_nat k"
      "\<forall>j<k. (i + 1) + of_nat j \<in> set ids" "k < n \<longrightarrow> (i + 1) + of_nat k \<notin> set ids"
      by blast
    have "\<forall>j<Suc k. i + of_nat j \<in> set ids"
    proof (intro allI impI)
      fix j assume "j < Suc k"
      then show "i + of_nat j \<in> set ids"
        using True k(3) by (cases j) (auto simp: add.assoc)
    qed
    with k True show ?thesis
      by (intro exI [of _ "Suc k"]) (auto simp: add.assoc)
  next
    case False
    then show ?thesis by (intro exI [of _ 0]) auto
  qed
qed

lemma ref_attach_lawful: "attach_lawful ref_glib"
proof -
  have main: "next_id ids \<noteq> 0 \<and> next_id ids \<notin> set ids" if len: "length ids < 2 ^ 32 - 1"
    for ids :: "guint list"
  proof -
    obtain k where k: "k \<le> length ids" "first_unused (length ids) 1 ids = 1 + of_nat k"
      "\<forall>j<k. (1::guint) + of_nat j \<in> set ids" "k < length ids \<longrightarrow> (1::guint) + of_nat k \<notin> set ids"
      using first_unused_range [of "length ids" 1 ids] by blast
    have inj: "inj_on (\<lambda>j. (1::guint) + of_nat j) {..length ids}"
    proof (rule inj_onI)
      fix a b
      assume "a \<in> {..length ids}" "b \<in> {..length ids}"
        and "(1::guint) + of_nat a = 1 + of_nat b"
      then have "unat (of_nat a :: guint) = unat (of_nat b :: guint)"
        and "a < 2 ^ 32" "b < 2 ^ 32"
        using len by auto
      then show "a = b"
        by (simp add: unat_of_nat take_bit_nat_eq_self)
    qed
    have "1 + of_nat k \<notin> set ids"
    proof (cases "k < length ids")
      case False
      with k have [simp]: "k = length ids" by simp
      show ?thesis
      proof
        assume "1 + of_nat k \<in> set ids"
        with k(3) have "(\<lambda>j. (1::guint) + of_nat j) ` {..length ids} \<subseteq> set ids"
          by (auto simp: le_less)
        then have "card {..length ids} \<le> card (set ids)"
          using inj by (metis List.finite_set card_image card_mono)
        also have "\<dots> \<le> length ids" by (rule card_length)
        finally show False by simp
      qed
    qed (use k in simp)
    moreover have "(1::guint) + of_nat k \<noteq> 0"
    proof -
      have "unat ((1::guint) + of_nat k) = Suc k"
        using k(1) len by (simp add: unat_of_nat take_bit_nat_eq_self flip: of_nat_Suc)
      then show ?thesis by auto
    qed
    ultimately show ?thesis using k(2) by (simp add: next_id_def Let_def)
  qed
  have "next_id ids \<noteq> 0" for ids :: "guint list"
    by (simp add: next_id_def Let_def)
  with main show ?thesis by (simp add: attach_lawful_def ref_glib_def)
qed

lemma ref_glib_lawful: "glib_lawful ref_glib"
  by (simp add: glib_lawful_def ref_attach_lawful ref_sequence_lawful)

lemma ref_glib_sel [simp]:
  "g_attach ref_glib = next_id"
  "g_sequence_insert_sorted ref_glib = insert_by"
  "g_sequence_sort ref_glib = sort_by"
  by (simp_all add: ref_glib_def)

end
