(* ===== verification/Event_Queue.thy ===== *)
theory Event_Queue
  imports Glib
begin

text \<open>
  \<^verbatim>\<open>eventqueue.c\<close>: the bounded priority queue through which callbacks talk to the
  main coroutine. An \<open>EventQueue\<close> keeps a \<^verbatim>\<open>GSequence\<close> sorted by
  \<open>eventqueue_sort\<close>: interrupting events first, and within a class by the
  sequence number given at insertion. The comparison subtracts two 64-bit numbers
  and returns the result as a C \<open>int\<close>, so it is modelled on words.

  The theory proves that the queue, over any lawful GSequence, implements a
  priority FIFO (locale \<open>event_queue\<close>) as long as the sequence numbers of the
  pending events stay within a window of \<open>2 ^ 31\<close>, and that beyond the window
  the comparison is wrong.
\<close>

subsection \<open>Data\<close>

datatype ColodEvent =
    EVENT_FAILED | EVENT_PEER_FAILOVER | EVENT_QUIT | EVENT_AUTOQUIT
  | EVENT_FAILOVER_SYNC
  | EVENT_FAILOVER_WIN | EVENT_YELLOW | EVENT_UNYELLOW | EVENT_START_MIGRATION
  | EVENT_MAX

record Event =
  ev_event :: ColodEvent
  ev_data :: guint64
  ev_seqno :: guint64

record EventQueue =
  eq_sequence :: "Event list"
  eq_seq_counter :: guint64
  eq_size :: guint
  eq_used :: guint
  eq_interrupting_always :: "ColodEvent \<Rightarrow> bool"
  eq_interrupting :: "ColodEvent \<Rightarrow> bool"

subsection \<open>Operations\<close>

text \<open>
  \<open>a->seqno - b->seqno\<close> is a \<^verbatim>\<open>guint64\<close>; returning it as \<^verbatim>\<open>gint\<close> keeps the
  low 32 bits, read as a signed number.
\<close>

definition eventqueue_sort :: "EventQueue \<Rightarrow> Event \<Rightarrow> Event \<Rightarrow> int" where
  "eventqueue_sort this a b =
     (if eq_interrupting this (ev_event a) \<noteq> eq_interrupting this (ev_event b)
      then (if eq_interrupting this (ev_event a) then -1 else 1)
      else sint (ucast (ev_seqno a - ev_seqno b) :: guint))"

text \<open>
  The variable arguments, up to the terminating 0, are a list. Writing
  \<open>interrupting[EVENT_MAX]\<close> is out of bounds.
\<close>

fun set_flags :: "(ColodEvent \<Rightarrow> bool) \<Rightarrow> ColodEvent list \<Rightarrow> (ColodEvent \<Rightarrow> bool) abortable" where
  "set_flags f [] = Some f"
| "set_flags f (e # es) = (if e = EVENT_MAX then None else set_flags (f(e := True)) es)"

definition eventqueue_set_interrupting ::
    "Event glib \<Rightarrow> EventQueue \<Rightarrow> ColodEvent list \<Rightarrow> EventQueue abortable" where
  "eventqueue_set_interrupting G this events = do {
     f \<leftarrow> set_flags (eq_interrupting_always this) events;
     let this1 = this\<lparr>eq_interrupting := f\<rparr>;
     Some (this1\<lparr>eq_sequence := g_sequence_sort G (eventqueue_sort this1) (eq_sequence this1)\<rparr>)
   }"

definition eventqueue_add ::
    "Event glib \<Rightarrow> EventQueue \<Rightarrow> ColodEvent \<Rightarrow> guint64 \<Rightarrow> (int \<times> EventQueue) abortable" where
  "eventqueue_add G this e data = do {
     c_assert (e \<noteq> EVENT_MAX);
     if eq_used this = eq_size this then Some (-1, this)
     else do {
       let ev = \<lparr>ev_event = e, ev_data = data, ev_seqno = eq_seq_counter this\<rparr>;
       let this1 = this\<lparr>eq_seq_counter := eq_seq_counter this + 1\<rparr>;
       let this2 = this1\<lparr>eq_sequence :=
             g_sequence_insert_sorted G (eventqueue_sort this1) ev (eq_sequence this1)\<rparr>;
       Some (0, this2\<lparr>eq_used := eq_used this2 + 1\<rparr>)
     }
   }"

text \<open>\<open>g_sequence_get\<close> on the end iterator of an empty sequence is an error.\<close>

definition eventqueue_remove :: "EventQueue \<Rightarrow> (Event option \<times> EventQueue) abortable" where
  "eventqueue_remove this =
     (if eq_used this = 0 then Some (None, this)
      else case eq_sequence this of
        [] \<Rightarrow> None
      | ev # rest \<Rightarrow>
          Some (Some ev, this\<lparr>eq_sequence := rest, eq_used := eq_used this - 1\<rparr>))"

definition eventqueue_peek :: "EventQueue \<Rightarrow> Event option abortable" where
  "eventqueue_peek this =
     (if eq_used this = 0 then Some None
      else case eq_sequence this of [] \<Rightarrow> None | ev # _ \<Rightarrow> Some (Some ev))"

definition eventqueue_last :: "EventQueue \<Rightarrow> Event option abortable" where
  "eventqueue_last this =
     (if eq_used this = 0 then Some None
      else if eq_sequence this = [] then None else Some (Some (last (eq_sequence this))))"

definition eventqueue_pending :: "EventQueue \<Rightarrow> bool" where
  "eventqueue_pending this \<longleftrightarrow> eq_used this \<noteq> 0"

definition eventqueue_pending_interrupt :: "EventQueue \<Rightarrow> bool abortable" where
  "eventqueue_pending_interrupt this = do {
     e \<leftarrow> eventqueue_peek this;
     (case e of None \<Rightarrow> Some False | Some ev \<Rightarrow> Some (eq_interrupting this (ev_event ev)))
   }"

definition eventqueue_event_interrupting :: "EventQueue \<Rightarrow> ColodEvent \<Rightarrow> bool" where
  "eventqueue_event_interrupting this e = eq_interrupting this e"

definition eventqueue_new :: "guint \<Rightarrow> ColodEvent list \<Rightarrow> EventQueue abortable" where
  "eventqueue_new sz events = do {
     f \<leftarrow> set_flags (\<lambda>_. False) events;
     Some \<lparr>eq_sequence = [], eq_seq_counter = 0, eq_size = sz, eq_used = 0,
           eq_interrupting_always = f, eq_interrupting = f\<rparr>
   }"

subsection \<open>The abstract priority FIFO and its contract\<close>

text \<open>
  Abstractly the queue is the list of pending events in arrival order, together
  with the predicate of the interrupting ones. Taking one picks the oldest
  interrupting event, or the oldest one if there is none.
\<close>

definition delivery :: "('k \<Rightarrow> bool) \<Rightarrow> 'k list \<Rightarrow> 'k list" where
  "delivery f xs = filter f xs @ filter (\<lambda>x. \<not> f x) xs"

definition pick :: "('k \<Rightarrow> bool) \<Rightarrow> 'k list \<Rightarrow> 'k" where
  "pick f xs = (case filter f xs of [] \<Rightarrow> hd xs | y # _ \<Rightarrow> y)"

fun drop_first :: "('k \<Rightarrow> bool) \<Rightarrow> 'k list \<Rightarrow> 'k list" where
  "drop_first f [] = []"
| "drop_first f (x # xs) = (if f x then xs else x # drop_first f xs)"

definition rest :: "('k \<Rightarrow> bool) \<Rightarrow> 'k list \<Rightarrow> 'k list" where
  "rest f xs = (if filter f xs = [] then tl xs else drop_first f xs)"

lemma drop_first_filter:
  "filter f (drop_first f xs) = tl (filter f xs)"
  "filter (\<lambda>x. \<not> f x) (drop_first f xs) = filter (\<lambda>x. \<not> f x) xs"
  by (induction xs) auto

lemma delivery_unfold: "xs \<noteq> [] \<Longrightarrow> delivery f xs = pick f xs # delivery f (rest f xs)"
proof (cases "filter f xs")
  case Nil
  moreover assume "xs \<noteq> []"
  ultimately show ?thesis
    by (cases xs) (auto simp: delivery_def pick_def rest_def filter_empty_conv)
next
  case (Cons y ys)
  then show ?thesis
    by (simp add: delivery_def pick_def rest_def drop_first_filter)
qed

lemma length_delivery [simp]: "length (delivery f xs) = length xs"
  by (simp add: delivery_def sum_length_filter_compl)

lemma delivery_Nil [simp]: "delivery f [] = []"
  by (simp add: delivery_def)

lemma set_delivery [simp]: "set (delivery f xs) = set xs"
  by (auto simp: delivery_def)

lemma delivery_eq_Nil [simp]: "delivery f xs = [] \<longleftrightarrow> xs = []"
  using length_delivery [of f xs] by (metis length_0_conv)

lemma drop_first_set: "set (drop_first f xs) \<subseteq> set xs"
  by (induction xs) auto

lemma rest_set: "set (rest f xs) \<subseteq> set xs"
  using drop_first_set [of f xs] by (cases xs) (auto simp: rest_def)

lemma pick_in: "xs \<noteq> [] \<Longrightarrow> pick f xs \<in> set xs"
  using delivery_unfold [of xs f] set_delivery [of f xs] by (metis list.set_intros(1))

lemma pick_interrupting: "\<exists>x\<in>set xs. f x \<Longrightarrow> f (pick f xs)"
proof -
  assume "\<exists>x\<in>set xs. f x"
  then obtain y ys where "filter f xs = y # ys"
    by (metis filter_empty_conv neq_Nil_conv)
  moreover from this have "f y"
    by (metis filter_eq_ConsD)
  ultimately show ?thesis by (simp add: pick_def)
qed

text \<open>
  The contract the main coroutine relies on. \<open>waiting\<close> is the abstraction (the
  pending events in arrival order), \<open>full\<close> says that no slot is left and
  \<open>room\<close> that the sequence numbers allow another insertion.
\<close>

locale event_queue =
  fixes add :: "'q \<Rightarrow> 'k \<Rightarrow> (int \<times> 'q) option"
    and take_event :: "'q \<Rightarrow> ('k option \<times> 'q) option"
    and select :: "'q \<Rightarrow> 'k list \<Rightarrow> 'q option"
    and pending_interrupt :: "'q \<Rightarrow> bool option"
    and interrupting :: "'q \<Rightarrow> 'k \<Rightarrow> bool"
    and always :: "'q \<Rightarrow> 'k \<Rightarrow> bool"
    and waiting :: "'q \<Rightarrow> 'k list"
    and valid :: "'k \<Rightarrow> bool"
    and full :: "'q \<Rightarrow> bool"
    and room :: "'q \<Rightarrow> bool"
    and inv :: "'q \<Rightarrow> bool"
  assumes add_full: "inv q \<Longrightarrow> valid k \<Longrightarrow> full q \<Longrightarrow> add q k = Some (-1, q)"
    and add_ok: "inv q \<Longrightarrow> valid k \<Longrightarrow> \<not> full q \<Longrightarrow> room q \<Longrightarrow>
      \<exists>q'. add q k = Some (0, q') \<and> inv q' \<and> waiting q' = waiting q @ [k] \<and>
        interrupting q' = interrupting q \<and> always q' = always q"
    and take_empty: "inv q \<Longrightarrow> waiting q = [] \<Longrightarrow> take_event q = Some (None, q)"
    and take_some: "inv q \<Longrightarrow> waiting q \<noteq> [] \<Longrightarrow>
      \<exists>q'. take_event q = Some (Some (pick (interrupting q) (waiting q)), q') \<and> inv q' \<and>
        waiting q' = rest (interrupting q) (waiting q) \<and>
        interrupting q' = interrupting q \<and> always q' = always q"
    and select_ok: "inv q \<Longrightarrow> list_all valid ks \<Longrightarrow>
      \<exists>q'. select q ks = Some q' \<and> inv q' \<and> waiting q' = waiting q \<and>
        interrupting q' = (\<lambda>k. always q k \<or> k \<in> set ks) \<and> always q' = always q"
    and pending_interrupt_ok: "inv q \<Longrightarrow>
      pending_interrupt q = Some (\<exists>k\<in>set (waiting q). interrupting q k)"
begin

text \<open>Removing until the queue is empty, at most \<open>n\<close> times.\<close>

fun drain :: "nat \<Rightarrow> 'q \<Rightarrow> ('k list \<times> 'q) option" where
  "drain 0 q = Some ([], q)"
| "drain (Suc n) q = do {
     (e, q1) \<leftarrow> take_event q;
     (case e of
        None \<Rightarrow> Some ([], q1)
      | Some k \<Rightarrow> do { (ks, q2) \<leftarrow> drain n q1; Some (k # ks, q2) })
   }"

lemma drain_delivers:
  "inv q \<Longrightarrow> length (waiting q) \<le> n \<Longrightarrow>
     \<exists>q'. drain n q = Some (delivery (interrupting q) (waiting q), q') \<and> inv q' \<and> waiting q' = []"
proof (induction n arbitrary: q)
  case 0
  then show ?case by simp
next
  case (Suc n)
  show ?case
  proof (cases "waiting q = []")
    case True
    with Suc.prems take_empty show ?thesis by simp
  next
    case False
    from take_some [OF Suc.prems(1) False] obtain q1 where
      q1: "take_event q = Some (Some (pick (interrupting q) (waiting q)), q1)" "inv q1"
        "waiting q1 = rest (interrupting q) (waiting q)" "interrupting q1 = interrupting q"
      by blast
    have "length (delivery (interrupting q) (waiting q)) =
        Suc (length (delivery (interrupting q) (waiting q1)))"
      using delivery_unfold [OF False, of "interrupting q"] q1(3) by simp
    then have "length (waiting q1) \<le> n" using Suc.prems(2) by simp
    from Suc.IH [OF q1(2) this] obtain q2 where
      "drain n q1 = Some (delivery (interrupting q1) (waiting q1), q2)" "inv q2" "waiting q2 = []"
      by blast
    with q1 show ?thesis
      by (simp add: delivery_unfold [OF False])
  qed
qed

lemma take_interrupting_first:
  assumes "inv q" and "k \<in> set (waiting q)" and "interrupting q k"
    and "take_event q = Some (Some e, q')"
  shows "interrupting q e"
proof -
  from assms(2) have ne: "waiting q \<noteq> []" by auto
  from take_some [OF assms(1) ne] assms(4) have "e = pick (interrupting q) (waiting q)"
    by auto
  moreover have "interrupting q (pick (interrupting q) (waiting q))"
    using assms(2,3) pick_interrupting [of "waiting q" "interrupting q"] by fast
  ultimately show ?thesis by simp
qed

lemma take_shorter:
  assumes "inv q" and "take_event q = Some (Some e, q')"
  shows "inv q' \<and> waiting q' = rest (interrupting q) (waiting q) \<and>
    e \<in> set (waiting q) \<and> interrupting q' = interrupting q \<and> always q' = always q"
proof -
  from assms take_empty have ne: "waiting q \<noteq> []" by auto
  from take_some [OF assms(1) ne] assms(2) show ?thesis
    using pick_in [OF ne] by auto
qed

end

subsection \<open>Well-formedness and the sequence-number window\<close>

text \<open>
  \<open>ev_age q ev\<close> is how many insertions ago \<open>ev\<close> was added, modulo \<open>2 ^ 64\<close>.
  Within the window of \<open>2 ^ 31\<close> insertions the truncated comparison is the
  comparison of ages.
\<close>

definition ev_age :: "EventQueue \<Rightarrow> Event \<Rightarrow> nat" where
  "ev_age q ev = unat (eq_seq_counter q - ev_seqno ev)"

definition eventqueue_wf :: "EventQueue \<Rightarrow> bool" where
  "eventqueue_wf q \<longleftrightarrow> unat (eq_used q) = length (eq_sequence q) \<and>
     length (eq_sequence q) \<le> unat (eq_size q) \<and>
     (\<forall>ev\<in>set (eq_sequence q). ev_event ev \<noteq> EVENT_MAX)"

definition eventqueue_window :: "EventQueue \<Rightarrow> bool" where
  "eventqueue_window q \<longleftrightarrow>
     (\<forall>ev\<in>set (eq_sequence q). 0 < ev_age q ev \<and> ev_age q ev \<le> 2 ^ 31) \<and>
     distinct (map ev_seqno (eq_sequence q))"

definition eventqueue_inv :: "EventQueue \<Rightarrow> bool" where
  "eventqueue_inv q \<longleftrightarrow> eventqueue_wf q \<and> eventqueue_window q \<and>
     sorted_wrt (cmp_le (eventqueue_sort q)) (eq_sequence q)"

text \<open>Room for one more insertion: no pending event is at the edge of the window.\<close>

definition eventqueue_room :: "EventQueue \<Rightarrow> bool" where
  "eventqueue_room q \<longleftrightarrow> (\<forall>ev\<in>set (eq_sequence q). ev_age q ev < 2 ^ 31)"

text \<open>The abstraction: the pending events, oldest first.\<close>

definition arrivals :: "EventQueue \<Rightarrow> Event list" where
  "arrivals q = sort_key (\<lambda>ev. - int (ev_age q ev)) (eq_sequence q)"

abbreviation is_intr :: "EventQueue \<Rightarrow> Event \<Rightarrow> bool" where
  "is_intr q ev \<equiv> eq_interrupting q (ev_event ev)"

lemma mset_arrivals [simp]: "mset (arrivals q) = mset (eq_sequence q)"
  by (simp add: arrivals_def)

lemma set_arrivals [simp]: "set (arrivals q) = set (eq_sequence q)"
  by (simp add: arrivals_def)

lemma length_arrivals [simp]: "length (arrivals q) = length (eq_sequence q)"
  by (simp add: arrivals_def)

lemma arrivals_eq_Nil [simp]: "arrivals q = [] \<longleftrightarrow> eq_sequence q = []"
  using length_arrivals [of q] by (metis length_0_conv)

lemma eventqueue_sort_age:
  assumes "ev_age q a \<le> 2 ^ 31" "0 < ev_age q a" "ev_age q b \<le> 2 ^ 31" "0 < ev_age q b"
  shows "eventqueue_sort q a b =
    (if is_intr q a \<noteq> is_intr q b then (if is_intr q a then -1 else 1)
     else int (ev_age q b) - int (ev_age q a))"
proof -
  have sn: "ev_seqno x = eq_seq_counter q - of_nat (ev_age q x)" for x
    by (simp add: ev_age_def)
  have "ev_seqno a - ev_seqno b = of_int (int (ev_age q b) - int (ev_age q a))"
    by (simp add: sn)
  moreover have "sint (ucast (of_int (int (ev_age q b) - int (ev_age q a)) :: guint64) :: guint) =
      int (ev_age q b) - int (ev_age q a)"
    using assms by (intro sint_ucast_of_int) auto
  ultimately show ?thesis by (simp add: eventqueue_sort_def)
qed

lemma eventqueue_cmp_valid:
  assumes "\<forall>ev\<in>S. 0 < ev_age q ev \<and> ev_age q ev \<le> 2 ^ 31"
  shows "cmp_valid (eventqueue_sort q) S"
  unfolding cmp_valid_def
proof (intro conjI ballI impI)
  fix x y assume "x \<in> S" "y \<in> S"
  then show "eventqueue_sort q x y < 0 \<longleftrightarrow> 0 < eventqueue_sort q y x"
    using assms by (auto simp: eventqueue_sort_age)
next
  fix x y z assume S: "x \<in> S" "y \<in> S" "z \<in> S"
    and "eventqueue_sort q x y \<le> 0" "eventqueue_sort q y z \<le> 0"
  then show "eventqueue_sort q x z \<le> 0"
    using assms by (auto simp: eventqueue_sort_age split: if_splits)
qed

lemma same_age_same_event:
  assumes "eventqueue_window q" and "x \<in> set (eq_sequence q)" and "y \<in> set (eq_sequence q)"
    and "ev_age q x = ev_age q y"
  shows "x = y"
proof -
  have "eq_seq_counter q - ev_seqno x = eq_seq_counter q - ev_seqno y"
    using assms(4) unfolding ev_age_def by (rule word_unat_eq_iff [THEN iffD2])
  then have "ev_seqno x = ev_seqno y" by simp
  moreover have "inj_on ev_seqno (set (eq_sequence q))"
    using assms(1) by (simp add: eventqueue_window_def distinct_map)
  ultimately show ?thesis using assms(2,3) by (simp add: inj_on_eq_iff)
qed

lemma arrivals_sorted:
  "sorted_wrt (\<lambda>a b. ev_age q b \<le> ev_age q a) (arrivals q)"
  using sorted_sort_key [of "\<lambda>ev. - int (ev_age q ev)" "eq_sequence q"]
  by (simp add: arrivals_def sorted_map)

lemma arrivals_unique:
  assumes "eventqueue_window q" and "mset xs = mset (eq_sequence q)"
    and "sorted_wrt (\<lambda>a b. ev_age q b \<le> ev_age q a) xs"
  shows "arrivals q = xs"
proof (rule sorted_wrt_mset_unique [OF _ arrivals_sorted assms(3)])
  show "mset (arrivals q) = mset xs" using assms(2) by simp
next
  fix x y assume "x \<in> set (arrivals q)" "y \<in> set (arrivals q)"
    and "ev_age q y \<le> ev_age q x" "ev_age q x \<le> ev_age q y"
  then show "x = y" using same_age_same_event [OF assms(1)] by simp
qed

text \<open>The sequence is exactly the delivery order of the arrivals.\<close>

lemma sorted_sequence_delivery:
  assumes win: "eventqueue_window q" and "mset xs = mset (eq_sequence q)"
    and "sorted_wrt (cmp_le (eventqueue_sort q)) xs"
  shows "xs = delivery (is_intr q) (arrivals q)"
proof (rule sorted_wrt_mset_unique [OF _ assms(3)])
  show "mset xs = mset (delivery (is_intr q) (arrivals q))"
    using assms(2) unfolding delivery_def by (simp add: mset_filter_split [unfolded mset_append])
next
  have age: "0 < ev_age q ev \<and> ev_age q ev \<le> 2 ^ 31" if "ev \<in> set (arrivals q)" for ev
    using win that by (simp add: eventqueue_window_def)
  have cmp: "cmp_le (eventqueue_sort q) a b"
    if "a \<in> set (arrivals q)" "b \<in> set (arrivals q)" "is_intr q a = is_intr q b"
      "ev_age q b \<le> ev_age q a" for a b
    using that age by (simp add: cmp_le_def eventqueue_sort_age)
  have cls: "sorted_wrt (cmp_le (eventqueue_sort q)) (filter P (arrivals q))"
    if P: "\<And>a b. P a \<Longrightarrow> P b \<Longrightarrow> is_intr q a = is_intr q b" for P
  proof (rule sorted_wrt_mono_rel)
    show "sorted_wrt (\<lambda>a b. ev_age q b \<le> ev_age q a) (filter P (arrivals q))"
      by (intro sorted_wrt_filter arrivals_sorted)
  next
    fix a b assume "a \<in> set (filter P (arrivals q))" "b \<in> set (filter P (arrivals q))"
      and "ev_age q b \<le> ev_age q a"
    then show "cmp_le (eventqueue_sort q) a b"
      using P [of a b] by (intro cmp) simp_all
  qed
  show "sorted_wrt (cmp_le (eventqueue_sort q)) (delivery (is_intr q) (arrivals q))"
    unfolding delivery_def
    by (intro sorted_wrt_filter_split cls)
      (use age in \<open>auto simp: cmp_le_def eventqueue_sort_age\<close>)
next
  fix x y assume "x \<in> set xs" "y \<in> set xs"
    and le: "cmp_le (eventqueue_sort q) x y" "cmp_le (eventqueue_sort q) y x"
  then have mem: "x \<in> set (eq_sequence q)" "y \<in> set (eq_sequence q)"
    using mset_eq_setD [OF assms(2)] by auto
  with win le have "ev_age q x = ev_age q y"
    by (auto simp: cmp_le_def eventqueue_window_def eventqueue_sort_age split: if_splits)
  then show "x = y" by (rule same_age_same_event [OF win mem])
qed

subsection \<open>What each operation does to the abstraction\<close>

text \<open>The comparison reads nothing but the interrupting flags.\<close>

lemma eventqueue_sort_frame [simp]:
  "eventqueue_sort (q\<lparr>eq_sequence := s\<rparr>) = eventqueue_sort q"
  "eventqueue_sort (q\<lparr>eq_seq_counter := c\<rparr>) = eventqueue_sort q"
  "eventqueue_sort (q\<lparr>eq_used := u\<rparr>) = eventqueue_sort q"
  by (auto simp: eventqueue_sort_def fun_eq_iff)

lemma mset_delivery [simp]: "mset (delivery f xs) = mset xs"
  unfolding delivery_def by (rule mset_filter_split)

lemma sorted_wrt_drop_first: "sorted_wrt R xs \<Longrightarrow> sorted_wrt R (drop_first f xs)"
  using drop_first_set [of f] by (induction xs) auto

lemma sorted_wrt_rest: "sorted_wrt R xs \<Longrightarrow> sorted_wrt R (rest f xs)"
  using sorted_wrt_drop_first [of R xs f] by (cases xs) (auto simp: rest_def)

lemma map_drop_first: "drop_first f (map g xs) = map g (drop_first (\<lambda>x. f (g x)) xs)"
  by (induction xs) auto

lemma map_rest: "rest f (map g xs) = map g (rest (\<lambda>x. f (g x)) xs)"
  by (simp add: rest_def map_drop_first filter_map comp_def map_tl)

lemma map_pick: "xs \<noteq> [] \<Longrightarrow> pick f (map g xs) = g (pick (\<lambda>x. f (g x)) xs)"
  by (cases xs) (auto simp: pick_def filter_map comp_def split: list.splits)

lemma eventqueue_invD:
  assumes "eventqueue_inv q"
  shows "eventqueue_wf q" and "eventqueue_window q"
    and "sorted_wrt (cmp_le (eventqueue_sort q)) (eq_sequence q)"
    and "eq_sequence q = delivery (is_intr q) (arrivals q)"
  using assms sorted_sequence_delivery [of q "eq_sequence q"]
  by (auto simp: eventqueue_inv_def)

lemma eventqueue_wf_used [queue_simps]:
  "eventqueue_wf q \<Longrightarrow> eq_used q = 0 \<longleftrightarrow> eq_sequence q = []"
  by (auto simp: eventqueue_wf_def unat_eq_0)

lemma eventqueue_wf_full [queue_simps]:
  "eventqueue_wf q \<Longrightarrow> eq_used q = eq_size q \<longleftrightarrow> length (eq_sequence q) = unat (eq_size q)"
  by (auto simp: eventqueue_wf_def word_unat_eq_iff)

lemma eventqueue_add_full [queue_simps]:
  "eventqueue_wf q \<Longrightarrow> e \<noteq> EVENT_MAX \<Longrightarrow> length (eq_sequence q) = unat (eq_size q) \<Longrightarrow>
     eventqueue_add G q e d = Some (-1, q)"
  by (simp add: eventqueue_add_def eventqueue_wf_full)

text \<open>The queue after inserting \<open>ev\<close>, with \<open>s\<close> as its new sequence.\<close>

definition new_event :: "EventQueue \<Rightarrow> ColodEvent \<Rightarrow> guint64 \<Rightarrow> Event" where
  "new_event q e d = \<lparr>ev_event = e, ev_data = d, ev_seqno = eq_seq_counter q\<rparr>"

definition pushed :: "EventQueue \<Rightarrow> Event list \<Rightarrow> EventQueue" where
  "pushed q s = q\<lparr>eq_seq_counter := eq_seq_counter q + 1, eq_sequence := s, eq_used := eq_used q + 1\<rparr>"

lemma pushed_sel [simp]:
  "eq_sequence (pushed q s) = s" "eq_interrupting (pushed q s) = eq_interrupting q"
  "eq_interrupting_always (pushed q s) = eq_interrupting_always q"
  "eq_size (pushed q s) = eq_size q" "eq_used (pushed q s) = eq_used q + 1"
  "eventqueue_sort (pushed q s) = eventqueue_sort q"
  by (simp_all add: pushed_def)

lemma eventqueue_add_pushed:
  "eventqueue_wf q \<Longrightarrow> e \<noteq> EVENT_MAX \<Longrightarrow> length (eq_sequence q) < unat (eq_size q) \<Longrightarrow>
     eventqueue_add G q e d = Some (0, pushed q
       (g_sequence_insert_sorted G (eventqueue_sort q) (new_event q e d) (eq_sequence q)))"
  by (simp add: eventqueue_add_def eventqueue_wf_full Let_def pushed_def new_event_def)

lemma ev_age_pushed_new [simp]: "ev_age (pushed q s) (new_event q e d) = 1"
  by (simp add: ev_age_def pushed_def new_event_def)

lemma ev_age_pushed_old:
  assumes "eventqueue_room q" and "x \<in> set (eq_sequence q)"
  shows "ev_age (pushed q s) x = Suc (ev_age q x)"
proof -
  have "ev_age q x < 2 ^ 31" using assms by (auto simp: eventqueue_room_def)
  then have "unat ((eq_seq_counter q - ev_seqno x) + 1) = Suc (ev_age q x)"
    unfolding ev_age_def by (intro unat_add_1) simp
  then show ?thesis by (simp add: ev_age_def pushed_def algebra_simps)
qed

lemma ev_age_pushed_bounds:
  assumes "eventqueue_room q" and "set s = insert (new_event q e d) (set (eq_sequence q))"
    and "x \<in> set s"
  shows "0 < ev_age (pushed q s) x \<and> ev_age (pushed q s) x \<le> 2 ^ 31"
proof (cases "x = new_event q e d")
  case False
  with assms have x: "x \<in> set (eq_sequence q)" by simp
  with assms(1) have "ev_age q x < 2 ^ 31" by (simp add: eventqueue_room_def)
  with ev_age_pushed_old [OF assms(1) x, of s] show ?thesis by simp
qed simp

lemma eventqueue_window_pushed:
  assumes win: "eventqueue_window q" and room: "eventqueue_room q"
    and mset: "mset s = add_mset (new_event q e d) (mset (eq_sequence q))"
  shows "eventqueue_window (pushed q s)"
proof -
  have set: "set s = insert (new_event q e d) (set (eq_sequence q))"
    using mset by (metis set_mset_mset set_mset_add_mset_insert)
  have "eq_seq_counter q \<notin> ev_seqno ` set (eq_sequence q)"
    using win by (fastforce simp: eventqueue_window_def ev_age_def)
  then have "distinct (map ev_seqno (new_event q e d # eq_sequence q))"
    using win by (simp add: eventqueue_window_def new_event_def)
  moreover have "mset (map ev_seqno s) = mset (map ev_seqno (new_event q e d # eq_sequence q))"
    using mset by (simp only: mset_map) simp
  ultimately have "distinct (map ev_seqno s)"
    using mset_eq_imp_distinct_iff by blast
  with ev_age_pushed_bounds [OF room set] show ?thesis
    by (auto simp: eventqueue_window_def)
qed

lemma arrivals_pushed:
  assumes win: "eventqueue_window q" and room: "eventqueue_room q"
    and mset: "mset s = add_mset (new_event q e d) (mset (eq_sequence q))"
  shows "arrivals (pushed q s) = arrivals q @ [new_event q e d]"
proof (rule arrivals_unique [OF eventqueue_window_pushed [OF assms]])
  show "mset (arrivals q @ [new_event q e d]) = mset (eq_sequence (pushed q s))"
    using mset by simp
  have "sorted_wrt (\<lambda>a b. ev_age (pushed q s) b \<le> ev_age (pushed q s) a) (arrivals q)"
    by (rule sorted_wrt_mono_rel [OF _ arrivals_sorted]) (simp add: ev_age_pushed_old [OF room])
  then show "sorted_wrt (\<lambda>a b. ev_age (pushed q s) b \<le> ev_age (pushed q s) a)
      (arrivals q @ [new_event q e d])"
    by (auto simp: sorted_wrt_append ev_age_pushed_old [OF room])
qed

lemma eventqueue_wf_pushed:
  assumes "eventqueue_wf q" and "length (eq_sequence q) < unat (eq_size q)"
    and "e \<noteq> EVENT_MAX" and "set s = insert (new_event q e d) (set (eq_sequence q))"
    and "length s = Suc (length (eq_sequence q))"
  shows "eventqueue_wf (pushed q s)"
proof -
  have "unat (eq_used q + 1) = Suc (unat (eq_used q))"
    using assms(1,2) unat_below [of "eq_size q"]
    by (intro unat_add_1) (simp add: eventqueue_wf_def)
  then show ?thesis
    using assms by (auto simp: eventqueue_wf_def new_event_def)
qed

lemma eventqueue_add_inv:
  assumes G: "sequence_lawful G" and inv: "eventqueue_inv q" and e: "e \<noteq> EVENT_MAX"
    and free: "length (eq_sequence q) < unat (eq_size q)" and room: "eventqueue_room q"
  obtains s where "eventqueue_add G q e d = Some (0, pushed q s)"
    and "eventqueue_inv (pushed q s)"
    and "arrivals (pushed q s) = arrivals q @ [new_event q e d]"
proof
  let ?s = "g_sequence_insert_sorted G (eventqueue_sort q) (new_event q e d) (eq_sequence q)"
  note wf = eventqueue_invD(1) [OF inv] and win = eventqueue_invD(2) [OF inv]
  note mset = sequence_lawfulD(2) [OF G] and set = sequence_lawful_set(2,4) [OF G]
  have win': "eventqueue_window (pushed q ?s)"
    by (rule eventqueue_window_pushed [OF win room mset])
  show "eventqueue_add G q e d = Some (0, pushed q ?s)"
    by (rule eventqueue_add_pushed [OF wf e free])
  show "arrivals (pushed q ?s) = arrivals q @ [new_event q e d]"
    by (rule arrivals_pushed [OF win room mset])
  have "cmp_valid (eventqueue_sort (pushed q ?s)) (set ?s)"
    using ev_age_pushed_bounds [OF room set(1)] by (intro eventqueue_cmp_valid) blast
  then have "sorted_wrt (cmp_le (eventqueue_sort q)) ?s"
    by (intro sequence_lawfulD(4) [OF G] eventqueue_invD(3) [OF inv]) (simp add: set)
  with win' eventqueue_wf_pushed [OF wf free e set] show "eventqueue_inv (pushed q ?s)"
    by (simp add: eventqueue_inv_def)
qed

lemma eventqueue_remove_empty [queue_simps]:
  "eventqueue_wf q \<Longrightarrow> eq_sequence q = [] \<Longrightarrow> eventqueue_remove q = Some (None, q)"
  by (simp add: eventqueue_remove_def eventqueue_wf_used)

lemma eventqueue_remove_Cons [queue_simps]:
  "eventqueue_wf q \<Longrightarrow> eq_sequence q = ev # evs \<Longrightarrow>
     eventqueue_remove q = Some (Some ev, q\<lparr>eq_sequence := evs, eq_used := eq_used q - 1\<rparr>)"
  by (simp add: eventqueue_remove_def eventqueue_wf_used)

lemma eventqueue_wf_popped:
  assumes "eventqueue_wf q" and "eq_sequence q = ev # evs"
  shows "eventqueue_wf (q\<lparr>eq_sequence := evs, eq_used := eq_used q - 1\<rparr>)"
proof -
  have "eq_used q \<noteq> 0" using assms by (auto simp: eventqueue_wf_def)
  then have "unat (eq_used q - 1) = unat (eq_used q) - 1"
    by (rule unat_sub_1)
  with assms show ?thesis by (auto simp: eventqueue_wf_def)
qed

lemma eventqueue_remove_inv:
  assumes inv: "eventqueue_inv q" and seq: "eq_sequence q \<noteq> []"
  obtains q' where "eventqueue_remove q = Some (Some (pick (is_intr q) (arrivals q)), q')"
    and "eventqueue_inv q'" and "arrivals q' = rest (is_intr q) (arrivals q)"
    and "eq_interrupting q' = eq_interrupting q"
    and "eq_interrupting_always q' = eq_interrupting_always q"
proof
  let ?arr = "arrivals q" and ?f = "is_intr q"
  let ?q' = "q\<lparr>eq_sequence := delivery ?f (rest ?f ?arr), eq_used := eq_used q - 1\<rparr>"
  note wf = eventqueue_invD(1) [OF inv] and win = eventqueue_invD(2) [OF inv]
  have split: "eq_sequence q = pick ?f ?arr # delivery ?f (rest ?f ?arr)"
    using eventqueue_invD(4) [OF inv] delivery_unfold [of ?arr ?f] seq by simp
  show "eventqueue_remove q = Some (Some (pick ?f ?arr), ?q')"
    by (rule eventqueue_remove_Cons [OF wf split])
  have win': "eventqueue_window ?q'"
    using win split by (auto simp: eventqueue_window_def ev_age_def)
  then show "eventqueue_inv ?q'"
    using eventqueue_wf_popped [OF wf split] eventqueue_invD(3) [OF inv] split
    by (simp add: eventqueue_inv_def)
  show "arrivals ?q' = rest ?f ?arr"
    using sorted_wrt_rest [OF arrivals_sorted [of q]]
    by (intro arrivals_unique [OF win']) (simp_all add: ev_age_def)
qed auto

lemma set_flags_ok:
  "EVENT_MAX \<notin> set es \<Longrightarrow> set_flags f es = Some (\<lambda>e. f e \<or> e \<in> set es)"
  by (induction es arbitrary: f) (auto simp: fun_eq_iff)

lemma set_flags_None: "EVENT_MAX \<in> set es \<Longrightarrow> set_flags f es = None"
  by (induction es arbitrary: f) auto

lemma eventqueue_select_ok [queue_simps]:
  "EVENT_MAX \<notin> set es \<Longrightarrow> eventqueue_set_interrupting G q es = Some (
     let q1 = q\<lparr>eq_interrupting := (\<lambda>e. eq_interrupting_always q e \<or> e \<in> set es)\<rparr>
     in q1\<lparr>eq_sequence := g_sequence_sort G (eventqueue_sort q1) (eq_sequence q)\<rparr>)"
  by (simp add: eventqueue_set_interrupting_def set_flags_ok Let_def)

lemma eventqueue_select_inv:
  assumes G: "sequence_lawful G" and inv: "eventqueue_inv q" and es: "EVENT_MAX \<notin> set es"
  obtains q' where "eventqueue_set_interrupting G q es = Some q'"
    and "eventqueue_inv q'" and "arrivals q' = arrivals q"
    and "eq_interrupting q' = (\<lambda>e. eq_interrupting_always q e \<or> e \<in> set es)"
    and "eq_interrupting_always q' = eq_interrupting_always q"
proof
  let ?q1 = "q\<lparr>eq_interrupting := (\<lambda>e. eq_interrupting_always q e \<or> e \<in> set es)\<rparr>"
  let ?s = "g_sequence_sort G (eventqueue_sort ?q1) (eq_sequence q)"
  let ?q' = "?q1\<lparr>eq_sequence := ?s\<rparr>"
  note mset = sequence_lawfulD(1) [OF G] and set = sequence_lawful_set(1,3) [OF G]
  show "eventqueue_set_interrupting G q es = Some ?q'"
    by (simp add: eventqueue_select_ok [OF es] Let_def)
  have win: "eventqueue_window ?q1"
    using eventqueue_invD(2) [OF inv] by (simp add: eventqueue_window_def ev_age_def)
  then have win': "eventqueue_window ?q'"
    using set mset_eq_imp_distinct_iff [of "map ev_seqno ?s" "map ev_seqno (eq_sequence q)"] mset
    by (simp add: eventqueue_window_def ev_age_def)
  have "cmp_valid (eventqueue_sort ?q1) (set (eq_sequence q))"
    using win by (intro eventqueue_cmp_valid) (simp add: eventqueue_window_def)
  then have "sorted_wrt (cmp_le (eventqueue_sort ?q1)) ?s"
    by (rule sequence_lawfulD(3) [OF G])
  with win' eventqueue_invD(1) [OF inv] set show "eventqueue_inv ?q'"
    by (simp add: eventqueue_inv_def eventqueue_wf_def)
  show "arrivals ?q' = arrivals q"
    using arrivals_sorted [of q] mset
    by (intro arrivals_unique [OF win']) (simp_all add: ev_age_def)
qed auto

lemma eventqueue_peek_wf [queue_simps]:
  "eventqueue_wf q \<Longrightarrow> eventqueue_peek q =
     Some (case eq_sequence q of [] \<Rightarrow> None | ev # _ \<Rightarrow> Some ev)"
  by (auto simp: eventqueue_peek_def eventqueue_wf_used split: list.splits)

lemma eventqueue_last_wf [queue_simps]:
  "eventqueue_wf q \<Longrightarrow> eventqueue_last q =
     Some (if eq_sequence q = [] then None else Some (last (eq_sequence q)))"
  by (simp add: eventqueue_last_def eventqueue_wf_used)

lemma eventqueue_pending_wf [queue_simps]:
  "eventqueue_wf q \<Longrightarrow> eventqueue_pending q \<longleftrightarrow> eq_sequence q \<noteq> []"
  by (simp add: eventqueue_pending_def eventqueue_wf_used)

lemma eventqueue_pending_interrupt_wf [queue_simps]:
  "eventqueue_wf q \<Longrightarrow> eventqueue_pending_interrupt q =
     Some (eq_sequence q \<noteq> [] \<and> is_intr q (hd (eq_sequence q)))"
  by (auto simp: eventqueue_pending_interrupt_def eventqueue_peek_wf split: list.splits)

lemma eventqueue_pending_interrupt_inv:
  assumes inv: "eventqueue_inv q"
  shows "eventqueue_pending_interrupt q = Some (\<exists>ev\<in>set (arrivals q). is_intr q ev)"
proof (cases "arrivals q = []")
  case True
  then show ?thesis
    using eventqueue_invD(1) [OF inv] by (simp add: eventqueue_pending_interrupt_wf)
next
  case False
  have "is_intr q (hd (delivery (is_intr q) (arrivals q))) = (\<exists>ev\<in>set (arrivals q). is_intr q ev)"
    unfolding delivery_def by (rule hd_filter_split [OF False])
  then have "is_intr q (hd (eq_sequence q)) = (\<exists>ev\<in>set (arrivals q). is_intr q ev)"
    by (subst eventqueue_invD(4) [OF inv])
  with False show ?thesis
    using eventqueue_invD(1) [OF inv] by (simp add: eventqueue_pending_interrupt_wf)
qed

subsection \<open>The code implements the contract\<close>

definition eventqueue_take :: "EventQueue \<Rightarrow> (ColodEvent option \<times> EventQueue) abortable" where
  "eventqueue_take q = map_option (\<lambda>(e, q'). (map_option ev_event e, q')) (eventqueue_remove q)"

definition eventqueue_waiting :: "EventQueue \<Rightarrow> ColodEvent list" where
  "eventqueue_waiting q = map ev_event (arrivals q)"

definition eventqueue_full :: "EventQueue \<Rightarrow> bool" where
  "eventqueue_full q \<longleftrightarrow> length (eq_sequence q) = unat (eq_size q)"

interpretation eq: event_queue "\<lambda>q e. eventqueue_add G q e 0" eventqueue_take
  "eventqueue_set_interrupting G" eventqueue_pending_interrupt eq_interrupting
  eq_interrupting_always eventqueue_waiting "\<lambda>e. e \<noteq> EVENT_MAX" eventqueue_full eventqueue_room
  "\<lambda>q. sequence_lawful G \<and> eventqueue_inv q"
  for G
proof
  fix q e
  assume inv: "sequence_lawful G \<and> eventqueue_inv q" and e: "e \<noteq> EVENT_MAX"
  show "eventqueue_full q \<Longrightarrow> eventqueue_add G q e 0 = Some (- 1, q)"
    using inv e by (simp add: eventqueue_full_def eventqueue_add_full eventqueue_invD(1))
  assume "\<not> eventqueue_full q" and room: "eventqueue_room q"
  then have free: "length (eq_sequence q) < unat (eq_size q)"
    using eventqueue_invD(1) inv by (auto simp: eventqueue_full_def eventqueue_wf_def le_less)
  obtain s where "eventqueue_add G q e 0 = Some (0, pushed q s)" "eventqueue_inv (pushed q s)"
    "arrivals (pushed q s) = arrivals q @ [new_event q e 0]"
    using eventqueue_add_inv [OF conjunct1 [OF inv] conjunct2 [OF inv] e free room] .
  with inv show "\<exists>q'. eventqueue_add G q e 0 = Some (0, q') \<and>
      (sequence_lawful G \<and> eventqueue_inv q') \<and>
      eventqueue_waiting q' = eventqueue_waiting q @ [e] \<and>
      eq_interrupting q' = eq_interrupting q \<and>
      eq_interrupting_always q' = eq_interrupting_always q"
    by (simp add: eventqueue_waiting_def new_event_def)
next
  fix q assume "sequence_lawful G \<and> eventqueue_inv q" and "eventqueue_waiting q = []"
  then show "eventqueue_take q = Some (None, q)"
    by (simp add: eventqueue_waiting_def eventqueue_take_def eventqueue_remove_empty eventqueue_invD(1))
next
  fix q assume inv: "sequence_lawful G \<and> eventqueue_inv q" and ne: "eventqueue_waiting q \<noteq> []"
  then have seq: "eq_sequence q \<noteq> []" and arr: "arrivals q \<noteq> []"
    by (simp_all add: eventqueue_waiting_def)
  obtain q' where "eventqueue_remove q = Some (Some (pick (is_intr q) (arrivals q)), q')"
    "eventqueue_inv q'" "arrivals q' = rest (is_intr q) (arrivals q)"
    "eq_interrupting q' = eq_interrupting q" "eq_interrupting_always q' = eq_interrupting_always q"
    using eventqueue_remove_inv [OF conjunct2 [OF inv] seq] .
  with inv show "\<exists>q'. eventqueue_take q =
      Some (Some (pick (eq_interrupting q) (eventqueue_waiting q)), q') \<and>
      (sequence_lawful G \<and> eventqueue_inv q') \<and>
      eventqueue_waiting q' = rest (eq_interrupting q) (eventqueue_waiting q) \<and>
      eq_interrupting q' = eq_interrupting q \<and>
      eq_interrupting_always q' = eq_interrupting_always q"
    by (simp add: eventqueue_take_def eventqueue_waiting_def map_rest map_pick [OF arr])
next
  fix q es assume inv: "sequence_lawful G \<and> eventqueue_inv q"
    and "list_all (\<lambda>e. e \<noteq> EVENT_MAX) es"
  then have es: "EVENT_MAX \<notin> set es" by (auto simp: list_all_iff)
  obtain q' where "eventqueue_set_interrupting G q es = Some q'" "eventqueue_inv q'"
    "arrivals q' = arrivals q"
    "eq_interrupting q' = (\<lambda>e. eq_interrupting_always q e \<or> e \<in> set es)"
    "eq_interrupting_always q' = eq_interrupting_always q"
    using eventqueue_select_inv [OF conjunct1 [OF inv] conjunct2 [OF inv] es] .
  with inv show "\<exists>q'. eventqueue_set_interrupting G q es = Some q' \<and>
      (sequence_lawful G \<and> eventqueue_inv q') \<and>
      eventqueue_waiting q' = eventqueue_waiting q \<and>
      eq_interrupting q' = (\<lambda>k. eq_interrupting_always q k \<or> k \<in> set es) \<and>
      eq_interrupting_always q' = eq_interrupting_always q"
    by (simp add: eventqueue_waiting_def)
next
  fix q assume "sequence_lawful G \<and> eventqueue_inv q"
  then show "eventqueue_pending_interrupt q =
      Some (\<exists>k\<in>set (eventqueue_waiting q). eq_interrupting q k)"
    by (simp add: eventqueue_waiting_def eventqueue_pending_interrupt_inv)
qed

subsection \<open>Runs of the queue\<close>

fun eventqueue_add_all :: "Event glib \<Rightarrow> EventQueue \<Rightarrow> ColodEvent list \<Rightarrow> EventQueue abortable" where
  "eventqueue_add_all G q [] = Some q"
| "eventqueue_add_all G q (e # es) = do {
     (ret, q1) \<leftarrow> eventqueue_add G q e 0;
     eventqueue_add_all G q1 es
   }"

fun eventqueue_drain :: "nat \<Rightarrow> EventQueue \<Rightarrow> (ColodEvent list \<times> EventQueue) abortable" where
  "eventqueue_drain 0 q = Some ([], q)"
| "eventqueue_drain (Suc n) q = do {
     (e, q1) \<leftarrow> eventqueue_remove q;
     (case e of
        None \<Rightarrow> Some ([], q1)
      | Some ev \<Rightarrow> do {
          (es, q2) \<leftarrow> eventqueue_drain n q1;
          Some (ev_event ev # es, q2) })
   }"

text \<open>
  Create a queue, add events, change what is interrupting, and remove until it is
  empty: the shape of the tests in \<^verbatim>\<open>test_eventqueue.c\<close>.
\<close>

definition eventqueue_session ::
    "Event glib \<Rightarrow> guint \<Rightarrow> ColodEvent list \<Rightarrow> ColodEvent list \<Rightarrow> ColodEvent list \<Rightarrow>
      (ColodEvent list \<times> bool) abortable" where
  "eventqueue_session G sz always events intr = do {
     q0 \<leftarrow> eventqueue_new sz always;
     q1 \<leftarrow> eventqueue_add_all G q0 events;
     q2 \<leftarrow> eventqueue_set_interrupting G q1 intr;
     (out, q3) \<leftarrow> eventqueue_drain (length events) q2;
     Some (out, eventqueue_pending q3)
   }"

lemma eventqueue_drain_eq: "eventqueue_drain n q = eq.drain n q"
  by (induction n arbitrary: q)
    (auto simp: eventqueue_take_def split: Option.bind_splits option.splits)

text \<open>Events inserted into a young queue find room.\<close>

definition young :: "nat \<Rightarrow> EventQueue \<Rightarrow> bool" where
  "young k q \<longleftrightarrow> (\<forall>ev\<in>set (eq_sequence q). ev_age q ev \<le> k)"

lemma young_room: "young k q \<Longrightarrow> k < 2 ^ 31 \<Longrightarrow> eventqueue_room q"
  by (fastforce simp: young_def eventqueue_room_def)

lemma young_pushed:
  assumes "young k q" and "k < 2 ^ 31"
    and "set s = insert (new_event q e d) (set (eq_sequence q))"
  shows "young (Suc k) (pushed q s)"
  using assms ev_age_pushed_old [OF young_room [OF assms(1,2)]] by (auto simp: young_def)

lemma eventqueue_add_all_inv:
  assumes "sequence_lawful G" and "EVENT_MAX \<notin> set es" and "eventqueue_inv q" and "young k q"
    and "length (eq_sequence q) + length es \<le> unat (eq_size q)" and "k + length es < 2 ^ 31"
  shows "\<exists>q'. eventqueue_add_all G q es = Some q' \<and> eventqueue_inv q' \<and>
    eventqueue_waiting q' = eventqueue_waiting q @ es \<and>
    eq_interrupting_always q' = eq_interrupting_always q \<and> eq_interrupting q' = eq_interrupting q \<and>
    eq_size q' = eq_size q \<and> young (k + length es) q'"
  using assms
proof (induction es arbitrary: q k)
  case Nil
  then show ?case by simp
next
  case (Cons e es)
  have room: "eventqueue_room q"
    using Cons.prems young_room by simp
  obtain s where s: "eventqueue_add G q e 0 = Some (0, pushed q s)" "eventqueue_inv (pushed q s)"
    "arrivals (pushed q s) = arrivals q @ [new_event q e 0]"
    by (rule eventqueue_add_inv [OF Cons.prems(1,3) _ _ room, of e 0]) (use Cons.prems in auto)
  have mset: "mset s = add_mset (new_event q e 0) (mset (eq_sequence q))"
    using arg_cong [OF s(3), of mset] by simp
  then have "set s = insert (new_event q e 0) (set (eq_sequence q))"
    by (metis set_mset_mset set_mset_add_mset_insert)
  moreover have "length s = Suc (length (eq_sequence q))"
    using mset by (metis size_add_mset size_mset)
  ultimately have "young (Suc k) (pushed q s)"
    "length (eq_sequence (pushed q s)) + length es \<le> unat (eq_size (pushed q s))"
    using Cons.prems by (auto intro: young_pushed)
  with Cons.IH [of "pushed q s" "Suc k"] Cons.prems s show ?case
    by (auto simp: eventqueue_waiting_def new_event_def)
qed

lemma eventqueue_new_ok:
  "EVENT_MAX \<notin> set ks \<Longrightarrow> eventqueue_new n ks =
     Some \<lparr>eq_sequence = [], eq_seq_counter = 0, eq_size = n, eq_used = 0,
           eq_interrupting_always = (\<lambda>e. e \<in> set ks), eq_interrupting = (\<lambda>e. e \<in> set ks)\<rparr>"
  by (simp add: eventqueue_new_def set_flags_ok)

lemma eventqueue_empty_inv: "eq_sequence q = [] \<Longrightarrow> eq_used q = 0 \<Longrightarrow> eventqueue_inv q"
  by (simp add: eventqueue_inv_def eventqueue_wf_def eventqueue_window_def)

subsection \<open>Properties\<close>

text \<open>
  C11. Whatever the \<^verbatim>\<open>GSequence\<close> implementation, events that fit into a new queue
  come out with the interrupting ones first and each class in arrival order, even
  when the interrupting set was changed after they were added, and the queue is
  empty afterwards.
\<close>

theorem eventqueue_session_delivers:
  assumes "sequence_lawful G" and "length events \<le> unat sz" and "unat sz < 2 ^ 31"
    and "EVENT_MAX \<notin> set always \<union> set events \<union> set intr"
  shows "eventqueue_session G sz always events intr =
    Some (delivery (\<lambda>e. e \<in> set always \<or> e \<in> set intr) events, False)"
proof -
  obtain q0 where q0: "eventqueue_new sz always = Some q0" "eventqueue_inv q0" "young 0 q0"
    "eq_sequence q0 = []" "eq_size q0 = sz" "eq_interrupting_always q0 = (\<lambda>e. e \<in> set always)"
    using eventqueue_new_ok [of always sz] assms(4) eventqueue_empty_inv by (auto simp: young_def)
  obtain q1 where q1: "eventqueue_add_all G q0 events = Some q1" "eventqueue_inv q1"
    "eventqueue_waiting q1 = events" "eq_interrupting_always q1 = (\<lambda>e. e \<in> set always)"
    using eventqueue_add_all_inv [OF assms(1) _ q0(2,3), of events] assms q0
    by (auto simp: eventqueue_waiting_def)
  obtain q2 where q2: "eventqueue_set_interrupting G q1 intr = Some q2" "eventqueue_inv q2"
    "eventqueue_waiting q2 = events"
    "eq_interrupting q2 = (\<lambda>e. e \<in> set always \<or> e \<in> set intr)"
    using eq.select_ok [of G q1 intr] assms(1,4) q1 by (auto simp: list_all_iff)
  obtain q3 where "eq.drain (length events) q2 =
      Some (delivery (\<lambda>e. e \<in> set always \<or> e \<in> set intr) events, q3)"
    "eventqueue_inv q3" "eventqueue_waiting q3 = []"
    using eq.drain_delivers [of G q2 "length events"] assms(1) q2 by auto
  then show ?thesis
    using q0(1) q1(1) q2(1) eventqueue_invD(1)
    by (simp add: eventqueue_session_def eventqueue_drain_eq eventqueue_pending_wf eventqueue_waiting_def)
qed

lemma eventqueue_session_delivers_witness:
  "eventqueue_session ref_glib 4 [EVENT_FAILED, EVENT_PEER_FAILOVER, EVENT_QUIT, EVENT_AUTOQUIT]
     [EVENT_START_MIGRATION, EVENT_YELLOW, EVENT_FAILED, EVENT_QUIT] [EVENT_START_MIGRATION] =
   Some ([EVENT_START_MIGRATION, EVENT_FAILED, EVENT_QUIT, EVENT_YELLOW], False)"
  by (subst eventqueue_session_delivers) (simp_all add: ref_sequence_lawful delivery_def)

lemma select_unique:
  assumes G: "sequence_lawful G" "sequence_lawful G'" and inv: "eventqueue_inv q"
  shows "eventqueue_set_interrupting G q ks = eventqueue_set_interrupting G' q ks"
proof (cases "EVENT_MAX \<in> set ks")
  case True
  then show ?thesis by (simp add: eventqueue_set_interrupting_def set_flags_None)
next
  case False
  note ok = eventqueue_select_ok [OF False, unfolded Let_def]
  let ?q1 = "q\<lparr>eq_interrupting := (\<lambda>e. eq_interrupting_always q e \<or> e \<in> set ks)\<rparr>"
  obtain r where r: "eventqueue_set_interrupting G q ks = Some r" "eventqueue_inv r"
    "arrivals r = arrivals q" "eq_interrupting r = eq_interrupting ?q1"
    by (rule eventqueue_select_inv [OF G(1) inv False]) simp
  obtain r' where r': "eventqueue_set_interrupting G' q ks = Some r'" "eventqueue_inv r'"
    "arrivals r' = arrivals q" "eq_interrupting r' = eq_interrupting ?q1"
    by (rule eventqueue_select_inv [OF G(2) inv False]) simp
  have "eq_sequence r = eq_sequence r'"
    using eventqueue_invD(4) [OF r(2)] eventqueue_invD(4) [OF r'(2)] r(3,4) r'(3,4) by simp
  then show ?thesis using r(1) r'(1) by (auto simp: ok)
qed

text \<open>
  C21. The library's sort cannot be observed: on a queue within the window, any two
  lawful \<^verbatim>\<open>GSequence\<close> implementations give the same queue after an insertion and
  after a change of the interrupting set.
\<close>

theorem eventqueue_library_independent:
  assumes "sequence_lawful G" and "sequence_lawful G'" and "eventqueue_inv q" and "eventqueue_room q"
  shows "eventqueue_add G q e d = eventqueue_add G' q e d \<and>
    eventqueue_set_interrupting G q ks = eventqueue_set_interrupting G' q ks"
proof
  show "eventqueue_set_interrupting G q ks = eventqueue_set_interrupting G' q ks"
    by (rule select_unique [OF assms(1-3)])
  show "eventqueue_add G q e d = eventqueue_add G' q e d"
  proof (cases "e \<noteq> EVENT_MAX \<and> length (eq_sequence q) < unat (eq_size q)")
    case True
    obtain s where s: "eventqueue_add G q e d = Some (0, pushed q s)" "eventqueue_inv (pushed q s)"
      "arrivals (pushed q s) = arrivals q @ [new_event q e d]"
      by (rule eventqueue_add_inv [OF assms(1,3) _ _ assms(4), of e d]) (use True in auto)
    obtain s' where s': "eventqueue_add G' q e d = Some (0, pushed q s')" "eventqueue_inv (pushed q s')"
      "arrivals (pushed q s') = arrivals q @ [new_event q e d]"
      by (rule eventqueue_add_inv [OF assms(2,3) _ _ assms(4), of e d]) (use True in auto)
    have "s = s'"
      using eventqueue_invD(4) [OF s(2)] eventqueue_invD(4) [OF s'(2)] s(3) s'(3) by simp
    with s(1) s'(1) show ?thesis by simp
  next
    case False
    with eventqueue_invD(1) [OF assms(3)] show ?thesis
      by (auto simp: eventqueue_add_def eventqueue_wf_full eventqueue_wf_def not_less)
  qed
qed

lemma eventqueue_library_independent_witness:
  "eventqueue_add ref_glib
     \<lparr>eq_sequence = [], eq_seq_counter = 0, eq_size = 4, eq_used = 0,
      eq_interrupting_always = (\<lambda>_. False), eq_interrupting = (\<lambda>_. False)\<rparr> EVENT_QUIT 0 =
   eventqueue_add (ref_glib\<lparr>g_sequence_insert_sorted := (\<lambda>cmp x xs. sort_by cmp (x # xs))\<rparr>)
     \<lparr>eq_sequence = [], eq_seq_counter = 0, eq_size = 4, eq_used = 0,
      eq_interrupting_always = (\<lambda>_. False), eq_interrupting = (\<lambda>_. False)\<rparr> EVENT_QUIT 0"
  by (rule eventqueue_library_independent [THEN conjunct1])
    (simp_all add: resort_sequence_lawful ref_sequence_lawful eventqueue_empty_inv eventqueue_room_def)

text \<open>
  \<open>eventqueue_pending_interrupt\<close>, which looks at the first event only, answers
  whether any pending event is interrupting, and the next event removed is then an
  interrupting one.
\<close>

lemma pending_interrupt_exact:
  assumes "eventqueue_inv q"
  shows "eventqueue_pending_interrupt q = Some (\<exists>ev\<in>set (eq_sequence q). is_intr q ev) \<and>
    (\<forall>ev q'. eventqueue_remove q = Some (Some ev, q') \<longrightarrow>
       (is_intr q ev \<longleftrightarrow> (\<exists>ev\<in>set (eq_sequence q). is_intr q ev)))"
  using eventqueue_pending_interrupt_inv [OF assms] eventqueue_pending_interrupt_wf [of q]
    eventqueue_invD(1) [OF assms]
  by (auto simp: eventqueue_remove_def eventqueue_wf_used split: if_splits list.splits)

lemma pending_interrupt_exact_witness:
  "eventqueue_pending_interrupt
     \<lparr>eq_sequence = [\<lparr>ev_event = EVENT_QUIT, ev_data = 0, ev_seqno = 0\<rparr>], eq_seq_counter = 1,
      eq_size = 4, eq_used = 1, eq_interrupting_always = (\<lambda>_. False),
      eq_interrupting = (\<lambda>e. e = EVENT_QUIT)\<rparr> = Some True"
  by (subst pending_interrupt_exact [THEN conjunct1])
    (simp_all add: eventqueue_inv_def eventqueue_wf_def eventqueue_window_def ev_age_def)

text \<open>
  A full queue drops the event: \<open>eventqueue_add\<close> returns -1 and leaves the queue
  as it was, whatever the event's priority; otherwise it returns 0 and exactly one
  event has been added.
\<close>

lemma eventqueue_add_result:
  assumes "sequence_lawful G" and "eventqueue_wf q" and "e \<noteq> EVENT_MAX"
  shows "if length (eq_sequence q) = unat (eq_size q) then eventqueue_add G q e d = Some (-1, q)
    else \<exists>q'. eventqueue_add G q e d = Some (0, q') \<and>
      mset (eq_sequence q') = add_mset (new_event q e d) (mset (eq_sequence q))"
  using assms eventqueue_add_pushed [of q e G d] eventqueue_add_full [of q e G d]
  by (auto simp: sequence_lawfulD(2) eventqueue_wf_def)

lemma eventqueue_add_result_witness:
  "eventqueue_add ref_glib
     \<lparr>eq_sequence = [\<lparr>ev_event = EVENT_YELLOW, ev_data = 0, ev_seqno = 0\<rparr>], eq_seq_counter = 1,
      eq_size = 1, eq_used = 1, eq_interrupting_always = (\<lambda>_. False),
      eq_interrupting = (\<lambda>_. False)\<rparr> EVENT_QUIT 0 =
   Some (-1, \<lparr>eq_sequence = [\<lparr>ev_event = EVENT_YELLOW, ev_data = 0, ev_seqno = 0\<rparr>],
      eq_seq_counter = 1, eq_size = 1, eq_used = 1, eq_interrupting_always = (\<lambda>_. False),
      eq_interrupting = (\<lambda>_. False)\<rparr>)"
  using eventqueue_add_result [OF ref_sequence_lawful, of
    "\<lparr>eq_sequence = [\<lparr>ev_event = EVENT_YELLOW, ev_data = 0, ev_seqno = 0\<rparr>], eq_seq_counter = 1,
      eq_size = 1, eq_used = 1, eq_interrupting_always = (\<lambda>_. False),
      eq_interrupting = (\<lambda>_. False)\<rparr>" EVENT_QUIT 0]
  by (simp add: eventqueue_wf_def)

text \<open>
  C22. Outside the window the truncated comparison is wrong: of two events of the
  same class, the one inserted between \<open>2 ^ 31\<close> and \<open>2 ^ 32\<close> insertions earlier is
  ordered after the later one.
\<close>

theorem eventqueue_sort_overflow:
  assumes "ev_seqno b = ev_seqno a + of_nat d" and "2 ^ 31 < d" and "d < 2 ^ 32"
    and "is_intr q a = is_intr q b"
  shows "eventqueue_sort q a b = 2 ^ 32 - int d \<and> 0 < eventqueue_sort q a b"
proof -
  have "ev_seqno a - ev_seqno b = of_int (- int d)"
    using assms(1) by simp
  moreover have "sint (ucast (of_int (- int d) :: guint64) :: guint) = 2 ^ 32 - int d"
  proof -
    have "sint (ucast (of_int (- int d) :: guint64) :: guint) = sint (of_int (- int d) :: guint)"
      by (simp only: ucast_of_int_down)
    also have "(of_int (- int d) :: guint) = of_int (2 ^ 32 - int d)"
      by simp
    also have "sint (of_int (2 ^ 32 - int d) :: guint) = 2 ^ 32 - int d"
      unfolding sint_of_int_guint using assms(2,3) by (intro signed_take_bit_int_eq_self) auto
    finally show ?thesis .
  qed
  ultimately show ?thesis using assms by (simp add: eventqueue_sort_def)
qed

lemma eventqueue_sort_overflow_witness:
  "eventqueue_sort
     \<lparr>eq_sequence = [], eq_seq_counter = 0, eq_size = 4, eq_used = 0,
      eq_interrupting_always = (\<lambda>_. False), eq_interrupting = (\<lambda>_. False)\<rparr>
     \<lparr>ev_event = EVENT_YELLOW, ev_data = 0, ev_seqno = 0\<rparr>
     \<lparr>ev_event = EVENT_UNYELLOW, ev_data = 0, ev_seqno = of_nat (2 ^ 31 + 1)\<rparr> = 2 ^ 32 - int (2 ^ 31 + 1)"
  by (rule eventqueue_sort_overflow [THEN conjunct1]) simp_all

end
