(* ===== verification/Util.thy ===== *)
theory Util
  imports Glib
begin

text \<open>
  \<^verbatim>\<open>util.c\<close>: the error codes, the ring buffer \<^verbatim>\<open>ColodQueue\<close>, the callback
  lists every component uses to notify its clients, and the check that a finished
  coroutine left at most one event source behind. The socket helpers of the file
  are input and output and are not modelled here.
\<close>

subsection \<open>Errors\<close>

text \<open>
  A \<^verbatim>\<open>GError\<close> of the domain \<^verbatim>\<open>COLOD_ERROR\<close> carries a \<open>ColodError\<close>; errors of
  other domains (GIOChannel, json-glib) are told apart only by not matching.
\<close>

datatype ColodError =
    COLOD_ERROR_FATAL | COLOD_ERROR_TIMEOUT | COLOD_ERROR_QMP | COLOD_ERROR_EOF
  | COLOD_ERROR_INTERRUPT

datatype gerror = GError "ColodError option" string

fun g_error_matches :: "gerror \<Rightarrow> ColodError \<Rightarrow> bool" where
  "g_error_matches (GError c msg) code \<longleftrightarrow> c = Some code"

fun g_error_message :: "gerror \<Rightarrow> string" where
  "g_error_message (GError c msg) = msg"

fun g_prefix_error :: "string \<Rightarrow> gerror \<Rightarrow> gerror" where
  "g_prefix_error p (GError c msg) = GError c (p @ msg)"

lemma g_error_matches_prefix [simp]:
  "g_error_matches (g_prefix_error p e) c = g_error_matches e c"
  by (cases e) simp

text \<open>Computations that fail with a \<open>GError\<close>, inside the abort convention.\<close>

type_synonym 'a fallible = "gerror + 'a"

subsection \<open>The ring buffer\<close>

record ColodQueue =
  cq_queue :: "guint list"
  cq_read_pos :: guint
  cq_write_pos :: guint

definition queue_size :: guint where
  "queue_size = 16"

definition queue_empty :: "ColodQueue \<Rightarrow> bool" where
  "queue_empty q \<longleftrightarrow> cq_read_pos q = cq_write_pos q"

text \<open>An access outside \<open>queue[16]\<close> is undefined and ends the computation.\<close>

definition queue_add :: "ColodQueue \<Rightarrow> guint \<Rightarrow> ColodQueue abortable" where
  "queue_add q entry = (
     let next_pos = (cq_write_pos q + 1) mod queue_size in
     if next_pos = cq_read_pos q then Some q
     else do {
       c_assert (unat (cq_write_pos q) < length (cq_queue q));
       Some (q\<lparr>cq_queue := (cq_queue q)[unat (cq_write_pos q) := entry],
               cq_write_pos := next_pos\<rparr>) })"

definition queue_peek :: "ColodQueue \<Rightarrow> guint abortable" where
  "queue_peek q = do {
     c_assert (\<not> queue_empty q);
     c_assert (unat (cq_read_pos q) < length (cq_queue q));
     Some (cq_queue q ! unat (cq_read_pos q)) }"

definition queue_remove :: "ColodQueue \<Rightarrow> (guint \<times> ColodQueue) abortable" where
  "queue_remove q = do {
     ret \<leftarrow> queue_peek q;
     Some (ret, q\<lparr>cq_read_pos := (cq_read_pos q + 1) mod queue_size\<rparr>) }"

text \<open>Abstraction: the entries from the read to the write position.\<close>

definition queue_inv :: "ColodQueue \<Rightarrow> bool" where
  "queue_inv q \<longleftrightarrow> length (cq_queue q) = 16 \<and> unat (cq_read_pos q) < 16 \<and> unat (cq_write_pos q) < 16"

definition queue_used :: "ColodQueue \<Rightarrow> nat" where
  "queue_used q = (if unat (cq_read_pos q) \<le> unat (cq_write_pos q)
     then unat (cq_write_pos q) - unat (cq_read_pos q)
     else unat (cq_write_pos q) + 16 - unat (cq_read_pos q))"

definition queue_contents :: "ColodQueue \<Rightarrow> guint list" where
  "queue_contents q =
     map (\<lambda>i. cq_queue q ! ((unat (cq_read_pos q) + i) mod 16)) [0..<queue_used q]"

text \<open>Positions modulo 16, as case distinctions.\<close>

lemma wrap_16: "r < 16 \<Longrightarrow> i \<le> 16 \<Longrightarrow> (r + i) mod 16 = (if r + i < 16 then r + i else r + i - (16::nat))"
  by (simp add: mod_if)

lemma Suc_wrap_16: "w < 16 \<Longrightarrow> Suc w mod 16 = (if w = 15 then 0 else Suc w)"
  by (auto simp: mod_if)

lemma unat_next_pos:
  "unat p < 16 \<Longrightarrow> unat ((p + 1) mod queue_size) = (if unat p = 15 then 0 else Suc (unat p))"
  by (simp add: queue_size_def unat_mod unat_add_1 Suc_wrap_16)

lemma queue_contents_Nil: "queue_inv q \<Longrightarrow> queue_empty q \<longleftrightarrow> queue_contents q = []"
  by (auto simp: queue_inv_def queue_empty_def queue_contents_def queue_used_def word_unat_eq_iff)

text \<open>
  The ring buffer is a FIFO of capacity 15: adding appends, or does nothing when
  15 entries are stored, and never writes out of bounds.
\<close>

lemma queue_add_fifo:
  assumes "queue_inv q"
  shows "\<exists>q'. queue_add q e = Some q' \<and> queue_inv q' \<and>
    queue_contents q' = (if length (queue_contents q) < 15 then queue_contents q @ [e]
                         else queue_contents q)"
proof -
  let ?r = "unat (cq_read_pos q)" and ?w = "unat (cq_write_pos q)"
  have b: "?r < 16" "?w < 16" "length (cq_queue q) = 16"
    using assms by (auto simp: queue_inv_def)
  have len: "length (queue_contents q) = queue_used q"
    by (simp add: queue_contents_def)
  have full: "(cq_write_pos q + 1) mod queue_size = cq_read_pos q \<longleftrightarrow> \<not> queue_used q < 15"
    using b(1,2) by (auto simp: word_unat_eq_iff unat_next_pos queue_used_def)
  show ?thesis
  proof (cases "queue_used q < 15")
    case False
    then show ?thesis using assms full len by (simp add: queue_add_def Let_def)
  next
    case True
    let ?q = "q\<lparr>cq_queue := (cq_queue q)[?w := e],
               cq_write_pos := (cq_write_pos q + 1) mod queue_size\<rparr>"
    have add: "queue_add q e = Some ?q"
      using True full b by (simp add: queue_add_def Let_def)
    have inv: "queue_inv ?q"
      using b by (simp add: queue_inv_def unat_next_pos)
    have used: "queue_used ?q = Suc (queue_used q)"
      using True b(1,2) by (auto simp: queue_used_def unat_next_pos split: if_splits)
    have old: "(cq_queue q)[?w := e] ! ((?r + i) mod 16) = cq_queue q ! ((?r + i) mod 16)"
      if "i < queue_used q" for i
      using that True b(1,2)
      by (intro nth_list_update_neq) (auto simp: queue_used_def wrap_16 split: if_splits)
    have last: "(?r + queue_used q) mod 16 = ?w"
      using b(1,2) by (auto simp: queue_used_def wrap_16)
    have "queue_contents ?q = queue_contents q @ [e]"
      using b last unfolding queue_contents_def used
      by (simp add: old)
    with add inv True len show ?thesis by simp
  qed
qed

lemma queue_add_fifo_witness:
  "\<exists>q'. queue_add \<lparr>cq_queue = replicate 16 0, cq_read_pos = 15, cq_write_pos = 15\<rparr> 7 = Some q' \<and>
     queue_contents q' = [7]"
  using queue_add_fifo [of "\<lparr>cq_queue = replicate 16 0, cq_read_pos = 15, cq_write_pos = 15\<rparr>" 7]
  by (auto simp: queue_inv_def queue_contents_def queue_used_def)

text \<open>
  Removing from a non-empty ring buffer returns the oldest entry and leaves the
  rest in order; on an empty one the assertion fails.
\<close>

lemma queue_remove_fifo:
  assumes "queue_inv q"
  shows "case queue_contents q of
      [] \<Rightarrow> queue_remove q = None
    | e # es \<Rightarrow> \<exists>q'. queue_remove q = Some (e, q') \<and> queue_inv q' \<and> queue_contents q' = es"
proof (cases "queue_contents q")
  case Nil
  with queue_contents_Nil [OF assms] show ?thesis
    by (simp add: queue_remove_def queue_peek_def)
next
  case (Cons e es)
  let ?r = "unat (cq_read_pos q)" and ?w = "unat (cq_write_pos q)"
  let ?q = "q\<lparr>cq_read_pos := (cq_read_pos q + 1) mod queue_size\<rparr>"
  have b: "?r < 16" "?w < 16" "length (cq_queue q) = 16"
    using assms by (auto simp: queue_inv_def)
  have ne: "\<not> queue_empty q"
    using Cons queue_contents_Nil [OF assms] by simp
  then have rw: "?r \<noteq> ?w" by (simp add: queue_empty_def word_unat_eq_iff)
  have used: "queue_used q = Suc (queue_used ?q)"
    using b(1,2) rw by (auto simp: queue_used_def unat_next_pos split: if_splits)
  have shift: "(unat (cq_read_pos ?q) + i) mod 16 = (?r + Suc i) mod 16" for i
    using b(1) by (auto simp: unat_next_pos mod_Suc_eq)
  have "queue_contents q = cq_queue q ! ?r # queue_contents ?q"
    unfolding queue_contents_def used using b
    by (simp only: upt_conv_Cons [OF zero_less_Suc] map_Suc_upt [symmetric] list.map map_map
        comp_def shift ColodQueue.simps) (simp add: b(1))
  with Cons b ne show ?thesis
    by (auto simp: queue_remove_def queue_peek_def queue_inv_def unat_next_pos)
qed

lemma queue_remove_fifo_witness:
  "\<exists>q'. queue_remove \<lparr>cq_queue = replicate 16 7, cq_read_pos = 15, cq_write_pos = 1\<rparr> = Some (7, q') \<and>
     queue_contents q' = [7]"
proof -
  have "queue_contents \<lparr>cq_queue = replicate 16 7, cq_read_pos = 15, cq_write_pos = 1\<rparr> = [7, 7]"
    by (simp add: queue_contents_def queue_used_def upt_rec)
  then show ?thesis
    using queue_remove_fifo [of "\<lparr>cq_queue = replicate 16 7, cq_read_pos = 15, cq_write_pos = 1\<rparr>"]
    by (auto simp: queue_inv_def)
qed

subsection \<open>Callback lists\<close>

text \<open>
  A \<^verbatim>\<open>ColodCallbackHead\<close> is a list of entries, newest first; an entry is
  identified by its function and user data, here one value of type \<open>'c\<close>.
\<close>

type_synonym 'c callbacks = "'c list"

fun colod_callback_find :: "'c callbacks \<Rightarrow> 'c \<Rightarrow> 'c option" where
  "colod_callback_find [] c = None"
| "colod_callback_find (entry # head) c =
     (if entry = c then Some entry else colod_callback_find head c)"

definition colod_callback_add :: "'c callbacks \<Rightarrow> 'c \<Rightarrow> 'c callbacks abortable" where
  "colod_callback_add head c = do {
     c_assert (colod_callback_find head c = None);
     Some (c # head) }"

definition colod_callback_del :: "'c callbacks \<Rightarrow> 'c \<Rightarrow> 'c callbacks abortable" where
  "colod_callback_del head c = do {
     cb \<leftarrow> c_nonnull (colod_callback_find head c);
     Some (remove1 cb head) }"

fun colod_callback_clear :: "'c callbacks \<Rightarrow> 'c callbacks" where
  "colod_callback_clear [] = []"
| "colod_callback_clear (cb # head) = colod_callback_clear head"

lemma colod_callback_find_iff: "colod_callback_find head c = (if c \<in> set head then Some c else None)"
  by (induction head) auto

text \<open>
  \<^verbatim>\<open>QLIST_FOREACH_SAFE\<close> over the list that \<open>head s\<close> reads from the state: the
  successor is saved before the callback runs, so a callback may delete its own
  entry, but deleting the saved successor makes the loop follow a freed entry.
\<close>

function qlist_foreach_safe ::
    "('s \<Rightarrow> 'c callbacks) \<Rightarrow> ('c \<Rightarrow> 's \<Rightarrow> 's abortable) \<Rightarrow> 'c list \<Rightarrow> 's \<Rightarrow> 's abortable" where
  "qlist_foreach_safe head f [] s = Some s"
| "qlist_foreach_safe head f (c # cs) s = (
     let live = filter (\<lambda>d. d \<in> set (head s)) cs in
     do {
       s' \<leftarrow> f c s;
       c_assert (live = [] \<or> hd live \<in> set (head s'));
       qlist_foreach_safe head f live s' })"
  by pat_completeness auto
termination
  by (relation "measure (\<lambda>(head, f, cs, s). length cs)") (auto simp: le_imp_less_Suc)

text \<open>
  Callbacks that keep an invariant and the list itself are all called, in order.
\<close>

lemma qlist_foreach_safe_inv:
  assumes "\<And>c s. c \<in> set cs \<Longrightarrow> P s \<Longrightarrow> \<exists>s'. f c s = Some s' \<and> P s' \<and> head s' = head s"
    and "P s" and "set cs \<subseteq> set (head s)"
  shows "\<exists>s'. qlist_foreach_safe head f cs s = Some s' \<and> P s' \<and> head s' = head s"
  using assms
proof (induction cs arbitrary: s)
  case Nil
  then show ?case by simp
next
  case (Cons c cs)
  from Cons.prems obtain s1 where s1: "f c s = Some s1" "P s1" "head s1 = head s"
    by (metis list.set_intros(1))
  have cs: "filter (\<lambda>d. d \<in> set (head s)) cs = cs"
    using Cons.prems(3) by (auto intro!: filter_True)
  have "\<exists>s'. qlist_foreach_safe head f cs s1 = Some s' \<and> P s' \<and> head s' = head s1"
    using Cons.prems s1 by (intro Cons.IH) auto
  moreover have "cs = [] \<or> hd cs \<in> set (head s)"
    using Cons.prems(3) by (cases cs) auto
  ultimately show ?case using s1 cs by (auto simp: Let_def)
qed

text \<open>The contract of a callback list: \<open>registered\<close> is the order of the calls.\<close>

locale callback_registry =
  fixes add :: "'h \<Rightarrow> 'c \<Rightarrow> 'h option"
    and del :: "'h \<Rightarrow> 'c \<Rightarrow> 'h option"
    and registered :: "'h \<Rightarrow> 'c list"
    and inv :: "'h \<Rightarrow> bool"
  assumes inv_distinct: "inv h \<Longrightarrow> distinct (registered h)"
    and add_new: "inv h \<Longrightarrow> c \<notin> set (registered h) \<Longrightarrow>
      \<exists>h'. add h c = Some h' \<and> inv h' \<and> registered h' = c # registered h"
    and add_twice: "inv h \<Longrightarrow> c \<in> set (registered h) \<Longrightarrow> add h c = None"
    and del_registered: "inv h \<Longrightarrow> c \<in> set (registered h) \<Longrightarrow>
      \<exists>h'. del h c = Some h' \<and> inv h' \<and> registered h' = remove1 c (registered h)"
    and del_missing: "inv h \<Longrightarrow> c \<notin> set (registered h) \<Longrightarrow> del h c = None"
begin

lemma add_del:
  assumes "inv h" and "add h c = Some h'"
  shows "\<exists>h''. del h' c = Some h'' \<and> inv h'' \<and> registered h'' = registered h"
proof -
  have c: "c \<notin> set (registered h)" using assms add_twice by fastforce
  with assms add_new obtain h1 where "add h c = Some h1" "inv h1" "registered h1 = c # registered h"
    by blast
  with assms(2) have h': "inv h'" "registered h' = c # registered h" by auto
  with del_registered [of h' c] show ?thesis by auto
qed

lemma del_gone:
  assumes "inv h" and "del h c = Some h'"
  shows "inv h' \<and> c \<notin> set (registered h') \<and> set (registered h') = set (registered h) - {c}"
proof -
  have c: "c \<in> set (registered h)" using assms del_missing by fastforce
  with assms del_registered have "inv h'" "registered h' = remove1 c (registered h)" by fastforce+
  with inv_distinct [OF assms(1)] show ?thesis by simp
qed

end

interpretation cb: callback_registry colod_callback_add colod_callback_del "\<lambda>h. h" distinct
  by unfold_locales
    (auto simp: colod_callback_add_def colod_callback_del_def colod_callback_find_iff)

text \<open>
  Registering a callback and deleting it restores the list; the same callback
  cannot be registered twice, and a deleted one is no longer called.
\<close>

lemma callback_add_del:
  assumes "distinct head"
  shows "if c \<in> set head then colod_callback_add head c = None
    else \<exists>h. colod_callback_add head c = Some h \<and> colod_callback_find h c = Some c \<and>
      colod_callback_add h c = None \<and> colod_callback_del h c = Some head"
  using assms
  by (auto simp: colod_callback_add_def colod_callback_del_def colod_callback_find_iff)

lemma callback_add_del_witness:
  "\<exists>h. colod_callback_add [2, 3::nat] 1 = Some h \<and> colod_callback_del h 1 = Some [2, 3]"
  using callback_add_del [of "[2, 3::nat]" 1] by auto

subsection \<open>The sources of the daemon\<close>

text \<open>
  The callbacks of the sources the modelled components attach. \<open>S_main\<close> resumes
  the main coroutine (its first idle source, its timeouts and I/O watches) and
  \<open>S_wake\<close> does so too, with the destroy callback that clears
  \<^verbatim>\<open>wake_source_id\<close>; the others resume the raise-timeout coroutine, the yellow
  coroutine and the watchdog coroutine, retransmit CPG messages, report a hang-up of
  QEMU, resume the handshake or the event coroutine of the QMP channel (\<open>False\<close>) or of the
  yank channel (\<open>True\<close>), resume a client's coroutine, or belong to other parts.
\<close>

datatype source = S_main | S_wake | S_raise | S_yellow | S_watchdog | S_cpg | S_cpg_retransmit | S_hup
  | S_qmp_handshake bool | S_qmp_event bool | S_client nat | S_listener | S_other

text \<open>The user data of a source: both kinds of main coroutine sources carry \<^verbatim>\<open>this\<close>.\<close>

fun source_user_data :: "source \<Rightarrow> source" where
  "source_user_data S_wake = S_main"
| "source_user_data s = s"

text \<open>
  The daemon has one main context and one instance of each component. Its state is
  one record, built up by extension: this root holds the main context, and every
  component theory extends it by the fields of its struct, so that an operation of a
  component leaves the fields of the later ones alone by construction.
\<close>

record MainContext =
  ml_sources :: "source sources"

definition add_source :: "'e glib \<Rightarrow> source \<Rightarrow> 'z MainContext_scheme \<Rightarrow> guint \<times> 'z MainContext_scheme" where
  "add_source G src s = (let (i, ss) = g_source_add G src (ml_sources s) in (i, s\<lparr>ml_sources := ss\<rparr>))"

definition remove_source :: "guint \<Rightarrow> 'z MainContext_scheme \<Rightarrow> 'z MainContext_scheme" where
  "remove_source i s = s\<lparr>ml_sources := g_source_remove i (ml_sources s)\<rparr>"

text \<open>
  \<open>colod_assert_remove_one_source\<close>: it removes one source with this user data if
  there is one, and when more are left removes and reports them all and aborts.
\<close>

fun remove_source_by_user_data :: "source \<Rightarrow> source sources \<Rightarrow> source sources" where
  "remove_source_by_user_data d [] = []"
| "remove_source_by_user_data d ((i, x) # ss) =
     (if source_user_data x = d then ss else (i, x) # remove_source_by_user_data d ss)"

definition find_source_by_user_data :: "source \<Rightarrow> source sources \<Rightarrow> bool" where
  "find_source_by_user_data d ss \<longleftrightarrow> (\<exists>x\<in>set ss. source_user_data (snd x) = d)"

definition colod_assert_remove_one_source :: "source \<Rightarrow> source sources \<Rightarrow> source sources abortable" where
  "colod_assert_remove_one_source d ss =
     (if \<not> find_source_by_user_data d ss then Some ss
      else let ss1 = remove_source_by_user_data d ss in
        if \<not> find_source_by_user_data d ss1 then Some ss1 else None)"

lemma find_source_by_user_data_Cons:
  "find_source_by_user_data d ((i, x) # ss) \<longleftrightarrow>
     source_user_data x = d \<or> find_source_by_user_data d ss"
  by (simp add: find_source_by_user_data_def)

lemma remove_source_by_user_data_filter:
  "filter (\<lambda>x. source_user_data (snd x) = d) (remove_source_by_user_data d ss) =
     tl (filter (\<lambda>x. source_user_data (snd x) = d) ss)"
  by (induction d ss rule: remove_source_by_user_data.induct) auto

lemma assert_remove_one_source_iff:
  "colod_assert_remove_one_source d ss = None \<longleftrightarrow>
     1 < length (filter (\<lambda>x. source_user_data (snd x) = d) ss)"
proof -
  have f: "find_source_by_user_data d xs \<longleftrightarrow> filter (\<lambda>x. source_user_data (snd x) = d) xs \<noteq> []" for xs
    by (auto simp: find_source_by_user_data_def filter_empty_conv)
  show ?thesis
    by (cases "filter (\<lambda>x. source_user_data (snd x) = d) ss")
      (auto simp: colod_assert_remove_one_source_def Let_def f remove_source_by_user_data_filter)
qed

lemma assert_remove_one_source_set:
  "colod_assert_remove_one_source d ss = Some ss' \<Longrightarrow>
     set ss' = {x \<in> set ss. source_user_data (snd x) \<noteq> d}"
proof -
  have "set ss \<subseteq> set (remove_source_by_user_data d ss) \<union> {x. source_user_data (snd x) = d}"
    "set (remove_source_by_user_data d ss) \<subseteq> set ss"
    by (induction d ss rule: remove_source_by_user_data.induct) auto
  then show "colod_assert_remove_one_source d ss = Some ss' \<Longrightarrow> ?thesis"
    by (auto simp: colod_assert_remove_one_source_def Let_def find_source_by_user_data_def
        split: if_splits)
qed

lemma assert_remove_one_source_ok:
  assumes "colod_assert_remove_one_source d ss = Some ss'" and "sources_ok ss"
  shows "sources_ok ss'"
proof -
  have sub: "source_ids (remove_source_by_user_data d ss) \<subseteq> source_ids ss"
    by (induction d ss rule: remove_source_by_user_data.induct) auto
  have "distinct (map fst ss) \<Longrightarrow> distinct (map fst (remove_source_by_user_data d ss)) \<and>
      fst ` set (remove_source_by_user_data d ss) \<subseteq> fst ` set ss"
    by (induction d ss rule: remove_source_by_user_data.induct) auto
  with assms sub show ?thesis
    by (auto simp: colod_assert_remove_one_source_def Let_def sources_ok_def split: if_splits)
qed

lemma add_source_sel [simp]:
  "MainContext.more (snd (add_source G src s)) = MainContext.more s"
  "MainContext.more (remove_source i s) = MainContext.more s"
  by (simp_all add: add_source_def remove_source_def split_beta)

text \<open>A new source has a fresh ID as long as the IDs do not run out.\<close>

lemma add_source_fresh:
  assumes "attach_lawful G" and "sources_ok (ml_sources s)" and "sources_room (ml_sources s)"
  shows "\<exists>i. add_source G d s = (i, s\<lparr>ml_sources := (i, d) # ml_sources s\<rparr>) \<and> i \<noteq> 0 \<and>
    i \<notin> source_ids (ml_sources s) \<and> sources_ok ((i, d) # ml_sources s)"
  using assms attach_lawfulD [OF assms(1), of "map fst (ml_sources s)"]
  by (auto simp: add_source_def g_source_add_def sources_ok_def sources_room_def source_ids_def Let_def)

lemma sources_ok_remove_source: "sources_ok (ml_sources s) \<Longrightarrow> sources_ok (ml_sources (remove_source i s))"
  by (simp add: remove_source_def sources_ok_remove)

text \<open>The sources of one kind.\<close>

definition sources_of :: "source \<Rightarrow> source sources \<Rightarrow> source sources" where
  "sources_of d ss = filter (\<lambda>x. snd x = d) ss"

lemma sources_of_simps [simp]:
  "sources_of d [] = []"
  "sources_of d ((i, e) # ss) = (if e = d then (i, e) # sources_of d ss else sources_of d ss)"
  by (simp_all add: sources_of_def)

lemma sources_of_set [simp]: "x \<in> set (sources_of d ss) \<longleftrightarrow> x \<in> set ss \<and> snd x = d"
  by (auto simp: sources_of_def)

lemma sources_of_remove: "sources_of d (g_source_remove i ss) = g_source_remove i (sources_of d ss)"
  by (induction ss) (auto simp: g_source_remove_def sources_of_def)

lemma sources_ok_unique:
  assumes "sources_ok ss" and "(i, d) \<in> set ss" and "(i, e) \<in> set ss"
  shows "d = e"
  using assms unfolding sources_ok_def distinct_map inj_on_def by (metis fst_conv snd_conv)

lemma sources_of_remove_other:
  assumes "sources_ok ss" and "(i, e) \<in> set ss" and "e \<noteq> d"
  shows "sources_of d (g_source_remove i ss) = sources_of d ss"
proof -
  have "i \<notin> source_ids (sources_of d ss)"
    using assms by (auto simp: source_ids_def dest: sources_ok_unique)
  then show ?thesis by (simp add: sources_of_remove)
qed

lemma add_source_eq:
  "add_source G d s = (let i = g_attach G (map fst (ml_sources s))
     in (i, s\<lparr>ml_sources := (i, d) # ml_sources s\<rparr>))"
  by (simp add: add_source_def g_source_add_def Let_def)

end
