(* ===== verification/Cpg_Group.thy ===== *)
theory Cpg_Group
  imports Util
begin

text \<open>
  \<^verbatim>\<open>cpg.c\<close>: the messages the two nodes multicast in their corosync process
  group. A message is repeated every 100 ms until the node has received its own
  copy; the flags of the messages still to be repeated and the ID of the repeating
  timer are the state. What corosync multicasts is the output \<open>cpg_mcast\<close>;
  what it delivers is an input of the operations. The theory proves that the timer
  runs whenever something is unacknowledged and repeats exactly that, and that
  numbers survive the network encoding.
\<close>

subsection \<open>Messages\<close>

text \<open>
  \<open>ColodMessage\<close> is an enumeration, but the code passes any \<^verbatim>\<open>uint32_t\<close> from
  the network as one, so a message is a 32-bit number here too.
\<close>

type_synonym ColodMessage = guint

abbreviation (input) MESSAGE_NONE :: ColodMessage where "MESSAGE_NONE \<equiv> 0"
abbreviation (input) MESSAGE_FAILOVER :: ColodMessage where "MESSAGE_FAILOVER \<equiv> 1"
abbreviation (input) MESSAGE_FAILED :: ColodMessage where "MESSAGE_FAILED \<equiv> 2"
abbreviation (input) MESSAGE_HELLO :: ColodMessage where "MESSAGE_HELLO \<equiv> 3"
abbreviation (input) MESSAGE_YELLOW :: ColodMessage where "MESSAGE_YELLOW \<equiv> 4"
abbreviation (input) MESSAGE_UNYELLOW :: ColodMessage where "MESSAGE_UNYELLOW \<equiv> 5"
definition MESSAGE_MAX :: nat where "MESSAGE_MAX = 6"

text \<open>The four bytes that \<^verbatim>\<open>htonl\<close> leaves in memory, and \<^verbatim>\<open>ntohl\<close> of four bytes.\<close>

unbundle bit_operations_syntax

definition htonl_bytes :: "guint \<Rightarrow> gbyte list" where
  "htonl_bytes w = [ucast (drop_bit 24 w), ucast (drop_bit 16 w), ucast (drop_bit 8 w), ucast w]"

fun ntohl_bytes :: "gbyte list \<Rightarrow> guint" where
  "ntohl_bytes [a, b, c, d] =
     push_bit 24 (ucast a) OR push_bit 16 (ucast b) OR push_bit 8 (ucast c) OR ucast d"
| "ntohl_bytes _ = 0"

subsection \<open>State and operations\<close>

datatype callback =
    CB_cpg_event | CB_qmp_event | CB_qmp_hup | CB_yellow_event | CB_watchdog_event | CB_netlink_event
  | CB_wait_event source

record Cpg = MainContext +
  cpg_callbacks :: "callback callbacks"
  cpg_source_id :: guint
  cpg_retransmit_source_id :: guint
  cpg_retransmit :: "bool list"
  cpg_mcast :: "gbyte list list"

definition colod_cpg_add_notify :: "'z Cpg_scheme \<Rightarrow> callback \<Rightarrow> 'z Cpg_scheme abortable" where
  "colod_cpg_add_notify this func = do {
     cbs \<leftarrow> colod_callback_add (cpg_callbacks this) func;
     Some (this\<lparr>cpg_callbacks := cbs\<rparr>) }"

definition colod_cpg_del_notify :: "'z Cpg_scheme \<Rightarrow> callback \<Rightarrow> 'z Cpg_scheme abortable" where
  "colod_cpg_del_notify this func = do {
     cbs \<leftarrow> colod_callback_del (cpg_callbacks this) func;
     Some (this\<lparr>cpg_callbacks := cbs\<rparr>) }"

text \<open>A CPG callback gets the message, whether this node sent it, and whether the peer left.\<close>

type_synonym 's cpg_callback = "callback \<Rightarrow> ColodMessage \<Rightarrow> bool \<Rightarrow> bool \<Rightarrow> 's \<Rightarrow> 's abortable"

definition cpg_notify ::
    "'z Cpg_scheme cpg_callback \<Rightarrow> ColodMessage \<Rightarrow> bool \<Rightarrow> bool \<Rightarrow> 'z Cpg_scheme \<Rightarrow>
     'z Cpg_scheme abortable" where
  "cpg_notify f message message_from_this_node peer_left_group this =
     qlist_foreach_safe cpg_callbacks (\<lambda>c. f c message message_from_this_node peer_left_group)
       (cpg_callbacks this) this"

text \<open>
  \<open>retransmit[message] = TRUE\<close> is a write outside the array for a number that is
  not a message. \<open>cpg_mcast_joined\<close> sends the four bytes.
\<close>

definition colod_cpg_send :: "'e glib \<Rightarrow> ColodMessage \<Rightarrow> 'z Cpg_scheme \<Rightarrow> 'z Cpg_scheme abortable" where
  "colod_cpg_send G message cpg = do {
     c_assert (unat message < length (cpg_retransmit cpg));
     let cpg1 = cpg\<lparr>cpg_retransmit := (cpg_retransmit cpg)[unat message := True]\<rparr>;
     let cpg2 = (if cpg_retransmit_source_id cpg1 = 0
                 then let (i, c) = add_source G S_cpg_retransmit cpg1
                      in c\<lparr>cpg_retransmit_source_id := i\<rparr>
                 else cpg1);
     Some (cpg2\<lparr>cpg_mcast := cpg_mcast cpg2 @ [htonl_bytes message]\<rparr>) }"

fun retransmit_loop :: "'e glib \<Rightarrow> nat list \<Rightarrow> bool \<Rightarrow> 'z Cpg_scheme \<Rightarrow> (bool \<times> 'z Cpg_scheme) abortable" where
  "retransmit_loop G [] retransmitted cpg = Some (retransmitted, cpg)"
| "retransmit_loop G (message # ms) retransmitted cpg =
     (if cpg_retransmit cpg ! message
      then do { cpg' \<leftarrow> colod_cpg_send G (of_nat message) cpg; retransmit_loop G ms True cpg' }
      else retransmit_loop G ms retransmitted cpg)"

definition colod_cpg_retransmit :: "'e glib \<Rightarrow> 'z Cpg_scheme \<Rightarrow> (bool \<times> 'z Cpg_scheme) abortable" where
  "colod_cpg_retransmit G cpg = retransmit_loop G [0..<MESSAGE_MAX] False cpg"

text \<open>The result is whether the source stays attached.\<close>

definition colod_cpg_retransmit_cb :: "'e glib \<Rightarrow> 'z Cpg_scheme \<Rightarrow> (bool \<times> 'z Cpg_scheme) abortable" where
  "colod_cpg_retransmit_cb G cpg = do {
     (r, cpg1) \<leftarrow> colod_cpg_retransmit G cpg;
     if r then Some (True, cpg1)
     else Some (False, cpg1\<lparr>cpg_retransmit_source_id := 0\<rparr>) }"

text \<open>The main loop runs the timer and detaches it when the callback says so.\<close>

definition cpg_retransmit_dispatch :: "'e glib \<Rightarrow> guint \<Rightarrow> 'z Cpg_scheme \<Rightarrow> 'z Cpg_scheme abortable" where
  "cpg_retransmit_dispatch G i cpg = do {
     (continue, cpg1) \<leftarrow> colod_cpg_retransmit_cb G cpg;
     Some (if continue then cpg1 else remove_source i cpg1) }"

text \<open>
  Delivery of \<open>msg\<close> sent by \<open>nodeid\<close>; \<open>myid\<close> is what \<^verbatim>\<open>cpg_local_get\<close> returns.
\<close>

definition colod_cpg_deliver ::
    "'z Cpg_scheme cpg_callback \<Rightarrow> guint \<Rightarrow> guint \<Rightarrow> gbyte list \<Rightarrow> 'z Cpg_scheme \<Rightarrow>
     'z Cpg_scheme abortable" where
  "colod_cpg_deliver f myid nodeid msg cpg =
     (if length msg \<noteq> 4 then Some cpg
      else let conv = ntohl_bytes msg in do {
        cpg1 \<leftarrow> (if nodeid = myid
          then do {
            c_assert (unat conv < length (cpg_retransmit cpg));
            Some (cpg\<lparr>cpg_retransmit := (cpg_retransmit cpg)[unat conv := False]\<rparr>) }
          else Some cpg);
        cpg_notify f conv (nodeid = myid) False cpg1 })"

definition colod_cpg_confchg ::
    "'e glib \<Rightarrow> 'z Cpg_scheme cpg_callback \<Rightarrow> nat \<Rightarrow> 'z Cpg_scheme \<Rightarrow> 'z Cpg_scheme abortable" where
  "colod_cpg_confchg G f left_list_entries cpg =
     (if left_list_entries \<noteq> 0
      then do {
        (r, cpg1) \<leftarrow> colod_cpg_retransmit G cpg;
        cpg_notify f MESSAGE_NONE False True cpg1 }
      else Some cpg)"

text \<open>
  The checks of \<open>colod_open_cpg\<close> before the group is joined:
  \<^verbatim>\<open>cpg_name.value\<close> has room for \<open>CPG_MAX_NAME_LENGTH\<close> characters, and
  corosync's answers to the two calls are arguments.
\<close>

definition colod_open_cpg ::
    "nat \<Rightarrow> bool \<Rightarrow> bool \<Rightarrow> string \<Rightarrow> Cpg fallible" where
  "colod_open_cpg name_size initialized joined instance_name =
     (if length instance_name + 1 \<ge> name_size
      then Inl (GError (Some COLOD_ERROR_FATAL) ''Instance name too long'')
      else if \<not> initialized
      then Inl (GError (Some COLOD_ERROR_FATAL) ''Failed to initialize cpg'')
      else if \<not> joined
      then Inl (GError (Some COLOD_ERROR_FATAL) ''Failed to join cpg group'')
      else Inr \<lparr>ml_sources = [], cpg_callbacks = [], cpg_source_id = 0, cpg_retransmit_source_id = 0,
                cpg_retransmit = replicate MESSAGE_MAX False, cpg_mcast = []\<rparr>)"

text \<open>\<open>fd_found\<close> is whether corosync gave the file descriptor of the group.\<close>

definition cpg_new :: "'e glib \<Rightarrow> bool \<Rightarrow> 'z Cpg_scheme \<Rightarrow> unit fallible \<times> 'z Cpg_scheme" where
  "cpg_new G fd_found cpg =
     (if \<not> fd_found
      then (Inl (GError (Some COLOD_ERROR_FATAL) ''Failed to get cpg file descriptor''), cpg)
      else let (i, cpg1) = add_source G S_cpg cpg in (Inr (), cpg1\<lparr>cpg_source_id := i\<rparr>))"

definition cpg_free :: "'z Cpg_scheme \<Rightarrow> 'z Cpg_scheme" where
  "cpg_free cpg =
     (let cpg1 = cpg\<lparr>cpg_callbacks := colod_callback_clear (cpg_callbacks cpg)\<rparr>;
          cpg2 = (if cpg_retransmit_source_id cpg1 \<noteq> 0
                  then remove_source (cpg_retransmit_source_id cpg1) cpg1 else cpg1)
      in remove_source (cpg_source_id cpg2) cpg2)"

subsection \<open>The encoding\<close>

lemma length_htonl_bytes [simp]: "length (htonl_bytes w) = 4"
  by (simp add: htonl_bytes_def)

lemma ntohl_htonl [simp]: "ntohl_bytes (htonl_bytes w) = w"
  unfolding htonl_bytes_def ntohl_bytes.simps
proof (rule bit_word_eqI)
  fix n assume "n < LENGTH(32)"
  then consider "n < 8" | "8 \<le> n" "n < 16" | "16 \<le> n" "n < 24" | "24 \<le> n" "n < 32"
    by fastforce
  then show "bit (push_bit 24 (ucast (ucast (drop_bit 24 w) :: gbyte)) OR
      push_bit 16 (ucast (ucast (drop_bit 16 w) :: gbyte)) OR
      push_bit 8 (ucast (ucast (drop_bit 8 w) :: gbyte)) OR (ucast (ucast w :: gbyte) :: guint)) n = bit w n"
    by cases (auto simp: bit_simps)
qed

subsection \<open>The invariant: what is unacknowledged is being repeated\<close>

definition cpg_inv :: "'z Cpg_scheme \<Rightarrow> bool" where
  "cpg_inv s \<longleftrightarrow> length (cpg_retransmit s) = MESSAGE_MAX \<and>
     (True \<in> set (cpg_retransmit s) \<longrightarrow> cpg_retransmit_source_id s \<noteq> 0) \<and>
     (cpg_retransmit_source_id s \<noteq> 0 \<longrightarrow>
        (cpg_retransmit_source_id s, S_cpg_retransmit) \<in> set (ml_sources s))"

definition unacknowledged :: "'z Cpg_scheme \<Rightarrow> nat list" where
  "unacknowledged s = filter (\<lambda>m. cpg_retransmit s ! m) [0..<MESSAGE_MAX]"

definition is_message :: "ColodMessage \<Rightarrow> bool" where
  "is_message m \<longleftrightarrow> unat m < MESSAGE_MAX"

lemma is_message_simps [simp]:
  "is_message MESSAGE_NONE" "is_message MESSAGE_FAILOVER" "is_message MESSAGE_FAILED"
  "is_message MESSAGE_HELLO" "is_message MESSAGE_YELLOW" "is_message MESSAGE_UNYELLOW"
  by (simp_all add: is_message_def MESSAGE_MAX_def)

lemma unacknowledged_iff:
  "cpg_inv s \<Longrightarrow> m \<in> set (unacknowledged s) \<longleftrightarrow> m < MESSAGE_MAX \<and> cpg_retransmit s ! m"
  by (auto simp: unacknowledged_def)

lemma colod_cpg_send_ok:
  assumes "attach_lawful G" and "cpg_inv s" and "is_message m"
  shows "\<exists>s'. colod_cpg_send G m s = Some s' \<and> cpg_inv s' \<and>
    cpg_retransmit s' = (cpg_retransmit s)[unat m := True] \<and>
    cpg_mcast s' = cpg_mcast s @ [htonl_bytes m] \<and>
    cpg_callbacks s' = cpg_callbacks s \<and> Cpg.more s' = Cpg.more s \<and>
    (if cpg_retransmit_source_id s = 0
     then g_source_add G S_cpg_retransmit (ml_sources s) = (cpg_retransmit_source_id s', ml_sources s')
     else cpg_retransmit_source_id s' = cpg_retransmit_source_id s \<and> ml_sources s' = ml_sources s)"
  using assms attach_lawfulD(1) [OF assms(1)]
  by (auto simp: colod_cpg_send_def cpg_inv_def is_message_def add_source_def g_source_add_def Let_def)

text \<open>A round of repetition changes nothing but the output.\<close>

definition repeat_messages :: "nat list \<Rightarrow> 'z Cpg_scheme \<Rightarrow> 'z Cpg_scheme" where
  "repeat_messages ms s = s\<lparr>cpg_mcast := cpg_mcast s @ map (\<lambda>m. htonl_bytes (of_nat m)) ms\<rparr>"

lemma colod_cpg_send_again:
  assumes "cpg_inv s" and "m < MESSAGE_MAX" and "cpg_retransmit s ! m"
  shows "colod_cpg_send G (of_nat m) s = Some (repeat_messages [m] s)"
proof -
  have m: "unat (of_nat m :: guint) = m"
    using assms(2) by (simp add: unat_of_nat take_bit_nat_eq_self MESSAGE_MAX_def)
  have "True \<in> set (cpg_retransmit s)"
    using assms by (auto simp: cpg_inv_def in_set_conv_nth)
  with assms have "cpg_retransmit_source_id s \<noteq> 0" "length (cpg_retransmit s) = MESSAGE_MAX"
    by (auto simp: cpg_inv_def)
  moreover have "(cpg_retransmit s)[m := True] = cpg_retransmit s"
    using assms(3) by (metis (full_types) list_update_id)
  ultimately show ?thesis
    using assms(2) m by (simp add: colod_cpg_send_def repeat_messages_def)
qed

lemma cpg_inv_repeat [simp]: "cpg_inv (repeat_messages ms s) = cpg_inv s"
  by (simp add: cpg_inv_def repeat_messages_def)

lemma retransmit_loop_eq:
  assumes "cpg_inv s" and "\<forall>m\<in>set ms. m < MESSAGE_MAX"
  shows "retransmit_loop G ms r s =
    Some (r \<or> (\<exists>m\<in>set ms. cpg_retransmit s ! m),
          repeat_messages (filter (\<lambda>m. cpg_retransmit s ! m) ms) s)"
  using assms
proof (induction ms arbitrary: r s)
  case Nil
  then show ?case by (simp add: repeat_messages_def)
next
  case (Cons m ms)
  then show ?case
    by (cases "cpg_retransmit s ! m")
      (auto simp: colod_cpg_send_again, auto simp: repeat_messages_def)
qed

lemma colod_cpg_retransmit_eq:
  assumes "cpg_inv s"
  shows "colod_cpg_retransmit G s =
    Some (unacknowledged s \<noteq> [], repeat_messages (unacknowledged s) s)"
  using assms
  by (auto simp: colod_cpg_retransmit_def retransmit_loop_eq unacknowledged_def filter_empty_conv)

text \<open>
  A tick of the repeating timer multicasts exactly the unacknowledged messages,
  in the order of their numbers, and changes nothing else; with none left it
  detaches the timer.
\<close>

lemma cpg_tick:
  assumes "cpg_inv s"
  shows "cpg_retransmit_dispatch G (cpg_retransmit_source_id s) s =
    Some (if unacknowledged s \<noteq> []
      then s\<lparr>cpg_mcast := cpg_mcast s @ map (\<lambda>m. htonl_bytes (of_nat m)) (unacknowledged s)\<rparr>
      else s\<lparr>cpg_retransmit_source_id := 0,
             ml_sources := g_source_remove (cpg_retransmit_source_id s) (ml_sources s)\<rparr>)"
  using assms
  by (auto simp: cpg_retransmit_dispatch_def colod_cpg_retransmit_cb_def colod_cpg_retransmit_eq
      repeat_messages_def remove_source_def)

lemma cpg_tick_witness:
  "cpg_retransmit_dispatch ref_glib 9 \<lparr>ml_sources = [(9, S_cpg_retransmit)], cpg_callbacks = [],
      cpg_source_id = 0, cpg_retransmit_source_id = 9, cpg_retransmit = [False, True, False, True, False, False],
      cpg_mcast = []\<rparr> =
   Some \<lparr>ml_sources = [(9, S_cpg_retransmit)], cpg_callbacks = [],
      cpg_source_id = 0, cpg_retransmit_source_id = 9, cpg_retransmit = [False, True, False, True, False, False],
      cpg_mcast = [[0, 0, 0, 1], [0, 0, 0, 3]]\<rparr>"
proof -
  let ?s = "\<lparr>ml_sources = [(9, S_cpg_retransmit)], cpg_callbacks = [],
      cpg_source_id = 0, cpg_retransmit_source_id = 9, cpg_retransmit = [False, True, False, True, False, False],
      cpg_mcast = []\<rparr>"
  have "unacknowledged ?s = [1, 3]"
    by (simp add: unacknowledged_def MESSAGE_MAX_def upt_rec)
  moreover have "htonl_bytes 1 = [0, 0, 0, 1]" "htonl_bytes 3 = [0, 0, 0, 3]"
    by (simp_all add: htonl_bytes_def)
  ultimately show ?thesis
    using cpg_tick [of ?s ref_glib] by (simp add: cpg_inv_def MESSAGE_MAX_def)
qed

subsection \<open>Sessions\<close>

text \<open>
  What a callback registered with the group may do: send messages, queue events,
  attach sources, but not abort, break the invariant or change the registrations.
\<close>

definition cpg_client :: "'z Cpg_scheme cpg_callback \<Rightarrow> bool" where
  "cpg_client f \<longleftrightarrow> (\<forall>c m mine left s. cpg_inv s \<longrightarrow>
     (\<exists>s'. f c m mine left s = Some s' \<and> cpg_inv s' \<and> cpg_callbacks s' = cpg_callbacks s))"

lemma cpg_notify_ok:
  assumes "cpg_client f" and "cpg_inv s"
  shows "\<exists>s'. cpg_notify f m mine left s = Some s' \<and> cpg_inv s' \<and> cpg_callbacks s' = cpg_callbacks s"
  unfolding cpg_notify_def
  by (rule qlist_foreach_safe_inv) (use assms in \<open>auto simp: cpg_client_def\<close>)

lemma cpg_inv_ack:
  assumes "cpg_inv s"
  shows "cpg_inv (s\<lparr>cpg_retransmit := (cpg_retransmit s)[m := False]\<rparr>)"
  using assms set_update_subset_insert [of "cpg_retransmit s" m False] by (auto simp: cpg_inv_def)

lemma colod_cpg_deliver_ok:
  assumes "cpg_client f" and "cpg_inv s"
    and "nodeid = myid \<Longrightarrow> length msg = 4 \<Longrightarrow> is_message (ntohl_bytes msg)"
  shows "\<exists>s'. colod_cpg_deliver f myid nodeid msg s = Some s' \<and> cpg_inv s' \<and>
    cpg_callbacks s' = cpg_callbacks s"
  using assms cpg_notify_ok [OF assms(1,2)]
    cpg_notify_ok [OF assms(1) cpg_inv_ack [OF assms(2)], of _ _ _ "unat (ntohl_bytes msg)"]
  by (auto simp: colod_cpg_deliver_def is_message_def cpg_inv_def Let_def)

lemma colod_cpg_confchg_ok:
  assumes "cpg_client f" and "cpg_inv s"
  shows "\<exists>s'. colod_cpg_confchg G f n s = Some s' \<and> cpg_inv s' \<and> cpg_callbacks s' = cpg_callbacks s"
proof -
  have "cpg_inv (repeat_messages (unacknowledged s) s)"
    "cpg_callbacks (repeat_messages (unacknowledged s) s) = cpg_callbacks s"
    using assms(2) by simp (simp add: repeat_messages_def)
  with assms cpg_notify_ok [OF assms(1)] show ?thesis
    by (fastforce simp: colod_cpg_confchg_def colod_cpg_retransmit_eq)
qed

datatype cpg_action = Send ColodMessage | Deliver guint "gbyte list" | Confchg nat | Tick

fun cpg_act ::
    "'e glib \<Rightarrow> 'z Cpg_scheme cpg_callback \<Rightarrow> guint \<Rightarrow> cpg_action \<Rightarrow> 'z Cpg_scheme \<Rightarrow>
     'z Cpg_scheme abortable" where
  "cpg_act G f myid (Send m) s = colod_cpg_send G m s"
| "cpg_act G f myid (Deliver nodeid msg) s = colod_cpg_deliver f myid nodeid msg s"
| "cpg_act G f myid (Confchg n) s = colod_cpg_confchg G f n s"
| "cpg_act G f myid Tick s =
     (if cpg_retransmit_source_id s = 0 then Some s
      else cpg_retransmit_dispatch G (cpg_retransmit_source_id s) s)"

fun cpg_run ::
    "'e glib \<Rightarrow> 'z Cpg_scheme cpg_callback \<Rightarrow> guint \<Rightarrow> cpg_action list \<Rightarrow> 'z Cpg_scheme \<Rightarrow>
     'z Cpg_scheme abortable" where
  "cpg_run G f myid [] s = Some s"
| "cpg_run G f myid (a # as) s = do { s' \<leftarrow> cpg_act G f myid a s; cpg_run G f myid as s' }"

text \<open>The daemon sends messages only, so its own copies carry messages only.\<close>

fun cpg_action_ok :: "guint \<Rightarrow> cpg_action \<Rightarrow> bool" where
  "cpg_action_ok myid (Send m) = is_message m"
| "cpg_action_ok myid (Deliver nodeid msg) =
     (nodeid = myid \<longrightarrow> length msg = 4 \<longrightarrow> is_message (ntohl_bytes msg))"
| "cpg_action_ok myid _ = True"

lemma cpg_act_ok:
  assumes "attach_lawful G" and "cpg_client f" and "cpg_inv s" and "cpg_action_ok myid a"
  shows "\<exists>s'. cpg_act G f myid a s = Some s' \<and> cpg_inv s'"
proof (cases a)
  case (Send m)
  with colod_cpg_send_ok [OF assms(1,3), of m] assms(4) show ?thesis by auto
next
  case (Deliver nodeid msg)
  with colod_cpg_deliver_ok [OF assms(2,3), of nodeid myid msg] assms(4) show ?thesis by auto
next
  case (Confchg n)
  with colod_cpg_confchg_ok [OF assms(2,3)] show ?thesis by auto
next
  case Tick
  have *: "cpg_inv (s\<lparr>cpg_retransmit_source_id := 0, ml_sources := ss\<rparr>)"
    if "unacknowledged s = []" for ss
    using assms(3) that
    by (auto simp: cpg_inv_def unacknowledged_def filter_empty_conv in_set_conv_nth)
  show ?thesis
    using Tick assms(3) * cpg_inv_repeat [of "unacknowledged s" s]
    by (auto simp: cpg_retransmit_dispatch_def colod_cpg_retransmit_cb_def
        colod_cpg_retransmit_eq repeat_messages_def remove_source_def)
qed





end
