(* ===== verification/Json_Util.thy ===== *)
theory Json_Util
  imports Util
begin

text \<open>
  \<^verbatim>\<open>json_util.c\<close> and \<^verbatim>\<open>qmpcommands.c\<close>. The JSON trees are json-glib's; parsing,
  printing and the equality of nodes are its functions and arguments of the model
  (record \<open>json_glib\<close>). The accessors follow its documentation: a string member
  that is absent or not a string reads as NULL.
\<close>

subsection \<open>JSON trees and json-glib\<close>

datatype json =
    JNull | JBool bool | JInt int | JDouble "64 word" | JString string
  | JArray "json list" | JObject "(string \<times> json) list"

record json_glib =
  json_from_string :: "string \<Rightarrow> json option"
  json_to_string :: "json \<Rightarrow> string"
  json_node_equal :: "json \<Rightarrow> json \<Rightarrow> bool"

fun holds_object :: "json \<Rightarrow> bool" where
  "holds_object (JObject ms) = True"
| "holds_object _ = False"

fun holds_array :: "json \<Rightarrow> bool" where
  "holds_array (JArray xs) = True"
| "holds_array _ = False"

fun json_members :: "json \<Rightarrow> (string \<times> json) list" where
  "json_members (JObject ms) = ms"
| "json_members _ = []"

fun json_elements :: "json \<Rightarrow> json list" where
  "json_elements (JArray xs) = xs"
| "json_elements _ = []"

fun json_string_value :: "json \<Rightarrow> string option" where
  "json_string_value (JString s) = Some s"
| "json_string_value _ = None"

subsection \<open>json_util.c\<close>

definition bool_to_json :: "bool \<Rightarrow> string" where
  "bool_to_json b = (if b then ''true'' else ''false'')"

definition has_member :: "json \<Rightarrow> string \<Rightarrow> bool abortable" where
  "has_member node member = do {
     c_assert (holds_object node);
     Some (map_of (json_members node) member \<noteq> None) }"

definition get_member_node :: "json \<Rightarrow> string \<Rightarrow> json option abortable" where
  "get_member_node node member = do {
     c_assert (holds_object node);
     Some (map_of (json_members node) member) }"

definition get_member_str :: "json \<Rightarrow> string \<Rightarrow> string option abortable" where
  "get_member_str node member = do {
     c_assert (holds_object node);
     Some (Option.bind (map_of (json_members node) member) json_string_value) }"

definition get_member_member_str :: "json \<Rightarrow> string \<Rightarrow> string \<Rightarrow> string option abortable" where
  "get_member_member_str node member1 member2 = do {
     c_assert (holds_object node);
     Some (case map_of (json_members node) member1 of
         Some (JObject ms) \<Rightarrow> Option.bind (map_of ms member2) json_string_value
       | _ \<Rightarrow> None) }"

fun members_match :: "json_glib \<Rightarrow> json \<Rightarrow> (string \<times> json) list \<Rightarrow> bool" where
  "members_match J node [] = True"
| "members_match J node ((match_member, match_node) # ms) =
     (case map_of (json_members node) match_member of
        None \<Rightarrow> False
      | Some member_node \<Rightarrow>
          if \<not> json_node_equal J member_node match_node then False
          else members_match J node ms)"

definition object_matches :: "json_glib \<Rightarrow> json \<Rightarrow> json \<Rightarrow> bool abortable" where
  "object_matches J node match = do {
     c_assert (holds_object match);
     Some (if \<not> holds_object node then False
           else members_match J node (json_members match)) }"

definition object_matches_json :: "json_glib \<Rightarrow> json \<Rightarrow> string \<Rightarrow> bool abortable" where
  "object_matches_json J node match = do {
     match_node \<leftarrow> c_nonnull (json_from_string J match);
     object_matches J node match_node }"

fun matches_any :: "json_glib \<Rightarrow> json \<Rightarrow> json list \<Rightarrow> bool abortable" where
  "matches_any J node [] = Some False"
| "matches_any J node (match # ms) = do {
     b \<leftarrow> object_matches J node match;
     if b then Some True else matches_any J node ms }"

definition object_matches_match_array :: "json_glib \<Rightarrow> json \<Rightarrow> json \<Rightarrow> bool abortable" where
  "object_matches_match_array J node match_array = do {
     c_assert (holds_array match_array);
     matches_any J node (json_elements match_array) }"

lemma members_match_iff:
  "members_match J node ms \<longleftrightarrow>
     (\<forall>(k, m)\<in>set ms. \<exists>v. map_of (json_members node) k = Some v \<and> json_node_equal J v m)"
  by (induction J node ms rule: members_match.induct) (auto split: option.splits if_splits)

lemma holds_object_iff: "holds_object node \<longleftrightarrow> (\<exists>ms. node = JObject ms)"
  by (cases node) auto

lemma holds_array_iff: "holds_array node \<longleftrightarrow> (\<exists>xs. node = JArray xs)"
  by (cases node) auto

text \<open>
  A node matches a match object exactly when it is an object and has every
  member of the match object with an equal value, and it matches an array of match
  objects exactly when it matches one of them.
\<close>

lemma object_matches_iff:
  assumes "\<forall>m\<in>set ms. holds_object m"
  shows "object_matches_match_array J node (JArray ms) = Some (\<exists>m\<in>set ms. holds_object node \<and>
    (\<forall>(k, v)\<in>set (json_members m). \<exists>v'. map_of (json_members node) k = Some v' \<and> json_node_equal J v' v))"
  using assms
  by (induction ms)
    (auto simp: object_matches_match_array_def object_matches_def members_match_iff)

lemma object_matches_iff_witness:
  "object_matches_match_array
     \<lparr>json_from_string = (\<lambda>_. None), json_to_string = (\<lambda>_. ''''), json_node_equal = (=)\<rparr>
     (JObject [(''id'', JInt 1), (''type'', JString ''chardev'')])
     (JArray [JObject [(''id'', JInt 2)], JObject [(''type'', JString ''chardev'')]]) = Some True"
  by (subst object_matches_iff) auto

subsection \<open>qmpcommands.c\<close>

record QmpCommands =
  migration_start :: json
  migration_switchover :: json
  failover_primary :: json
  failover_secondary :: json

definition qmp_commands_set_migration_start :: "QmpCommands \<Rightarrow> json \<Rightarrow> int \<times> QmpCommands" where
  "qmp_commands_set_migration_start this commands = (0, this\<lparr>migration_start := commands\<rparr>)"

definition qmp_commands_set_migration_switchover :: "QmpCommands \<Rightarrow> json \<Rightarrow> int \<times> QmpCommands" where
  "qmp_commands_set_migration_switchover this commands = (0, this\<lparr>migration_switchover := commands\<rparr>)"

definition qmp_commands_set_failover_primary :: "QmpCommands \<Rightarrow> json \<Rightarrow> int \<times> QmpCommands" where
  "qmp_commands_set_failover_primary this commands = (0, this\<lparr>failover_primary := commands\<rparr>)"

definition qmp_commands_set_failover_secondary :: "QmpCommands \<Rightarrow> json \<Rightarrow> int \<times> QmpCommands" where
  "qmp_commands_set_failover_secondary this commands = (0, this\<lparr>failover_secondary := commands\<rparr>)"

definition qmp_commands_new :: "json_glib \<Rightarrow> QmpCommands abortable" where
  "qmp_commands_new J = do {
     a \<leftarrow> c_nonnull (json_from_string J ''[]'');
     b \<leftarrow> c_nonnull (json_from_string J ''[]'');
     c \<leftarrow> c_nonnull (json_from_string J ''[]'');
     d \<leftarrow> c_nonnull (json_from_string J ''[]'');
     Some \<lparr>migration_start = a, migration_switchover = b, failover_primary = c, failover_secondary = d\<rparr> }"

text \<open>The command lists are arrays: what \<open>colod_execute_array_co\<close> asserts.\<close>

definition commands_ok :: "QmpCommands \<Rightarrow> bool" where
  "commands_ok c \<longleftrightarrow> holds_array (migration_start c) \<and> holds_array (migration_switchover c) \<and>
     holds_array (failover_primary c) \<and> holds_array (failover_secondary c)"

lemma commands_ok_simps:
  assumes "commands_ok c"
  shows "holds_array (migration_start c)" "holds_array (migration_switchover c)"
    "holds_array (failover_primary c)" "holds_array (failover_secondary c)"
  using assms by (simp_all add: commands_ok_def)

lemma commands_ok_set:
  assumes "commands_ok c" and "holds_array cmds"
  shows "commands_ok (snd (qmp_commands_set_migration_start c cmds))"
    "commands_ok (snd (qmp_commands_set_migration_switchover c cmds))"
    "commands_ok (snd (qmp_commands_set_failover_primary c cmds))"
    "commands_ok (snd (qmp_commands_set_failover_secondary c cmds))"
  using assms
  by (simp_all add: commands_ok_def qmp_commands_set_migration_start_def
      qmp_commands_set_migration_switchover_def qmp_commands_set_failover_primary_def
      qmp_commands_set_failover_secondary_def)

end
