(* ===== verification/Channel_Io.thy ===== *)
theory Channel_Io
  imports Util
begin

text \<open>
  \<^verbatim>\<open>coutil.c\<close>: coroutines that read a line from a channel and write a buffer to it,
  with a timeout, the calls of coroutines and their locks. What the operations of a \<^verbatim>\<open>GIOChannel\<close> answer is input: a dispatch
  gets the answers of the operations it makes, and an operation it gets no answer for would
  block. \<open>co\<close> is the source that resumes the coroutine, \<open>cur\<close> the ID of the source that
  resumed it now.
\<close>

subsection \<open>Coroutines\<close>

text \<open>
  A coroutine that runs suspends at a point \<open>'p\<close> or returns. \<open>co_recurse\<close> is the call of
  one coroutine function by another: when the callee suspends so does the caller, which
  continues with \<open>k\<close> when the callee has returned. A call also passes on the answers of
  channel operations that are left.
\<close>

datatype ('p, 'r) co = Yielding 'p | Done 'r

definition co_recurse ::
    "(('p, 'r) co \<times> 'i \<times> 's) abortable \<Rightarrow> ('p \<Rightarrow> 'q) \<Rightarrow>
     ('r \<Rightarrow> 'i \<Rightarrow> 's \<Rightarrow> (('q, 't) co \<times> 'i \<times> 's) abortable) \<Rightarrow> (('q, 't) co \<times> 'i \<times> 's) abortable" where
  "co_recurse call point k = do {
     (r, io, s) \<leftarrow> call;
     (case r of Yielding p \<Rightarrow> Some (Yielding (point p), io, s) | Done v \<Rightarrow> k v io s) }"

subsection \<open>Locks\<close>

record CoroutineLock =
  lk_holder :: "source option"
  lk_count :: guint

text \<open>
  \<open>colod_lock_co\<close> on entry and when resumed in its loop: the lock taken, or \<open>None\<close> if the
  coroutine has to attach a progress source and yield.
\<close>

definition colod_lock_retry :: "source \<Rightarrow> CoroutineLock \<Rightarrow> CoroutineLock option abortable" where
  "colod_lock_retry co l =
     (if lk_holder l \<noteq> None then Some None
      else do {
        c_assert (lk_count l = 0);
        Some (Some (l\<lparr>lk_holder := Some co, lk_count := lk_count l + 1\<rparr>)) })"

definition colod_lock_co :: "source \<Rightarrow> CoroutineLock \<Rightarrow> CoroutineLock option abortable" where
  "colod_lock_co co l =
     (if lk_holder l = Some co then do {
        c_assert (lk_count l \<noteq> 0);
        Some (Some (l\<lparr>lk_count := lk_count l + 1\<rparr>)) }
      else colod_lock_retry co l)"

definition colod_unlock_co :: "source \<Rightarrow> CoroutineLock \<Rightarrow> CoroutineLock abortable" where
  "colod_unlock_co co l = do {
     c_assert (lk_holder l = Some co \<and> lk_count l \<noteq> 0);
     let c = lk_count l - 1;
     Some (l\<lparr>lk_count := c, lk_holder := (if c = 0 then None else lk_holder l)\<rparr>) }"

subsection \<open>Answers of a channel\<close>

datatype io_status = Io_normal | Io_again | Io_error gerror | Io_eof

text \<open>With a read comes the line, empty if none was complete; with a write how many bytes were taken.\<close>

datatype io_answer = Read_line io_status string | Write_chars io_status nat | Flush io_status

definition eof_error :: gerror where
  "eof_error = GError (Some COLOD_ERROR_EOF) ''Channel got EOF''"

text \<open>Both coroutines remove their timeout source before they return.\<close>

definition stop_timeout :: "guint \<Rightarrow> guint \<Rightarrow> 'z MainContext_scheme \<Rightarrow> 'z MainContext_scheme" where
  "stop_timeout timeout timeout_source_id s = (if timeout \<noteq> 0 then remove_source timeout_source_id s else s)"

definition start_timeout :: "'e glib \<Rightarrow> source \<Rightarrow> guint \<Rightarrow> 'z MainContext_scheme \<Rightarrow> guint \<times> 'z MainContext_scheme" where
  "start_timeout G co timeout s = (if timeout \<noteq> 0 then add_source G co s else (0, s))"

subsection \<open>Reading a line\<close>

text \<open>Suspended, with the IDs of its timeout source and of its I/O watch.\<close>

datatype read_pc = Read_wait guint guint

definition read_line_wait ::
    "'e glib \<Rightarrow> source \<Rightarrow> guint \<Rightarrow> 'z MainContext_scheme \<Rightarrow>
     (read_pc, string fallible) co \<times> io_answer list \<times> 'z MainContext_scheme" where
  "read_line_wait G co tmo s = (let (i, s1) = add_source G co s in (Yielding (Read_wait tmo i), [], s1))"

definition read_line_loop ::
    "'e glib \<Rightarrow> source \<Rightarrow> guint \<Rightarrow> guint \<Rightarrow> io_answer list \<Rightarrow> 'z MainContext_scheme \<Rightarrow>
     (read_pc, string fallible) co \<times> io_answer list \<times> 'z MainContext_scheme" where
  "read_line_loop G co timeout tmo io s = (case io of
     Read_line st line # io' \<Rightarrow> (case st of
         Io_normal \<Rightarrow> if line = [] then read_line_wait G co tmo s
           else (Done (Inr line), io', stop_timeout timeout tmo s)
       | Io_again \<Rightarrow> read_line_wait G co tmo s
       | Io_error e \<Rightarrow> (Done (Inl e), io', stop_timeout timeout tmo s)
       | Io_eof \<Rightarrow> (Done (Inl eof_error), io', stop_timeout timeout tmo s))
   | _ \<Rightarrow> read_line_wait G co tmo s)"

definition read_line_begin ::
    "'e glib \<Rightarrow> source \<Rightarrow> guint \<Rightarrow> io_answer list \<Rightarrow> 'z MainContext_scheme \<Rightarrow>
     (read_pc, string fallible) co \<times> io_answer list \<times> 'z MainContext_scheme" where
  "read_line_begin G co timeout io s = (let (tmo, s1) = start_timeout G co timeout s in
     read_line_loop G co timeout tmo io s1)"

fun read_line_resume ::
    "'e glib \<Rightarrow> source \<Rightarrow> guint \<Rightarrow> read_pc \<Rightarrow> guint \<Rightarrow> io_answer list \<Rightarrow> 'z MainContext_scheme \<Rightarrow>
     (read_pc, string fallible) co \<times> io_answer list \<times> 'z MainContext_scheme" where
  "read_line_resume G co timeout (Read_wait tmo i) cur io s =
     (if timeout \<noteq> 0 \<and> cur = tmo
      then (Done (Inl (GError (Some COLOD_ERROR_TIMEOUT) ''Channel read timed out'')), io,
        stop_timeout timeout tmo (remove_source i s))
      else read_line_loop G co timeout tmo io (if cur \<noteq> i then remove_source i s else s))"

subsection \<open>Writing a buffer\<close>

text \<open>
  Suspended in the loop that writes, with the offset reached, or in the one that flushes.
  The second component of a result is output: the bytes the channel took.
\<close>

datatype write_pc = Write_wait guint guint nat | Flush_wait guint guint

definition flush_loop ::
    "'e glib \<Rightarrow> source \<Rightarrow> guint \<Rightarrow> guint \<Rightarrow> io_answer list \<Rightarrow> 'z MainContext_scheme \<Rightarrow>
     (write_pc, unit fallible) co \<times> string \<times> io_answer list \<times> 'z MainContext_scheme" where
  "flush_loop G co timeout tmo io s =
     (let wait = (let (i, s1) = add_source G co s in (Yielding (Flush_wait tmo i), [], [], s1)) in
      case io of
        Flush st # io' \<Rightarrow> (case st of
            Io_again \<Rightarrow> wait
          | Io_normal \<Rightarrow> (Done (Inr ()), [], io', stop_timeout timeout tmo s)
          | Io_error e \<Rightarrow> (Done (Inl e), [], io', stop_timeout timeout tmo s)
          | Io_eof \<Rightarrow> (Done (Inl eof_error), [], io', stop_timeout timeout tmo s))
      | _ \<Rightarrow> wait)"

fun write_loop ::
    "'e glib \<Rightarrow> source \<Rightarrow> guint \<Rightarrow> guint \<Rightarrow> string \<Rightarrow> nat \<Rightarrow> io_answer list \<Rightarrow> 'z MainContext_scheme \<Rightarrow>
     (write_pc, unit fallible) co \<times> string \<times> io_answer list \<times> 'z MainContext_scheme" where
  "write_loop G co timeout tmo buf offset io s =
     (if offset < length buf then
        (case io of
           Write_chars st n # io' \<Rightarrow>
             (case st of
                Io_error e \<Rightarrow> (Done (Inl e), take n (drop offset buf), io', stop_timeout timeout tmo s)
              | Io_eof \<Rightarrow> (Done (Inl eof_error), take n (drop offset buf), io', stop_timeout timeout tmo s)
              | _ \<Rightarrow>
                  if n = 0
                  then (let (i, s1) = add_source G co s in (Yielding (Write_wait tmo i offset), [], [], s1))
                  else (let (r, out, rest) = write_loop G co timeout tmo buf (offset + n) io' s in
                    (r, take n (drop offset buf) @ out, rest)))
         | _ \<Rightarrow> (let (i, s1) = add_source G co s in (Yielding (Write_wait tmo i offset), [], [], s1)))
      else flush_loop G co timeout tmo io s)"

declare write_loop.simps [simp del]

definition write_begin ::
    "'e glib \<Rightarrow> source \<Rightarrow> guint \<Rightarrow> string \<Rightarrow> io_answer list \<Rightarrow> 'z MainContext_scheme \<Rightarrow>
     (write_pc, unit fallible) co \<times> string \<times> io_answer list \<times> 'z MainContext_scheme" where
  "write_begin G co timeout buf io s = (let (tmo, s1) = start_timeout G co timeout s in
     write_loop G co timeout tmo buf 0 io s1)"

definition write_timed_out ::
    "guint \<Rightarrow> guint \<Rightarrow> guint \<Rightarrow> io_answer list \<Rightarrow> 'z MainContext_scheme \<Rightarrow>
     (write_pc, unit fallible) co \<times> string \<times> io_answer list \<times> 'z MainContext_scheme" where
  "write_timed_out timeout tmo i io s =
     (Done (Inl (GError (Some COLOD_ERROR_TIMEOUT) ''Channel write timed out'')), [], io,
      stop_timeout timeout tmo (remove_source i s))"

fun write_resume ::
    "'e glib \<Rightarrow> source \<Rightarrow> guint \<Rightarrow> string \<Rightarrow> write_pc \<Rightarrow> guint \<Rightarrow> io_answer list \<Rightarrow> 'z MainContext_scheme \<Rightarrow>
     (write_pc, unit fallible) co \<times> string \<times> io_answer list \<times> 'z MainContext_scheme" where
  "write_resume G co timeout buf (Write_wait tmo i offset) cur io s =
     (if timeout \<noteq> 0 \<and> cur = tmo then write_timed_out timeout tmo i io s
      else write_loop G co timeout tmo buf offset io (if cur \<noteq> i then remove_source i s else s))"
| "write_resume G co timeout buf (Flush_wait tmo i) cur io s =
     (if timeout \<noteq> 0 \<and> cur = tmo then write_timed_out timeout tmo i io s
      else flush_loop G co timeout tmo io (if cur \<noteq> i then remove_source i s else s))"

subsection \<open>A whole call\<close>

text \<open>
  The call and the dispatches that resume it; the main loop removes the source that
  resumed it, as the coroutine returns \<^verbatim>\<open>G_SOURCE_REMOVE\<close>. Only an attached source
  is dispatched: an entry for another ID does not happen.
\<close>

fun write_session ::
    "'e glib \<Rightarrow> source \<Rightarrow> guint \<Rightarrow> string \<Rightarrow> write_pc \<Rightarrow> (guint \<times> io_answer list) list \<Rightarrow>
     'z MainContext_scheme \<Rightarrow> (write_pc, unit fallible) co \<times> string \<times> 'z MainContext_scheme" where
  "write_session G co timeout buf pc [] s = (Yielding pc, [], s)"
| "write_session G co timeout buf pc ((cur, io) # ds) s =
     (if cur \<notin> source_ids (ml_sources s) then write_session G co timeout buf pc ds s
      else case write_resume G co timeout buf pc cur io s of
        (Done r, out, _, s1) \<Rightarrow> (Done r, out, remove_source cur s1)
      | (Yielding pc', out, _, s1) \<Rightarrow>
          (case write_session G co timeout buf pc' ds (remove_source cur s1) of
             (r, out', s2) \<Rightarrow> (r, out @ out', s2)))"

definition channel_write ::
    "'e glib \<Rightarrow> source \<Rightarrow> guint \<Rightarrow> string \<Rightarrow> io_answer list \<Rightarrow> (guint \<times> io_answer list) list \<Rightarrow>
     'z MainContext_scheme \<Rightarrow> (write_pc, unit fallible) co \<times> string \<times> 'z MainContext_scheme" where
  "channel_write G co timeout buf io ds s = (case write_begin G co timeout buf io s of
     (Done r, out, _, s1) \<Rightarrow> (Done r, out, s1)
   | (Yielding pc, out, _, s1) \<Rightarrow>
       (case write_session G co timeout buf pc ds s1 of (r, out', s2) \<Rightarrow> (r, out @ out', s2)))"

fun read_session ::
    "'e glib \<Rightarrow> source \<Rightarrow> guint \<Rightarrow> read_pc \<Rightarrow> (guint \<times> io_answer list) list \<Rightarrow>
     'z MainContext_scheme \<Rightarrow> (read_pc, string fallible) co \<times> 'z MainContext_scheme" where
  "read_session G co timeout pc [] s = (Yielding pc, s)"
| "read_session G co timeout pc ((cur, io) # ds) s =
     (if cur \<notin> source_ids (ml_sources s) then read_session G co timeout pc ds s
      else case read_line_resume G co timeout pc cur io s of
        (Done r, _, s1) \<Rightarrow> (Done r, remove_source cur s1)
      | (Yielding pc', _, s1) \<Rightarrow> read_session G co timeout pc' ds (remove_source cur s1))"

definition channel_read_line ::
    "'e glib \<Rightarrow> source \<Rightarrow> guint \<Rightarrow> io_answer list \<Rightarrow> (guint \<times> io_answer list) list \<Rightarrow>
     'z MainContext_scheme \<Rightarrow> (read_pc, string fallible) co \<times> 'z MainContext_scheme" where
  "channel_read_line G co timeout io ds s = (case read_line_begin G co timeout io s of
     (Done r, _, s1) \<Rightarrow> (Done r, s1)
   | (Yielding pc, _, s1) \<Rightarrow> read_session G co timeout pc ds s1)"

subsection \<open>What a coroutine leaves attached\<close>

text \<open>
  The contract of a channel coroutine: a step either returns, with its timeout
  removed, or suspends on a new watch; \<open>waiting\<close> describes the sources of a suspended one
  over the sources \<open>base\<close> of the rest of the daemon.
\<close>

definition timeout_part :: "source \<Rightarrow> guint \<Rightarrow> guint \<Rightarrow> source sources" where
  "timeout_part co timeout tmo = (if timeout \<noteq> 0 then [(tmo, co)] else [])"

definition waiting ::
    "source \<Rightarrow> guint \<Rightarrow> guint \<Rightarrow> guint \<Rightarrow> source sources \<Rightarrow> 'z MainContext_scheme \<Rightarrow> bool" where
  "waiting co timeout tmo i base s \<longleftrightarrow>
     ml_sources s = (i, co) # timeout_part co timeout tmo @ base \<and> sources_ok (ml_sources s)"

definition io_step ::
    "'e glib \<Rightarrow> source \<Rightarrow> guint \<Rightarrow> guint \<Rightarrow> ('p \<Rightarrow> guint \<times> guint) \<Rightarrow> ('p, 'r) co \<Rightarrow>
     'z MainContext_scheme \<Rightarrow> 'z MainContext_scheme \<Rightarrow> bool" where
  "io_step G co timeout tmo ids r s s' = (case r of
     Done v \<Rightarrow> s' = stop_timeout timeout tmo s
   | Yielding pc \<Rightarrow> (\<exists>i. ids pc = (tmo, i) \<and> add_source G co s = (i, s')))"

definition resume_step ::
    "'e glib \<Rightarrow> source \<Rightarrow> guint \<Rightarrow> ('p \<Rightarrow> guint \<times> guint) \<Rightarrow> 'p \<Rightarrow> guint \<Rightarrow> ('p, 'r) co \<Rightarrow>
     'z MainContext_scheme \<Rightarrow> 'z MainContext_scheme \<Rightarrow> bool" where
  "resume_step G co timeout ids pc cur r s s' = (case ids pc of (tmo, i) \<Rightarrow>
     (if timeout \<noteq> 0 \<and> cur = tmo
      then (\<exists>v. r = Done v) \<and> s' = stop_timeout timeout tmo (remove_source i s)
      else io_step G co timeout tmo ids r (if cur \<noteq> i then remove_source i s else s) s'))"

fun read_ids :: "read_pc \<Rightarrow> guint \<times> guint" where
  "read_ids (Read_wait tmo i) = (tmo, i)"

fun write_ids :: "write_pc \<Rightarrow> guint \<times> guint" where
  "write_ids (Write_wait tmo i offset) = (tmo, i)"
| "write_ids (Flush_wait tmo i) = (tmo, i)"

lemma read_loop_step:
  "read_line_loop G co timeout tmo io s = (r, io', s') \<Longrightarrow> io_step G co timeout tmo read_ids r s s'"
  by (auto simp: read_line_loop_def read_line_wait_def io_step_def
      split: list.splits io_answer.splits io_status.splits if_splits prod.splits)

lemma flush_loop_step:
  "flush_loop G co timeout tmo io s = (r, out, io', s') \<Longrightarrow> io_step G co timeout tmo write_ids r s s'"
  by (auto simp: flush_loop_def io_step_def Let_def
      split: list.splits io_answer.splits io_status.splits if_splits prod.splits)

lemma write_loop_step:
  "write_loop G co timeout tmo buf offset io s = (r, out, io', s') \<Longrightarrow>
     io_step G co timeout tmo write_ids r s s'"
proof (induction G co timeout tmo buf offset io s arbitrary: out rule: write_loop.induct)
  case (1 G co timeout tmo buf offset io s)
  note IH = "1.IH" and eq = "1.prems" [unfolded write_loop.simps [of G co timeout tmo buf offset]]
  show ?case
  proof (cases "\<exists>st n io1. io = Write_chars st n # io1 \<and> n \<noteq> 0 \<and> offset < length buf \<and> (st = Io_normal \<or> st = Io_again)")
    case True
    then obtain st n io1 where *: "io = Write_chars st n # io1" "n \<noteq> 0" "offset < length buf"
      and st: "st = Io_normal \<or> st = Io_again" by blast
    from st show ?thesis
    proof
      assume "st = Io_normal"
      with IH(1) [OF *(3,1)] eq * show ?thesis by (auto split: prod.splits)
    next
      assume "st = Io_again"
      with IH(2) [OF *(3,1)] eq * show ?thesis by (auto split: prod.splits)
    qed
  next
    case False
    with eq show ?thesis
      by (auto simp: io_step_def dest: flush_loop_step
          split: list.splits io_answer.splits io_status.splits if_splits prod.splits)
  qed
qed

lemma read_resume_step:
  "read_line_resume G co timeout pc cur io s = (r, io', s') \<Longrightarrow>
     resume_step G co timeout read_ids pc cur r s s'"
  by (cases pc) (auto simp: resume_step_def dest: read_loop_step split: if_splits)

lemma write_resume_step:
  "write_resume G co timeout buf pc cur io s = (r, out, io', s') \<Longrightarrow>
     resume_step G co timeout write_ids pc cur r s s'"
  by (cases pc)
    (auto simp: resume_step_def write_timed_out_def dest: write_loop_step flush_loop_step split: if_splits)

text \<open>One dispatch keeps the contract; \<open>base\<close> loses the source that was dispatched.\<close>

lemma ml_sources_remove_source [simp]:
  "ml_sources (remove_source i s) = g_source_remove i (ml_sources s)"
  by (simp add: remove_source_def)

lemma g_source_remove_append [simp]:
  "g_source_remove i (xs @ ys) = g_source_remove i xs @ g_source_remove i ys"
  by (simp add: g_source_remove_def)

lemma stop_timeout_part:
  "ml_sources s = xs @ timeout_part co timeout tmo @ base \<Longrightarrow>
     (timeout \<noteq> 0 \<Longrightarrow> tmo \<notin> source_ids xs \<and> tmo \<notin> source_ids base) \<Longrightarrow>
     stop_timeout timeout tmo s = s\<lparr>ml_sources := xs @ base\<rparr>"
  by (auto simp: stop_timeout_def timeout_part_def remove_source_def)

lemma waitingD:
  assumes "waiting co timeout tmo i base s"
  shows "ml_sources s = (i, co) # timeout_part co timeout tmo @ base"
    and "sources_ok (ml_sources s)" and "i \<notin> source_ids base" and "i \<notin> source_ids (timeout_part co timeout tmo)"
    and "timeout \<noteq> 0 \<Longrightarrow> tmo \<noteq> i \<and> tmo \<notin> source_ids base" and "sources_ok base"
proof -
  have *: "ml_sources s = (i, co) # timeout_part co timeout tmo @ base \<and> sources_ok (ml_sources s)"
    using assms unfolding waiting_def by blast
  then show "ml_sources s = (i, co) # timeout_part co timeout tmo @ base" "sources_ok (ml_sources s)"
    by blast+
  from * have "sources_ok ((i, co) # timeout_part co timeout tmo @ base)" by metis
  then show "i \<notin> source_ids base" "i \<notin> source_ids (timeout_part co timeout tmo)" "sources_ok base"
    "timeout \<noteq> 0 \<Longrightarrow> tmo \<noteq> i \<and> tmo \<notin> source_ids base"
    by (auto simp: sources_ok_def timeout_part_def source_ids_def image_iff split: if_splits)
qed

lemma waiting_new:
  assumes "attach_lawful G" and "add_source G co s = (i, s')" and "sources_ok (ml_sources s)"
    and "sources_room (ml_sources s)"
  shows "s' = s\<lparr>ml_sources := (i, co) # ml_sources s\<rparr>" and "i \<notin> source_ids (ml_sources s)"
    and "sources_ok (ml_sources s')"
  using add_source_fresh [OF assms(1,3,4), of co] assms(2) by auto

lemma resume_waiting:
  assumes "attach_lawful G" and "ids pc = (tmo, i)" and w: "waiting co timeout tmo i base s"
    and r: "resume_step G co timeout ids pc cur r s s1"
    and room: "length base < 2 ^ 32 - 4" and cur: "cur \<in> source_ids (ml_sources s)"
  defines "s' \<equiv> remove_source cur s1" and "base' \<equiv> g_source_remove cur base"
  shows "case r of Done v \<Rightarrow> s' = s\<lparr>ml_sources := base'\<rparr>
    | Yielding pc' \<Rightarrow> \<exists>i'. ids pc' = (tmo, i') \<and> waiting co timeout tmo i' base' s' \<and>
        s' = s\<lparr>ml_sources := ml_sources s'\<rparr>"
proof -
  note W = waitingD [OF w]
  define t where "t = (if cur \<noteq> i then remove_source i s else s)"
  have t: "ml_sources t = (if cur \<noteq> i then [] else [(i, co)]) @ timeout_part co timeout tmo @ base"
    using W by (simp add: t_def)
  have t_upd: "t\<lparr>ml_sources := x\<rparr> = s\<lparr>ml_sources := x\<rparr>" for x
    by (simp add: t_def remove_source_def)
  show ?thesis
  proof (cases "timeout \<noteq> 0 \<and> cur = tmo")
    case True
    with r assms(2) obtain v where "r = Done v" "s1 = stop_timeout timeout tmo (remove_source i s)"
      by (auto simp: resume_step_def)
    moreover have "stop_timeout timeout tmo (remove_source i s) = s\<lparr>ml_sources := base\<rparr>"
      using W stop_timeout_part [of "remove_source i s" "[]" co timeout tmo base]
      by (simp add: remove_source_def)
    ultimately show ?thesis by (simp add: s'_def base'_def remove_source_def)
  next
    case False
    with r assms(2) have step: "io_step G co timeout tmo ids r t s1"
      by (auto simp: resume_step_def t_def)
    show ?thesis
    proof (cases r)
      case (Done v)
      with step have "s1 = stop_timeout timeout tmo t" by (simp add: io_step_def)
      also have "\<dots> = s\<lparr>ml_sources := (if cur \<noteq> i then [] else [(i, co)]) @ base\<rparr>"
        using stop_timeout_part [OF t] W(5) by (auto simp: t_upd)
      finally show ?thesis
        using Done W(3) by (simp add: s'_def base'_def remove_source_def)
    next
      case (Yielding pc')
      with step obtain i' where i': "ids pc' = (tmo, i')" and a: "add_source G co t = (i', s1)"
        by (auto simp: io_step_def)
      have ok: "sources_ok (ml_sources t)"
        using W(2) by (simp add: t_def sources_ok_remove)
      have rm: "sources_room (ml_sources t)"
        using room by (auto simp: t sources_room_def timeout_part_def)
      note N = waiting_new [OF assms(1) a ok rm]
      have ci: "cur \<in> source_ids (ml_sources t)"
        using cur by (auto simp: t_def)
      with N(2) have ne: "cur \<noteq> i'" by auto
      have tp: "g_source_remove cur (timeout_part co timeout tmo) = timeout_part co timeout tmo"
        using False by (auto simp: timeout_part_def)
      have "s' = s\<lparr>ml_sources := (i', co) # timeout_part co timeout tmo @ base'\<rparr>"
        using ne tp by (simp add: s'_def base'_def N(1) remove_source_def t t_upd)
      moreover have "sources_ok (ml_sources s')"
        using N(3) by (simp add: s'_def sources_ok_remove)
      ultimately show ?thesis using Yielding i' by (simp add: waiting_def)
    qed
  qed
qed

text \<open>Starting a coroutine puts it into the contract over the sources attached before.\<close>

lemma begin_waiting:
  assumes "attach_lawful G" and "sources_ok (ml_sources s)" and "length (ml_sources s) < 2 ^ 32 - 4"
    and t: "start_timeout G co timeout s = (tmo, t)" and r: "io_step G co timeout tmo ids r t s'"
  shows "case r of Done v \<Rightarrow> s' = s
    | Yielding pc' \<Rightarrow> \<exists>i'. ids pc' = (tmo, i') \<and> waiting co timeout tmo i' (ml_sources s) s' \<and>
        s' = s\<lparr>ml_sources := ml_sources s'\<rparr>"
proof -
  have T: "t = s\<lparr>ml_sources := timeout_part co timeout tmo @ ml_sources s\<rparr> \<and>
      (timeout \<noteq> 0 \<longrightarrow> tmo \<notin> source_ids (ml_sources s)) \<and> sources_ok (ml_sources t)"
  proof (cases "timeout = 0")
    case False
    with t have a: "add_source G co s = (tmo, t)" by (simp add: start_timeout_def)
    have rm: "sources_room (ml_sources s)" using assms(3) by (simp add: sources_room_def)
    from waiting_new [OF assms(1) a assms(2) rm] False show ?thesis by (simp add: timeout_part_def)
  qed (use t assms(2) in \<open>simp_all add: start_timeout_def timeout_part_def\<close>)
  show ?thesis
  proof (cases r)
    case (Done v)
    with r T show ?thesis
      using stop_timeout_part [of t "[]" co timeout tmo "ml_sources s"] by (simp add: io_step_def)
  next
    case (Yielding pc')
    with r obtain i' where i': "ids pc' = (tmo, i')" and a: "add_source G co t = (i', s')"
      by (auto simp: io_step_def)
    have rm: "sources_room (ml_sources t)"
      using T assms(3) by (auto simp: sources_room_def timeout_part_def)
    from T have "sources_ok (ml_sources t)" by blast
    note N = waiting_new [OF assms(1) a this rm]
    with T i' Yielding show ?thesis by (simp add: waiting_def)
  qed
qed

definition base_of :: "source sources \<Rightarrow> guint set \<Rightarrow> source sources" where
  "base_of ss W = filter (\<lambda>x. fst x \<notin> W) ss"

lemma base_of_remove: "g_source_remove cur (base_of ss W) = base_of ss (insert cur W)"
  by (auto simp: base_of_def g_source_remove_def intro: filter_cong)

lemma base_of_empty [simp]: "base_of ss {} = ss"
  by (simp add: base_of_def)

lemma length_base_of: "length (base_of ss W) \<le> length ss"
  by (simp add: base_of_def)

text \<open>The dispatches of a call, whatever they transfer.\<close>

inductive dispatches ::
    "'e glib \<Rightarrow> source \<Rightarrow> guint \<Rightarrow> ('p \<Rightarrow> guint \<times> guint) \<Rightarrow> 'p \<Rightarrow> guint list \<Rightarrow>
     'z MainContext_scheme \<Rightarrow> ('p, 'r) co \<Rightarrow> 'z MainContext_scheme \<Rightarrow> bool"
  for G co timeout ids where
  none: "dispatches G co timeout ids pc [] s (Yielding pc) s"
| skip: "cur \<notin> source_ids (ml_sources s) \<Longrightarrow> dispatches G co timeout ids pc curs s r s' \<Longrightarrow>
    dispatches G co timeout ids pc (cur # curs) s r s'"
| return: "cur \<in> source_ids (ml_sources s) \<Longrightarrow> resume_step G co timeout ids pc cur (Done v) s s1 \<Longrightarrow>
    dispatches G co timeout ids pc (cur # curs) s (Done v) (remove_source cur s1)"
| again: "cur \<in> source_ids (ml_sources s) \<Longrightarrow>
    resume_step G co timeout ids pc cur (Yielding pc' :: ('p, 'r) co) s s1 \<Longrightarrow>
    dispatches G co timeout ids pc' curs (remove_source cur s1) r s' \<Longrightarrow>
    dispatches G co timeout ids pc (cur # curs) s r s'"

lemma read_session_dispatches:
  "read_session G co timeout pc ds s = (r, s') \<Longrightarrow>
     dispatches G co timeout read_ids pc (map fst ds) s r s'"
  by (induction G co timeout pc ds s rule: read_session.induct)
    (auto intro: dispatches.intros dest!: read_resume_step split: if_splits prod.splits co.splits)

lemma write_session_dispatches:
  "write_session G co timeout buf pc ds s = (r, out, s') \<Longrightarrow>
     dispatches G co timeout write_ids pc (map fst ds) s r s'"
  by (induction G co timeout buf pc ds s arbitrary: out rule: write_session.induct)
    (auto intro: dispatches.intros dest!: write_resume_step split: if_splits prod.splits co.splits)

lemma dispatches_sources:
  assumes "dispatches G co timeout ids pc curs s r s'"
    and "attach_lawful G" and "length ss < 2 ^ 32 - 4"
    and "ids pc = (tmo, i)" and "waiting co timeout tmo i (base_of ss W) s"
  shows "\<exists>W'. W' \<subseteq> W \<union> set curs \<and> (case r of
      Done v \<Rightarrow> s' = s\<lparr>ml_sources := base_of ss W'\<rparr>
    | Yielding pc' \<Rightarrow> \<exists>i'. ids pc' = (tmo, i') \<and> waiting co timeout tmo i' (base_of ss W') s' \<and>
        s' = s\<lparr>ml_sources := ml_sources s'\<rparr>)"
  using assms(1,4-)
proof (induction arbitrary: i W rule: dispatches.induct)
  case (none pc s)
  then show ?case by (intro exI [of _ W]) simp
next
  case (skip cur s pc curs r s')
  from skip.IH [OF skip.prems] obtain W' where "W' \<subseteq> W \<union> set curs" and
    "case r of Done v \<Rightarrow> s' = s\<lparr>ml_sources := base_of ss W'\<rparr>
     | Yielding pc' \<Rightarrow> \<exists>i'. ids pc' = (tmo, i') \<and> waiting co timeout tmo i' (base_of ss W') s' \<and>
         s' = s\<lparr>ml_sources := ml_sources s'\<rparr>" by blast
  then show ?case by (intro exI [of _ W']) auto
next
  case (return cur s pc v s1 curs)
  have "length (base_of ss W) < 2 ^ 32 - 4"
    using length_base_of [of ss W] assms(3) by linarith
  from resume_waiting [OF assms(2) return.prems return.hyps(2) this return.hyps(1)] show ?case
    by (intro exI [of _ "insert cur W"]) (auto simp: base_of_remove)
next
  case (again cur s pc pc' s1 curs r s')
  have "length (base_of ss W) < 2 ^ 32 - 4"
    using length_base_of [of ss W] assms(3) by linarith
  from resume_waiting [OF assms(2) again.prems again.hyps(2) this again.hyps(1)]
  obtain i' where i': "ids pc' = (tmo, i')"
    "waiting co timeout tmo i' (base_of ss (insert cur W)) (remove_source cur s1)"
    and u: "remove_source cur s1 = s\<lparr>ml_sources := ml_sources (remove_source cur s1)\<rparr>"
    by (auto simp: base_of_remove)
  have upd: "(remove_source cur s1)\<lparr>ml_sources := x\<rparr> = s\<lparr>ml_sources := x\<rparr>" for x
    by (subst u) simp
  from again.IH [OF i'] obtain W' where "W' \<subseteq> insert cur W \<union> set curs" and
    "case r of Done v \<Rightarrow> s' = s\<lparr>ml_sources := base_of ss W'\<rparr>
     | Yielding pc' \<Rightarrow> \<exists>i'. ids pc' = (tmo, i') \<and> waiting co timeout tmo i' (base_of ss W') s' \<and>
         s' = s\<lparr>ml_sources := ml_sources s'\<rparr>"
    unfolding upd by blast
  then show ?case by (intro exI [of _ W']) auto
qed

lemma call_sources:
  assumes "attach_lawful G" and "sources_ok (ml_sources s)" and "length (ml_sources s) < 2 ^ 32 - 4"
    and "start_timeout G co timeout s = (tmo, t)" and "io_step G co timeout tmo ids r t s1"
    and "case r of Done v \<Rightarrow> r' = Done v \<and> s' = s1
       | Yielding pc \<Rightarrow> dispatches G co timeout ids pc curs s1 r' s'"
  shows "\<exists>W. W \<subseteq> set curs \<and> (case r' of
      Done v \<Rightarrow> s' = s\<lparr>ml_sources := base_of (ml_sources s) W\<rparr>
    | Yielding pc' \<Rightarrow> \<exists>i. waiting co timeout tmo i (base_of (ml_sources s) W) s')"
proof (cases r)
  case (Done v)
  with begin_waiting [OF assms(1-5)] assms(6) show ?thesis by (intro exI [of _ "{}"]) simp
next
  case (Yielding pc)
  with begin_waiting [OF assms(1-5)] obtain i where i: "ids pc = (tmo, i)"
    "waiting co timeout tmo i (base_of (ml_sources s) {}) s1" and u: "s1 = s\<lparr>ml_sources := ml_sources s1\<rparr>"
    by auto
  have upd: "s1\<lparr>ml_sources := x\<rparr> = s\<lparr>ml_sources := x\<rparr>" for x
    by (subst u) simp
  from assms(6) Yielding have "dispatches G co timeout ids pc curs s1 r' s'" by simp
  from dispatches_sources [OF this assms(1,3) i] obtain W' where "W' \<subseteq> set curs" and
    "case r' of Done v \<Rightarrow> s' = s\<lparr>ml_sources := base_of (ml_sources s) W'\<rparr>
     | Yielding pc' \<Rightarrow> \<exists>i'. ids pc' = (tmo, i') \<and>
         waiting co timeout tmo i' (base_of (ml_sources s) W') s' \<and> s' = s1\<lparr>ml_sources := ml_sources s'\<rparr>"
    unfolding upd by blast
  then show ?thesis by (intro exI [of _ W']) (cases r'; auto)
qed

text \<open>
  C30. A call that reads a line or writes a buffer, however often the loop suspends it,
  leaves no event source of its own behind when it returns, on success, error, end of
  file and timeout alike: the sources attached before are there, except those that were
  dispatched meanwhile, and no other state changes.
\<close>

theorem channel_calls_clean_up:
  assumes "attach_lawful G" and "sources_ok (ml_sources s)" and "length (ml_sources s) < 2 ^ 32 - 4"
  shows "(channel_read_line G co timeout io ds s = (Done v, s') \<longrightarrow>
      (\<exists>W. W \<subseteq> fst ` set ds \<and> s' = s\<lparr>ml_sources := base_of (ml_sources s) W\<rparr>)) \<and>
    (channel_write G co timeout buf io ds s = (Done w, out, s'') \<longrightarrow>
      (\<exists>W. W \<subseteq> fst ` set ds \<and> s'' = s\<lparr>ml_sources := base_of (ml_sources s) W\<rparr>))"
proof (intro conjI impI)
  obtain tmo t where t: "start_timeout G co timeout s = (tmo, t)" by fastforce
  note * = call_sources [OF assms t]
  assume r: "channel_read_line G co timeout io ds s = (Done v, s')"
  obtain r io' s1 where loop: "read_line_loop G co timeout tmo io t = (r, io', s1)" by (rule prod_cases3)
  have "case r of Done u \<Rightarrow> Done v = (Done u :: (read_pc, _) co) \<and> s' = s1
     | Yielding pc \<Rightarrow> dispatches G co timeout read_ids pc (map fst ds) s1 (Done v) s'"
    using r by (auto simp: channel_read_line_def read_line_begin_def t loop
        dest: read_session_dispatches split: co.splits)
  from * [OF read_loop_step [OF loop] this]
  show "\<exists>W. W \<subseteq> fst ` set ds \<and> s' = s\<lparr>ml_sources := base_of (ml_sources s) W\<rparr>" by simp
next
  obtain tmo t where t: "start_timeout G co timeout s = (tmo, t)" by fastforce
  note * = call_sources [OF assms t]
  assume w: "channel_write G co timeout buf io ds s = (Done w, out, s'')"
  obtain r out1 io' s1 where loop: "write_loop G co timeout tmo buf 0 io t = (r, out1, io', s1)"
    by (rule prod_cases4)
  have "case r of Done u \<Rightarrow> Done w = (Done u :: (write_pc, _) co) \<and> s'' = s1
     | Yielding pc \<Rightarrow> dispatches G co timeout write_ids pc (map fst ds) s1 (Done w) s''"
    using w by (auto simp: channel_write_def write_begin_def t loop
        dest: write_session_dispatches split: co.splits prod.splits)
  from * [OF write_loop_step [OF loop] this]
  show "\<exists>W. W \<subseteq> fst ` set ds \<and> s'' = s\<lparr>ml_sources := base_of (ml_sources s) W\<rparr>" by simp
qed

text \<open>One source is attached; the call waits once and its timeout, with ID 2, ends it.\<close>

definition io_example :: MainContext where
  "io_example = \<lparr>ml_sources = [(1, S_other)]\<rparr>"

lemma channel_calls_clean_up_witness:
  "channel_read_line ref_glib S_main 1000 [Read_line Io_again []] [(2, [])] io_example =
     (Done (Inl (GError (Some COLOD_ERROR_TIMEOUT) ''Channel read timed out'')), io_example) \<and>
   (\<exists>W. W \<subseteq> {2} \<and> io_example = io_example\<lparr>ml_sources := base_of (ml_sources io_example) W\<rparr>)"
proof -
  have run: "channel_read_line ref_glib S_main 1000 [Read_line Io_again []] [(2, [])] io_example =
      (Done (Inl (GError (Some COLOD_ERROR_TIMEOUT) ''Channel read timed out'')), io_example)"
    by code_simp
  have ok: "sources_ok (ml_sources io_example)" "length (ml_sources io_example) < 2 ^ 32 - 4"
    by (simp_all add: io_example_def sources_ok_def)
  have "\<exists>W. W \<subseteq> fst ` set [(2, [] :: io_answer list)] \<and> io_example = io_example\<lparr>ml_sources := base_of (ml_sources io_example) W\<rparr>"
    by (rule channel_calls_clean_up [OF ref_attach_lawful ok, THEN conjunct1, THEN mp, OF run])
  with run show ?thesis by simp
qed

subsection \<open>The bytes that are written\<close>

text \<open>
  \<open>write_post buf r out\<close>: what \<open>r\<close> says when the bytes left to write are \<open>buf\<close> from
  \<open>offset\<close> on and \<open>out\<close> was taken.
\<close>

fun write_post :: "string \<Rightarrow> nat \<Rightarrow> (write_pc, unit fallible) co \<Rightarrow> string \<Rightarrow> bool" where
  "write_post buf offset (Done (Inr u)) out = (out = drop offset buf)"
| "write_post buf offset (Done (Inl e)) out = (\<exists>n. out = take n (drop offset buf))"
| "write_post buf offset (Yielding (Write_wait tmo i offset')) out =
     (offset \<le> offset' \<and> offset' < length buf \<and> out = take (offset' - offset) (drop offset buf))"
| "write_post buf offset (Yielding (Flush_wait tmo i)) out = (out = drop offset buf)"

lemma take_drop_split: "take n (drop o1 xs) @ take m (drop (o1 + n) xs) = take (n + m) (drop o1 xs)"
  by (simp add: take_add add.commute [of o1])

lemma write_post_trans:
  assumes "write_post buf (offset + n) r out"
  shows "write_post buf offset r (take n (drop offset buf) @ out)"
  using assms
proof (induction buf "offset + n" r out rule: write_post.induct)
  case (1 buf u out)
  then show ?case by (simp add: add.commute flip: drop_drop)
next
  case (2 buf e out)
  then obtain m where "out = take m (drop (offset + n) buf)" by auto
  then show ?case by (auto simp: take_drop_split)
next
  case (3 buf tmo i offset' out)
  then show ?case by (auto simp: take_drop_split)
next
  case (4 buf tmo i out)
  then show ?case by (simp add: add.commute flip: drop_drop)
qed

lemma flush_loop_post:
  "flush_loop G co timeout tmo io s = (r, out, io', s') \<Longrightarrow> length buf \<le> offset \<Longrightarrow>
     write_post buf offset r out"
  by (auto simp: flush_loop_def Let_def
      split: list.splits io_answer.splits io_status.splits if_splits prod.splits)

lemma write_loop_post:
  "write_loop G co timeout tmo buf offset io s = (r, out, io', s') \<Longrightarrow> write_post buf offset r out"
proof (induction G co timeout tmo buf offset io s arbitrary: out rule: write_loop.induct)
  case (1 G co timeout tmo buf offset io s)
  note IH = "1.IH" and eq = "1.prems" [unfolded write_loop.simps [of G co timeout tmo buf offset]]
  show ?case
  proof (cases "\<exists>st n io1. io = Write_chars st n # io1 \<and> n \<noteq> 0 \<and> offset < length buf \<and> (st = Io_normal \<or> st = Io_again)")
    case True
    then obtain st n io1 where *: "io = Write_chars st n # io1" "n \<noteq> 0" "offset < length buf"
      and st: "st = Io_normal \<or> st = Io_again" by blast
    from eq st * obtain out1 where o1: "write_loop G co timeout tmo buf (offset + n) io1 s = (r, out1, io', s')"
      and out: "out = take n (drop offset buf) @ out1"
      by (auto split: prod.splits)
    from st IH(1) [OF *(3,1)] IH(2) [OF *(3,1)] *(2) o1 have "write_post buf (offset + n) r out1" by auto
    then show ?thesis unfolding out by (rule write_post_trans)
  next
    case False
    show ?thesis
    proof (cases "offset < length buf")
      case True
      with eq False show ?thesis
        by (auto split: list.splits io_answer.splits io_status.splits if_splits prod.splits)
    next
      case False
      with eq show ?thesis by (intro flush_loop_post) auto
    qed
  qed
qed

fun write_offset :: "string \<Rightarrow> write_pc \<Rightarrow> nat" where
  "write_offset buf (Write_wait tmo i offset) = offset"
| "write_offset buf (Flush_wait tmo i) = length buf"

lemma write_resume_post:
  "write_resume G co timeout buf pc cur io s = (r, out, io', s') \<Longrightarrow>
     write_post buf (write_offset buf pc) r out"
  by (cases pc)
    (auto simp: write_timed_out_def intro: exI [of _ 0] dest: write_loop_post flush_loop_post split: if_splits)

lemma write_post_seq:
  assumes "write_post buf offset (Yielding pc) out" and "write_post buf (write_offset buf pc) r out'"
  shows "write_post buf offset r (out @ out')"
proof (cases pc)
  case (Write_wait tmo i offset')
  with assms write_post_trans [of buf offset "offset' - offset" r out'] show ?thesis by simp
next
  case (Flush_wait tmo i)
  with assms write_post_trans [of buf offset "length buf" r out'] show ?thesis
    by (cases "(buf, length buf, r, out')" rule: write_post.cases) (auto intro: exI [of _ "length buf"])
qed

lemma write_session_post:
  "write_session G co timeout buf pc ds s = (r, out, s') \<Longrightarrow> write_post buf (write_offset buf pc) r out \<or>
     r = Yielding pc \<and> out = []"
proof (induction G co timeout buf pc ds s arbitrary: r out s' rule: write_session.induct)
  case (2 G co timeout buf pc cur io ds s)
  show ?case
  proof (cases "cur \<in> source_ids (ml_sources s)")
    case True
    obtain r1 out1 io' s1 where r1: "write_resume G co timeout buf pc cur io s = (r1, out1, io', s1)"
      by (rule prod_cases4)
    note post = write_resume_post [OF r1]
    show ?thesis
    proof (cases r1)
      case (Done v)
      with post r1 2(3) True show ?thesis by simp
    next
      case (Yielding pc')
      obtain r2 out2 s2 where r2: "write_session G co timeout buf pc' ds (remove_source cur s1) = (r2, out2, s2)"
        by (rule prod_cases3)
      with 2(3) True r1 Yielding have *: "r = r2" "out = out1 @ out2" by simp_all
      from 2(2) True r1 Yielding r2 have "write_post buf (write_offset buf pc') r2 out2 \<or> r2 = Yielding pc' \<and> out2 = []"
        by simp
      with post Yielding * write_post_seq show ?thesis by auto
    qed
  next
    case False
    with 2 show ?thesis by simp
  qed
qed simp

text \<open>
  C31. \<open>_colod_channel_write_timeout_co\<close> hands the channel a prefix of the buffer, in order
  and without gaps or repetitions, however the channel splits the writes and the waits; when it
  returns success this prefix is the whole buffer, and it was flushed.
\<close>

theorem channel_write_in_order:
  assumes "channel_write G co timeout buf io ds s = (r, out, s')"
  shows "(\<exists>n. out = take n buf) \<and> (r = Done (Inr ()) \<longrightarrow> out = buf)"
proof -
  obtain r1 out1 io' s1 where r1: "write_begin G co timeout buf io s = (r1, out1, io', s1)"
    by (rule prod_cases4)
  then have post1: "write_post buf 0 r1 out1"
    by (auto simp: write_begin_def dest: write_loop_post split: prod.splits)
  have "write_post buf 0 r out"
  proof (cases r1)
    case (Done v)
    with post1 r1 assms show ?thesis by (simp add: channel_write_def)
  next
    case (Yielding pc)
    obtain r2 out2 s2 where r2: "write_session G co timeout buf pc ds s1 = (r2, out2, s2)"
      by (rule prod_cases3)
    with assms r1 Yielding have "r = r2" "out = out1 @ out2" by (simp_all add: channel_write_def)
    with write_session_post [OF r2] post1 Yielding write_post_seq show ?thesis by auto
  qed
  then show ?thesis
    by (cases "(buf, 0 :: nat, r, out)" rule: write_post.cases) (auto intro: exI [of _ "length buf"])
qed

lemma channel_write_in_order_witness:
  "channel_write ref_glib S_main 1000 ''abcd'' [Write_chars Io_normal 3, Write_chars Io_again 0]
     [(3, [Write_chars Io_normal 1, Flush Io_normal])] io_example = (Done (Inr ()), ''abcd'', io_example) \<and>
   (\<exists>n. ''abcd'' = take n ''abcd'')"
proof -
  have run: "channel_write ref_glib S_main 1000 ''abcd'' [Write_chars Io_normal 3, Write_chars Io_again 0]
     [(3, [Write_chars Io_normal 1, Flush Io_normal])] io_example = (Done (Inr ()), ''abcd'', io_example)"
    by code_simp
  from channel_write_in_order [OF run] run show ?thesis by blast
qed

text \<open>
  What a finished read returns: a non-empty line of the channel, the channel's error, end
  of file, or, only if the caller set a timeout, the timeout error.
\<close>

definition read_result_ok :: "guint \<Rightarrow> io_answer list \<Rightarrow> string fallible \<Rightarrow> bool" where
  "read_result_ok timeout answers v \<longleftrightarrow> (case v of
     Inr line \<Rightarrow> line \<noteq> [] \<and> Read_line Io_normal line \<in> set answers
   | Inl e \<Rightarrow> (\<exists>l. Read_line (Io_error e) l \<in> set answers) \<or>
       e = eof_error \<and> (\<exists>l. Read_line Io_eof l \<in> set answers) \<or>
       timeout \<noteq> 0 \<and> e = GError (Some COLOD_ERROR_TIMEOUT) ''Channel read timed out'')"

lemma read_line_loop_result:
  "read_line_loop G co timeout tmo io s = (Done v, io', s') \<Longrightarrow> read_result_ok timeout io v"
  by (auto simp: read_line_loop_def read_line_wait_def read_result_ok_def
      split: list.splits io_answer.splits io_status.splits if_splits prod.splits)

lemma read_line_resume_result:
  "read_line_resume G co timeout pc cur io s = (Done v, io', s') \<Longrightarrow> read_result_ok timeout io v"
  by (cases pc) (auto dest: read_line_loop_result simp: read_result_ok_def split: if_splits)

end
