(* ===== verification/Qmp_State.thy ===== *)
theory Qmp_State
  imports Cpg_Group Json_Util Channel_Io
begin

text \<open>
  The state of \<^verbatim>\<open>qmp.c\<close> and the operations on it that do not wait for QEMU: the
  sticky error, the yank flag, the timeout, the callback lists, parsing a line into a
  result, choosing the instances to yank, and the registration by which a coroutine
  waits for one QMP event. The reading and writing coroutines are in
  \<open>Qmp_Channel\<close>.
\<close>

subsection \<open>State\<close>

text \<open>
  A waiting coroutine owns one \<open>ColodWaitState\<close>; it is identified by the source
  that resumes the coroutine.
\<close>

record ColodWaitState =
  ws_match :: json
  ws_fired :: bool

text \<open>
  A channel is its lock; what it transfers is input, and output in \<open>ch_log\<close>: the bytes a
  coroutine sent and the lines it got, in order.
\<close>

datatype ch_io = Sent source string | Got_line source string

record QmpChannel =
  ch_lock :: CoroutineLock
  ch_discard_events :: bool
  ch_log :: "ch_io list"

record QmpState = Cpg +
  qmp_channel :: QmpChannel
  qmp_yank_channel :: QmpChannel
  qmp_timeout :: guint
  qmp_yank_instances :: "json option"
  qmp_yank_callbacks :: "callback callbacks"
  qmp_event_callbacks :: "callback callbacks"
  qmp_hup_callbacks :: "callback callbacks"
  qmp_did_yank :: bool
  qmp_error :: "gerror option"
  qmp_inflight :: guint
  qmp_hup_source_id :: guint
  qmp_waits :: "source \<Rightarrow> ColodWaitState option"

record ColodQmpResult =
  qr_json_root :: json
  qr_line :: string

definition free_lock :: CoroutineLock where
  "free_lock = \<lparr>lk_holder = None, lk_count = 0\<rparr>"

definition idle_channel :: "bool \<Rightarrow> QmpChannel" where
  "idle_channel discard = \<lparr>ch_lock = free_lock, ch_discard_events = discard, ch_log = []\<rparr>"

subsection \<open>Accessors\<close>

definition qmp_set_error :: "gerror \<Rightarrow> 'z QmpState_scheme \<Rightarrow> 'z QmpState_scheme" where
  "qmp_set_error e s = s\<lparr>qmp_error := Some e\<rparr>"

definition qmp_get_error :: "'z QmpState_scheme \<Rightarrow> unit fallible" where
  "qmp_get_error s = (case qmp_error s of
     Some e \<Rightarrow> Inl (g_prefix_error ''qmp: '' e) | None \<Rightarrow> Inr ())"

definition qmp_set_yank :: "'z QmpState_scheme \<Rightarrow> 'z QmpState_scheme" where
  "qmp_set_yank s = s\<lparr>qmp_did_yank := True\<rparr>"

definition qmp_get_yank :: "'z QmpState_scheme \<Rightarrow> bool" where
  "qmp_get_yank s = qmp_did_yank s"

definition qmp_clear_yank :: "'z QmpState_scheme \<Rightarrow> 'z QmpState_scheme" where
  "qmp_clear_yank s = s\<lparr>qmp_did_yank := False\<rparr>"

definition qmp_set_timeout :: "guint \<Rightarrow> 'z QmpState_scheme \<Rightarrow> 'z QmpState_scheme abortable" where
  "qmp_set_timeout timeout s = do { c_assert (timeout \<noteq> 0); Some (s\<lparr>qmp_timeout := timeout\<rparr>) }"

definition qmp_set_yank_instances :: "json \<Rightarrow> 'z QmpState_scheme \<Rightarrow> 'z QmpState_scheme" where
  "qmp_set_yank_instances instances s = s\<lparr>qmp_yank_instances := Some instances\<rparr>"

definition qmp_add_notify_event :: "callback \<Rightarrow> 'z QmpState_scheme \<Rightarrow> 'z QmpState_scheme abortable" where
  "qmp_add_notify_event func s = do {
     cbs \<leftarrow> colod_callback_add (qmp_event_callbacks s) func;
     Some (s\<lparr>qmp_event_callbacks := cbs\<rparr>) }"

definition qmp_del_notify_event :: "callback \<Rightarrow> 'z QmpState_scheme \<Rightarrow> 'z QmpState_scheme abortable" where
  "qmp_del_notify_event func s = do {
     cbs \<leftarrow> colod_callback_del (qmp_event_callbacks s) func;
     Some (s\<lparr>qmp_event_callbacks := cbs\<rparr>) }"

definition qmp_add_notify_yank :: "callback \<Rightarrow> 'z QmpState_scheme \<Rightarrow> 'z QmpState_scheme abortable" where
  "qmp_add_notify_yank func s = do {
     cbs \<leftarrow> colod_callback_add (qmp_yank_callbacks s) func;
     Some (s\<lparr>qmp_yank_callbacks := cbs\<rparr>) }"

definition qmp_del_notify_yank :: "callback \<Rightarrow> 'z QmpState_scheme \<Rightarrow> 'z QmpState_scheme abortable" where
  "qmp_del_notify_yank func s = do {
     cbs \<leftarrow> colod_callback_del (qmp_yank_callbacks s) func;
     Some (s\<lparr>qmp_yank_callbacks := cbs\<rparr>) }"

definition qmp_add_notify_hup :: "callback \<Rightarrow> 'z QmpState_scheme \<Rightarrow> 'z QmpState_scheme abortable" where
  "qmp_add_notify_hup func s = do {
     cbs \<leftarrow> colod_callback_add (qmp_hup_callbacks s) func;
     Some (s\<lparr>qmp_hup_callbacks := cbs\<rparr>) }"

definition qmp_del_notify_hup :: "callback \<Rightarrow> 'z QmpState_scheme \<Rightarrow> 'z QmpState_scheme abortable" where
  "qmp_del_notify_hup func s = do {
     cbs \<leftarrow> colod_callback_del (qmp_hup_callbacks s) func;
     Some (s\<lparr>qmp_hup_callbacks := cbs\<rparr>) }"

subsection \<open>Notification\<close>

type_synonym 's qmp_event_callback = "callback \<Rightarrow> json \<Rightarrow> 's \<Rightarrow> 's abortable"
type_synonym 's qmp_hup_callback = "callback \<Rightarrow> 's \<Rightarrow> 's abortable"

definition qmp_notify_event ::
    "'z QmpState_scheme qmp_event_callback \<Rightarrow> json \<Rightarrow> 'z QmpState_scheme \<Rightarrow> 'z QmpState_scheme abortable" where
  "qmp_notify_event f result s =
     qlist_foreach_safe qmp_event_callbacks (\<lambda>c. f c result) (qmp_event_callbacks s) s"

definition qmp_notify_yank ::
    "'z QmpState_scheme qmp_hup_callback \<Rightarrow> 'z QmpState_scheme \<Rightarrow> 'z QmpState_scheme abortable" where
  "qmp_notify_yank f s = qlist_foreach_safe qmp_yank_callbacks f (qmp_yank_callbacks s) s"

definition qmp_notify_hup ::
    "'z QmpState_scheme qmp_hup_callback \<Rightarrow> 'z QmpState_scheme \<Rightarrow> 'z QmpState_scheme abortable" where
  "qmp_notify_hup f s = qlist_foreach_safe qmp_hup_callbacks f (qmp_hup_callbacks s) s"

text \<open>The hang-up source fires once: the callback returns \<^verbatim>\<open>G_SOURCE_REMOVE\<close>.\<close>

definition qmp_hup_cb ::
    "'z QmpState_scheme qmp_hup_callback \<Rightarrow> 'z QmpState_scheme \<Rightarrow> (bool \<times> 'z QmpState_scheme) abortable" where
  "qmp_hup_cb f s = do {
     s1 \<leftarrow> qmp_notify_hup f s;
     Some (False, s1\<lparr>qmp_hup_source_id := 0\<rparr>) }"

subsection \<open>Results and the instances to yank\<close>

definition qmp_parse_result :: "json_glib \<Rightarrow> string \<Rightarrow> ColodQmpResult fallible" where
  "qmp_parse_result J line = (case json_from_string J line of
     None \<Rightarrow> Inl (GError None ''json_from_string'')
   | Some root \<Rightarrow>
       if \<not> holds_object root
       then Inl (GError (Some COLOD_ERROR_FATAL) (''Result is not a json object: '' @ line))
       else Inr \<lparr>qr_json_root = root, qr_line = line\<rparr>)"

text \<open>
  The elements of the \<^verbatim>\<open>return\<close> array of \<^verbatim>\<open>query-yank\<close> that match; a result
  without such an array is a NULL dereference.
\<close>

fun pick_loop :: "json_glib \<Rightarrow> json list \<Rightarrow> json \<Rightarrow> json list abortable" where
  "pick_loop J [] yank_matches = Some []"
| "pick_loop J (element # es) yank_matches = do {
     b \<leftarrow> object_matches_match_array J element yank_matches;
     out \<leftarrow> pick_loop J es yank_matches;
     Some (if b then element # out else out) }"

definition pick_yank_instances :: "json_glib \<Rightarrow> json \<Rightarrow> json option \<Rightarrow> string abortable" where
  "pick_yank_instances J result yank_matches = do {
     c_assert (holds_object result);
     matches \<leftarrow> c_nonnull yank_matches;
     c_assert (holds_array matches);
     node \<leftarrow> get_member_node result ''return'';
     arr \<leftarrow> c_nonnull node;
     c_assert (holds_array arr);
     out \<leftarrow> pick_loop J (json_elements arr) matches;
     Some (json_to_string J (JArray out)) }"

text \<open>
  C25. \<open>pick_yank_instances\<close> yanks exactly the instances QEMU lists that match one of
  the configured match objects, in QEMU's order; it aborts when no instances were
  configured, which is the state after \<^verbatim>\<open>qmp_new\<close>.
\<close>

theorem pick_yank_instances_exact:
  assumes "map_of ms ''return'' = Some (JArray es)" and "\<forall>m\<in>set matches. holds_object m"
  shows "pick_yank_instances J (JObject ms) (Some (JArray matches)) =
      Some (json_to_string J (JArray
        (filter (\<lambda>e. \<exists>m\<in>set matches. object_matches J e m = Some True) es))) \<and>
    pick_yank_instances J (JObject ms) None = None"
proof -
  have any: "matches_any J e matches' = Some (\<exists>m\<in>set matches'. object_matches J e m = Some True)"
    if "\<forall>m\<in>set matches'. holds_object m" for e matches'
    using that by (induction matches') (auto simp: object_matches_def)
  have "pick_loop J es' (JArray matches) =
      Some (filter (\<lambda>e. \<exists>m\<in>set matches. object_matches J e m = Some True) es')" for es'
    by (induction es') (auto simp: object_matches_match_array_def any [OF assms(2)])
  with assms(1) show ?thesis
    by (simp add: pick_yank_instances_def get_member_node_def)
qed

lemma pick_yank_instances_exact_witness:
  "pick_yank_instances
     \<lparr>json_from_string = (\<lambda>_. None), json_to_string = (\<lambda>j. if j = JArray [JObject [(''id'', JInt 1)]] then ''ok'' else ''''),
      json_node_equal = (=)\<rparr>
     (JObject [(''return'', JArray [JObject [(''id'', JInt 1)], JObject [(''id'', JInt 2)]])])
     (Some (JArray [JObject [(''id'', JInt 1)]])) = Some ''ok''"
  using pick_yank_instances_exact
    [of "[(''return'', JArray [JObject [(''id'', JInt 1)], JObject [(''id'', JInt 2)]])]"
      "[JObject [(''id'', JInt 1)], JObject [(''id'', JInt 2)]]" "[JObject [(''id'', JInt 1)]]"]
  by (auto simp: object_matches_def)

subsection \<open>Waiting for an event\<close>

text \<open>
  \<open>qmp_wait_event_co\<close> up to its yield, its callback, and the rest after the yield.
  \<open>co\<close> is the source that resumes the waiting coroutine, \<open>cur\<close> the ID of the
  source that resumed it (\<^verbatim>\<open>g_main_current_source\<close>). The fired idle source has no
  destroy callback. The first part returns the ID of the timeout source, or 0.
\<close>

definition qmp_wait_event_begin ::
    "'e glib \<Rightarrow> json_glib \<Rightarrow> source \<Rightarrow> guint \<Rightarrow> string \<Rightarrow> 'z QmpState_scheme \<Rightarrow>
     (guint \<times> 'z QmpState_scheme) abortable" where
  "qmp_wait_event_begin G J co timeout match s = do {
     parsed \<leftarrow> c_nonnull (json_from_string J match);
     let s1 = s\<lparr>qmp_waits := (qmp_waits s)(co := Some \<lparr>ws_match = parsed, ws_fired = False\<rparr>)\<rparr>;
     s2 \<leftarrow> qmp_add_notify_event (CB_wait_event co) s1;
     Some (if timeout \<noteq> 0 then add_source G co s2 else (0, s2)) }"

definition qmp_wait_event_cb ::
    "'e glib \<Rightarrow> json_glib \<Rightarrow> source \<Rightarrow> json \<Rightarrow> 'z QmpState_scheme \<Rightarrow> 'z QmpState_scheme abortable" where
  "qmp_wait_event_cb G J co result s = do {
     ws \<leftarrow> c_nonnull (qmp_waits s co);
     m \<leftarrow> object_matches J result (ws_match ws);
     if m then
       let s1 = s\<lparr>qmp_waits := (qmp_waits s)(co := Some (ws\<lparr>ws_fired := True\<rparr>))\<rparr>;
           (i, s2) = add_source G co s1
       in qmp_del_notify_event (CB_wait_event co) s2
     else Some s }"

definition qmp_wait_event_end ::
    "source \<Rightarrow> guint \<Rightarrow> guint \<Rightarrow> string \<Rightarrow> guint \<Rightarrow> 'z QmpState_scheme \<Rightarrow>
     (unit fallible \<times> 'z QmpState_scheme) abortable" where
  "qmp_wait_event_end co timeout timeout_source_id match cur s = do {
     ws \<leftarrow> c_nonnull (qmp_waits s co);
     (ret, s1) \<leftarrow>
       (if \<not> ws_fired ws then do {
          let ret = (if cur = timeout_source_id
            then Inl (GError (Some COLOD_ERROR_TIMEOUT)
              (''Timeout reached while waiting for qmp event: '' @ match))
            else Inl (GError (Some COLOD_ERROR_INTERRUPT)
              (''Got interrupted while waiting for qmp event: '' @ match)));
          s1 \<leftarrow> qmp_del_notify_event (CB_wait_event co) s;
          Some (ret, s1) }
        else Some (Inr (), s));
     let s2 = (if timeout \<noteq> 0 then remove_source timeout_source_id s1 else s1);
     Some (ret, s2\<lparr>qmp_waits := (qmp_waits s2)(co := None)\<rparr>) }"

text \<open>The callbacks of \<open>event_callbacks\<close>: the waiting ones, and the others (\<open>f\<close>).\<close>

fun qmp_event_dispatch ::
    "'e glib \<Rightarrow> json_glib \<Rightarrow> 'z QmpState_scheme qmp_event_callback \<Rightarrow> 'z QmpState_scheme qmp_event_callback" where
  "qmp_event_dispatch G J f (CB_wait_event co) result s = qmp_wait_event_cb G J co result s"
| "qmp_event_dispatch G J f c result s = f c result s"

text \<open>The other callbacks do not touch the registrations.\<close>

definition qmp_event_client :: "'z QmpState_scheme qmp_event_callback \<Rightarrow> bool" where
  "qmp_event_client f \<longleftrightarrow> (\<forall>c r s s'. f c r s = Some s' \<longrightarrow>
     qmp_waits s' = qmp_waits s \<and> qmp_event_callbacks s' = qmp_event_callbacks s)"

text \<open>Whether this event ends a wait.\<close>

definition wait_hit :: "json_glib \<Rightarrow> json \<Rightarrow> ColodWaitState \<Rightarrow> bool" where
  "wait_hit J result ws \<longleftrightarrow> object_matches J result (ws_match ws) = Some True"

definition wait_after :: "json_glib \<Rightarrow> json \<Rightarrow> ColodWaitState \<Rightarrow> ColodWaitState" where
  "wait_after J result ws = (if wait_hit J result ws then ws\<lparr>ws_fired := True\<rparr> else ws)"

definition hits :: "json_glib \<Rightarrow> json \<Rightarrow> 'z QmpState_scheme \<Rightarrow> callback \<Rightarrow> bool" where
  "hits J result s c \<longleftrightarrow> (\<exists>co ws. c = CB_wait_event co \<and> qmp_waits s co = Some ws \<and> wait_hit J result ws)"

lemma qmp_wait_event_cb_Some:
  assumes "qmp_wait_event_cb G J co result s = Some s'"
  shows "\<exists>ws. qmp_waits s co = Some ws \<and>
    qmp_waits s' = (qmp_waits s)(co := Some (wait_after J result ws)) \<and>
    qmp_event_callbacks s' =
      (if wait_hit J result ws then remove1 (CB_wait_event co) (qmp_event_callbacks s)
       else qmp_event_callbacks s)"
proof -
  from assms obtain ws m where ws: "qmp_waits s co = Some ws"
    and m: "object_matches J result (ws_match ws) = Some m"
    by (auto simp: qmp_wait_event_cb_def c_nonnull_def bind_eq_Some_conv)
  show ?thesis
    using assms ws m
    by (intro exI [of _ ws])
      (auto simp: qmp_wait_event_cb_def wait_after_def wait_hit_def qmp_del_notify_event_def
        colod_callback_del_def colod_callback_find_iff add_source_def Let_def fun_upd_idem
        split: if_splits prod.splits)
qed

lemma qmp_event_dispatch_Some:
  assumes "qmp_event_dispatch G J f c result s = Some s'" and "qmp_event_client f"
    and "distinct (qmp_event_callbacks s)"
  shows "qmp_event_callbacks s' = filter (\<lambda>d. \<not> (d = c \<and> hits J result s c)) (qmp_event_callbacks s)"
    and "qmp_waits s' = (\<lambda>co. if c = CB_wait_event co
           then map_option (wait_after J result) (qmp_waits s co) else qmp_waits s co)"
proof -
  have "qmp_event_callbacks s' = filter (\<lambda>d. \<not> (d = c \<and> hits J result s c)) (qmp_event_callbacks s)
    \<and> qmp_waits s' = (\<lambda>co. if c = CB_wait_event co
           then map_option (wait_after J result) (qmp_waits s co) else qmp_waits s co)"
  proof (cases "\<exists>co. c = CB_wait_event co")
    case True
    then obtain co where [simp]: "c = CB_wait_event co" by blast
    from assms(1) qmp_wait_event_cb_Some [of G J co result s s'] assms(3) show ?thesis
      by (fastforce simp: hits_def distinct_remove1_removeAll removeAll_filter_not_eq
          intro!: filter_cong filter_True [symmetric])
  next
    case False
    then have "f c result s = Some s'" using assms(1) by (cases c) auto
    with assms(2) have "qmp_waits s' = qmp_waits s" "qmp_event_callbacks s' = qmp_event_callbacks s"
      by (auto simp: qmp_event_client_def)
    with False show ?thesis by (auto simp: hits_def intro!: filter_True [symmetric])
  qed
  then show "qmp_event_callbacks s' = filter (\<lambda>d. \<not> (d = c \<and> hits J result s c)) (qmp_event_callbacks s)"
    and "qmp_waits s' = (\<lambda>co. if c = CB_wait_event co
           then map_option (wait_after J result) (qmp_waits s co) else qmp_waits s co)"
    by auto
qed

lemma qmp_notify_loop:
  assumes "qlist_foreach_safe qmp_event_callbacks (\<lambda>c. qmp_event_dispatch G J f c result) cs s = Some s'"
    and "qmp_event_client f" and "distinct (qmp_event_callbacks s)"
    and "set cs \<subseteq> set (qmp_event_callbacks s)" and "distinct cs"
  shows "qmp_event_callbacks s' =
      filter (\<lambda>d. \<not> (d \<in> set cs \<and> hits J result s d)) (qmp_event_callbacks s) \<and>
    qmp_waits s' = (\<lambda>co. if CB_wait_event co \<in> set cs
      then map_option (wait_after J result) (qmp_waits s co) else qmp_waits s co)"
  using assms
proof (induction cs arbitrary: s)
  case Nil
  then show ?case by simp
next
  case (Cons c cs)
  have live: "filter (\<lambda>d. d \<in> set (qmp_event_callbacks s)) cs = cs"
    using Cons.prems(4) by (auto intro!: filter_True)
  with Cons.prems(1) obtain s1 where s1: "qmp_event_dispatch G J f c result s = Some s1"
    and rest: "qlist_foreach_safe qmp_event_callbacks (\<lambda>c. qmp_event_dispatch G J f c result) cs s1 = Some s'"
    by (auto simp: bind_eq_Some_conv)
  note step = qmp_event_dispatch_Some [OF s1 assms(2) Cons.prems(3)]
  have "hits J result s1 d = hits J result s d" if "d \<in> set cs" for d
    using that Cons.prems(5) by (auto simp: hits_def step(2))
  moreover have "set cs \<subseteq> set (qmp_event_callbacks s1)" "distinct (qmp_event_callbacks s1)"
    using Cons.prems(3,4,5) by (auto simp: step(1))
  ultimately show ?case
    using Cons.IH [OF rest assms(2)] Cons.prems(5)
    by (auto simp: step fun_eq_iff intro!: filter_cong)
qed

lemma qmp_notify_event_effect:
  assumes "qmp_notify_event (qmp_event_dispatch G J f) result s = Some s'"
    and "qmp_event_client f" and "distinct (qmp_event_callbacks s)"
  shows "qmp_event_callbacks s' = filter (\<lambda>d. \<not> hits J result s d) (qmp_event_callbacks s)"
    and "qmp_waits s' = (\<lambda>co. if CB_wait_event co \<in> set (qmp_event_callbacks s)
      then map_option (wait_after J result) (qmp_waits s co) else qmp_waits s co)"
  using qmp_notify_loop [OF assms(1) [unfolded qmp_notify_event_def] assms(2,3)] assms(3)
  by (auto intro!: filter_cong)

fun qmp_notify_events ::
    "'z QmpState_scheme qmp_event_callback \<Rightarrow> json list \<Rightarrow> 'z QmpState_scheme \<Rightarrow> 'z QmpState_scheme abortable" where
  "qmp_notify_events f [] s = Some s"
| "qmp_notify_events f (r # rs) s = do { s' \<leftarrow> qmp_notify_event f r s; qmp_notify_events f rs s' }"

definition waiting_for :: "json_glib \<Rightarrow> source \<Rightarrow> json \<Rightarrow> bool \<Rightarrow> 'z QmpState_scheme \<Rightarrow> bool" where
  "waiting_for J co match fired s \<longleftrightarrow> distinct (qmp_event_callbacks s) \<and>
     qmp_waits s co = Some \<lparr>ws_match = match, ws_fired = fired\<rparr> \<and>
     (CB_wait_event co \<in> set (qmp_event_callbacks s) \<longleftrightarrow> \<not> fired)"

lemma qmp_wait_event_begin_Some:
  assumes "qmp_wait_event_begin G J co timeout match s = Some (tid, s')"
    and "distinct (qmp_event_callbacks s)"
  shows "\<exists>m. json_from_string J match = Some m \<and> waiting_for J co m False s'"
  using assms
  by (auto simp: qmp_wait_event_begin_def qmp_add_notify_event_def colod_callback_add_def c_nonnull_def
      colod_callback_find_iff bind_eq_Some_conv waiting_for_def add_source_def Let_def
      split: if_splits prod.splits)

lemma waiting_for_notify:
  assumes "qmp_notify_event (qmp_event_dispatch G J f) r s = Some s'"
    and "qmp_event_client f" and "waiting_for J co m fired s"
  shows "waiting_for J co m (fired \<or> object_matches J r m = Some True) s'"
proof -
  have d: "distinct (qmp_event_callbacks s)"
    using assms(3) by (simp add: waiting_for_def)
  note eff = qmp_notify_event_effect [OF assms(1,2) d]
  show ?thesis
    using assms(3)
    by (auto simp: waiting_for_def eff hits_def wait_after_def wait_hit_def)
qed

lemma waiting_for_notify_all:
  assumes "qmp_notify_events (qmp_event_dispatch G J f) rs s = Some s'"
    and "qmp_event_client f" and "waiting_for J co m fired s"
  shows "waiting_for J co m (fired \<or> (\<exists>r\<in>set rs. object_matches J r m = Some True)) s'"
  using assms
proof (induction rs arbitrary: s fired)
  case Nil
  then show ?case by simp
next
  case (Cons r rs)
  then obtain s1 where "qmp_notify_event (qmp_event_dispatch G J f) r s = Some s1"
    "qmp_notify_events (qmp_event_dispatch G J f) rs s1 = Some s'"
    by (auto simp: bind_eq_Some_conv)
  with Cons.IH waiting_for_notify [OF _ assms(2)] Cons.prems(3) have
    "waiting_for J co m ((fired \<or> object_matches J r m = Some True) \<or>
       (\<exists>r\<in>set rs. object_matches J r m = Some True)) s'"
    using assms(2) by blast
  then show ?case by (auto simp: disj_ac elim!: back_subst [of "\<lambda>b. waiting_for J co m b s'"])
qed

lemma qmp_wait_event_end_eq:
  assumes "waiting_for J co m fired s"
  shows "\<exists>s'. qmp_wait_event_end co timeout tid match cur s = Some
      (if fired then Inr ()
       else Inl (GError (Some (if cur = tid then COLOD_ERROR_TIMEOUT else COLOD_ERROR_INTERRUPT))
         ((if cur = tid then ''Timeout reached while waiting for qmp event: ''
           else ''Got interrupted while waiting for qmp event: '') @ match)), s') \<and>
    qmp_waits s' co = None \<and> CB_wait_event co \<notin> set (qmp_event_callbacks s')"
  using assms
  by (auto simp: qmp_wait_event_end_def waiting_for_def qmp_del_notify_event_def colod_callback_del_def
      colod_callback_find_iff remove_source_def Let_def)


definition wait_witness_json :: json_glib where
  "wait_witness_json = \<lparr>json_from_string = (\<lambda>s. Some (JObject [(''event'', JString ''RESUME'')])),
     json_to_string = (\<lambda>_. ''''), json_node_equal = (=)\<rparr>"

definition wait_witness_state :: QmpState where
  "wait_witness_state = \<lparr>ml_sources = [], cpg_callbacks = [], cpg_source_id = 0, cpg_retransmit_source_id = 0,
     cpg_retransmit = [], cpg_mcast = [],
     qmp_channel = idle_channel False, qmp_yank_channel = idle_channel True, qmp_timeout = 1, qmp_yank_instances = None,
     qmp_yank_callbacks = [], qmp_event_callbacks = [], qmp_hup_callbacks = [],
     qmp_did_yank = False, qmp_error = None, qmp_inflight = 0, qmp_hup_source_id = 0, qmp_waits = (\<lambda>_. None)\<rparr>"


end
