(* ===== verification/Yellow.thy ===== *)
theory Yellow
  imports Event_Queue Qmp_State
begin

text \<open>
  \<^verbatim>\<open>yellow_coroutine.c\<close>: the debouncer of the monitored network link. A link
  change is announced to the peer once it has lasted for \<open>timeout1\<close> and reported to
  the clients once it has lasted for \<open>timeout2\<close> more; a change back before that
  cancels it, and takes an announcement back. The coroutine is a state machine whose
  states are its yields; its two inputs are link events and its own timers.
\<close>

subsection \<open>State\<close>

text \<open>
  The suspension points of \<open>yellow_delay_co\<close>: before its first statement, after
  ignoring an event, and in one of the two waits, with the ID of the running timer.
\<close>

datatype delay_pc = D_begin | D_ignored | D_wait1 guint | D_wait2 guint

text \<open>
  The coroutine is inside \<open>yellow_delay_co\<close> for a target, or has just reported one
  and yielded, or has returned.
\<close>

datatype yellow_pc = Y_delay ColodEvent delay_pc | Y_notified ColodEvent | Y_done

record YellowCoroutine = QmpState +
  yl_pc :: yellow_pc
  yl_quit :: bool
  yl_monitor_interface :: "string option"
  yl_listening :: bool
  yl_callbacks :: "callback callbacks"
  yl_timeout1 :: guint
  yl_timeout2 :: guint

definition yellow_add_notify :: "callback \<Rightarrow> 'z YellowCoroutine_scheme \<Rightarrow> 'z YellowCoroutine_scheme abortable" where
  "yellow_add_notify func this = do {
     cbs \<leftarrow> colod_callback_add (yl_callbacks this) func;
     Some (this\<lparr>yl_callbacks := cbs\<rparr>) }"

definition yellow_del_notify :: "callback \<Rightarrow> 'z YellowCoroutine_scheme \<Rightarrow> 'z YellowCoroutine_scheme abortable" where
  "yellow_del_notify func this = do {
     cbs \<leftarrow> colod_callback_del (yl_callbacks this) func;
     Some (this\<lparr>yl_callbacks := cbs\<rparr>) }"

type_synonym 's yellow_callback = "callback \<Rightarrow> ColodEvent \<Rightarrow> 's \<Rightarrow> 's abortable"

definition yellow_notify ::
    "'z YellowCoroutine_scheme yellow_callback \<Rightarrow> ColodEvent \<Rightarrow> 'z YellowCoroutine_scheme \<Rightarrow>
     'z YellowCoroutine_scheme abortable" where
  "yellow_notify f event this =
     qlist_foreach_safe yl_callbacks (\<lambda>c. f c event) (yl_callbacks this) this"

subsection \<open>The coroutine\<close>

definition yellow_send_target_message ::
    "'e glib \<Rightarrow> ColodEvent \<Rightarrow> 'z YellowCoroutine_scheme \<Rightarrow> 'z YellowCoroutine_scheme abortable" where
  "yellow_send_target_message G target_event this =
     (if target_event = EVENT_YELLOW then colod_cpg_send G MESSAGE_YELLOW this
      else colod_cpg_send G MESSAGE_UNYELLOW this)"

definition yellow_send_revert_message ::
    "'e glib \<Rightarrow> ColodEvent \<Rightarrow> 'z YellowCoroutine_scheme \<Rightarrow> 'z YellowCoroutine_scheme abortable" where
  "yellow_send_revert_message G target_event this =
     (if target_event = EVENT_YELLOW then colod_cpg_send G MESSAGE_UNYELLOW this
      else colod_cpg_send G MESSAGE_YELLOW this)"

datatype delay_result = Delay_yield delay_pc | Delay_return int

text \<open>
  The event is \<open>None\<close> for the 0 that a timer passes. \<open>delay_top\<close> is the loop body
  from its first statement to the next yield or return.
\<close>

definition delay_top ::
    "'e glib \<Rightarrow> ColodEvent \<Rightarrow> ColodEvent option \<Rightarrow> 'z YellowCoroutine_scheme \<Rightarrow>
     (delay_result \<times> 'z YellowCoroutine_scheme) abortable" where
  "delay_top G target_event event this = do {
     c_assert (event \<noteq> None);
     if event = Some EVENT_QUIT then Some (Delay_return (-1), this)
     else if event \<noteq> Some target_event then Some (Delay_yield D_ignored, this)
     else let (i, this1) = add_source G S_yellow this
          in Some (Delay_yield (D_wait1 i), this1) }"

fun yellow_delay_co ::
    "'e glib \<Rightarrow> ColodEvent \<Rightarrow> delay_pc \<Rightarrow> ColodEvent option \<Rightarrow> 'z YellowCoroutine_scheme \<Rightarrow>
     (delay_result \<times> 'z YellowCoroutine_scheme) abortable" where
  "yellow_delay_co G target_event D_begin event this = delay_top G target_event event this"
| "yellow_delay_co G target_event D_ignored event this = delay_top G target_event event this"
| "yellow_delay_co G target_event (D_wait1 i) event this =
     (if event = Some target_event then Some (Delay_yield (D_wait1 i), this)
      else if event \<noteq> None then delay_top G target_event event (remove_source i this)
      else do {
        this1 \<leftarrow> yellow_send_target_message G target_event this;
        let (j, this2) = add_source G S_yellow this1
        in Some (Delay_yield (D_wait2 j), this2) })"
| "yellow_delay_co G target_event (D_wait2 i) event this =
     (if event = Some target_event then Some (Delay_yield (D_wait2 i), this)
      else if event \<noteq> None then do {
        this1 \<leftarrow> yellow_send_revert_message G target_event this;
        delay_top G target_event event (remove_source i this1) }
      else Some (Delay_return 0, this))"

fun opposite :: "ColodEvent \<Rightarrow> ColodEvent" where
  "opposite EVENT_YELLOW = EVENT_UNYELLOW"
| "opposite _ = EVENT_YELLOW"

text \<open>
  \<open>yellow_co_enter\<close> is \<^verbatim>\<open>co_enter\<close> of \<open>_yellow_co\<close>: its loop alternates the two
  targets. The program counter is the coroutine's frame; when the coroutine has
  returned, the assertion of \<^verbatim>\<open>co_enter\<close> fails.
\<close>

definition yellow_in_delay ::
    "'e glib \<Rightarrow> 'z YellowCoroutine_scheme yellow_callback \<Rightarrow> ColodEvent \<Rightarrow> delay_pc \<Rightarrow>
     ColodEvent option \<Rightarrow> 'z YellowCoroutine_scheme \<Rightarrow> 'z YellowCoroutine_scheme abortable" where
  "yellow_in_delay G f target d event this = do {
     (r, this1) \<leftarrow> yellow_delay_co G target d event this;
     (case r of
        Delay_yield d' \<Rightarrow> Some (this1\<lparr>yl_pc := Y_delay target d'\<rparr>)
      | Delay_return ret \<Rightarrow>
          if ret < 0 then Some (this1\<lparr>yl_pc := Y_done\<rparr>)
          else do {
            this2 \<leftarrow> yellow_notify f target this1;
            Some (this2\<lparr>yl_pc := Y_notified target\<rparr>) }) }"

definition yellow_co_enter ::
    "'e glib \<Rightarrow> 'z YellowCoroutine_scheme yellow_callback \<Rightarrow> ColodEvent option \<Rightarrow>
     'z YellowCoroutine_scheme \<Rightarrow> 'z YellowCoroutine_scheme abortable" where
  "yellow_co_enter G f event this = (case yl_pc this of
     Y_done \<Rightarrow> None
   | Y_delay target d \<Rightarrow> yellow_in_delay G f target d event this
   | Y_notified target \<Rightarrow> yellow_in_delay G f (opposite target) D_begin event this)"

text \<open>The timers run \<open>yellow_co\<close>, which asserts that the coroutine yields again.\<close>

definition yellow_co ::
    "'e glib \<Rightarrow> 'z YellowCoroutine_scheme yellow_callback \<Rightarrow> 'z YellowCoroutine_scheme \<Rightarrow>
     'z YellowCoroutine_scheme abortable" where
  "yellow_co G f this = do {
     this1 \<leftarrow> yellow_co_enter G f None this;
     c_assert (yl_pc this1 \<noteq> Y_done);
     Some this1 }"

definition yellow_timer_dispatch ::
    "'e glib \<Rightarrow> 'z YellowCoroutine_scheme yellow_callback \<Rightarrow> guint \<Rightarrow> 'z YellowCoroutine_scheme \<Rightarrow>
     'z YellowCoroutine_scheme abortable" where
  "yellow_timer_dispatch G f i this = do {
     this1 \<leftarrow> yellow_co G f this;
     Some (remove_source i this1) }"

definition yellow_queue_event ::
    "'e glib \<Rightarrow> 'z YellowCoroutine_scheme yellow_callback \<Rightarrow> ColodEvent \<Rightarrow> 'z YellowCoroutine_scheme \<Rightarrow>
     'z YellowCoroutine_scheme abortable" where
  "yellow_queue_event G f event this = do {
     c_assert (event = EVENT_QUIT \<or> event = EVENT_YELLOW \<or> event = EVENT_UNYELLOW);
     this1 \<leftarrow> yellow_co_enter G f (Some event) this;
     Some (if yl_pc this1 \<noteq> Y_done then this1 else this1\<lparr>yl_quit := True\<rparr>) }"

definition yellow_netlink_event_cb ::
    "'e glib \<Rightarrow> 'z YellowCoroutine_scheme yellow_callback \<Rightarrow> string \<Rightarrow> bool \<Rightarrow> 'z YellowCoroutine_scheme \<Rightarrow>
     'z YellowCoroutine_scheme abortable" where
  "yellow_netlink_event_cb G f ifname up this = (case yl_monitor_interface this of
     None \<Rightarrow> Some this
   | Some monitor \<Rightarrow>
       if ifname = monitor
       then (if up then yellow_queue_event G f EVENT_UNYELLOW this
             else yellow_queue_event G f EVENT_YELLOW this)
       else Some this)"

text \<open>
  \<open>yl_listening\<close> says whether the callback is registered with the netlink socket;
  deregistering it twice fails an assertion.
\<close>

definition yellow_shutdown ::
    "'e glib \<Rightarrow> 'z YellowCoroutine_scheme yellow_callback \<Rightarrow> 'z YellowCoroutine_scheme \<Rightarrow>
     'z YellowCoroutine_scheme abortable" where
  "yellow_shutdown G f this =
     (if yl_quit this then Some this
      else do {
        c_assert (yl_listening this);
        this1 \<leftarrow> yellow_queue_event G f EVENT_QUIT (this\<lparr>yl_listening := False\<rparr>);
        c_assert (yl_quit this1);
        Some this1 })"

definition yellow_coroutine_free ::
    "'e glib \<Rightarrow> 'z YellowCoroutine_scheme yellow_callback \<Rightarrow> 'z YellowCoroutine_scheme \<Rightarrow>
     'z YellowCoroutine_scheme abortable" where
  "yellow_coroutine_free G f this = do {
     this1 \<leftarrow> yellow_shutdown G f this;
     Some (this1\<lparr>yl_callbacks := colod_callback_clear (yl_callbacks this1)\<rparr>) }"

text \<open>
  The fields \<open>yellow_coroutine_new\<close> sets when both netlink calls succeed; a failing
  request frees the coroutine again, which shuts it down.
\<close>

definition yellow_coroutine_new ::
    "'e glib \<Rightarrow> 'z YellowCoroutine_scheme yellow_callback \<Rightarrow> bool \<Rightarrow> bool \<Rightarrow> string option \<Rightarrow>
     guint \<Rightarrow> guint \<Rightarrow> 'z YellowCoroutine_scheme \<Rightarrow> (bool \<times> 'z YellowCoroutine_scheme) abortable" where
  "yellow_coroutine_new G f netlink_ok request_ok monitor timeout1 timeout2 this =
     (let this1 = this\<lparr>yl_pc := Y_delay EVENT_YELLOW D_begin, yl_quit := False,
        yl_monitor_interface := monitor, yl_listening := False, yl_callbacks := [],
        yl_timeout1 := timeout1, yl_timeout2 := timeout2\<rparr> in
      if \<not> netlink_ok then Some (False, this)
      else let this2 = this1\<lparr>yl_listening := True\<rparr> in
        if \<not> request_ok then do { this3 \<leftarrow> yellow_coroutine_free G f this2; Some (False, this3) }
        else Some (True, this2))"

subsection \<open>Inputs and the invariant\<close>

text \<open>
  A run of the coroutine: the link comes up or goes down, a timer of its own expires
  (the main loop dispatches what is attached), or the main coroutine shuts it down.
  After the shutdown netlink no longer calls it.
\<close>

datatype yellow_input = Link bool | Timer | Shutdown

definition yellow_input_step ::
    "'e glib \<Rightarrow> 'z YellowCoroutine_scheme yellow_callback \<Rightarrow> string \<Rightarrow> yellow_input \<Rightarrow>
     'z YellowCoroutine_scheme \<Rightarrow> 'z YellowCoroutine_scheme abortable" where
  "yellow_input_step G f ifname inp s = (case inp of
     Link up \<Rightarrow> if yl_listening s then yellow_netlink_event_cb G f ifname up s else Some s
   | Timer \<Rightarrow> (case sources_of S_yellow (ml_sources s) of
        [] \<Rightarrow> Some s
      | (i, d) # _ \<Rightarrow> yellow_timer_dispatch G f i s)
   | Shutdown \<Rightarrow> yellow_shutdown G f s)"

fun yellow_run ::
    "'e glib \<Rightarrow> 'z YellowCoroutine_scheme yellow_callback \<Rightarrow> string \<Rightarrow> yellow_input list \<Rightarrow>
     'z YellowCoroutine_scheme \<Rightarrow> 'z YellowCoroutine_scheme abortable" where
  "yellow_run G f ifname [] s = Some s"
| "yellow_run G f ifname (i # is) s = do {
     s' \<leftarrow> yellow_input_step G f ifname i s; yellow_run G f ifname is s' }"

fun pc_timers :: "yellow_pc \<Rightarrow> source sources" where
  "pc_timers (Y_delay t (D_wait1 i)) = [(i, S_yellow)]"
| "pc_timers (Y_delay t (D_wait2 i)) = [(i, S_yellow)]"
| "pc_timers _ = []"

fun pc_ok :: "yellow_pc \<Rightarrow> bool" where
  "pc_ok (Y_delay t d) \<longleftrightarrow> (t = EVENT_YELLOW \<or> t = EVENT_UNYELLOW) \<and> (d = D_begin \<longrightarrow> t = EVENT_YELLOW)"
| "pc_ok (Y_notified t) \<longleftrightarrow> t = EVENT_YELLOW \<or> t = EVENT_UNYELLOW"
| "pc_ok Y_done \<longleftrightarrow> True"

text \<open>
  The main context as the coroutine sees it: its timers are \<open>ts\<close>, the retransmission
  timer is the one CPG knows, and there is room for a few more sources.
\<close>

definition context_ok :: "source sources \<Rightarrow> 'z YellowCoroutine_scheme \<Rightarrow> bool" where
  "context_ok ts s \<longleftrightarrow> cpg_inv s \<and> sources_ok (ml_sources s) \<and>
     sources_of S_yellow (ml_sources s) = ts \<and>
     sources_of S_cpg_retransmit (ml_sources s) =
       (if cpg_retransmit_source_id s = 0 then []
        else [(cpg_retransmit_source_id s, S_cpg_retransmit)]) \<and>
     length (filter (\<lambda>x. snd x \<noteq> S_yellow \<and> snd x \<noteq> S_cpg_retransmit) (ml_sources s)) < 2 ^ 32 - 8"

definition yellow_inv :: "'z YellowCoroutine_scheme \<Rightarrow> bool" where
  "yellow_inv s \<longleftrightarrow> context_ok (pc_timers (yl_pc s)) s \<and> pc_ok (yl_pc s) \<and>
     (yl_quit s \<longleftrightarrow> yl_pc s = Y_done) \<and> (yl_listening s \<longleftrightarrow> \<not> yl_quit s)"

lemma length_sources_split:
  "length ss = length (sources_of S_yellow ss) + length (sources_of S_cpg_retransmit ss) +
     length (filter (\<lambda>x. snd x \<noteq> S_yellow \<and> snd x \<noteq> S_cpg_retransmit) ss)"
  by (induction ss) auto

lemma context_ok_room:
  assumes "context_ok ts s" and "length ts < 4"
  shows "sources_room (ml_sources s)"
  using assms length_sources_split [of "ml_sources s"]
  by (auto simp: context_ok_def sources_room_def split: if_splits)

lemma context_ok_add:
  assumes "attach_lawful G" and "context_ok ts s" and "length ts < 4"
  shows "\<exists>i. add_source G S_yellow s = (i, s\<lparr>ml_sources := (i, S_yellow) # ml_sources s\<rparr>) \<and>
    i \<noteq> 0 \<and> i \<notin> source_ids (ml_sources s) \<and>
    context_ok ((i, S_yellow) # ts) (s\<lparr>ml_sources := (i, S_yellow) # ml_sources s\<rparr>)"
proof -
  have "sources_ok (ml_sources s)" using assms(2) by (simp add: context_ok_def)
  from add_source_fresh [OF assms(1) this context_ok_room [OF assms(2,3)]] assms(2)
  show ?thesis by (fastforce simp: context_ok_def cpg_inv_def)
qed

lemma context_ok_send:
  assumes "attach_lawful G" and "context_ok ts s" and "length ts < 4" and "is_message m"
  shows "\<exists>ss i fl. let s' = s\<lparr>ml_sources := ss, cpg_retransmit_source_id := i, cpg_retransmit := fl,
        cpg_mcast := cpg_mcast s @ [htonl_bytes m]\<rparr> in
    colod_cpg_send G m s = Some s' \<and> context_ok ts s' \<and> source_ids (ml_sources s) \<subseteq> source_ids ss"
proof -
  have ok: "sources_ok (ml_sources s)" "cpg_inv s" using assms(2) by (simp_all add: context_ok_def)
  obtain i where i: "add_source G S_cpg_retransmit s = (i, s\<lparr>ml_sources := (i, S_cpg_retransmit) # ml_sources s\<rparr>)"
    "i \<noteq> 0" "sources_ok ((i, S_cpg_retransmit) # ml_sources s)"
    using add_source_fresh [OF assms(1) ok(1) context_ok_room [OF assms(2,3)]] by blast
  define fl where "fl = (cpg_retransmit s)[unat m := True]"
  have add: "add_source G S_cpg_retransmit (s\<lparr>cpg_retransmit := fl\<rparr>) =
      (i, s\<lparr>cpg_retransmit := fl, ml_sources := (i, S_cpg_retransmit) # ml_sources s\<rparr>)"
    using i(1) by (auto simp: add_source_eq Let_def)
  have len: "unat m < length (cpg_retransmit s)" "length fl = MESSAGE_MAX"
    using ok(2) assms(4) by (auto simp: cpg_inv_def is_message_def fl_def)
  show ?thesis
  proof (cases "cpg_retransmit_source_id s = 0")
    case True
    then show ?thesis
      using assms(2) i add len
      by (intro exI [of _ "(i, S_cpg_retransmit) # ml_sources s"] exI [of _ i] exI [of _ fl])
        (auto simp: Let_def colod_cpg_send_def context_ok_def cpg_inv_def fl_def)
  next
    case False
    then show ?thesis
      using assms(2) len
      by (intro exI [of _ "ml_sources s"] exI [of _ "cpg_retransmit_source_id s"] exI [of _ fl])
        (auto simp: Let_def colod_cpg_send_def context_ok_def cpg_inv_def fl_def)
  qed
qed

lemma filter_g_source_remove: "filter P (g_source_remove i ss) = g_source_remove i (filter P ss)"
  by (induction ss) (auto simp: g_source_remove_def)

lemma length_g_source_remove: "length (g_source_remove i ss) \<le> length ss"
  by (simp add: g_source_remove_def)

lemma context_ok_remove:
  assumes "context_ok ts s" and "(i, S_yellow) \<in> set ts"
  shows "context_ok (g_source_remove i ts) (remove_source i s)"
proof -
  have mem: "(i, S_yellow) \<in> set (ml_sources s)"
    using assms sources_of_set [of "(i, S_yellow)" S_yellow "ml_sources s"]
    by (simp add: context_ok_def)
  have ok: "sources_ok (ml_sources s)" using assms(1) by (simp add: context_ok_def)
  have "cpg_retransmit_source_id s \<noteq> i" if "cpg_retransmit_source_id s \<noteq> 0"
    using assms(1) that sources_ok_unique [OF ok mem] by (auto simp: context_ok_def cpg_inv_def)
  then have "cpg_inv (remove_source i s)"
    using assms(1) by (auto simp: context_ok_def cpg_inv_def remove_source_def)
  moreover have "length (filter P (g_source_remove i (ml_sources s))) \<le> length (filter P (ml_sources s))" for P
    by (simp add: filter_g_source_remove length_g_source_remove)
  ultimately show ?thesis
    using assms(1) sources_of_remove_other [OF ok mem, of S_cpg_retransmit] sources_ok_remove [OF ok, of i]
      sources_of_remove [of S_yellow i "ml_sources s"]
    unfolding context_ok_def by (auto simp: remove_source_def intro: le_less_trans)
qed

subsection \<open>The abstract debouncer\<close>

text \<open>
  Abstractly there is the status last reported and how far a change to the other
  status has come. One input gives the messages sent and the notifications made.
\<close>

datatype phase = Idle | Changing | Announced | Stopped

definition link_event :: "bool \<Rightarrow> ColodEvent" where
  "link_event up = (if up then EVENT_UNYELLOW else EVENT_YELLOW)"

definition yellow_message :: "ColodEvent \<Rightarrow> ColodMessage" where
  "yellow_message e = (if e = EVENT_YELLOW then MESSAGE_YELLOW else MESSAGE_UNYELLOW)"

fun debounce :: "ColodEvent \<times> phase \<Rightarrow> yellow_input \<Rightarrow>
    (ColodEvent \<times> phase) \<times> ColodMessage list \<times> ColodEvent list" where
  "debounce (st, Stopped) inp = ((st, Stopped), [], [])"
| "debounce (st, Idle) (Link up) = ((st, if link_event up = st then Idle else Changing), [], [])"
| "debounce (st, Idle) Timer = ((st, Idle), [], [])"
| "debounce (st, Changing) (Link up) = ((st, if link_event up = st then Idle else Changing), [], [])"
| "debounce (st, Changing) Timer = ((st, Announced), [yellow_message (opposite st)], [])"
| "debounce (st, Announced) (Link up) =
     (if link_event up = st then ((st, Idle), [yellow_message st], [])
      else ((st, Announced), [], []))"
| "debounce (st, Announced) Timer = ((opposite st, Idle), [], [opposite st])"
| "debounce (st, Announced) Shutdown = ((st, Stopped), [yellow_message st], [])"
| "debounce (st, ph) Shutdown = ((st, Stopped), [], [])"

fun debounce_run :: "ColodEvent \<times> phase \<Rightarrow> yellow_input list \<Rightarrow>
    (ColodEvent \<times> phase) \<times> ColodMessage list \<times> ColodEvent list" where
  "debounce_run d [] = (d, [], [])"
| "debounce_run d (i # is) =
     (let (d1, ms1, ns1) = debounce d i; (d2, ms2, ns2) = debounce_run d1 is
      in (d2, ms1 @ ms2, ns1 @ ns2))"

text \<open>The abstraction; the status a stopped coroutine had is not in its state.\<close>

fun implements :: "yellow_pc \<Rightarrow> ColodEvent \<times> phase \<Rightarrow> bool" where
  "implements (Y_delay t D_begin) (st, ph) \<longleftrightarrow> st = opposite t \<and> ph = Idle"
| "implements (Y_delay t D_ignored) (st, ph) \<longleftrightarrow> st = opposite t \<and> ph = Idle"
| "implements (Y_delay t (D_wait1 i)) (st, ph) \<longleftrightarrow> st = opposite t \<and> ph = Changing"
| "implements (Y_delay t (D_wait2 i)) (st, ph) \<longleftrightarrow> st = opposite t \<and> ph = Announced"
| "implements (Y_notified t) (st, ph) \<longleftrightarrow> st = t \<and> ph = Idle"
| "implements Y_done (st, ph) \<longleftrightarrow> ph = Stopped"

text \<open>
  What a registered callback may do, besides its own business in the rest of the
  state, which \<open>log\<close> reads: it records the notification there.
\<close>

definition yellow_client ::
    "'z YellowCoroutine_scheme yellow_callback \<Rightarrow> ('z \<Rightarrow> ColodEvent list) \<Rightarrow> bool" where
  "yellow_client f log \<longleftrightarrow> (\<forall>c e ts s. context_ok ts s \<longrightarrow> length ts < 4 \<longrightarrow>
     e = EVENT_YELLOW \<or> e = EVENT_UNYELLOW \<longrightarrow>
     (\<exists>s'. f c e s = Some s' \<and> context_ok ts s' \<and> cpg_mcast s' = cpg_mcast s \<and>
        yl_quit s' = yl_quit s \<and> yl_listening s' = yl_listening s \<and>
        yl_monitor_interface s' = yl_monitor_interface s \<and> yl_callbacks s' = yl_callbacks s \<and>
        log (YellowCoroutine.more s') = log (YellowCoroutine.more s) @ [e]))"

lemma yellow_notify_ok:
  assumes "yellow_client f log" and "context_ok ts s" and "length ts < 4"
    and "e = EVENT_YELLOW \<or> e = EVENT_UNYELLOW" and "yl_callbacks s = [c]"
  shows "\<exists>s'. yellow_notify f e s = Some s' \<and> context_ok ts s' \<and> cpg_mcast s' = cpg_mcast s \<and>
    yl_quit s' = yl_quit s \<and> yl_listening s' = yl_listening s \<and>
    yl_monitor_interface s' = yl_monitor_interface s \<and> yl_callbacks s' = yl_callbacks s \<and>
    log (YellowCoroutine.more s') = log (YellowCoroutine.more s) @ [e]"
proof -
  obtain s' where "f c e s = Some s' \<and> context_ok ts s' \<and> cpg_mcast s' = cpg_mcast s \<and>
    yl_quit s' = yl_quit s \<and> yl_listening s' = yl_listening s \<and>
    yl_monitor_interface s' = yl_monitor_interface s \<and> yl_callbacks s' = yl_callbacks s \<and>
    log (YellowCoroutine.more s') = log (YellowCoroutine.more s) @ [e]"
    using assms(1) [unfolded yellow_client_def, rule_format, OF assms(2,3,4)] by blast
  then show ?thesis
    using assms(5) by (simp add: yellow_notify_def)
qed

text \<open>The states of a run: one client, listening to the interface the inputs are about.\<close>

definition running :: "string \<Rightarrow> callback \<Rightarrow> 'z YellowCoroutine_scheme \<Rightarrow> bool" where
  "running ifname c s \<longleftrightarrow> yellow_inv s \<and> yl_callbacks s = [c] \<and> yl_monitor_interface s = Some ifname"

definition step_ok ::
    "('z \<Rightarrow> ColodEvent list) \<Rightarrow> string \<Rightarrow> callback \<Rightarrow> 'z YellowCoroutine_scheme \<Rightarrow>
     'z YellowCoroutine_scheme abortable \<Rightarrow> ColodEvent \<times> phase \<Rightarrow> ColodMessage list \<Rightarrow> ColodEvent list \<Rightarrow> bool" where
  "step_ok log ifname c s r d ms ns \<longleftrightarrow> (\<exists>s'. r = Some s' \<and> running ifname c s' \<and>
     implements (yl_pc s') d \<and> cpg_mcast s' = cpg_mcast s @ map htonl_bytes ms \<and>
     log (YellowCoroutine.more s') = log (YellowCoroutine.more s) @ ns)"

lemma context_ok_frame [simp]:
  "context_ok ts (s\<lparr>yl_pc := p\<rparr>) = context_ok ts s"
  "context_ok ts (s\<lparr>yl_quit := b\<rparr>) = context_ok ts s"
  "context_ok ts (s\<lparr>yl_listening := b\<rparr>) = context_ok ts s"
  by (simp_all add: context_ok_def cpg_inv_def)

lemma is_yellow_message [simp]: "is_message (yellow_message e)"
  by (simp add: yellow_message_def)

lemma send_target_eq: "yellow_send_target_message G t s = colod_cpg_send G (yellow_message t) s"
  by (simp add: yellow_send_target_message_def yellow_message_def)

lemma send_revert_eq: "yellow_send_revert_message G t s = colod_cpg_send G (yellow_message (opposite t)) s"
  by (cases t) (simp_all add: yellow_send_revert_message_def yellow_message_def)

text \<open>The loop body from the top, with no timer running.\<close>

definition delay_post ::
    "'z YellowCoroutine_scheme yellow_callback \<Rightarrow> ColodEvent \<Rightarrow>
     delay_result \<times> 'z YellowCoroutine_scheme \<Rightarrow> 'z YellowCoroutine_scheme abortable" where
  "delay_post f target rs = (case fst rs of
        Delay_yield d' \<Rightarrow> Some ((snd rs)\<lparr>yl_pc := Y_delay target d'\<rparr>)
      | Delay_return ret \<Rightarrow>
          if ret < 0 then Some ((snd rs)\<lparr>yl_pc := Y_done\<rparr>)
          else do {
            this2 \<leftarrow> yellow_notify f target (snd rs);
            Some (this2\<lparr>yl_pc := Y_notified target\<rparr>) })"

lemma yellow_in_delay_post:
  "yellow_in_delay G f t d ev s = yellow_delay_co G t d ev s \<bind> delay_post f t"
  unfolding yellow_in_delay_def delay_post_def
  by (cases "yellow_delay_co G t d ev s") (auto split: delay_result.splits)

lemma delay_top_sim:
  assumes "attach_lawful G" and "context_ok [] s" and "t = EVENT_YELLOW \<or> t = EVENT_UNYELLOW"
    and "e = EVENT_YELLOW \<or> e = EVENT_UNYELLOW"
  shows "\<exists>s' pc. delay_top G t (Some e) s \<bind> delay_post f t = Some s' \<and> yl_pc s' = pc \<and>
    context_ok (pc_timers pc) s' \<and> pc_ok pc \<and>
    implements pc (opposite t, if e = t then Changing else Idle) \<and>
    yl_quit s' = yl_quit s \<and> yl_listening s' = yl_listening s \<and> yl_callbacks s' = yl_callbacks s \<and>
    yl_monitor_interface s' = yl_monitor_interface s \<and>
    cpg_mcast s' = cpg_mcast s \<and> YellowCoroutine.more s' = YellowCoroutine.more s \<and> pc \<noteq> Y_done"
proof (cases "e = t")
  case True
  obtain i where i: "add_source G S_yellow s = (i, s\<lparr>ml_sources := (i, S_yellow) # ml_sources s\<rparr>)"
    "context_ok [(i, S_yellow)] (s\<lparr>ml_sources := (i, S_yellow) # ml_sources s\<rparr>)"
    using context_ok_add [OF assms(1,2)] by auto
  with True assms(4) show ?thesis
    by (auto simp: delay_top_def delay_post_def)
next
  case False
  with assms show ?thesis by (auto simp: delay_top_def delay_post_def)
qed

lemma delay_top_quit:
  "delay_top G t (Some EVENT_QUIT) s \<bind> delay_post f t = Some (s\<lparr>yl_pc := Y_done\<rparr>)"
  by (simp add: delay_top_def delay_post_def)

lemma context_ok_send_remove:
  assumes "attach_lawful G" and "context_ok [(i, S_yellow)] s" and "is_message m"
  shows "\<exists>s'. colod_cpg_send G m s = Some s' \<and> context_ok [] (remove_source i s') \<and>
    context_ok [(i, S_yellow)] s' \<and> i \<in> source_ids (ml_sources s') \<and>
    cpg_mcast s' = cpg_mcast s @ [htonl_bytes m] \<and> yl_quit s' = yl_quit s \<and> yl_pc s' = yl_pc s \<and>
    yl_listening s' = yl_listening s \<and> yl_callbacks s' = yl_callbacks s \<and>
    yl_monitor_interface s' = yl_monitor_interface s \<and> YellowCoroutine.more s' = YellowCoroutine.more s"
proof -
  obtain ss j fl where send: "colod_cpg_send G m s = Some (s\<lparr>ml_sources := ss,
        cpg_retransmit_source_id := j, cpg_retransmit := fl, cpg_mcast := cpg_mcast s @ [htonl_bytes m]\<rparr>)"
    and ctx: "context_ok [(i, S_yellow)] (s\<lparr>ml_sources := ss,
        cpg_retransmit_source_id := j, cpg_retransmit := fl, cpg_mcast := cpg_mcast s @ [htonl_bytes m]\<rparr>)"
      (is "context_ok _ ?s'")
    using context_ok_send [OF assms(1,2) _ assms(3)] by (auto simp: Let_def)
  note s' = send ctx
  moreover have "context_ok [] (remove_source i ?s')"
    using context_ok_remove [OF s'(2), of i] by simp
  moreover have "(i, S_yellow) \<in> set (ml_sources ?s')"
    using s'(2) sources_of_set [of "(i, S_yellow)" S_yellow "ml_sources ?s'"] by (simp add: context_ok_def)
  ultimately show ?thesis by (auto simp: source_ids_mem)
qed

lemma yl_remove_source_sel [simp]:
  "cpg_mcast (remove_source i s) = cpg_mcast s" "yl_quit (remove_source i s') = yl_quit s'"
  "yl_pc (remove_source i s') = yl_pc s'" "yl_listening (remove_source i s') = yl_listening s'"
  "yl_callbacks (remove_source i s') = yl_callbacks s'"
  "yl_monitor_interface (remove_source i s') = yl_monitor_interface s'"
  "YellowCoroutine.more (remove_source i s') = YellowCoroutine.more s'"
  by (simp_all add: remove_source_def)

lemma opposite_iff:
  "t = EVENT_YELLOW \<or> t = EVENT_UNYELLOW \<Longrightarrow> e = EVENT_YELLOW \<or> e = EVENT_UNYELLOW \<Longrightarrow>
     (e = opposite t \<longleftrightarrow> e \<noteq> t) \<and> opposite (opposite t) = t"
  by auto

text \<open>An event queued while the coroutine lives: a link event, or the request to quit.\<close>

lemma yellow_co_enter_link:
  assumes "attach_lawful G" and run: "running ifname c s" and impl: "implements (yl_pc s) d"
    and "\<not> yl_quit s" and dd: "debounce d (Link up) = (d', ms, ns)"
  shows "step_ok log ifname c s (yellow_co_enter G f (Some (link_event up)) s) d' ms ns"
proof -
  let ?e = "link_event up"
  have e: "?e = EVENT_YELLOW \<or> ?e = EVENT_UNYELLOW" by (simp add: link_event_def)
  obtain st ph where d: "d = (st, ph)" by fastforce
  have pc: "pc_ok (yl_pc s)" "yl_pc s \<noteq> Y_done" "context_ok (pc_timers (yl_pc s)) s" "yl_listening s"
    using run assms(4) by (auto simp: running_def yellow_inv_def)
  note defs = yellow_co_enter_def yellow_in_delay_post step_ok_def running_def yellow_inv_def
  have top: "step_ok log ifname c s (delay_top G t (Some ?e) s \<bind> delay_post f t) d' ms ns"
    if "context_ok [] s" "t = EVENT_YELLOW \<or> t = EVENT_UNYELLOW" "st = opposite t" "ph = Idle" for t
    using delay_top_sim [OF assms(1) that(1,2) e, of f] that(2-) run assms(4) pc(4) d dd e
    by (auto simp: step_ok_def running_def yellow_inv_def)
  show ?thesis
  proof (cases "yl_pc s")
    case (Y_notified t)
    with top [of "opposite t"] pc impl d show ?thesis
      by (auto simp: yellow_co_enter_def yellow_in_delay_post)
  next
    case (Y_delay t dp)
    then have t: "t = EVENT_YELLOW \<or> t = EVENT_UNYELLOW" using pc(1) by simp
    show ?thesis
    proof (cases dp)
      case (D_wait2 i)
      then have ctx: "context_ok [(i, S_yellow)] s" using pc(3) Y_delay by simp
      obtain s1 where s1: "colod_cpg_send G (yellow_message (opposite t)) s = Some s1"
        "context_ok [] (remove_source i s1)" "cpg_mcast s1 = cpg_mcast s @ [htonl_bytes (yellow_message (opposite t))]"
        "yl_quit s1 = yl_quit s" "yl_listening s1 = yl_listening s" "yl_callbacks s1 = yl_callbacks s"
        "yl_monitor_interface s1 = yl_monitor_interface s" "YellowCoroutine.more s1 = YellowCoroutine.more s"
        using context_ok_send_remove [OF assms(1) ctx is_yellow_message] by blast
      from delay_top_sim [OF assms(1) s1(2) t e, of f] show ?thesis
        using t Y_delay D_wait2 run impl dd e assms(4) d pc s1
        by (cases "?e = t") (auto simp: defs send_revert_eq delay_post_def)
    next
      case (D_wait1 i)
      then have ctx: "context_ok [] (remove_source i s)"
        using pc(3) Y_delay context_ok_remove [of "[(i, S_yellow)]" s i] by simp
      from delay_top_sim [OF assms(1) ctx t e, of f] show ?thesis
        using t Y_delay D_wait1 run impl dd e assms(4) d pc
        by (cases "?e = t") (auto simp: defs delay_post_def)
    qed (use top [of t] Y_delay pc impl d in \<open>auto simp: yellow_co_enter_def yellow_in_delay_post\<close>)
  qed (use pc in simp)
qed

lemma yellow_shutdown_sim:
  assumes "attach_lawful G" and run: "running ifname c s" and impl: "implements (yl_pc s) d"
    and dd: "debounce d Shutdown = (d', ms, ns)"
  shows "step_ok log ifname c s (yellow_shutdown G f s) d' ms ns"
proof -
  obtain st ph where d: "d = (st, ph)" by fastforce
  have pc: "pc_ok (yl_pc s)" "context_ok (pc_timers (yl_pc s)) s"
    "yl_quit s \<longleftrightarrow> yl_pc s = Y_done" "yl_listening s \<longleftrightarrow> \<not> yl_quit s"
    using run by (auto simp: running_def yellow_inv_def)
  note defs = yellow_shutdown_def yellow_queue_event_def yellow_co_enter_def yellow_in_delay_post
    step_ok_def running_def yellow_inv_def delay_top_quit delay_top_def delay_post_def
  show ?thesis
  proof (cases "yl_pc s")
    case Y_done
    with pc impl dd d run show ?thesis by (auto simp: yellow_shutdown_def step_ok_def)
  next
    case (Y_notified t)
    with pc impl dd d run show ?thesis by (auto simp: defs)
  next
    case (Y_delay t dp)
    show ?thesis
    proof (cases dp)
      case (D_wait2 i)
      then have ctx: "context_ok [(i, S_yellow)] (s\<lparr>yl_listening := False\<rparr>)"
        using pc(2) Y_delay by simp
      obtain s1 where s1: "colod_cpg_send G (yellow_message (opposite t)) (s\<lparr>yl_listening := False\<rparr>) = Some s1"
        "context_ok [] (remove_source i s1)" "cpg_mcast s1 = cpg_mcast s @ [htonl_bytes (yellow_message (opposite t))]"
        "yl_quit s1 = yl_quit s" "\<not> yl_listening s1" "yl_callbacks s1 = yl_callbacks s"
        "yl_monitor_interface s1 = yl_monitor_interface s" "YellowCoroutine.more s1 = YellowCoroutine.more s"
        using context_ok_send_remove [OF assms(1) ctx is_yellow_message, of "opposite t"] by auto
      with pc impl dd d run Y_delay D_wait2 show ?thesis by (auto simp: defs send_revert_eq)
    next
      case (D_wait1 i)
      then have "context_ok [] (remove_source i (s\<lparr>yl_listening := False\<rparr>))"
        using pc(2) Y_delay context_ok_remove [of "[(i, S_yellow)]" "s\<lparr>yl_listening := False\<rparr>" i] by simp
      with pc impl dd d run Y_delay D_wait1 show ?thesis by (auto simp: defs remove_source_def)
    qed (use pc impl dd d run Y_delay in \<open>auto simp: defs\<close>)
  qed
qed

lemma yellow_timer_sim:
  assumes "attach_lawful G" and "yellow_client f log" and run: "running ifname c s"
    and impl: "implements (yl_pc s) d" and dd: "debounce d Timer = (d', ms, ns)"
  shows "step_ok log ifname c s (yellow_input_step G f ifname Timer s) d' ms ns"
proof -
  obtain st ph where d: "d = (st, ph)" by fastforce
  have pc: "pc_ok (yl_pc s)" "context_ok (pc_timers (yl_pc s)) s" "yl_callbacks s = [c]"
    using run by (auto simp: running_def yellow_inv_def)
  have timers: "sources_of S_yellow (ml_sources s) = pc_timers (yl_pc s)"
    using pc(2) by (simp add: context_ok_def)
  note defs = yellow_input_step_def yellow_timer_dispatch_def yellow_co_def yellow_co_enter_def
    yellow_in_delay_post step_ok_def running_def yellow_inv_def delay_post_def
  consider (none) "pc_timers (yl_pc s) = []"
    | (wait1) t i where "yl_pc s = Y_delay t (D_wait1 i)"
    | (wait2) t i where "yl_pc s = Y_delay t (D_wait2 i)"
    by (cases "yl_pc s" rule: pc_timers.cases) auto
  then show ?thesis
  proof cases
    case none
    then have "ph = Idle \<or> ph = Stopped" using impl d by (cases "yl_pc s" rule: pc_timers.cases) auto
    with none timers dd d run impl show ?thesis by (auto simp: defs)
  next
    case wait1
    with pc have t: "t = EVENT_YELLOW \<or> t = EVENT_UNYELLOW" and ctx: "context_ok [(i, S_yellow)] s" by auto
    obtain s1 where s1: "colod_cpg_send G (yellow_message t) s = Some s1"
      "context_ok [(i, S_yellow)] s1" "i \<in> source_ids (ml_sources s1)"
      "cpg_mcast s1 = cpg_mcast s @ [htonl_bytes (yellow_message t)]"
      "yl_quit s1 = yl_quit s" "yl_pc s1 = yl_pc s" "yl_listening s1 = yl_listening s" "yl_callbacks s1 = yl_callbacks s"
      "yl_monitor_interface s1 = yl_monitor_interface s" "YellowCoroutine.more s1 = YellowCoroutine.more s"
      using context_ok_send_remove [OF assms(1) ctx is_yellow_message] by blast
    obtain j where j: "add_source G S_yellow s1 = (j, s1\<lparr>ml_sources := (j, S_yellow) # ml_sources s1\<rparr>)"
      "j \<notin> source_ids (ml_sources s1)"
      "context_ok [(j, S_yellow), (i, S_yellow)] (s1\<lparr>ml_sources := (j, S_yellow) # ml_sources s1\<rparr>)"
      (is "context_ok _ ?s2")
      using context_ok_add [OF assms(1) s1(2)] by auto
    have "i \<noteq> j" using s1(3) j(2) by auto
    then have "context_ok [(j, S_yellow)] (remove_source i ?s2)"
      using context_ok_remove [OF j(3), of i] by simp
    then have "context_ok [(j, S_yellow)] (remove_source i (?s2\<lparr>yl_pc := Y_delay t (D_wait2 j)\<rparr>))"
      by (simp add: context_ok_def cpg_inv_def remove_source_def)
    with wait1 timers s1 j(1) t dd d impl run show ?thesis
      by (auto simp: defs send_target_eq)
  next
    case wait2
    with pc have t: "t = EVENT_YELLOW \<or> t = EVENT_UNYELLOW" and ctx: "context_ok [(i, S_yellow)] s" by auto
    obtain s1 where s1: "yellow_notify f t s = Some s1" "context_ok [(i, S_yellow)] s1" "cpg_mcast s1 = cpg_mcast s"
      "yl_quit s1 = yl_quit s" "yl_listening s1 = yl_listening s" "yl_monitor_interface s1 = yl_monitor_interface s"
      "yl_callbacks s1 = yl_callbacks s" "log (YellowCoroutine.more s1) = log (YellowCoroutine.more s) @ [t]"
      using yellow_notify_ok [OF assms(2) ctx _ t pc(3)] by auto
    have "context_ok [] (remove_source i (s1\<lparr>yl_pc := Y_notified t\<rparr>))"
      using context_ok_remove [OF s1(2), of i] by (simp add: context_ok_def cpg_inv_def remove_source_def)
    with wait2 timers s1 t dd d impl run show ?thesis by (auto simp: defs)
  qed
qed

lemma yellow_input_sim:
  assumes "attach_lawful G" and "yellow_client f log" and run: "running ifname c s"
    and impl: "implements (yl_pc s) d" and dd: "debounce d inp = (d', ms, ns)"
  shows "step_ok log ifname c s (yellow_input_step G f ifname inp s) d' ms ns"
proof (cases inp)
  case Timer
  with yellow_timer_sim [OF assms(1-4)] dd show ?thesis by simp
next
  case Shutdown
  with yellow_shutdown_sim [OF assms(1) run impl] dd show ?thesis by (simp add: yellow_input_step_def)
next
  case (Link up)
  show ?thesis
  proof (cases "yl_quit s")
    case True
    with run have "yl_pc s = Y_done" "\<not> yl_listening s"
      by (auto simp: running_def yellow_inv_def)
    with impl have "snd d = Stopped" by (cases d) simp
    with \<open>\<not> yl_listening s\<close> dd run impl Link show ?thesis
      by (cases d) (auto simp: step_ok_def yellow_input_step_def)
  next
    case False
    have "yl_listening s" "yl_monitor_interface s = Some ifname"
      using run False by (auto simp: running_def yellow_inv_def)
    moreover have "step_ok log ifname c s (yellow_queue_event G f (link_event up) s) d' ms ns"
    proof -
      have "step_ok log ifname c s (yellow_co_enter G f (Some (link_event up)) s) d' ms ns"
        using yellow_co_enter_link [OF assms(1) run impl False] dd Link by simp
      then obtain s' where s': "yellow_co_enter G f (Some (link_event up)) s = Some s'"
        "implements (yl_pc s') d'" and ok: "step_ok log ifname c s (Some s') d' ms ns"
        by (auto simp: step_ok_def)
      have "snd d \<noteq> Stopped"
        using impl False run by (cases d; cases "yl_pc s" rule: pc_timers.cases)
          (auto simp: running_def yellow_inv_def)
      with dd Link have "snd d' \<noteq> Stopped"
        by (cases d; cases "snd d") (auto split: if_splits)
      with s'(2) have "yl_pc s' \<noteq> Y_done" by (cases d') auto
      with s'(1) ok show ?thesis
        by (auto simp: yellow_queue_event_def link_event_def)
    qed
    ultimately show ?thesis
      using Link by (auto simp: yellow_input_step_def yellow_netlink_event_cb_def link_event_def)
  qed
qed

text \<open>
  C14. The coroutine refines the debouncer: for every history of link events, timer
  expiries and shutdowns it does not abort, it multicasts the debouncer's messages
  and makes its notifications, in order.
\<close>

theorem yellow_run_refines:
  assumes "attach_lawful G" and "yellow_client f log" and "running ifname c s"
    and "implements (yl_pc s) d"
  shows "\<exists>s'. yellow_run G f ifname is s = Some s' \<and> running ifname c s' \<and>
    implements (yl_pc s') (fst (debounce_run d is)) \<and>
    cpg_mcast s' = cpg_mcast s @ map htonl_bytes (fst (snd (debounce_run d is))) \<and>
    log (YellowCoroutine.more s') = log (YellowCoroutine.more s) @ snd (snd (debounce_run d is))"
  using assms(3,4)
proof (induction "is" arbitrary: s d)
  case Nil
  then show ?case by simp
next
  case (Cons i "is")
  obtain d1 ms1 ns1 where d1: "debounce d i = (d1, ms1, ns1)" by (cases "debounce d i") auto
  from yellow_input_sim [OF assms(1,2) Cons.prems d1] obtain s1
    where s1: "yellow_input_step G f ifname i s = Some s1" "running ifname c s1"
      "implements (yl_pc s1) d1" "cpg_mcast s1 = cpg_mcast s @ map htonl_bytes ms1"
      "log (YellowCoroutine.more s1) = log (YellowCoroutine.more s) @ ns1"
    by (auto simp: step_ok_def)
  from Cons.IH [OF s1(2,3)] s1 d1 show ?case by (auto simp: split_beta Let_def)
qed

text \<open>A concrete start: the coroutine just created, with one client that keeps a log.\<close>

definition log_notification :: "ColodEvent list YellowCoroutine_scheme yellow_callback" where
  "log_notification c e s = Some (YellowCoroutine.more_update (\<lambda>l. l @ [e]) s)"

lemma log_notification_client: "yellow_client log_notification (\<lambda>l. l)"
  by (auto simp: yellow_client_def log_notification_def context_ok_def cpg_inv_def)

definition yellow_start :: "ColodEvent list YellowCoroutine_scheme" where
  "yellow_start = \<lparr>ml_sources = [], cpg_callbacks = [], cpg_source_id = 0, cpg_retransmit_source_id = 0,
     cpg_retransmit = replicate MESSAGE_MAX False, cpg_mcast = [],
     qmp_channel = idle_channel False, qmp_yank_channel = idle_channel True, qmp_timeout = 600,
     qmp_yank_instances = None, qmp_yank_callbacks = [], qmp_event_callbacks = [],
     qmp_hup_callbacks = [], qmp_did_yank = False, qmp_error = None, qmp_inflight = 0, qmp_hup_source_id = 0,
     qmp_waits = (\<lambda>_. None), yl_pc = Y_delay EVENT_YELLOW D_begin, yl_quit = False,
     yl_monitor_interface = Some ''eth0'', yl_listening = True, yl_callbacks = [CB_yellow_event],
     yl_timeout1 = 500, yl_timeout2 = 1000, \<dots> = []\<rparr>"

lemma yellow_start_running:
  "running ''eth0'' CB_yellow_event yellow_start" "implements (yl_pc yellow_start) (EVENT_UNYELLOW, Idle)"
  by (auto simp: running_def yellow_inv_def yellow_start_def context_ok_def cpg_inv_def
      sources_ok_def)

lemma yellow_run_refines_witness:
  "\<exists>s'. yellow_run (ref_glib :: nat glib) log_notification ''eth0''
      [Link False, Timer, Link True, Link False, Timer, Timer] yellow_start = Some s' \<and>
    cpg_mcast s' = map htonl_bytes [MESSAGE_YELLOW, MESSAGE_UNYELLOW, MESSAGE_YELLOW] \<and>
    YellowCoroutine.more s' = [EVENT_YELLOW]"
proof -
  let ?is = "[Link False, Timer, Link True, Link False, Timer, Timer]"
  have "debounce_run (EVENT_UNYELLOW, Idle) ?is = ((EVENT_YELLOW, Idle),
      [MESSAGE_YELLOW, MESSAGE_UNYELLOW, MESSAGE_YELLOW], [EVENT_YELLOW])"
    by (simp add: Let_def link_event_def yellow_message_def)
  moreover have "cpg_mcast yellow_start = []" "YellowCoroutine.more yellow_start = []"
    by (simp_all add: yellow_start_def)
  ultimately show ?thesis
    using yellow_run_refines [OF ref_attach_lawful log_notification_client yellow_start_running, of ?is]
    by auto
qed

subsection \<open>What the peer and the clients are told\<close>

fun alternating :: "ColodEvent \<Rightarrow> ColodEvent list \<Rightarrow> bool" where
  "alternating e [] = True"
| "alternating e (x # xs) = (x = e \<and> alternating (opposite e) xs)"

fun last_or :: "'a \<Rightarrow> 'a list \<Rightarrow> 'a" where
  "last_or d [] = d"
| "last_or d (x # xs) = last_or x xs"

fun told :: "ColodEvent \<times> phase \<Rightarrow> ColodEvent" where
  "told (st, ph) = (if ph = Announced then opposite st else st)"

lemma last_or_append [simp]: "last_or d (xs @ ys) = last_or (last_or d xs) ys"
  by (induction xs arbitrary: d) auto

lemma alternating_append:
  assumes "e = EVENT_YELLOW \<or> e = EVENT_UNYELLOW"
  shows "alternating e (xs @ ys) \<longleftrightarrow> alternating e xs \<and> alternating (opposite (last_or (opposite e) xs)) ys"
  using assms by (induction xs arbitrary: e) (auto simp: opposite_iff)

lemma debounce_step_told:
  assumes "debounce d i = (d', ms, ns)" and "fst d = EVENT_YELLOW \<or> fst d = EVENT_UNYELLOW"
  shows "\<exists>es. ms = map yellow_message es \<and> alternating (opposite (told d)) es \<and> told d' = last_or (told d) es \<and>
    alternating (opposite (fst d)) ns \<and> fst d' = last_or (fst d) ns \<and>
    (fst d' = EVENT_YELLOW \<or> fst d' = EVENT_UNYELLOW)"
proof -
  obtain st ph where d: "d = (st, ph)" by fastforce
  define es where "es = (if ms = [] then [] else [opposite (told d)])"
  have "ms = map yellow_message es \<and> alternating (opposite (told d)) es \<and> told d' = last_or (told d) es \<and>
    alternating (opposite (fst d)) ns \<and> fst d' = last_or (fst d) ns \<and>
    (fst d' = EVENT_YELLOW \<or> fst d' = EVENT_UNYELLOW)"
    using assms unfolding d es_def
    by (cases i; cases ph) (auto split: if_splits simp: link_event_def)
  then show ?thesis by blast
qed

lemma debounce_run_told:
  assumes "debounce_run d is = (d', ms, ns)" and "fst d = EVENT_YELLOW \<or> fst d = EVENT_UNYELLOW"
  shows "\<exists>es. ms = map yellow_message es \<and> alternating (opposite (told d)) es \<and> told d' = last_or (told d) es \<and>
    alternating (opposite (fst d)) ns \<and> fst d' = last_or (fst d) ns"
  using assms
proof (induction "is" arbitrary: d d' ms ns)
  case Nil
  then show ?case by auto
next
  case (Cons i "is")
  obtain d1 ms1 ns1 where d1: "debounce d i = (d1, ms1, ns1)" by (cases "debounce d i") auto
  obtain d2 ms2 ns2 where d2: "debounce_run d1 is = (d2, ms2, ns2)" by (cases "debounce_run d1 is") auto
  from debounce_step_told [OF d1 Cons.prems(2)] obtain es1
    where 1: "ms1 = map yellow_message es1" "alternating (opposite (told d)) es1" "told d1 = last_or (told d) es1"
      "alternating (opposite (fst d)) ns1" "fst d1 = last_or (fst d) ns1"
      "fst d1 = EVENT_YELLOW \<or> fst d1 = EVENT_UNYELLOW" by blast
  from Cons.IH [OF d2 1(6)] obtain es2
    where 2: "ms2 = map yellow_message es2" "alternating (opposite (told d1)) es2" "told d2 = last_or (told d1) es2"
      "alternating (opposite (fst d1)) ns2" "fst d2 = last_or (fst d1) ns2" by blast
  have opp: "opposite (opposite (told d)) = told d" "opposite (opposite (fst d)) = fst d"
    using Cons.prems(2) by (cases d; auto)+
  have "opposite (told d) = EVENT_YELLOW \<or> opposite (told d) = EVENT_UNYELLOW"
    "opposite (fst d) = EVENT_YELLOW \<or> opposite (fst d) = EVENT_UNYELLOW"
    using Cons.prems(2) by (cases d; auto)+
  then show ?case
    using 1 2 d1 d2 Cons.prems(1) opp
    by (intro exI [of _ "es1 @ es2"]) (auto simp: Let_def alternating_append)
qed

text \<open>
  C26. From the start, whatever the link and the timers do and whenever the coroutine
  is shut down: yellow and unyellow notifications alternate, so do the messages to the
  peer, and unless a change is announced and still has to last, the status the peer
  was told last is the status the clients were told last.
\<close>

theorem yellow_tells_alternating:
  assumes "attach_lawful G" and "yellow_client f log" and "running ifname c s"
    and "yl_pc s = Y_delay EVENT_YELLOW D_begin" and "cpg_mcast s = []"
    and "log (YellowCoroutine.more s) = []"
  shows "\<exists>s' es. yellow_run G f ifname is s = Some s' \<and>
    cpg_mcast s' = map (htonl_bytes \<circ> yellow_message) es \<and>
    alternating EVENT_YELLOW es \<and> alternating EVENT_YELLOW (log (YellowCoroutine.more s')) \<and>
    ((\<nexists>t i. yl_pc s' = Y_delay t (D_wait2 i)) \<longrightarrow>
       last_or EVENT_UNYELLOW es = last_or EVENT_UNYELLOW (log (YellowCoroutine.more s')))"
proof -
  let ?d = "(EVENT_UNYELLOW, Idle)"
  have impl: "implements (yl_pc s) ?d" using assms(4) by simp
  obtain d' ms ns where d': "debounce_run ?d is = (d', ms, ns)" by (cases "debounce_run ?d is") auto
  obtain s' where s': "yellow_run G f ifname is s = Some s'" "implements (yl_pc s') d'"
    "cpg_mcast s' = map htonl_bytes ms" "log (YellowCoroutine.more s') = ns"
    using yellow_run_refines [OF assms(1-3) impl, of "is"] d' assms(5,6) by auto
  from debounce_run_told [OF d'] obtain es where es: "ms = map yellow_message es"
    "alternating EVENT_YELLOW es" "told d' = last_or EVENT_UNYELLOW es"
    "alternating EVENT_YELLOW ns" "fst d' = last_or EVENT_UNYELLOW ns" by auto
  have "told d' = fst d'" if "\<nexists>t i. yl_pc s' = Y_delay t (D_wait2 i)"
    using that s'(2) by (cases d'; cases "yl_pc s'" rule: pc_timers.cases) auto
  with s' es show ?thesis by (intro exI [of _ s'] exI [of _ es]) auto
qed

lemma yellow_tells_alternating_witness:
  "\<exists>s' es. yellow_run (ref_glib :: nat glib) log_notification ''eth0'' [Link False, Timer, Shutdown] yellow_start = Some s' \<and>
    cpg_mcast s' = map (htonl_bytes \<circ> yellow_message) es \<and> alternating EVENT_YELLOW es"
proof -
  have "yl_pc yellow_start = Y_delay EVENT_YELLOW D_begin" "cpg_mcast yellow_start = []"
    "YellowCoroutine.more yellow_start = []"
    by (simp_all add: yellow_start_def)
  from yellow_tells_alternating [OF ref_attach_lawful log_notification_client yellow_start_running(1) this]
  show ?thesis by blast
qed

text \<open>
  C27. A link state that lasts is reported: after any history without a shutdown, when
  a link event is followed by two timer expiries and nothing else, the status reported
  last is that of the event.
\<close>

theorem yellow_stable_reported:
  assumes "attach_lawful G" and "yellow_client f log" and "running ifname c s"
    and "yl_pc s = Y_delay EVENT_YELLOW D_begin" and "log (YellowCoroutine.more s) = []"
    and "Shutdown \<notin> set is"
  shows "\<exists>s'. yellow_run G f ifname (is @ [Link up, Timer, Timer]) s = Some s' \<and>
    last_or EVENT_UNYELLOW (log (YellowCoroutine.more s')) = link_event up"
proof -
  let ?d = "(EVENT_UNYELLOW, Idle)"
  have impl: "implements (yl_pc s) ?d" using assms(4) by simp
  have app: "debounce_run d (js @ ks) =
      (let (d1, ms1, ns1) = debounce_run d js; (d2, ms2, ns2) = debounce_run d1 ks
       in (d2, ms1 @ ms2, ns1 @ ns2))" for d js ks
    by (induction js arbitrary: d) (auto simp: split_beta Let_def)
  have live: "snd (fst (debounce_run d js)) \<noteq> Stopped \<and>
      (fst (fst (debounce_run d js)) = EVENT_YELLOW \<or> fst (fst (debounce_run d js)) = EVENT_UNYELLOW)"
    if "Shutdown \<notin> set js" "snd d \<noteq> Stopped" "fst d = EVENT_YELLOW \<or> fst d = EVENT_UNYELLOW" for d js
    using that
  proof (induction js arbitrary: d)
    case (Cons j js)
    obtain d1 ms1 ns1 where d1: "debounce d j = (d1, ms1, ns1)" by (cases "debounce d j") auto
    have "snd d1 \<noteq> Stopped \<and> (fst d1 = EVENT_YELLOW \<or> fst d1 = EVENT_UNYELLOW)"
      using d1 Cons.prems by (cases d; cases j; cases "snd d") (auto split: if_splits)
    with Cons.IH [of d1] Cons.prems(1) d1 show ?case by (auto simp: split_beta Let_def)
  qed simp
  obtain d1 ms1 ns1 where d1: "debounce_run ?d is = (d1, ms1, ns1)" by (cases "debounce_run ?d is") auto
  have d1_ok: "snd d1 \<noteq> Stopped" "fst d1 = EVENT_YELLOW \<or> fst d1 = EVENT_UNYELLOW"
    using live [OF assms(6), of ?d] d1 by auto
  obtain d2 ms2 ns2 where d2: "debounce_run d1 [Link up, Timer, Timer] = (d2, ms2, ns2)"
    by (cases "debounce_run d1 [Link up, Timer, Timer]") auto
  have "fst d2 = link_event up"
    using d2 d1_ok by (cases d1; cases "snd d1") (auto simp: link_event_def split: if_splits)
  moreover have run: "debounce_run ?d (is @ [Link up, Timer, Timer]) = (d2, ms1 @ ms2, ns1 @ ns2)"
    using app [of ?d "is" "[Link up, Timer, Timer]"] d1 d2 by (simp del: debounce_run.simps)
  ultimately have "last_or EVENT_UNYELLOW (ns1 @ ns2) = link_event up"
    using debounce_run_told [OF run] by fastforce
  with yellow_run_refines [OF assms(1-3) impl, of "is @ [Link up, Timer, Timer]"] run assms(5)
  show ?thesis by auto
qed

lemma yellow_stable_reported_witness:
  "\<exists>s'. yellow_run (ref_glib :: nat glib) log_notification ''eth0''
      ([Link False, Timer, Timer] @ [Link True, Timer, Timer]) yellow_start = Some s' \<and>
    last_or EVENT_UNYELLOW (YellowCoroutine.more s') = EVENT_UNYELLOW"
proof -
  have "yl_pc yellow_start = Y_delay EVENT_YELLOW D_begin" "YellowCoroutine.more yellow_start = []"
    by (simp_all add: yellow_start_def)
  from yellow_stable_reported [OF ref_attach_lawful log_notification_client yellow_start_running(1) this,
      of "[Link False, Timer, Timer]" True]
  show ?thesis by (simp add: link_event_def del: yellow_run.simps)
qed

end
