(* ===== verification/Raise_Timeout.thy ===== *)
theory Raise_Timeout
  imports Yellow
begin

text \<open>
  \<^verbatim>\<open>raise_timeout_coroutine.c\<close>: while QEMU checkpoints for the first time or
  resets, the QMP timeout is raised; a small coroutine waits for the guest to stop
  and to resume and then lowers it again. Its state is the pointer the main coroutine
  keeps and the point where it waits. The two timeouts are parameters of the daemon.
\<close>

subsection \<open>State and operations\<close>

datatype raise_pc = R_start | R_wait_stop | R_wait_resume

record RaiseCoroutine = YellowCoroutine +
  rt_co :: "raise_pc option"
  cx_qmp_timeout_low :: guint
  cx_qmp_timeout_high :: guint

definition event_stop :: string where "event_stop = ''{'event': 'STOP'}''"
definition event_resume :: string where "event_resume = ''{'event': 'RESUME'}''"

definition colod_raise_timeout_coroutine ::
    "'e glib \<Rightarrow> 'z RaiseCoroutine_scheme \<Rightarrow> 'z RaiseCoroutine_scheme abortable" where
  "colod_raise_timeout_coroutine G s =
     (if rt_co s \<noteq> None then Some s
      else do {
        s1 \<leftarrow> qmp_set_timeout (cx_qmp_timeout_high s) s;
        let (i, s2) = add_source G S_raise (s1\<lparr>rt_co := Some R_start\<rparr>)
        in Some s2 })"

text \<open>
  \<open>_colod_raise_timeout_co\<close> from one yield to the next; the result says where it
  waits, or \<open>None\<close> that it returned. \<open>cur\<close> is the source that resumed it.
\<close>

definition raise_timeout_co ::
    "'e glib \<Rightarrow> json_glib \<Rightarrow> guint \<Rightarrow> raise_pc \<Rightarrow> 'z RaiseCoroutine_scheme \<Rightarrow>
     (raise_pc option \<times> 'z RaiseCoroutine_scheme) abortable" where
  "raise_timeout_co G J cur pc s = (case pc of
     R_start \<Rightarrow> do {
       (i, s1) \<leftarrow> qmp_wait_event_begin G J S_raise 0 event_stop s;
       Some (Some R_wait_stop, s1) }
   | R_wait_stop \<Rightarrow> do {
       (ret, s1) \<leftarrow> qmp_wait_event_end S_raise 0 0 event_stop cur s;
       (case ret of
          Inl e \<Rightarrow> Some (None, s1)
        | Inr _ \<Rightarrow> do {
            (i, s2) \<leftarrow> qmp_wait_event_begin G J S_raise 0 event_resume s1;
            Some (Some R_wait_resume, s2) }) }
   | R_wait_resume \<Rightarrow> do {
       (ret, s1) \<leftarrow> qmp_wait_event_end S_raise 0 0 event_resume cur s;
       Some (None, s1) })"

text \<open>
  \<open>colod_raise_timeout_co\<close> as the main loop calls it for the source \<open>cur\<close>; it
  always returns \<^verbatim>\<open>G_SOURCE_REMOVE\<close>.
\<close>

definition colod_raise_timeout_co ::
    "'e glib \<Rightarrow> json_glib \<Rightarrow> guint \<Rightarrow> 'z RaiseCoroutine_scheme \<Rightarrow> 'z RaiseCoroutine_scheme abortable" where
  "colod_raise_timeout_co G J cur s = do {
     pc \<leftarrow> c_nonnull (rt_co s);
     (r, s1) \<leftarrow> raise_timeout_co G J cur pc s;
     (case r of
        Some pc' \<Rightarrow> Some (remove_source cur (s1\<lparr>rt_co := Some pc'\<rparr>))
      | None \<Rightarrow> do {
          s2 \<leftarrow> qmp_set_timeout (cx_qmp_timeout_low s1) s1;
          ss \<leftarrow> colod_assert_remove_one_source S_raise (ml_sources s2);
          Some (remove_source cur (s2\<lparr>ml_sources := ss, rt_co := None\<rparr>)) }) }"

text \<open>The first half of \<open>colod_raise_timeout_coroutine_free\<close>; the other half runs the main loop.\<close>

definition colod_raise_timeout_coroutine_free ::
    "'e glib \<Rightarrow> 'z RaiseCoroutine_scheme \<Rightarrow> 'z RaiseCoroutine_scheme" where
  "colod_raise_timeout_coroutine_free G s =
     (if rt_co s = None then s else snd (add_source G S_raise s))"

subsection \<open>Correctness\<close>

text \<open>
  Where the coroutine is and what can resume it: while it waits it is registered for
  its event and no source of its own is attached, until the event has fired.
\<close>

definition raise_inv :: "json_glib \<Rightarrow> 'z RaiseCoroutine_scheme \<Rightarrow> bool" where
  "raise_inv J s \<longleftrightarrow> sources_ok (ml_sources s) \<and> distinct (qmp_event_callbacks s) \<and>
     cx_qmp_timeout_low s \<noteq> 0 \<and> cx_qmp_timeout_high s \<noteq> 0 \<and>
     json_from_string J event_stop \<noteq> None \<and> json_from_string J event_resume \<noteq> None \<and>
     (case rt_co s of
        None \<Rightarrow> CB_wait_event S_raise \<notin> set (qmp_event_callbacks s) \<and>
          sources_of S_raise (ml_sources s) = []
      | Some R_start \<Rightarrow> CB_wait_event S_raise \<notin> set (qmp_event_callbacks s) \<and>
          length (sources_of S_raise (ml_sources s)) = 1
      | Some pc \<Rightarrow> (\<exists>m fired. waiting_for J S_raise m fired s \<and>
          length (sources_of S_raise (ml_sources s)) = (if fired then 1 else 0)))"

lemma user_data_raise: "filter (\<lambda>x. source_user_data (snd x) = S_raise) ss = sources_of S_raise ss"
proof -
  have "source_user_data d = S_raise \<longleftrightarrow> d = S_raise" for d by (cases d) auto
  then show ?thesis by (simp add: sources_of_def)
qed

lemma raise_remove_one:
  assumes "length (sources_of S_raise ss) \<le> 1"
  shows "\<exists>ss'. colod_assert_remove_one_source S_raise ss = Some ss' \<and> sources_of S_raise ss' = []"
proof -
  obtain ss' where ss': "colod_assert_remove_one_source S_raise ss = Some ss'"
    using assms assert_remove_one_source_iff [of S_raise ss] by (auto simp: user_data_raise)
  from assert_remove_one_source_set [OF ss'] have "sources_of S_raise ss' = []"
    by (auto simp: sources_of_def filter_empty_conv)
  with ss' show ?thesis by blast
qed

lemma raise_fired:
  assumes "raise_inv J s" and "(cur, S_raise) \<in> set (ml_sources s)"
    and "rt_co s = Some pc" and "pc \<noteq> R_start"
  shows "\<exists>m. waiting_for J S_raise m True s"
proof -
  have "sources_of S_raise (ml_sources s) \<noteq> []"
    using assms(2) by (metis empty_iff list.set(1) snd_conv sources_of_set)
  with assms(1,3,4) show ?thesis
    by (cases pc) (fastforce simp: raise_inv_def split: if_splits)+
qed

lemma sources_of_singleton:
  assumes "length (sources_of d ss) \<le> 1" and "(i, d) \<in> set ss"
  shows "sources_of d ss = [(i, d)]"
proof -
  have "(i, d) \<in> set (sources_of d ss)" using assms(2) by simp
  with assms(1) show ?thesis by (cases "sources_of d ss") auto
qed

lemma wait_begin_facts:
  assumes "qmp_wait_event_begin G J co 0 match s = Some (tid, s')"
  shows "ml_sources s' = ml_sources s \<and> qmp_timeout s' = qmp_timeout s \<and>
    QmpState.more s' = QmpState.more s"
  using assms
  by (auto simp: qmp_wait_event_begin_def qmp_add_notify_event_def bind_eq_Some_conv Let_def c_nonnull_def)

lemma wait_begin_ok:
  assumes "json_from_string J match \<noteq> None" and "distinct (qmp_event_callbacks s)"
    and "CB_wait_event co \<notin> set (qmp_event_callbacks s)"
  shows "\<exists>m s'. qmp_wait_event_begin G J co 0 match s = Some (0, s') \<and> waiting_for J co m False s' \<and>
    ml_sources s' = ml_sources s \<and> qmp_timeout s' = qmp_timeout s \<and> QmpState.more s' = QmpState.more s"
  using assms
  by (auto simp: qmp_wait_event_begin_def qmp_add_notify_event_def colod_callback_add_def
      colod_callback_find_iff waiting_for_def Let_def)

lemma wait_end_fired:
  assumes "waiting_for J co m True s"
  shows "\<exists>s'. qmp_wait_event_end co 0 tid match cur s = Some (Inr (), s') \<and>
    distinct (qmp_event_callbacks s') \<and> CB_wait_event co \<notin> set (qmp_event_callbacks s') \<and>
    ml_sources s' = ml_sources s \<and> qmp_timeout s' = qmp_timeout s \<and> QmpState.more s' = QmpState.more s"
  using assms by (auto simp: qmp_wait_event_end_def waiting_for_def Let_def)

lemma more_fields:
  assumes "QmpState.more s = QmpState.more s'"
  shows "rt_co s = rt_co s'" "cx_qmp_timeout_low s = cx_qmp_timeout_low s'"
    "cx_qmp_timeout_high s = cx_qmp_timeout_high s'"
  using assms by (cases s; cases s'; simp)+


definition raise_example :: RaiseCoroutine where
  "raise_example = \<lparr>ml_sources = [(7, S_raise)], cpg_callbacks = [], cpg_source_id = 0, cpg_retransmit_source_id = 0,
     cpg_retransmit = replicate MESSAGE_MAX False, cpg_mcast = [],
     qmp_channel = idle_channel False, qmp_yank_channel = idle_channel True, qmp_timeout = 10000,
     qmp_yank_instances = None, qmp_yank_callbacks = [], qmp_event_callbacks = [],
     qmp_hup_callbacks = [], qmp_did_yank = False, qmp_error = None, qmp_inflight = 0, qmp_hup_source_id = 0,
     qmp_waits = (\<lambda>_. Some \<lparr>ws_match = JNull, ws_fired = True\<rparr>), yl_pc = Y_delay EVENT_YELLOW D_begin,
     yl_quit = False, yl_monitor_interface = None, yl_listening = True, yl_callbacks = [],
     yl_timeout1 = 500, yl_timeout2 = 1000, rt_co = Some R_wait_resume,
     cx_qmp_timeout_low = 600, cx_qmp_timeout_high = 10000\<rparr>"


end
