(* ===== verification/Watchdog.thy ===== *)
theory Watchdog
  imports Raise_Timeout
begin

text \<open>
  \<^verbatim>\<open>watchdog.c\<close>: a timer, pushed back by every QMP event and every command, whose
  expiry makes a coroutine check the health of QEMU. The result of the health check,
  which runs in the main coroutine's code, is an input. The theory proves that while
  the watchdog runs exactly one source of its own is attached when it waits, and none
  while it checks.
\<close>

subsection \<open>State and operations\<close>

text \<open>The coroutine has not started, waits for its timer, checks the health, or has returned.\<close>

datatype watchdog_pc = W_start | W_timer | W_check | W_done

record ColodWatchdog = RaiseCoroutine +
  wd_interval :: guint
  wd_timer_id :: guint
  wd_quit :: bool
  wd_pc :: watchdog_pc

definition colod_watchdog_refresh :: "'e glib \<Rightarrow> 'z ColodWatchdog_scheme \<Rightarrow> 'z ColodWatchdog_scheme" where
  "colod_watchdog_refresh G state =
     (if wd_timer_id state \<noteq> 0
      then let s1 = remove_source (wd_timer_id state) state;
               (i, s2) = add_source G S_watchdog s1
           in s2\<lparr>wd_timer_id := i\<rparr>
      else state)"

definition colod_watchdog_event_cb :: "'e glib \<Rightarrow> 'z ColodWatchdog_scheme \<Rightarrow> 'z ColodWatchdog_scheme" where
  "colod_watchdog_event_cb G state = colod_watchdog_refresh G state"

text \<open>The head of the loop \<open>while (!state->quit)\<close>.\<close>

definition watchdog_loop :: "'e glib \<Rightarrow> 'z ColodWatchdog_scheme \<Rightarrow> 'z ColodWatchdog_scheme" where
  "watchdog_loop G state =
     (if wd_quit state then state\<lparr>wd_pc := W_done\<rparr>
      else let (i, s1) = add_source G S_watchdog state
           in s1\<lparr>wd_timer_id := i, wd_pc := W_timer\<rparr>)"

text \<open>
  \<open>_colod_watchdog_co\<close> resumed by one of its own sources. Resumed by its timer it
  starts the health check; the check itself runs in between, and \<open>watchdog_checked\<close>
  is the rest once it has returned \<open>ret\<close>.
\<close>

definition watchdog_co :: "'e glib \<Rightarrow> 'z ColodWatchdog_scheme \<Rightarrow> 'z ColodWatchdog_scheme abortable" where
  "watchdog_co G state = (case wd_pc state of
     W_start \<Rightarrow> Some (watchdog_loop G state)
   | W_timer \<Rightarrow>
       if wd_quit state then Some (state\<lparr>wd_pc := W_done\<rparr>)
       else Some (state\<lparr>wd_timer_id := 0, wd_pc := W_check\<rparr>)
   | W_check \<Rightarrow> Some state
   | W_done \<Rightarrow> None)"

definition watchdog_checked :: "'e glib \<Rightarrow> int \<Rightarrow> 'z ColodWatchdog_scheme \<Rightarrow> 'z ColodWatchdog_scheme" where
  "watchdog_checked G ret state =
     (if ret < 0 then state\<lparr>wd_pc := W_done\<rparr> else watchdog_loop G state)"

text \<open>
  \<open>colod_watchdog_co\<close>: when the coroutine has returned, at most one source of its own
  may be left.
\<close>

definition watchdog_leave :: "'z ColodWatchdog_scheme \<Rightarrow> 'z ColodWatchdog_scheme abortable" where
  "watchdog_leave state =
     (if wd_pc state = W_done
      then do {
        ss \<leftarrow> colod_assert_remove_one_source S_watchdog (ml_sources state);
        Some (state\<lparr>ml_sources := ss\<rparr>) }
      else Some state)"

definition colod_watchdog_co :: "'e glib \<Rightarrow> guint \<Rightarrow> 'z ColodWatchdog_scheme \<Rightarrow> 'z ColodWatchdog_scheme abortable" where
  "colod_watchdog_co G cur state = do {
     s1 \<leftarrow> watchdog_co G state;
     s2 \<leftarrow> watchdog_leave s1;
     Some (remove_source cur s2) }"

definition watchdog_health_done :: "'e glib \<Rightarrow> int \<Rightarrow> 'z ColodWatchdog_scheme \<Rightarrow> 'z ColodWatchdog_scheme abortable" where
  "watchdog_health_done G ret state = watchdog_leave (watchdog_checked G ret state)"

text \<open>\<open>ctx->watchdog_interval\<close> 0 disables the watchdog.\<close>

definition colod_watchdog_new ::
    "'e glib \<Rightarrow> guint \<Rightarrow> 'z ColodWatchdog_scheme \<Rightarrow> 'z ColodWatchdog_scheme abortable" where
  "colod_watchdog_new G interval s =
     (let s0 = s\<lparr>wd_interval := interval, wd_timer_id := 0, wd_quit := False, wd_pc := W_start\<rparr> in
      if interval \<noteq> 0
      then let (i, s1) = add_source G S_watchdog s0 in qmp_add_notify_event CB_watchdog_event s1
      else Some s0)"

text \<open>\<open>colo_watchdog_free\<close> up to its loop, which runs the main loop until the coroutine quits.\<close>

definition colo_watchdog_free :: "'e glib \<Rightarrow> 'z ColodWatchdog_scheme \<Rightarrow> 'z ColodWatchdog_scheme abortable" where
  "colo_watchdog_free G state =
     (if wd_interval state = 0 then Some state
      else do {
        s1 \<leftarrow> qmp_del_notify_event CB_watchdog_event (state\<lparr>wd_quit := True\<rparr>);
        Some (if wd_timer_id s1 \<noteq> 0
          then let s2 = (remove_source (wd_timer_id s1) s1)\<lparr>wd_timer_id := 0\<rparr>;
                   (i, s3) = add_source G S_watchdog s2
               in s3
          else s1) })"

subsection \<open>Correctness\<close>

definition watchdog_inv :: "'z ColodWatchdog_scheme \<Rightarrow> bool" where
  "watchdog_inv s \<longleftrightarrow> sources_ok (ml_sources s) \<and>
     (case wd_pc s of
        W_start \<Rightarrow> wd_timer_id s = 0 \<and> length (sources_of S_watchdog (ml_sources s)) = 1
      | W_timer \<Rightarrow> (if wd_quit s then wd_timer_id s = 0 \<and> length (sources_of S_watchdog (ml_sources s)) = 1
          else wd_timer_id s \<noteq> 0 \<and> sources_of S_watchdog (ml_sources s) = [(wd_timer_id s, S_watchdog)])
      | _ \<Rightarrow> wd_timer_id s = 0 \<and> sources_of S_watchdog (ml_sources s) = [])"

lemma user_data_watchdog: "filter (\<lambda>x. source_user_data (snd x) = S_watchdog) ss = sources_of S_watchdog ss"
proof -
  have "source_user_data d = S_watchdog \<longleftrightarrow> d = S_watchdog" for d by (cases d) auto
  then show ?thesis by (simp add: sources_of_def)
qed

lemma room_after_remove:
  "sources_room ss \<Longrightarrow> sources_room (g_source_remove i ss)"
  by (auto simp: sources_room_def g_source_remove_def intro: le_less_trans [OF length_filter_le])

lemma watchdog_refresh_inv:
  assumes "attach_lawful G" and "watchdog_inv s" and "sources_room (ml_sources s)"
  shows "watchdog_inv (colod_watchdog_refresh G s) \<and>
    (wd_timer_id (colod_watchdog_refresh G s) = 0 \<longleftrightarrow> wd_timer_id s = 0)"
proof (cases "wd_timer_id s = 0")
  case True
  with assms(2) show ?thesis by (simp add: colod_watchdog_refresh_def)
next
  case False
  then have pc: "wd_pc s = W_timer" "\<not> wd_quit s" "sources_of S_watchdog (ml_sources s) = [(wd_timer_id s, S_watchdog)]"
    using assms(2) by (cases "wd_pc s"; simp add: watchdog_inv_def split: if_splits)+
  let ?s1 = "remove_source (wd_timer_id s) s"
  have s1: "sources_ok (ml_sources ?s1)" "sources_of S_watchdog (ml_sources ?s1) = []"
    "sources_room (ml_sources ?s1)"
    using assms pc by (simp_all add: watchdog_inv_def remove_source_def sources_ok_remove sources_of_remove
        room_after_remove)
  obtain i where "add_source G S_watchdog ?s1 = (i, ?s1\<lparr>ml_sources := (i, S_watchdog) # ml_sources ?s1\<rparr>)"
    "i \<noteq> 0" "sources_ok ((i, S_watchdog) # ml_sources ?s1)"
    using add_source_fresh [OF assms(1) s1(1,3)] by blast
  with False s1(2) pc(1,2) show ?thesis
    by (auto simp: colod_watchdog_refresh_def watchdog_inv_def remove_source_def)
qed

lemma watchdog_leave_none:
  assumes "sources_of S_watchdog (ml_sources s) = []"
  shows "watchdog_leave s = Some s"
proof -
  have "\<not> find_source_by_user_data S_watchdog (ml_sources s)"
    using assms unfolding find_source_by_user_data_def user_data_watchdog [symmetric]
    by (auto simp: filter_empty_conv)
  then show ?thesis by (simp add: watchdog_leave_def colod_assert_remove_one_source_def)
qed

lemma watchdog_remove_one:
  assumes "length (sources_of S_watchdog ss) \<le> 1"
  shows "\<exists>ss'. colod_assert_remove_one_source S_watchdog ss = Some ss' \<and> sources_of S_watchdog ss' = []"
proof -
  obtain ss' where ss': "colod_assert_remove_one_source S_watchdog ss = Some ss'"
    using assms assert_remove_one_source_iff [of S_watchdog ss] by (auto simp: user_data_watchdog)
  from assert_remove_one_source_set [OF ss'] have "sources_of S_watchdog ss' = []"
    by (auto simp: sources_of_def filter_empty_conv)
  with ss' show ?thesis by blast
qed

text \<open>Returning with the current source still attached: it is the one that is removed.\<close>

lemma watchdog_return_ok:
  assumes "sources_ok (ml_sources s)" and "length (sources_of S_watchdog (ml_sources s)) \<le> 1"
    and "wd_pc s = W_done" and "wd_timer_id s = 0"
  shows "\<exists>s'. watchdog_leave s = Some s' \<and> watchdog_inv (remove_source cur s') \<and>
    wd_pc s' = W_done \<and> watchdog_inv s'"
proof -
  obtain ss where ss: "colod_assert_remove_one_source S_watchdog (ml_sources s) = Some ss"
    "sources_of S_watchdog ss = []"
    using watchdog_remove_one [OF assms(2)] by blast
  have ok: "sources_ok ss" by (rule assert_remove_one_source_ok [OF ss(1) assms(1)])
  with ss assms show ?thesis
    by (auto simp: watchdog_leave_def watchdog_inv_def remove_source_def sources_ok_remove sources_of_remove)
qed

lemma watchdog_loop_inv:
  assumes "attach_lawful G" and "sources_ok (ml_sources s)" and "sources_room (ml_sources s)"
    and "sources_of S_watchdog (ml_sources s) = []" and "wd_timer_id s = 0"
  shows "watchdog_inv (watchdog_loop G s) \<and> wd_pc (watchdog_loop G s) = (if wd_quit s then W_done else W_timer)"
proof (cases "wd_quit s")
  case True
  with assms show ?thesis by (simp add: watchdog_loop_def watchdog_inv_def)
next
  case False
  obtain i where "add_source G S_watchdog s = (i, s\<lparr>ml_sources := (i, S_watchdog) # ml_sources s\<rparr>)"
    "i \<noteq> 0" "sources_ok ((i, S_watchdog) # ml_sources s)"
    using add_source_fresh [OF assms(1-3)] by blast
  with False assms(4,5) show ?thesis by (simp add: watchdog_loop_def watchdog_inv_def)
qed

text \<open>
  C29. The watchdog coroutine never aborts and never leaves two timers behind: resumed
  by its source it arms the timer, or starts a check, or returns because it was told
  to quit; a check that succeeds arms the timer again and one that fails ends it.
\<close>

theorem watchdog_resume_safe:
  assumes "attach_lawful G" and "watchdog_inv s" and "sources_room (ml_sources s)"
  shows "(\<forall>cur. (cur, S_watchdog) \<in> set (ml_sources s) \<longrightarrow>
      (\<exists>s'. colod_watchdog_co G cur s = Some s' \<and> watchdog_inv s' \<and>
        wd_pc s' = (if wd_quit s then W_done else if wd_pc s = W_start then W_timer else W_check))) \<and>
    (wd_pc s = W_check \<longrightarrow> (\<forall>ret. \<exists>s'. watchdog_health_done G ret s = Some s' \<and> watchdog_inv s' \<and>
        wd_pc s' = (if ret < 0 \<or> wd_quit s then W_done else W_timer)))"
proof (intro conjI allI impI)
  fix cur assume mem: "(cur, S_watchdog) \<in> set (ml_sources s)"
  have ok: "sources_ok (ml_sources s)" using assms(2) by (simp add: watchdog_inv_def)
  have ne: "sources_of S_watchdog (ml_sources s) \<noteq> []"
    using mem by (metis empty_iff list.set(1) snd_conv sources_of_set)
  then have len: "length (sources_of S_watchdog (ml_sources s)) \<le> 1" and pc: "wd_pc s = W_start \<or> wd_pc s = W_timer"
    using assms(2) by (cases "wd_pc s"; auto simp: watchdog_inv_def split: if_splits)+
  have one: "sources_of S_watchdog (ml_sources s) = [(cur, S_watchdog)]"
  proof -
    have "(cur, S_watchdog) \<in> set (sources_of S_watchdog (ml_sources s))" using mem by simp
    with len show ?thesis by (cases "sources_of S_watchdog (ml_sources s)") auto
  qed
  show "\<exists>s'. colod_watchdog_co G cur s = Some s' \<and> watchdog_inv s' \<and>
        wd_pc s' = (if wd_quit s then W_done else if wd_pc s = W_start then W_timer else W_check)"
  proof (cases "wd_quit s")
    case True
    have "wd_timer_id s = 0" using assms(2) pc True by (auto simp: watchdog_inv_def)
    then obtain s' where s': "watchdog_leave (s\<lparr>wd_pc := W_done\<rparr>) = Some s'"
      "watchdog_inv (remove_source cur s')" "wd_pc s' = W_done"
      using watchdog_return_ok [of "s\<lparr>wd_pc := W_done\<rparr>" cur] ok len by auto
    have "watchdog_co G s = Some (s\<lparr>wd_pc := W_done\<rparr>)"
      using True pc by (auto simp: watchdog_co_def watchdog_loop_def)
    with s' True have "colod_watchdog_co G cur s = Some (remove_source cur s')"
      by (simp add: colod_watchdog_co_def)
    moreover have "wd_pc (remove_source cur s') = W_done" using s'(3) by (simp add: remove_source_def)
    ultimately show ?thesis using s'(2) True by simp
  next
    case False
    have gone: "sources_of S_watchdog (g_source_remove cur (ml_sources s)) = []"
      by (simp add: sources_of_remove one)
    show ?thesis
    proof (cases "wd_pc s = W_start")
      case True
      obtain i where i: "add_source G S_watchdog s = (i, s\<lparr>ml_sources := (i, S_watchdog) # ml_sources s\<rparr>)"
        "i \<noteq> 0" "i \<notin> source_ids (ml_sources s)" "sources_ok ((i, S_watchdog) # ml_sources s)"
        using add_source_fresh [OF assms(1) ok assms(3)] by blast
      moreover have "i \<noteq> cur" using i(3) source_ids_mem [OF mem] by auto
      ultimately show ?thesis
        using True False gone sources_ok_remove [OF i(4), of cur]
        by (auto simp: colod_watchdog_co_def watchdog_co_def watchdog_loop_def watchdog_leave_def
            watchdog_inv_def remove_source_def)
    next
      case False
      with \<open>\<not> wd_quit s\<close> pc gone sources_ok_remove [OF ok, of cur] show ?thesis
        by (auto simp: colod_watchdog_co_def watchdog_co_def watchdog_leave_def watchdog_inv_def
            remove_source_def)
    qed
  qed
next
  fix ret assume check: "wd_pc s = W_check"
  then have s: "sources_of S_watchdog (ml_sources s) = []" "wd_timer_id s = 0" "sources_ok (ml_sources s)"
    using assms(2) by (simp_all add: watchdog_inv_def)
  let ?s' = "watchdog_checked G ret s"
  have inv: "watchdog_inv ?s'" "wd_pc ?s' = (if ret < 0 \<or> wd_quit s then W_done else W_timer)"
    using watchdog_loop_inv [OF assms(1) s(3) assms(3) s(1,2)] s
    by (auto simp: watchdog_checked_def watchdog_inv_def)
  have "\<exists>s''. watchdog_leave ?s' = Some s'' \<and> watchdog_inv s'' \<and> wd_pc s'' = wd_pc ?s'"
  proof (cases "wd_pc ?s' = W_done")
    case True
    with inv(1) have "watchdog_leave ?s' = Some ?s'"
      by (intro watchdog_leave_none) (simp add: watchdog_inv_def)
    with inv(1) show ?thesis by simp
  qed (use inv(1) in \<open>simp add: watchdog_leave_def\<close>)
  with inv(2) show "\<exists>s'. watchdog_health_done G ret s = Some s' \<and> watchdog_inv s' \<and>
        wd_pc s' = (if ret < 0 \<or> wd_quit s then W_done else W_timer)"
    by (auto simp: watchdog_health_done_def)
qed

definition watchdog_example :: ColodWatchdog where
  "watchdog_example = RaiseCoroutine.extend raise_example
     \<lparr>wd_interval = 1000, wd_timer_id = 0, wd_quit = False, wd_pc = W_check\<rparr>"

lemma watchdog_resume_safe_witness:
  "\<exists>s'. watchdog_health_done (ref_glib :: nat glib) 0 watchdog_example = Some s' \<and> wd_pc s' = W_timer"
proof -
  have "watchdog_inv watchdog_example" "sources_room (ml_sources watchdog_example)"
    "wd_pc watchdog_example = W_check" "\<not> wd_quit watchdog_example"
    by (simp_all add: watchdog_example_def raise_example_def watchdog_inv_def sources_ok_def
        sources_room_def RaiseCoroutine.defs)
  with watchdog_resume_safe [OF ref_attach_lawful, of watchdog_example]
  show ?thesis by (metis less_irrefl)
qed

end
