(* ===== verification/Main_State.thy ===== *)
theory Main_State
  imports Watchdog
begin

text \<open>
  The state of \<^verbatim>\<open>main_coroutine.c\<close> and the functions of it that run to their
  end at once: the queries and settings clients use, the event queue with the source
  that wakes the coroutine, the ends of the QMP calls, the health check, and the
  callbacks by which QMP, the process group and the link debouncer report events.
  The coroutine itself is in \<open>Main_Coroutine\<close>.
\<close>

subsection \<open>State\<close>

datatype MainState =
    STATE_SECONDARY_STARTUP | STATE_SECONDARY_WAIT | STATE_SECONDARY_COLO_RUNNING
  | STATE_PRIMARY_STARTUP | STATE_PRIMARY_WAIT | STATE_PRIMARY_START_MIGRATION
  | STATE_PRIMARY_COLO_RUNNING | STATE_FAILOVER_SYNC | STATE_FAILOVER
  | STATE_FAILED_PEER_FAILOVER | STATE_FAILED | STATE_QUIT | STATE_AUTOQUIT

text \<open>
  The points where the coroutine waits. For a QMP command the frame keeps which
  command list is executed and its elements still to come; the commands that are not
  in a list are named after the function that executes them.
\<close>

datatype array_pt = A_mig_start | A_mig_switchover | A_failover

datatype exec_pt =
    X_sec_startup | X_mig_caps | X_mig_continue | X_mig_cancel ColodEvent | X_stop
  | X_array array_pt "json list"

datatype wait_pt = Q_sec_resume | Q_run_resume1 | Q_run_resume2 | Q_mig_preswitch | Q_mig_colo

datatype event_pt =
    E_sec_wait | E_running | E_primary_wait | E_mig | E_failover_sync | E_failed | E_autoquit

text \<open>With a QMP call the coroutine keeps the I/O source, with the other waits its timeout.\<close>

datatype main_pc =
    PC_start | PC_exec exec_pt guint | PC_yank guint | PC_wait wait_pt guint | PC_timer guint
  | PC_event event_pt | PC_done

text \<open>
  \<open>mc_issued\<close> and \<open>mc_trace\<close> are output: the QMP commands handed to \<^verbatim>\<open>qmp.c\<close> and
  the trace lines about the event queue, in order. \<open>cx_mainloop_quit\<close> is set by
  \<^verbatim>\<open>g_main_loop_quit\<close>.
\<close>

datatype main_trace = Queued ColodEvent | Got ColodEvent

record MainCoroutine = ColodWatchdog +
  mc_pc :: main_pc
  mc_quit :: bool
  mc_queue :: EventQueue
  mc_wake_source_id :: guint
  mc_state :: MainState
  mc_transitioning :: bool
  mc_failed :: bool
  mc_peer_failed :: bool
  mc_yellow :: bool
  mc_peer_yellow :: bool
  mc_qemu_quit :: bool
  mc_peer_failover :: bool
  mc_primary :: bool
  mc_replication :: bool
  mc_peer :: "string option"
  mc_issued :: "string list"
  mc_trace :: "main_trace list"
  cx_commands :: QmpCommands
  cx_primary_startup :: bool
  cx_mainloop_quit :: bool

subsection \<open>Queries and settings\<close>

record ColodState =
  cs_primary :: bool
  cs_replication :: bool
  cs_failed :: bool
  cs_peer_failover :: bool
  cs_peer_failed :: bool

definition colod_query_status :: "'z MainCoroutine_scheme \<Rightarrow> ColodState" where
  "colod_query_status this = \<lparr>cs_primary = mc_primary this, cs_replication = mc_replication this,
     cs_failed = mc_failed this, cs_peer_failover = mc_peer_failover this,
     cs_peer_failed = mc_peer_failed this\<rparr>"

definition colod_peer_failed :: "'z MainCoroutine_scheme \<Rightarrow> 'z MainCoroutine_scheme" where
  "colod_peer_failed this = this\<lparr>mc_peer_failed := True\<rparr>"

text \<open>\<open>None\<close> is a NULL peer, which a client sets with a member that is not a string.\<close>

definition colod_set_peer :: "string option \<Rightarrow> 'z MainCoroutine_scheme \<Rightarrow> 'z MainCoroutine_scheme" where
  "colod_set_peer peer this = this\<lparr>mc_peer := peer, mc_peer_failed := False, mc_peer_yellow := False\<rparr>"

definition colod_get_peer :: "'z MainCoroutine_scheme \<Rightarrow> string option" where
  "colod_get_peer this = mc_peer this"

definition colod_clear_peer :: "'z MainCoroutine_scheme \<Rightarrow> 'z MainCoroutine_scheme" where
  "colod_clear_peer this = this\<lparr>mc_peer := Some ''''\<rparr>"

definition colod_quit :: "'z MainCoroutine_scheme \<Rightarrow> 'z MainCoroutine_scheme" where
  "colod_quit this = this\<lparr>cx_mainloop_quit := True\<rparr>"

definition do_autoquit :: "'z MainCoroutine_scheme \<Rightarrow> 'z MainCoroutine_scheme" where
  "do_autoquit this = this\<lparr>cx_mainloop_quit := True\<rparr>"

subsection \<open>Events\<close>

fun event_str :: "ColodEvent \<Rightarrow> string abortable" where
  "event_str EVENT_FAILED = Some ''EVENT_FAILED''"
| "event_str EVENT_PEER_FAILOVER = Some ''EVENT_PEER_FAILOVER''"
| "event_str EVENT_QUIT = Some ''EVENT_QUIT''"
| "event_str EVENT_AUTOQUIT = Some ''EVENT_AUTOQUIT''"
| "event_str EVENT_FAILOVER_SYNC = Some ''EVENT_FAILOVER_SYNC''"
| "event_str EVENT_FAILOVER_WIN = Some ''EVENT_FAILOVER_WIN''"
| "event_str EVENT_YELLOW = Some ''EVENT_YELLOW''"
| "event_str EVENT_UNYELLOW = Some ''EVENT_UNYELLOW''"
| "event_str EVENT_START_MIGRATION = Some ''EVENT_START_MIGRATION''"
| "event_str EVENT_MAX = None"

definition colod_eventqueue_new :: "EventQueue abortable" where
  "colod_eventqueue_new =
     eventqueue_new 32 [EVENT_FAILED, EVENT_PEER_FAILOVER, EVENT_QUIT, EVENT_AUTOQUIT]"

fun event_always_interrupting :: "ColodEvent \<Rightarrow> bool" where
  "event_always_interrupting EVENT_FAILED = True"
| "event_always_interrupting EVENT_PEER_FAILOVER = True"
| "event_always_interrupting EVENT_QUIT = True"
| "event_always_interrupting EVENT_AUTOQUIT = True"
| "event_always_interrupting _ = False"

fun handle_always_interrupting :: "ColodEvent \<Rightarrow> MainState abortable" where
  "handle_always_interrupting EVENT_FAILED = Some STATE_FAILED"
| "handle_always_interrupting EVENT_PEER_FAILOVER = Some STATE_FAILED_PEER_FAILOVER"
| "handle_always_interrupting EVENT_QUIT = Some STATE_QUIT"
| "handle_always_interrupting EVENT_AUTOQUIT = Some STATE_AUTOQUIT"
| "handle_always_interrupting _ = None"

definition event_failover :: "ColodEvent \<Rightarrow> bool" where
  "event_failover event \<longleftrightarrow> event = EVENT_FAILOVER_SYNC"

definition handle_event_failover :: "ColodEvent \<Rightarrow> MainState abortable" where
  "handle_event_failover event =
     (if event = EVENT_FAILOVER_SYNC then Some STATE_FAILOVER_SYNC else None)"

definition event_yellow :: "ColodEvent \<Rightarrow> bool" where
  "event_yellow event \<longleftrightarrow> event = EVENT_YELLOW \<or> event = EVENT_UNYELLOW"

definition event_wake_source_destroy_cb :: "'z MainCoroutine_scheme \<Rightarrow> 'z MainCoroutine_scheme" where
  "event_wake_source_destroy_cb this = this\<lparr>mc_wake_source_id := 0\<rparr>"

text \<open>The result of \<open>eventqueue_add\<close> is ignored, as in the code.\<close>

definition colod_event_queue ::
    "Event glib \<Rightarrow> ColodEvent \<Rightarrow> 'z MainCoroutine_scheme \<Rightarrow> 'z MainCoroutine_scheme abortable" where
  "colod_event_queue G event this = do {
     event_str event;
     let this0 = this\<lparr>mc_trace := mc_trace this @ [Queued event]\<rparr>;
     let this1 = (if mc_wake_source_id this0 = 0 \<and>
          (\<not> eventqueue_pending (mc_queue this0) \<or> eventqueue_event_interrupting (mc_queue this0) event)
        then let (i, t) = add_source G S_wake this0 in t\<lparr>mc_wake_source_id := i\<rparr>
        else this0);
     last_event \<leftarrow> eventqueue_last (mc_queue this1);
     (if (case last_event of Some e \<Rightarrow> ev_event e = event | None \<Rightarrow> False)
      then Some this1
      else do {
        (ret, q) \<leftarrow> eventqueue_add G (mc_queue this1) event 0;
        Some (this1\<lparr>mc_queue := q\<rparr>) }) }"

text \<open>
  \<open>colod_event_wait\<close> in a dispatch of the source \<open>cur\<close>. The result \<open>None\<close> means that
  the coroutine yields.
\<close>

definition colod_event_wait ::
    "guint \<Rightarrow> 'z MainCoroutine_scheme \<Rightarrow> (ColodEvent option \<times> 'z MainCoroutine_scheme) abortable" where
  "colod_event_wait cur this =
     (let this1 = (if cur = mc_wake_source_id this then this\<lparr>mc_wake_source_id := 0\<rparr> else this) in
      if \<not> eventqueue_pending (mc_queue this1) \<or> mc_wake_source_id this1 \<noteq> 0 then Some (None, this1)
      else do {
        (event, q) \<leftarrow> eventqueue_remove (mc_queue this1);
        ev \<leftarrow> c_nonnull event;
        event_str (ev_event ev);
        Some (Some (ev_event ev), this1\<lparr>mc_queue := q, mc_trace := mc_trace this1 @ [Got (ev_event ev)]\<rparr>) })"

subsection \<open>The ends of QMP calls\<close>

text \<open>
  What a call into \<^verbatim>\<open>qmp.c\<close> leaves behind when it returns: whether it yanked,
  and a reply or an error. That a failed call of \<open>Qmp_Channel\<close> leaves its error in the
  QMP state and returns it with the prefix is part of \<open>execute_rule\<close> in \<open>Qmp_Exclusion\<close>. A yank either succeeds or fails, and a failure on the channel is
  sticky.
\<close>

datatype exec_outcome = Exec_ok bool ColodQmpResult | Exec_fail bool gerror
datatype yank_outcome = Yank_ok | Yank_fail bool gerror

definition qmp_execute_return ::
    "exec_outcome \<Rightarrow> 'z QmpState_scheme \<Rightarrow> ColodQmpResult fallible \<times> 'z QmpState_scheme" where
  "qmp_execute_return out s = (case out of
     Exec_ok yanked result \<Rightarrow> (Inr result, if yanked then qmp_set_yank s else s)
   | Exec_fail yanked e \<Rightarrow>
       (Inl (g_prefix_error ''qmp: '' e), qmp_set_error e (if yanked then qmp_set_yank s else s)))"

definition qmp_yank_return ::
    "yank_outcome \<Rightarrow> 'z QmpState_scheme \<Rightarrow> unit fallible \<times> 'z QmpState_scheme" where
  "qmp_yank_return out s = (case out of
     Yank_ok \<Rightarrow> (Inr (), qmp_set_yank s)
   | Yank_fail sticky e \<Rightarrow> (Inl e, if sticky then qmp_set_error e s else s))"

text \<open>\<open>_colod_yank_co\<close> after \<^verbatim>\<open>_qmp_yank_co\<close> has returned.\<close>

definition colod_yank_end ::
    "Event glib \<Rightarrow> yank_outcome \<Rightarrow> 'z MainCoroutine_scheme \<Rightarrow>
     (unit fallible \<times> 'z MainCoroutine_scheme) abortable" where
  "colod_yank_end G out this = (let (ret, this1) = qmp_yank_return out this in
     case ret of
       Inl e \<Rightarrow> do { this2 \<leftarrow> colod_event_queue G EVENT_FAILED this1; Some (Inl e, this2) }
     | Inr _ \<Rightarrow> do {
         this2 \<leftarrow> colod_event_queue G EVENT_FAILOVER_SYNC (qmp_clear_yank this1);
         Some (Inr (), this2) })"

text \<open>\<open>_colod_execute_nocheck_co\<close> before and after the QMP call.\<close>

definition colod_execute_begin ::
    "'e glib \<Rightarrow> string \<Rightarrow> 'z MainCoroutine_scheme \<Rightarrow> 'z MainCoroutine_scheme" where
  "colod_execute_begin G command this =
     (let this1 = colod_watchdog_refresh G this in this1\<lparr>mc_issued := mc_issued this1 @ [command]\<rparr>)"

definition colod_execute_nocheck_end ::
    "Event glib \<Rightarrow> exec_outcome \<Rightarrow> 'z MainCoroutine_scheme \<Rightarrow>
     (ColodQmpResult fallible \<times> 'z MainCoroutine_scheme) abortable" where
  "colod_execute_nocheck_end G out this = (let (result, this1) = qmp_execute_return out this in
     case result of
       Inl e \<Rightarrow> do { this2 \<leftarrow> colod_event_queue G EVENT_FAILED this1; Some (Inl e, this2) }
     | Inr r \<Rightarrow> (case qmp_get_error this1 of
         Inl e \<Rightarrow> do { this2 \<leftarrow> colod_event_queue G EVENT_FAILED this1; Some (Inl e, this2) }
       | Inr _ \<Rightarrow>
           if qmp_get_yank this1
           then do {
             this2 \<leftarrow> colod_event_queue G EVENT_FAILOVER_SYNC (qmp_clear_yank this1);
             Some (Inr r, this2) }
           else Some (Inr r, this1)))"

definition colod_execute_end ::
    "Event glib \<Rightarrow> string \<Rightarrow> exec_outcome \<Rightarrow> 'z MainCoroutine_scheme \<Rightarrow>
     (ColodQmpResult fallible \<times> 'z MainCoroutine_scheme) abortable" where
  "colod_execute_end G command out this = do {
     (result, this1) \<leftarrow> colod_execute_nocheck_end G out this;
     (case result of
        Inl e \<Rightarrow> Some (Inl e, this1)
      | Inr r \<Rightarrow> do {
          b \<leftarrow> has_member (qr_json_root r) ''error'';
          Some (if b then Inl (GError (Some COLOD_ERROR_QMP)
                (''qmp command returned error: '' @ command @ '' '' @ qr_line r))
                else Inr r, this1) }) }"

subsection \<open>The health check\<close>

definition qemu_running :: "string \<Rightarrow> bool" where
  "qemu_running status \<longleftrightarrow> status = ''running'' \<or> status = ''finish-migrate'' \<or> status = ''colo''
     \<or> status = ''prelaunch'' \<or> status = ''paused''"

text \<open>
  \<open>_qemu_query_status_co\<close> once both replies are there: the pair of \<open>primary\<close> and
  \<open>replication\<close>, or an error.
\<close>

definition qemu_query_status ::
    "ColodQmpResult \<Rightarrow> ColodQmpResult \<Rightarrow> (bool \<times> bool) fallible abortable" where
  "qemu_query_status qemu_status colo_status = do {
     status \<leftarrow> get_member_member_str (qr_json_root qemu_status) ''return'' ''status'';
     colo_mode \<leftarrow> get_member_member_str (qr_json_root colo_status) ''return'' ''mode'';
     colo_reason \<leftarrow> get_member_member_str (qr_json_root colo_status) ''return'' ''reason'';
     Some (case (status, colo_mode, colo_reason) of
       (Some st, Some mode, Some reason) \<Rightarrow>
         if st = ''inmigrate'' \<or> st = ''shutdown'' then Inr (False, False)
         else if qemu_running st \<and> mode = ''none'' \<and> (reason = ''none'' \<or> reason = ''request'')
         then Inr (True, False)
         else if qemu_running st \<and> mode = ''primary'' then Inr (True, True)
         else if qemu_running st \<and> mode = ''secondary'' then Inr (False, True)
         else Inl (GError (Some COLOD_ERROR_FATAL)
           (''Unknown qemu status: '' @ qr_line qemu_status @ '', '' @ qr_line colo_status))
     | _ \<Rightarrow> Inl (GError (Some COLOD_ERROR_FATAL)
         ''Failed to parse query-status and query-colo-status output'')) }"

text \<open>\<open>_colod_check_health_co\<close> once the status is known.\<close>

definition colod_check_health_end ::
    "Event glib \<Rightarrow> (bool \<times> bool) fallible \<Rightarrow> 'z MainCoroutine_scheme \<Rightarrow>
     (unit fallible \<times> 'z MainCoroutine_scheme) abortable" where
  "colod_check_health_end G ret this = (case ret of
     Inl e \<Rightarrow> do { this1 \<leftarrow> colod_event_queue G EVENT_FAILED this; Some (Inl e, this1) }
   | Inr (primary, replication) \<Rightarrow>
       if \<not> mc_transitioning this \<and>
          (mc_primary this \<noteq> primary \<or> mc_replication this \<noteq> replication)
       then do {
         this1 \<leftarrow> colod_event_queue G EVENT_FAILED this;
         Some (Inl (GError (Some COLOD_ERROR_FATAL)
           (''qemu status mismatch: ('' @ bool_to_json primary @ '', '' @ bool_to_json replication @
            '') Expected: ('' @ bool_to_json (mc_primary this) @ '', '' @
            bool_to_json (mc_replication this) @ '')'')), this1) }
       else Some (Inr (), this))"

subsection \<open>Requests of the clients\<close>

definition colod_start_migration ::
    "Event glib \<Rightarrow> 'z MainCoroutine_scheme \<Rightarrow> (int \<times> 'z MainCoroutine_scheme) abortable" where
  "colod_start_migration G this =
     (if mc_state this \<noteq> STATE_PRIMARY_WAIT then Some (-1, this)
      else do { this1 \<leftarrow> colod_event_queue G EVENT_START_MIGRATION this; Some (0, this1) })"

definition colod_autoquit :: "Event glib \<Rightarrow> 'z MainCoroutine_scheme \<Rightarrow> 'z MainCoroutine_scheme abortable" where
  "colod_autoquit G this = colod_event_queue G EVENT_AUTOQUIT this"

definition colod_qemu_failed :: "Event glib \<Rightarrow> 'z MainCoroutine_scheme \<Rightarrow> 'z MainCoroutine_scheme abortable" where
  "colod_qemu_failed G this = colod_event_queue G EVENT_FAILED this"

subsection \<open>Callbacks\<close>

definition colod_hup_cb :: "Event glib \<Rightarrow> 'z MainCoroutine_scheme \<Rightarrow> 'z MainCoroutine_scheme abortable" where
  "colod_hup_cb G this = colod_event_queue G EVENT_FAILED (this\<lparr>mc_qemu_quit := True\<rparr>)"

definition colod_yellow_event_cb ::
    "Event glib \<Rightarrow> ColodEvent \<Rightarrow> 'z MainCoroutine_scheme \<Rightarrow> 'z MainCoroutine_scheme abortable" where
  "colod_yellow_event_cb G event this =
     (if event = EVENT_YELLOW then colod_event_queue G EVENT_YELLOW (this\<lparr>mc_yellow := True\<rparr>)
      else if event = EVENT_UNYELLOW then colod_event_queue G EVENT_UNYELLOW (this\<lparr>mc_yellow := False\<rparr>)
      else None)"

text \<open>The callbacks of the debouncer: calling any other function there is an error.\<close>

fun yellow_callbacks :: "Event glib \<Rightarrow> callback \<Rightarrow> ColodEvent \<Rightarrow> 'z MainCoroutine_scheme \<Rightarrow> 'z MainCoroutine_scheme abortable" where
  "yellow_callbacks G CB_yellow_event event this = colod_yellow_event_cb G event this"
| "yellow_callbacks G _ event this = None"

text \<open>\<^verbatim>\<open>strcmp\<close> of a member that is missing is a NULL dereference.\<close>

definition colod_qmp_event_cb ::
    "Event glib \<Rightarrow> json \<Rightarrow> 'z MainCoroutine_scheme \<Rightarrow> 'z MainCoroutine_scheme abortable" where
  "colod_qmp_event_cb G result this = do {
     e \<leftarrow> get_member_str result ''event'';
     event \<leftarrow> c_nonnull e;
     (if event = ''QUORUM_REPORT_BAD'' then do {
        n \<leftarrow> get_member_member_str result ''data'' ''node-name'';
        t \<leftarrow> get_member_member_str result ''data'' ''type'';
        node \<leftarrow> c_nonnull n;
        type \<leftarrow> c_nonnull t;
        (if node = ''nbd0'' then
           (if type \<noteq> ''read'' then colod_event_queue G EVENT_FAILOVER_SYNC this else Some this)
         else if type \<noteq> ''read'' then do {
           this1 \<leftarrow> colod_cpg_send G MESSAGE_YELLOW (this\<lparr>mc_yellow := True\<rparr>);
           this2 \<leftarrow> yellow_shutdown G (yellow_callbacks G) this1;
           colod_event_queue G EVENT_YELLOW this2 }
         else Some this) }
      else if event = ''MIGRATION'' then do {
        st \<leftarrow> get_member_member_str result ''data'' ''status'';
        status \<leftarrow> c_nonnull st;
        (if status = ''failed'' \<and> mc_state this = STATE_PRIMARY_START_MIGRATION
         then colod_event_queue G EVENT_FAILOVER_SYNC this else Some this) }
      else if event = ''COLO_EXIT'' then do {
        r \<leftarrow> get_member_member_str result ''data'' ''reason'';
        reason \<leftarrow> c_nonnull r;
        (if reason = ''error'' then colod_event_queue G EVENT_FAILOVER_SYNC this else Some this) }
      else if event = ''RESET'' then colod_raise_timeout_coroutine G this
      else Some this) }"

definition colod_cpg_event_cb ::
    "Event glib \<Rightarrow> ColodMessage \<Rightarrow> bool \<Rightarrow> bool \<Rightarrow> 'z MainCoroutine_scheme \<Rightarrow>
     'z MainCoroutine_scheme abortable" where
  "colod_cpg_event_cb G message message_from_this_node peer_left_group this =
     (if peer_left_group then colod_event_queue G EVENT_FAILOVER_SYNC (colod_peer_failed this)
      else if message = MESSAGE_FAILOVER then
        (if message_from_this_node then colod_event_queue G EVENT_FAILOVER_WIN this
         else colod_event_queue G EVENT_PEER_FAILOVER this)
      else if message = MESSAGE_FAILED then
        (if \<not> message_from_this_node
         then colod_event_queue G EVENT_FAILOVER_SYNC (colod_peer_failed this) else Some this)
      else if message = MESSAGE_HELLO then
        (if mc_yellow this then colod_cpg_send G MESSAGE_YELLOW this else Some this)
      else if message = MESSAGE_YELLOW then
        (if \<not> message_from_this_node
         then colod_event_queue G EVENT_YELLOW (this\<lparr>mc_peer_yellow := True\<rparr>) else Some this)
      else if message = MESSAGE_UNYELLOW then
        (if \<not> message_from_this_node
         then colod_event_queue G EVENT_YELLOW (this\<lparr>mc_peer_yellow := False\<rparr>) else Some this)
      else Some this)"

text \<open>The lists the main coroutine registers with, each calling its own function.\<close>

fun cpg_callbacks_main :: "Event glib \<Rightarrow> 'z MainCoroutine_scheme cpg_callback" where
  "cpg_callbacks_main G CB_cpg_event m mine left this = colod_cpg_event_cb G m mine left this"
| "cpg_callbacks_main G _ m mine left this = None"

fun hup_callbacks_main :: "Event glib \<Rightarrow> 'z MainCoroutine_scheme qmp_hup_callback" where
  "hup_callbacks_main G CB_qmp_hup this = colod_hup_cb G this"
| "hup_callbacks_main G _ this = None"

fun qmp_callbacks_main :: "Event glib \<Rightarrow> 'z MainCoroutine_scheme qmp_event_callback" where
  "qmp_callbacks_main G CB_qmp_event result this = colod_qmp_event_cb G result this"
| "qmp_callbacks_main G CB_watchdog_event result this = Some (colod_watchdog_event_cb G this)"
| "qmp_callbacks_main G _ result this = None"

end
