(* ===== verification/Main_Coroutine.thy ===== *)
theory Main_Coroutine
  imports Main_State
begin

text \<open>
  The main coroutine of \<^verbatim>\<open>main_coroutine.c\<close>. Between two yields it runs a
  sequence of segments; a segment ends where the code calls a coroutine function that
  may yield, and the next thing to do is a value of type \<open>todo\<close>. One function per
  coroutine function of the code gives its segments, \<open>main_micro\<close> performs one
  thing to do, \<open>main_run\<close> goes on until the coroutine yields or returns, and
  \<open>colod_main_co\<close> is one dispatch by the main loop.

  A QMP call may complete without yielding. Its outcomes are inputs: the list \<open>outs\<close>
  holds the outcomes of the next calls that complete at once, and a call that finds
  the list empty yields.
\<close>

subsection \<open>Things to do\<close>

datatype todo =
    T_enter MainState
  | T_event event_pt
  | T_wait wait_pt
  | T_exec exec_pt string
  | T_array array_pt "json list"
  | T_yank
  | T_timer
  | T_return

definition nl :: string where "nl = [CHR 0x0A]"

definition cmd_set_capabilities_events :: string where
  "cmd_set_capabilities_events = ''{'execute': 'migrate-set-capabilities','arguments': {'capabilities': [{'capability': 'events', 'state': true }]}}'' @ nl"

definition cmd_set_capabilities_pause :: string where
  "cmd_set_capabilities_pause = ''{'execute': 'migrate-set-capabilities','arguments': {'capabilities': [{'capability': 'events', 'state': true },{'capability': 'pause-before-switchover', 'state': true}]}}'' @ nl"

definition cmd_migrate_continue :: string where
  "cmd_migrate_continue = ''{'execute': 'migrate-continue','arguments': {'state': 'pre-switchover'}}'' @ nl"

definition cmd_migrate_cancel :: string where
  "cmd_migrate_cancel = ''{'execute': 'migrate_cancel'}'' @ nl"

definition cmd_stop :: string where
  "cmd_stop = ''{'execute': 'stop'}'' @ nl"

text \<open>What a wait waits for, and for how long (0 is without limit).\<close>

fun wait_match :: "wait_pt \<Rightarrow> string" where
  "wait_match Q_sec_resume = event_resume"
| "wait_match Q_run_resume1 = event_resume"
| "wait_match Q_run_resume2 = event_resume"
| "wait_match Q_mig_preswitch = ''{'event': 'MIGRATION', 'data': {'status': 'pre-switchover'}}''"
| "wait_match Q_mig_colo = ''{'event': 'MIGRATION', 'data': {'status': 'colo'}}''"

fun wait_timeout :: "wait_pt \<Rightarrow> guint" where
  "wait_timeout Q_mig_preswitch = 5 * 60 * 1000"
| "wait_timeout Q_mig_colo = 10000"
| "wait_timeout _ = 0"

type_synonym 's segment = "(todo \<times> 's) abortable"

subsection \<open>Starting a migration: the common exits\<close>

definition mig_handle_event :: "'z MainCoroutine_scheme \<Rightarrow> 'z MainCoroutine_scheme segment" where
  "mig_handle_event this = do {
     p \<leftarrow> eventqueue_pending_interrupt (mc_queue this);
     c_assert p;
     Some (T_event E_mig, this) }"

definition mig_failover :: "ColodEvent \<Rightarrow> 'z MainCoroutine_scheme \<Rightarrow> 'z MainCoroutine_scheme segment" where
  "mig_failover event this = Some (T_exec (X_mig_cancel event) cmd_migrate_cancel, this)"

definition mig_qmp_error :: "gerror \<Rightarrow> 'z MainCoroutine_scheme \<Rightarrow> 'z MainCoroutine_scheme segment" where
  "mig_qmp_error e this =
     (if g_error_matches e COLOD_ERROR_INTERRUPT then mig_handle_event this
      else if g_error_matches e COLOD_ERROR_QMP then mig_failover EVENT_FAILOVER_SYNC this
      else Some (T_enter STATE_FAILED, this))"

subsection \<open>Executing a list of commands\<close>

text \<open>\<open>colod_execute_array_co\<close> up to its loop: what is executed must be an array.\<close>

definition start_array :: "array_pt \<Rightarrow> json \<Rightarrow> 'z MainCoroutine_scheme \<Rightarrow> 'z MainCoroutine_scheme segment" where
  "start_array a array_node this = do {
     c_assert (holds_array array_node);
     Some (T_array a (json_elements array_node), this) }"

fun array_ignore_errors :: "array_pt \<Rightarrow> bool" where
  "array_ignore_errors A_failover = True"
| "array_ignore_errors _ = False"

text \<open>After the list, by the caller: the three uses of \<open>colod_execute_array_co\<close>.\<close>

definition mig_start_done :: "unit fallible \<Rightarrow> 'z MainCoroutine_scheme \<Rightarrow> 'z MainCoroutine_scheme segment" where
  "mig_start_done ret this = (case ret of
     Inl e \<Rightarrow> mig_qmp_error e this
   | Inr _ \<Rightarrow> do {
       p \<leftarrow> eventqueue_pending_interrupt (mc_queue this);
       (if p then mig_handle_event this
        else Some (T_wait Q_mig_preswitch, this\<lparr>mc_transitioning := True\<rparr>)) })"

definition mig_switchover_done ::
    "Event glib \<Rightarrow> unit fallible \<Rightarrow> 'z MainCoroutine_scheme \<Rightarrow> 'z MainCoroutine_scheme segment" where
  "mig_switchover_done G ret this = (case ret of
     Inl e \<Rightarrow> mig_qmp_error e this
   | Inr _ \<Rightarrow> do {
       p \<leftarrow> eventqueue_pending_interrupt (mc_queue this);
       (if p then mig_handle_event this
        else do {
          this1 \<leftarrow> colod_raise_timeout_coroutine G this;
          Some (T_exec X_mig_continue cmd_migrate_continue, this1) }) })"

definition failover_done :: "unit fallible \<Rightarrow> 'z MainCoroutine_scheme \<Rightarrow> 'z MainCoroutine_scheme segment" where
  "failover_done ret this = (case ret of
     Inl e \<Rightarrow> Some (T_enter STATE_FAILED, this)
   | Inr _ \<Rightarrow> Some (T_enter STATE_PRIMARY_WAIT, colod_clear_peer this))"

definition array_returned ::
    "Event glib \<Rightarrow> array_pt \<Rightarrow> unit fallible \<Rightarrow> 'z MainCoroutine_scheme \<Rightarrow> 'z MainCoroutine_scheme segment" where
  "array_returned G a ret this = (case a of
     A_mig_start \<Rightarrow> mig_start_done ret this
   | A_mig_switchover \<Rightarrow> mig_switchover_done G ret this
   | A_failover \<Rightarrow> failover_done ret this)"

lemmas array_returned_defs = array_returned_def mig_start_done_def mig_switchover_done_def failover_done_def

text \<open>The head of the loop.\<close>

definition array_loop ::
    "Event glib \<Rightarrow> json_glib \<Rightarrow> array_pt \<Rightarrow> json list \<Rightarrow> 'z MainCoroutine_scheme \<Rightarrow>
     'z MainCoroutine_scheme segment" where
  "array_loop G J a elements this = (case elements of
     [] \<Rightarrow> array_returned G a (Inr ()) this
   | node # els \<Rightarrow> do {
       p \<leftarrow> eventqueue_pending_interrupt (mc_queue this);
       (if p
        then array_returned G a (Inl (GError (Some COLOD_ERROR_INTERRUPT)
               ''Got interrupting event while executing array'')) this
        else Some (T_exec (X_array a els) (json_to_string J node @ nl), this)) })"

subsection \<open>After a QMP command\<close>

definition secondary_startup_executed ::
    "ColodQmpResult fallible \<Rightarrow> 'z MainCoroutine_scheme \<Rightarrow> 'z MainCoroutine_scheme segment" where
  "secondary_startup_executed result this = (case result of
     Inl e \<Rightarrow> Some (T_enter STATE_FAILED, this)
   | Inr _ \<Rightarrow> Some (T_enter STATE_SECONDARY_WAIT, this))"

definition mig_caps_executed ::
    "ColodQmpResult fallible \<Rightarrow> 'z MainCoroutine_scheme \<Rightarrow> 'z MainCoroutine_scheme segment" where
  "mig_caps_executed result this = (case result of
     Inl e \<Rightarrow> mig_qmp_error e this
   | Inr _ \<Rightarrow> do {
       p \<leftarrow> eventqueue_pending_interrupt (mc_queue this);
       (if p then mig_handle_event this
        else start_array A_mig_start (migration_start (cx_commands this)) this) })"

definition mig_continue_executed ::
    "ColodQmpResult fallible \<Rightarrow> 'z MainCoroutine_scheme \<Rightarrow> 'z MainCoroutine_scheme segment" where
  "mig_continue_executed result this = (case result of
     Inl e \<Rightarrow> do {
       this1 \<leftarrow> qmp_set_timeout (cx_qmp_timeout_low this) this;
       mig_qmp_error e this1 }
   | Inr _ \<Rightarrow> do {
       p \<leftarrow> eventqueue_pending_interrupt (mc_queue this);
       (if p then do {
          this1 \<leftarrow> qmp_set_timeout (cx_qmp_timeout_low this) this;
          mig_handle_event this1 }
        else Some (T_wait Q_mig_colo, this)) })"

definition mig_cancel_executed ::
    "ColodEvent \<Rightarrow> ColodQmpResult fallible \<Rightarrow> 'z MainCoroutine_scheme \<Rightarrow> 'z MainCoroutine_scheme segment" where
  "mig_cancel_executed event result this = (case result of
     Inl e \<Rightarrow> Some (T_enter STATE_FAILED, this)
   | Inr _ \<Rightarrow> do {
       c_assert (event_failover event);
       new_state \<leftarrow> handle_event_failover event;
       Some (T_enter new_state, this) })"

text \<open>\<open>colod_stop_co\<close>: its error is dropped.\<close>

definition stop_executed ::
    "ColodQmpResult fallible \<Rightarrow> 'z MainCoroutine_scheme \<Rightarrow> 'z MainCoroutine_scheme segment" where
  "stop_executed result this = Some (T_event E_failed, this)"

text \<open>The loop of \<open>colod_execute_array_co\<close> after a command.\<close>

definition array_executed ::
    "Event glib \<Rightarrow> array_pt \<Rightarrow> json list \<Rightarrow> ColodQmpResult fallible \<Rightarrow> 'z MainCoroutine_scheme \<Rightarrow>
     'z MainCoroutine_scheme segment" where
  "array_executed G a els result this = (case result of
     Inl e \<Rightarrow>
       if array_ignore_errors a \<and> g_error_matches e COLOD_ERROR_QMP
       then Some (T_array a els, this)
       else array_returned G a (Inl e) this
   | Inr _ \<Rightarrow> Some (T_array a els, this))"

definition execute_returned ::
    "Event glib \<Rightarrow> exec_pt \<Rightarrow> ColodQmpResult fallible \<Rightarrow> 'z MainCoroutine_scheme \<Rightarrow>
     'z MainCoroutine_scheme segment" where
  "execute_returned G pt result this = (case pt of
     X_sec_startup \<Rightarrow> secondary_startup_executed result this
   | X_mig_caps \<Rightarrow> mig_caps_executed result this
   | X_mig_continue \<Rightarrow> mig_continue_executed result this
   | X_mig_cancel event \<Rightarrow> mig_cancel_executed event result this
   | X_stop \<Rightarrow> stop_executed result this
   | X_array a els \<Rightarrow> array_executed G a els result this)"

lemmas execute_returned_defs = execute_returned_def secondary_startup_executed_def mig_caps_executed_def
  mig_continue_executed_def mig_cancel_executed_def stop_executed_def array_executed_def

text \<open>The command a call of this coroutine executes is the last one it has issued.\<close>

definition execute_done ::
    "Event glib \<Rightarrow> exec_pt \<Rightarrow> exec_outcome \<Rightarrow> 'z MainCoroutine_scheme \<Rightarrow> 'z MainCoroutine_scheme segment" where
  "execute_done G pt out this = do {
     (result, this1) \<leftarrow> colod_execute_end G (last (mc_issued this)) out this;
     execute_returned G pt result this1 }"

text \<open>\<open>colod_failover_co\<close> after its yank.\<close>

definition yank_done ::
    "Event glib \<Rightarrow> yank_outcome \<Rightarrow> 'z MainCoroutine_scheme \<Rightarrow> 'z MainCoroutine_scheme segment" where
  "yank_done G out this = (let (ret, this1) = qmp_yank_return out this in
     case ret of
       Inl e \<Rightarrow> Some (T_enter STATE_FAILED, this1)
     | Inr _ \<Rightarrow>
         start_array A_failover
           (if mc_primary this1 then failover_primary (cx_commands this1)
            else failover_secondary (cx_commands this1))
           (this1\<lparr>mc_transitioning := True\<rparr>))"

subsection \<open>After waiting for a QMP event\<close>

definition secondary_wait_done ::
    "Event glib \<Rightarrow> unit fallible \<Rightarrow> 'z MainCoroutine_scheme \<Rightarrow> 'z MainCoroutine_scheme segment" where
  "secondary_wait_done G ret this = (case ret of
     Inl e \<Rightarrow> do {
       c_assert (eventqueue_pending (mc_queue this));
       Some (T_event E_sec_wait, this) }
   | Inr _ \<Rightarrow> do {
       this1 \<leftarrow> colod_raise_timeout_coroutine G this;
       Some (T_enter STATE_SECONDARY_COLO_RUNNING, this1) })"

definition running_first_resume ::
    "unit fallible \<Rightarrow> 'z MainCoroutine_scheme \<Rightarrow> 'z MainCoroutine_scheme segment" where
  "running_first_resume ret this = (case ret of
     Inl e \<Rightarrow> Some (T_event E_running, this)
   | Inr _ \<Rightarrow> Some (T_wait Q_run_resume2, this))"

definition running_second_resume ::
    "unit fallible \<Rightarrow> 'z MainCoroutine_scheme \<Rightarrow> 'z MainCoroutine_scheme segment" where
  "running_second_resume ret this = (case ret of
     Inl e \<Rightarrow> Some (T_event E_running, this)
   | Inr _ \<Rightarrow> Some (T_timer, this))"

definition mig_preswitch_done ::
    "unit fallible \<Rightarrow> 'z MainCoroutine_scheme \<Rightarrow> 'z MainCoroutine_scheme segment" where
  "mig_preswitch_done ret this = (case ret of
     Inl e \<Rightarrow> mig_qmp_error e this
   | Inr _ \<Rightarrow> start_array A_mig_switchover (migration_switchover (cx_commands this)) this)"

definition mig_colo_done ::
    "unit fallible \<Rightarrow> 'z MainCoroutine_scheme \<Rightarrow> 'z MainCoroutine_scheme segment" where
  "mig_colo_done ret this = (case ret of
     Inl e \<Rightarrow> do {
       this1 \<leftarrow> qmp_set_timeout (cx_qmp_timeout_low this) this;
       mig_qmp_error e this1 }
   | Inr _ \<Rightarrow> Some (T_enter STATE_PRIMARY_COLO_RUNNING, this))"

definition wait_returned ::
    "Event glib \<Rightarrow> wait_pt \<Rightarrow> unit fallible \<Rightarrow> 'z MainCoroutine_scheme \<Rightarrow> 'z MainCoroutine_scheme segment" where
  "wait_returned G q ret this = (case q of
     Q_sec_resume \<Rightarrow> secondary_wait_done G ret this
   | Q_run_resume1 \<Rightarrow> running_first_resume ret this
   | Q_run_resume2 \<Rightarrow> running_second_resume ret this
   | Q_mig_preswitch \<Rightarrow> mig_preswitch_done ret this
   | Q_mig_colo \<Rightarrow> mig_colo_done ret this)"

lemmas wait_returned_defs = wait_returned_def secondary_wait_done_def running_first_resume_def
  running_second_resume_def mig_preswitch_done_def mig_colo_done_def

text \<open>
  \<open>colod_qmp_event_wait_co\<close> resumed by the source \<open>cur\<close>: an interruption counts only
  if an interrupting event is pending, otherwise it waits again.
\<close>

definition qmp_event_wait_resumed ::
    "Event glib \<Rightarrow> wait_pt \<Rightarrow> guint \<Rightarrow> guint \<Rightarrow> 'z MainCoroutine_scheme \<Rightarrow> 'z MainCoroutine_scheme segment" where
  "qmp_event_wait_resumed G q timeout_source_id cur this = do {
     (ret, this1) \<leftarrow> qmp_wait_event_end S_main (wait_timeout q) timeout_source_id (wait_match q) cur this;
     (case ret of
        Inl e \<Rightarrow>
          if g_error_matches e COLOD_ERROR_INTERRUPT then do {
            c_assert (eventqueue_pending (mc_queue this1));
            p \<leftarrow> eventqueue_pending_interrupt (mc_queue this1);
            (if \<not> p then Some (T_wait q, this1) else wait_returned G q (Inl e) this1) }
          else wait_returned G q (Inl e) this1
      | Inr _ \<Rightarrow> wait_returned G q (Inr ()) this1) }"

subsection \<open>After an event\<close>

text \<open>
  The loops around \<open>colod_event_wait\<close>: what each does with the event it got. The loop
  of \<open>colod_secondary_wait_co\<close> begins with a wait for a QMP event.
\<close>

definition secondary_wait_event :: "ColodEvent \<Rightarrow> 'z MainCoroutine_scheme \<Rightarrow> 'z MainCoroutine_scheme segment" where
  "secondary_wait_event event this =
    (if event_always_interrupting event
     then do { st \<leftarrow> handle_always_interrupting event; Some (T_enter st, this) }
     else if event_failover event then Some (T_wait Q_sec_resume, this\<lparr>mc_peer_failed := False\<rparr>)
     else Some (T_wait Q_sec_resume, this))"

definition colo_running_event :: "ColodEvent \<Rightarrow> 'z MainCoroutine_scheme \<Rightarrow> 'z MainCoroutine_scheme segment" where
  "colo_running_event event this =
    (if event_failover event
     then do { st \<leftarrow> handle_event_failover event; Some (T_enter st, this) }
     else if event_always_interrupting event
     then do { st \<leftarrow> handle_always_interrupting event; Some (T_enter st, this) }
     else if event_yellow event \<and> mc_primary this \<and> mc_yellow this \<and> \<not> mc_peer_yellow this
     then Some (T_enter STATE_FAILED, this)
     else Some (T_event E_running, this))"

definition primary_wait_event :: "ColodEvent \<Rightarrow> 'z MainCoroutine_scheme \<Rightarrow> 'z MainCoroutine_scheme segment" where
  "primary_wait_event event this =
    (if event = EVENT_START_MIGRATION then Some (T_enter STATE_PRIMARY_START_MIGRATION, this)
     else if event = EVENT_FAILED then Some (T_enter STATE_FAILED, this)
     else if event = EVENT_PEER_FAILOVER then Some (T_event E_primary_wait, this)
     else if event = EVENT_QUIT then Some (T_enter STATE_QUIT, this)
     else if event = EVENT_AUTOQUIT then Some (T_enter STATE_AUTOQUIT, this)
     else Some (T_event E_primary_wait, this))"

definition mig_event :: "ColodEvent \<Rightarrow> 'z MainCoroutine_scheme \<Rightarrow> 'z MainCoroutine_scheme segment" where
  "mig_event event this =
    (if event_failover event then mig_failover event this
     else do { st \<leftarrow> handle_always_interrupting event; Some (T_enter st, this) })"

definition failover_sync_event :: "ColodEvent \<Rightarrow> 'z MainCoroutine_scheme \<Rightarrow> 'z MainCoroutine_scheme segment" where
  "failover_sync_event event this =
    (if event = EVENT_FAILOVER_WIN then Some (T_enter STATE_FAILOVER, this)
     else if event_always_interrupting event
     then do { st \<leftarrow> handle_always_interrupting event; Some (T_enter st, this) }
     else Some (T_event E_failover_sync, this))"

definition failed_event :: "ColodEvent \<Rightarrow> 'z MainCoroutine_scheme \<Rightarrow> 'z MainCoroutine_scheme segment" where
  "failed_event event this =
    (if event = EVENT_PEER_FAILOVER then Some (T_event E_failed, this\<lparr>mc_peer_failover := True\<rparr>)
     else if event = EVENT_QUIT then Some (T_enter STATE_QUIT, this)
     else if event = EVENT_AUTOQUIT then
       (if mc_qemu_quit this then Some (T_event E_failed, do_autoquit this)
        else Some (T_enter STATE_AUTOQUIT, this))
     else Some (T_event E_failed, this))"

definition autoquit_event :: "ColodEvent \<Rightarrow> 'z MainCoroutine_scheme \<Rightarrow> 'z MainCoroutine_scheme segment" where
  "autoquit_event event this =
    (if event = EVENT_PEER_FAILOVER then Some (T_event E_autoquit, this\<lparr>mc_peer_failover := True\<rparr>)
     else if event = EVENT_QUIT then Some (T_enter STATE_QUIT, this)
     else if event = EVENT_FAILED \<and> mc_qemu_quit this then Some (T_event E_autoquit, do_autoquit this)
     else Some (T_event E_autoquit, this))"

definition event_received ::
    "event_pt \<Rightarrow> ColodEvent \<Rightarrow> 'z MainCoroutine_scheme \<Rightarrow> 'z MainCoroutine_scheme segment" where
  "event_received pt event this = (case pt of
     E_sec_wait \<Rightarrow> secondary_wait_event event this
   | E_running \<Rightarrow> colo_running_event event this
   | E_primary_wait \<Rightarrow> primary_wait_event event this
   | E_mig \<Rightarrow> mig_event event this
   | E_failover_sync \<Rightarrow> failover_sync_event event this
   | E_failed \<Rightarrow> failed_event event this
   | E_autoquit \<Rightarrow> autoquit_event event this)"

lemmas event_received_defs = event_received_def secondary_wait_event_def colo_running_event_def
  primary_wait_event_def mig_event_def failover_sync_event_def failed_event_def autoquit_event_def

subsection \<open>Entering a state\<close>

definition set_interrupting ::
    "Event glib \<Rightarrow> ColodEvent list \<Rightarrow> 'z MainCoroutine_scheme \<Rightarrow> 'z MainCoroutine_scheme abortable" where
  "set_interrupting G events this = do {
     q \<leftarrow> eventqueue_set_interrupting G (mc_queue this) events;
     Some (this\<lparr>mc_queue := q\<rparr>) }"

text \<open>\<open>colod_colo_running_co\<close> up to its first call that waits.\<close>

definition colo_running_begin :: "Event glib \<Rightarrow> 'z MainCoroutine_scheme \<Rightarrow> 'z MainCoroutine_scheme segment" where
  "colo_running_begin G this = do {
     this1 \<leftarrow> set_interrupting G [EVENT_FAILOVER_SYNC] this;
     Some (if mc_primary this1 then T_wait Q_run_resume1 else T_event E_running, this1) }"

text \<open>
  One round of the loop of \<open>_colod_main_co\<close> up to the first call that may wait. Of the
  errors it reads and logs only the call itself is left.
\<close>

definition enter_state ::
    "Event glib \<Rightarrow> MainState \<Rightarrow> 'z MainCoroutine_scheme \<Rightarrow> 'z MainCoroutine_scheme segment" where
  "enter_state G new_state this0 =
     (let this = this0\<lparr>mc_transitioning := False, mc_state := new_state\<rparr> in
      case new_state of
        STATE_SECONDARY_STARTUP \<Rightarrow> Some (T_exec X_sec_startup cmd_set_capabilities_events, this)
      | STATE_SECONDARY_WAIT \<Rightarrow> do {
          this1 \<leftarrow> set_interrupting G
            [EVENT_FAILOVER_SYNC, EVENT_FAILOVER_WIN, EVENT_YELLOW, EVENT_UNYELLOW] this;
          Some (T_wait Q_sec_resume, this1) }
      | STATE_SECONDARY_COLO_RUNNING \<Rightarrow> colo_running_begin G (this\<lparr>mc_replication := True\<rparr>)
      | STATE_PRIMARY_STARTUP \<Rightarrow> Some (T_enter STATE_PRIMARY_WAIT, this)
      | STATE_PRIMARY_WAIT \<Rightarrow>
          Some (T_event E_primary_wait, this\<lparr>mc_primary := True, mc_replication := False\<rparr>)
      | STATE_PRIMARY_START_MIGRATION \<Rightarrow> do {
          this1 \<leftarrow> set_interrupting G [EVENT_FAILOVER_SYNC] this;
          Some (T_exec X_mig_caps cmd_set_capabilities_pause, this1) }
      | STATE_PRIMARY_COLO_RUNNING \<Rightarrow> colo_running_begin G (this\<lparr>mc_replication := True\<rparr>)
      | STATE_FAILOVER_SYNC \<Rightarrow> do {
          this1 \<leftarrow> colod_cpg_send G MESSAGE_FAILOVER this;
          Some (T_event E_failover_sync, this1) }
      | STATE_FAILOVER \<Rightarrow> do {
          this1 \<leftarrow> set_interrupting G [] this;
          Some (T_yank, this1) }
      | STATE_FAILED_PEER_FAILOVER \<Rightarrow> Some (T_enter STATE_FAILED, this\<lparr>mc_peer_failover := True\<rparr>)
      | STATE_FAILED \<Rightarrow> do {
          this1 \<leftarrow> colod_cpg_send G MESSAGE_FAILED (this\<lparr>mc_failed := True\<rparr>);
          this2 \<leftarrow> qmp_set_timeout (cx_qmp_timeout_low this1) this1;
          Some (T_exec X_stop cmd_stop, this2) }
      | STATE_QUIT \<Rightarrow> Some (T_return, this)
      | STATE_AUTOQUIT \<Rightarrow> do {
          this1 \<leftarrow> colod_cpg_send G MESSAGE_FAILED (this\<lparr>mc_failed := True\<rparr>);
          Some (T_event E_autoquit, this1) })"

subsection \<open>One thing to do\<close>

text \<open>Outcomes of calls that complete without yielding.\<close>

datatype outcome = Exec exec_outcome | Yank yank_outcome

datatype 's progress = Go "outcome list" todo 's | Yielded 's | Returned 's

definition go :: "outcome list \<Rightarrow> 's segment \<Rightarrow> 's progress abortable" where
  "go outs seg = do { (t, s) \<leftarrow> seg; Some (Go outs t s) }"

text \<open>A call that yields leaves an I/O source of the coroutine behind.\<close>

definition yield_io ::
    "Event glib \<Rightarrow> (guint \<Rightarrow> main_pc) \<Rightarrow> 'z MainCoroutine_scheme \<Rightarrow> 'z MainCoroutine_scheme progress" where
  "yield_io G pc this = (let (i, this1) = add_source G S_main this in Yielded (this1\<lparr>mc_pc := pc i\<rparr>))"

definition main_micro ::
    "Event glib \<Rightarrow> json_glib \<Rightarrow> guint \<Rightarrow> outcome list \<Rightarrow> todo \<Rightarrow> 'z MainCoroutine_scheme \<Rightarrow>
     'z MainCoroutine_scheme progress abortable" where
  "main_micro G J cur outs t this = (case t of
     T_enter st \<Rightarrow> go outs (enter_state G st this)
   | T_event pt \<Rightarrow> do {
       (ev, this1) \<leftarrow> colod_event_wait cur this;
       (case ev of
          None \<Rightarrow> Some (Yielded (this1\<lparr>mc_pc := PC_event pt\<rparr>))
        | Some event \<Rightarrow> go outs (event_received pt event this1)) }
   | T_wait q \<Rightarrow> do {
       (i, this1) \<leftarrow> qmp_wait_event_begin G J S_main (wait_timeout q) (wait_match q) this;
       Some (Yielded (this1\<lparr>mc_pc := PC_wait q i\<rparr>)) }
   | T_exec pt command \<Rightarrow>
       (let this1 = colod_execute_begin G command this in
        case outs of
          Exec out # outs' \<Rightarrow> go outs' (execute_done G pt out this1)
        | _ \<Rightarrow> Some (yield_io G (PC_exec pt) this1))
   | T_array a elements \<Rightarrow> go outs (array_loop G J a elements this)
   | T_yank \<Rightarrow>
       (case outs of
          Yank out # outs' \<Rightarrow> go outs' (yank_done G out this)
        | _ \<Rightarrow> Some (yield_io G PC_yank this))
   | T_timer \<Rightarrow> Some (yield_io G PC_timer this)
   | T_return \<Rightarrow> Some (Returned this))"

subsection \<open>What the operations update\<close>

text \<open>
  Each operation, when it returns, has updated only these fields; the proofs about the
  main coroutine take the rest of the state from here.
\<close>

lemma add_source_update: "\<exists>i ss. add_source G d s = (i, s\<lparr>ml_sources := ss\<rparr>)"
  by (auto simp: add_source_eq Let_def)

lemma cpg_send_update:
  assumes "colod_cpg_send G m s = Some s'"
  shows "\<exists>ss i fl out. s' = s\<lparr>ml_sources := ss, cpg_retransmit_source_id := i, cpg_retransmit := fl, cpg_mcast := out\<rparr>"
proof -
  have "s' = s\<lparr>ml_sources := ml_sources s', cpg_retransmit_source_id := cpg_retransmit_source_id s',
      cpg_retransmit := cpg_retransmit s', cpg_mcast := cpg_mcast s'\<rparr>"
    using assms by (auto simp: colod_cpg_send_def add_source_eq Let_def split: if_splits)
  then show ?thesis by blast
qed

lemma set_timeout_update: "qmp_set_timeout t s = Some s' \<Longrightarrow> s' = s\<lparr>qmp_timeout := t\<rparr>"
  by (simp add: qmp_set_timeout_def)

lemma raise_timeout_update:
  assumes "colod_raise_timeout_coroutine G s = Some s'"
  shows "\<exists>ss t co. s' = s\<lparr>ml_sources := ss, qmp_timeout := t, rt_co := co\<rparr>"
proof -
  have "s' = s\<lparr>ml_sources := ml_sources s', qmp_timeout := qmp_timeout s', rt_co := rt_co s'\<rparr>"
    using assms by (auto simp: colod_raise_timeout_coroutine_def qmp_set_timeout_def add_source_eq Let_def
        split: if_splits)
  then show ?thesis by blast
qed

lemma wait_begin_update:
  assumes "qmp_wait_event_begin G J co timeout match s = Some (i, s')"
  shows "\<exists>ss ws cbs. s' = s\<lparr>ml_sources := ss, qmp_waits := ws, qmp_event_callbacks := cbs\<rparr>"
proof -
  have "s' = s\<lparr>ml_sources := ml_sources s', qmp_waits := qmp_waits s', qmp_event_callbacks := qmp_event_callbacks s'\<rparr>"
    using assms by (auto simp: qmp_wait_event_begin_def qmp_add_notify_event_def bind_eq_Some_conv
        c_nonnull_def add_source_eq Let_def split: if_splits)
  then show ?thesis by blast
qed

lemma wait_end_update:
  assumes "qmp_wait_event_end co timeout tid match cur s = Some (ret, s')"
  shows "\<exists>ss ws cbs. s' = s\<lparr>ml_sources := ss, qmp_waits := ws, qmp_event_callbacks := cbs\<rparr>"
proof -
  have "s' = s\<lparr>ml_sources := ml_sources s', qmp_waits := qmp_waits s', qmp_event_callbacks := qmp_event_callbacks s'\<rparr>"
    using assms by (auto simp: qmp_wait_event_end_def qmp_del_notify_event_def bind_eq_Some_conv
        c_nonnull_def remove_source_def Let_def split: if_splits)
  then show ?thesis by blast
qed

lemma execute_begin_update:
  "\<exists>ss i. colod_execute_begin G c s = s\<lparr>ml_sources := ss, wd_timer_id := i, mc_issued := mc_issued s @ [c]\<rparr>"
proof -
  let ?s' = "colod_execute_begin G c s"
  have "?s' = s\<lparr>ml_sources := ml_sources ?s', wd_timer_id := wd_timer_id ?s', mc_issued := mc_issued s @ [c]\<rparr>"
    by (simp add: colod_execute_begin_def colod_watchdog_refresh_def add_source_eq remove_source_def Let_def)
  then show ?thesis by blast
qed

lemma event_queue_update:
  assumes "colod_event_queue G e s = Some s'"
  shows "\<exists>ss i q. s' = s\<lparr>ml_sources := ss, mc_wake_source_id := i, mc_queue := q,
    mc_trace := mc_trace s @ [Queued e]\<rparr> \<and> (q = mc_queue s \<or> (\<exists>r. eventqueue_add G (mc_queue s) e 0 = Some (r, q)))"
proof -
  define s0 where "s0 = s\<lparr>mc_trace := mc_trace s @ [Queued e]\<rparr>"
  define s1 where "s1 = (if mc_wake_source_id s0 = 0 \<and>
        (\<not> eventqueue_pending (mc_queue s0) \<or> eventqueue_event_interrupting (mc_queue s0) e)
      then let (i, t) = add_source G S_wake s0 in t\<lparr>mc_wake_source_id := i\<rparr> else s0)"
  have "s1 = s0\<lparr>ml_sources := ml_sources s1, mc_wake_source_id := mc_wake_source_id s1\<rparr>"
    by (simp add: s1_def add_source_eq Let_def)
  then obtain ss i where s1: "s1 = s0\<lparr>ml_sources := ss, mc_wake_source_id := i\<rparr>" by blast
  have q1: "mc_queue s1 = mc_queue s" by (simp add: s1 s0_def)
  have "s' = s1 \<or> (\<exists>q r. s' = s1\<lparr>mc_queue := q\<rparr> \<and> eventqueue_add G (mc_queue s) e 0 = Some (r, q))"
    using assms unfolding colod_event_queue_def Let_def s0_def [symmetric] s1_def [unfolded Let_def, symmetric]
    by (cases "eventqueue_last (mc_queue s1)") (auto simp: bind_eq_Some_conv q1 split: if_splits)
  then show ?thesis
  proof (elim disjE exE conjE)
    assume "s' = s1"
    then have "s' = s\<lparr>ml_sources := ss, mc_wake_source_id := i, mc_queue := mc_queue s,
        mc_trace := mc_trace s @ [Queued e]\<rparr>"
      by (cases s) (simp add: s1 s0_def)
    then show ?thesis by blast
  next
    fix q r assume "s' = s1\<lparr>mc_queue := q\<rparr>" and add: "eventqueue_add G (mc_queue s) e 0 = Some (r, q)"
    then have "s' = s\<lparr>ml_sources := ss, mc_wake_source_id := i, mc_queue := q,
        mc_trace := mc_trace s @ [Queued e]\<rparr>"
      by (cases s) (simp add: s1 s0_def)
    with add show ?thesis by blast
  qed
qed

lemma set_interrupting_update:
  assumes "set_interrupting G es s = Some s'"
  shows "\<exists>q. s' = s\<lparr>mc_queue := q\<rparr> \<and> eq_used q = eq_used (mc_queue s)"
  using assms
  by (auto simp: set_interrupting_def eventqueue_set_interrupting_def bind_eq_Some_conv Let_def)

lemma eventqueue_remove_used:
  "eventqueue_remove q = Some (Some e, q') \<Longrightarrow> unat (eq_used q') < unat (eq_used q)"
  by (auto simp: eventqueue_remove_def unat_sub_1 unat_gt_0 split: if_splits list.splits)

lemma event_wait_update:
  assumes "colod_event_wait cur s = Some (ev, s')"
  shows "\<exists>i q tr. s' = s\<lparr>mc_wake_source_id := i, mc_queue := q, mc_trace := tr\<rparr> \<and>
    (case ev of None \<Rightarrow> q = mc_queue s \<and> tr = mc_trace s
     | Some e \<Rightarrow> \<exists>x. eventqueue_remove (mc_queue s) = Some (Some x, q) \<and> ev_event x = e \<and> tr = mc_trace s @ [Got e])"
proof -
  have "s' = s\<lparr>mc_wake_source_id := mc_wake_source_id s', mc_queue := mc_queue s', mc_trace := mc_trace s'\<rparr> \<and>
    (case ev of None \<Rightarrow> mc_queue s' = mc_queue s \<and> mc_trace s' = mc_trace s
     | Some e \<Rightarrow> \<exists>x. eventqueue_remove (mc_queue s) = Some (Some x, mc_queue s') \<and> ev_event x = e \<and>
         mc_trace s' = mc_trace s @ [Got e])"
    using assms by (auto simp: colod_event_wait_def bind_eq_Some_conv c_nonnull_def Let_def split: if_splits)
  then show ?thesis by blast
qed

lemma event_wait_used:
  assumes "colod_event_wait cur s = Some (Some e, s')"
  shows "unat (eq_used (mc_queue s')) < unat (eq_used (mc_queue s))"
  using event_wait_update [OF assms] by (auto dest: eventqueue_remove_used)

lemma execute_end_update:
  assumes "colod_execute_end G c out s = Some (r, s')"
  shows "\<exists>ss i q tr e y. s' = s\<lparr>ml_sources := ss, mc_wake_source_id := i, mc_queue := q, mc_trace := tr,
    qmp_error := e, qmp_did_yank := y\<rparr>"
proof -
  from assms obtain r0 s0 where 0: "colod_execute_nocheck_end G out s = Some (r0, s0)"
    by (auto simp: colod_execute_end_def bind_eq_Some_conv)
  have "s0 = s'"
    using assms 0 by (cases r0) (auto simp: colod_execute_end_def bind_eq_Some_conv)
  with 0 have *: "colod_execute_nocheck_end G out s = Some (r0, s')" by simp
  define s1 where "s1 = snd (qmp_execute_return out s)"
  have "s1 = s\<lparr>qmp_error := qmp_error s1, qmp_did_yank := qmp_did_yank s1\<rparr>"
    by (auto simp: s1_def qmp_execute_return_def qmp_set_error_def qmp_set_yank_def split: exec_outcome.splits)
  then obtain e y where s1: "s1 = s\<lparr>qmp_error := e, qmp_did_yank := y\<rparr>" by blast
  have "s' = s1 \<or> (\<exists>e y. colod_event_queue G e (s1\<lparr>qmp_did_yank := y\<rparr>) = Some s')"
  proof -
    have "s1 = s1\<lparr>qmp_did_yank := qmp_did_yank s1\<rparr>" by simp
    then have "\<exists>y. s1 = s1\<lparr>qmp_did_yank := y\<rparr>" by blast
    then show ?thesis
      using * by (auto simp: colod_execute_nocheck_end_def s1_def bind_eq_Some_conv Let_def split_beta
          qmp_clear_yank_def split: sum.splits if_splits) metis+
  qed
  then show ?thesis
  proof (elim disjE exE)
    assume "s' = s1"
    then have "s' = s\<lparr>ml_sources := ml_sources s, mc_wake_source_id := mc_wake_source_id s,
        mc_queue := mc_queue s, mc_trace := mc_trace s, qmp_error := e, qmp_did_yank := y\<rparr>"
      by (cases s) (simp add: s1)
    then show ?thesis by blast
  next
    fix e' y' assume "colod_event_queue G e' (s1\<lparr>qmp_did_yank := y'\<rparr>) = Some s'"
    from event_queue_update [OF this] obtain ss i q tr where
      "s' = s1\<lparr>qmp_did_yank := y', ml_sources := ss, mc_wake_source_id := i, mc_queue := q, mc_trace := tr\<rparr>" by blast
    then have "s' = s\<lparr>ml_sources := ss, mc_wake_source_id := i, mc_queue := q, mc_trace := tr,
        qmp_error := e, qmp_did_yank := y'\<rparr>"
      by (cases s) (simp add: s1)
    then show ?thesis by blast
  qed
qed

subsection \<open>Running until the coroutine yields\<close>

text \<open>
  A thing to do either uses up an outcome, or an event of the queue, or leads to
  something of lower rank; so a dispatch always comes to an end.
\<close>

fun todo_rank :: "todo \<Rightarrow> nat" where
  "todo_rank (T_array a els) = 4"
| "todo_rank (T_enter STATE_FAILED_PEER_FAILOVER) = 3"
| "todo_rank (T_enter STATE_PRIMARY_STARTUP) = 3"
| "todo_rank (T_enter st) = 2"
| "todo_rank (T_exec pt c) = 1"
| "todo_rank _ = 0"

definition todo_measure :: "outcome list \<times> todo \<times> 'z MainCoroutine_scheme \<Rightarrow> nat \<times> nat \<times> nat" where
  "todo_measure = (\<lambda>(outs, t, s). (length outs, unat (eq_used (mc_queue s)), todo_rank t))"

definition todo_order :: "((outcome list \<times> todo \<times> 'z MainCoroutine_scheme) \<times>
    (outcome list \<times> todo \<times> 'z MainCoroutine_scheme)) set" where
  "todo_order = inv_image (less_than <*lex*> (less_than <*lex*> less_than)) todo_measure"

lemma todo_order_iff:
  "((outs', t', s'), (outs, t, s)) \<in> todo_order \<longleftrightarrow>
     length outs' < length outs \<or> length outs' = length outs \<and>
     (unat (eq_used (mc_queue s')) < unat (eq_used (mc_queue s)) \<or>
      unat (eq_used (mc_queue s')) = unat (eq_used (mc_queue s)) \<and> todo_rank t' < todo_rank t)"
  by (simp add: todo_order_def todo_measure_def)

lemma wf_todo_order: "wf todo_order"
  by (simp add: todo_order_def wf_lex_prod)

lemma mig_queue:
  "mig_handle_event s = Some (t, s') \<Longrightarrow> mc_queue s' = mc_queue s \<and> todo_rank t = 0"
  "mig_qmp_error e s = Some (t, s') \<Longrightarrow> mc_queue s' = mc_queue s \<and> todo_rank t < 3"
  by (auto simp: mig_handle_event_def mig_qmp_error_def mig_failover_def bind_eq_Some_conv split: if_splits)

lemma raise_timeout_queue:
  "colod_raise_timeout_coroutine G s = Some s' \<Longrightarrow> mc_queue s' = mc_queue s"
  using raise_timeout_update by fastforce

lemma array_returned_queue:
  assumes "array_returned G a ret s = Some (t, s')"
  shows "mc_queue s' = mc_queue s \<and> todo_rank t < 3"
  using assms
  by (cases a; cases ret)
    (auto simp: array_returned_defs bind_eq_Some_conv colod_clear_peer_def
      dest!: mig_queue raise_timeout_queue split: if_splits)

lemma array_loop_queue:
  assumes "array_loop G J a els s = Some (t, s')"
  shows "mc_queue s' = mc_queue s \<and> todo_rank t < 4"
  using assms
  by (cases els)
    (auto simp: array_loop_def bind_eq_Some_conv dest!: array_returned_queue split: if_splits)

lemma event_received_queue:
  assumes "event_received pt ev s = Some (t, s')"
  shows "mc_queue s' = mc_queue s"
  using assms
  by (cases pt) (auto simp: event_received_defs mig_failover_def do_autoquit_def bind_eq_Some_conv split: if_splits)

lemma enter_state_used:
  assumes "enter_state G st s = Some (t, s')"
  shows "eq_used (mc_queue s') = eq_used (mc_queue s) \<and> todo_rank t < todo_rank (T_enter st)"
  using assms
  by (cases st)
    (auto simp: enter_state_def colo_running_begin_def bind_eq_Some_conv Let_def
      dest!: cpg_send_update set_interrupting_update set_timeout_update)

lemma main_micro_decreases:
  assumes "main_micro G J cur outs t s = Some (Go outs' t' s')"
  shows "((outs', t', s'), (outs, t, s)) \<in> todo_order"
proof -
  have go: "\<exists>seg. go o' seg = Some (Go outs' t' s') \<Longrightarrow> outs' = o'" for o'
    by (auto simp: go_def bind_eq_Some_conv)
  show ?thesis
  proof (cases t)
    case (T_event pt)
    with assms obtain ev s1 where "colod_event_wait cur s = Some (Some ev, s1)"
      "event_received pt ev s1 = Some (t', s')" "outs' = outs"
      by (auto simp: main_micro_def go_def bind_eq_Some_conv split: option.splits)
    with event_wait_used event_received_queue show ?thesis by (fastforce simp: todo_order_iff)
  next
    case (T_array a els)
    with assms array_loop_queue show ?thesis
      by (fastforce simp: main_micro_def go_def bind_eq_Some_conv todo_order_iff)
  next
    case (T_enter st)
    with assms enter_state_used show ?thesis
      by (fastforce simp: main_micro_def go_def bind_eq_Some_conv todo_order_iff)
  qed (use assms in \<open>auto simp: main_micro_def go_def yield_io_def bind_eq_Some_conv todo_order_iff
        Let_def split_beta split: list.splits outcome.splits\<close>)
qed

function main_run ::
    "Event glib \<Rightarrow> json_glib \<Rightarrow> guint \<Rightarrow> outcome list \<Rightarrow> todo \<Rightarrow> 'z MainCoroutine_scheme \<Rightarrow>
     (bool \<times> 'z MainCoroutine_scheme) abortable" where
  "main_run G J cur outs t s = (case main_micro G J cur outs t s of
     None \<Rightarrow> None
   | Some (Go outs' t' s') \<Rightarrow> main_run G J cur outs' t' s'
   | Some (Yielded s') \<Rightarrow> Some (False, s')
   | Some (Returned s') \<Rightarrow> Some (True, s'))"
  by pat_completeness auto
termination
  by (relation "inv_image todo_order (\<lambda>(G, J, cur, outs, t, s). (outs, t, s))")
    (auto simp: wf_todo_order main_micro_decreases)

declare main_run.simps [simp del]

end
