(* ===== verification/Main_System.thy ===== *)
theory Main_System
  imports Main_Coroutine
begin

text \<open>
  One dispatch of the main coroutine by the main loop, its creation and its release,
  and the transition system of the daemon: what the main loop, corosync, QEMU, the
  network link and the clients may make it do, and the states that can be reached.
\<close>

subsection \<open>Resuming the coroutine\<close>

text \<open>
  The source \<open>cur\<close> resumes the coroutine at its suspension point. A source that is not
  the one a QMP call waits for wakes the channel code, which waits again; so does its
  own source as long as the call is not complete. \<open>_colod_execute_nocheck_co\<close> has no
  suspension point of its own: a resumed call enters it from its start, which refreshes the
  watchdog.
\<close>

definition running_timer_resumed ::
    "guint \<Rightarrow> guint \<Rightarrow> 'z MainCoroutine_scheme \<Rightarrow> 'z MainCoroutine_scheme segment" where
  "running_timer_resumed i cur this =
     (if cur \<noteq> i then Some (T_event E_running, remove_source i this)
      else if mc_yellow this \<and> \<not> mc_peer_yellow this then Some (T_enter STATE_FAILED, this)
      else Some (T_event E_running, this))"

definition main_resume ::
    "Event glib \<Rightarrow> guint \<Rightarrow> outcome list \<Rightarrow> 'z MainCoroutine_scheme \<Rightarrow>
     'z MainCoroutine_scheme progress abortable" where
  "main_resume G cur outs this = (case mc_pc this of
     PC_start \<Rightarrow>
       (let new_state = (if mc_primary this then STATE_PRIMARY_STARTUP else STATE_SECONDARY_STARTUP) in do {
          this1 \<leftarrow> colod_cpg_send G MESSAGE_HELLO this;
          Some (Go outs (T_enter new_state) this1) })
   | PC_exec pt i \<Rightarrow>
       (let this1 = colod_watchdog_refresh G this in
        if cur = i
        then (case outs of
            Exec out # outs' \<Rightarrow> go outs' (execute_done G pt out this1)
          | _ \<Rightarrow> Some (yield_io G (PC_exec pt) this1))
        else Some (Yielded this1))
   | PC_yank i \<Rightarrow>
       if cur = i
       then (case outs of
           Yank out # outs' \<Rightarrow> go outs' (yank_done G out this)
         | _ \<Rightarrow> Some (yield_io G PC_yank this))
       else Some (Yielded this)
   | PC_wait q i \<Rightarrow> go outs (qmp_event_wait_resumed G q i cur this)
   | PC_timer i \<Rightarrow> go outs (running_timer_resumed i cur this)
   | PC_event pt \<Rightarrow> Some (Go outs (T_event pt) this)
   | PC_done \<Rightarrow> None)"

lemmas main_resume_defs = main_resume_def running_timer_resumed_def go_def

definition main_continue ::
    "Event glib \<Rightarrow> json_glib \<Rightarrow> guint \<Rightarrow> 'z MainCoroutine_scheme progress \<Rightarrow>
     (bool \<times> 'z MainCoroutine_scheme) abortable" where
  "main_continue G J cur p = (case p of
     Go outs t s \<Rightarrow> main_run G J cur outs t s
   | Yielded s \<Rightarrow> Some (False, s)
   | Returned s \<Rightarrow> Some (True, s))"

definition colod_main_co ::
    "Event glib \<Rightarrow> json_glib \<Rightarrow> guint \<Rightarrow> outcome list \<Rightarrow> 'z MainCoroutine_scheme \<Rightarrow>
     'z MainCoroutine_scheme abortable" where
  "colod_main_co G J cur outs this = do {
     p \<leftarrow> main_resume G cur outs this;
     (returned, this1) \<leftarrow> main_continue G J cur p;
     (if returned then do {
        ss \<leftarrow> colod_assert_remove_one_source S_main (ml_sources this1);
        Some (this1\<lparr>ml_sources := ss, mc_pc := PC_done, mc_quit := True\<rparr>) }
      else Some this1) }"

text \<open>
  It always returns \<^verbatim>\<open>G_SOURCE_REMOVE\<close>: the source is destroyed, and with a wake
  source its destroy callback runs.
\<close>

definition main_dispatch ::
    "Event glib \<Rightarrow> json_glib \<Rightarrow> guint \<Rightarrow> outcome list \<Rightarrow> 'z MainCoroutine_scheme \<Rightarrow>
     'z MainCoroutine_scheme abortable" where
  "main_dispatch G J cur outs this = (case map_of (ml_sources this) cur of
     Some S_main \<Rightarrow> do {
       this1 \<leftarrow> colod_main_co G J cur outs this;
       Some (remove_source cur this1) }
   | Some S_wake \<Rightarrow> do {
       this1 \<leftarrow> colod_main_co G J cur outs this;
       Some (event_wake_source_destroy_cb (remove_source cur this1)) }
   | _ \<Rightarrow> Some this)"

subsection \<open>Creation and release\<close>

definition colod_main_new ::
    "Event glib \<Rightarrow> bool \<Rightarrow> bool \<Rightarrow> string option \<Rightarrow> 'z MainCoroutine_scheme \<Rightarrow>
     (bool \<times> 'z MainCoroutine_scheme) abortable" where
  "colod_main_new G netlink_ok request_ok monitor ctx = do {
     (ok, s1) \<leftarrow> yellow_coroutine_new G (yellow_callbacks G) netlink_ok request_ok monitor 500 1000 ctx;
     (if \<not> ok then Some (False, s1)
      else do {
        q \<leftarrow> colod_eventqueue_new;
        let s2 = s1\<lparr>mc_pc := PC_start, mc_quit := False, mc_queue := q, mc_wake_source_id := 0,
          rt_co := None, mc_state := STATE_SECONDARY_STARTUP, mc_transitioning := False,
          mc_failed := False, mc_peer_failed := False, mc_yellow := False, mc_peer_yellow := False,
          mc_qemu_quit := False, mc_peer_failover := False, mc_primary := cx_primary_startup s1,
          mc_replication := False, mc_peer := Some '''', mc_issued := [], mc_trace := []\<rparr>;
        s3 \<leftarrow> qmp_add_notify_event CB_qmp_event s2;
        s4 \<leftarrow> qmp_add_notify_hup CB_qmp_hup s3;
        s5 \<leftarrow> colod_cpg_add_notify s4 CB_cpg_event;
        s6 \<leftarrow> yellow_add_notify CB_yellow_event s5;
        Some (True, snd (add_source G S_main s6)) }) }"

text \<open>\<open>colod_main_free\<close> up to its loop, which runs the main loop until the coroutine quits.\<close>

definition colod_main_free ::
    "Event glib \<Rightarrow> 'z MainCoroutine_scheme \<Rightarrow> 'z MainCoroutine_scheme abortable" where
  "colod_main_free G this = do {
     s1 \<leftarrow> colod_event_queue G EVENT_QUIT this;
     s2 \<leftarrow> yellow_del_notify CB_yellow_event s1;
     s3 \<leftarrow> yellow_coroutine_free G (yellow_callbacks G) s2;
     s4 \<leftarrow> colod_cpg_del_notify s3 CB_cpg_event;
     s5 \<leftarrow> qmp_del_notify_hup CB_qmp_hup s4;
     s6 \<leftarrow> qmp_del_notify_event CB_qmp_event s5;
     Some (colod_raise_timeout_coroutine_free G s6) }"

subsection \<open>Inputs\<close>

text \<open>
  \<open>Other_exec_begin\<close>, \<open>Other_exec\<close>, \<open>Other_yank\<close> and \<open>Health\<close> are the beginnings and ends of
  calls made by client or watchdog coroutines through the main coroutine's functions;
  \<open>Other_exec_nocheck\<close> is one that leaves the check of the reply to the client.
\<close>

datatype main_input =
    Dispatch guint "outcome list"
  | Cpg_message guint "gbyte list" | Cpg_left nat | Cpg_tick
  | Qmp_event json | Qmp_hup
  | Link_change string bool | Yellow_timer guint
  | Raise_resume guint
  | Watchdog_resume guint | Watchdog_checked int
  | Other_exec_begin | Other_exec string exec_outcome | Other_exec_nocheck exec_outcome
  | Other_yank yank_outcome | Health "(bool \<times> bool) fallible"
  | Start_migration | Autoquit | Qemu_failed | Set_peer "string option" | Clear_peer
  | Set_commands QmpCommands | Set_yank_instances json | Quit_request | Start_watchdog guint | Teardown

text \<open>A source is dispatched only when it is attached and of its kind.\<close>

definition attached :: "guint \<Rightarrow> source \<Rightarrow> 'z MainContext_scheme \<Rightarrow> bool" where
  "attached i src s \<longleftrightarrow> map_of (ml_sources s) i = Some src"

definition main_step ::
    "Event glib \<Rightarrow> json_glib \<Rightarrow> guint \<Rightarrow> main_input \<Rightarrow> 'z MainCoroutine_scheme \<Rightarrow>
     'z MainCoroutine_scheme abortable" where
  "main_step G J myid inp s = (case inp of
     Dispatch cur outs \<Rightarrow> main_dispatch G J cur outs s
   | Cpg_message nodeid msg \<Rightarrow> colod_cpg_deliver (cpg_callbacks_main G) myid nodeid msg s
   | Cpg_left n \<Rightarrow> colod_cpg_confchg G (cpg_callbacks_main G) n s
   | Cpg_tick \<Rightarrow>
       if attached (cpg_retransmit_source_id s) S_cpg_retransmit s
       then cpg_retransmit_dispatch G (cpg_retransmit_source_id s) s else Some s
   | Qmp_event result \<Rightarrow>
       qmp_notify_event (qmp_event_dispatch G J (qmp_callbacks_main G)) result s
   | Qmp_hup \<Rightarrow> do { (continue, s1) \<leftarrow> qmp_hup_cb (hup_callbacks_main G) s; Some s1 }
   | Link_change ifname up \<Rightarrow>
       if yl_listening s then yellow_netlink_event_cb G (yellow_callbacks G) ifname up s else Some s
   | Yellow_timer i \<Rightarrow>
       if attached i S_yellow s then yellow_timer_dispatch G (yellow_callbacks G) i s else Some s
   | Raise_resume i \<Rightarrow>
       if attached i S_raise s then colod_raise_timeout_co G J i s else Some s
   | Watchdog_resume i \<Rightarrow>
       if attached i S_watchdog s then colod_watchdog_co G i s else Some s
   | Watchdog_checked ret \<Rightarrow>
       if wd_pc s = W_check then watchdog_health_done G ret s else Some s
   | Other_exec_begin \<Rightarrow> Some (colod_watchdog_refresh G s)
   | Other_exec command out \<Rightarrow> do { (r, s1) \<leftarrow> colod_execute_end G command out s; Some s1 }
   | Other_exec_nocheck out \<Rightarrow> do { (r, s1) \<leftarrow> colod_execute_nocheck_end G out s; Some s1 }
   | Other_yank out \<Rightarrow> do { (r, s1) \<leftarrow> colod_yank_end G out s; Some s1 }
   | Health ret \<Rightarrow> do { (r, s1) \<leftarrow> colod_check_health_end G ret s; Some s1 }
   | Start_migration \<Rightarrow> do { (r, s1) \<leftarrow> colod_start_migration G s; Some s1 }
   | Autoquit \<Rightarrow> colod_autoquit G s
   | Qemu_failed \<Rightarrow> colod_qemu_failed G s
   | Set_peer peer \<Rightarrow> Some (colod_set_peer peer s)
   | Clear_peer \<Rightarrow> Some (colod_clear_peer s)
   | Set_commands cmds \<Rightarrow> Some (s\<lparr>cx_commands := cmds\<rparr>)
   | Set_yank_instances instances \<Rightarrow> Some (qmp_set_yank_instances instances s)
   | Quit_request \<Rightarrow> Some (colod_quit s)
   | Start_watchdog interval \<Rightarrow> colod_watchdog_new G interval s
   | Teardown \<Rightarrow> colod_main_free G s)"

subsection \<open>Reachable states\<close>

text \<open>
  The states and the inputs that led to them, the last first. In between the rest of the
  daemon may move: it changes its own state and the sources, whatever it does to them.
\<close>

definition guest_move :: "'z MainCoroutine_scheme \<Rightarrow> 'z MainCoroutine_scheme \<Rightarrow> bool" where
  "guest_move s s' \<longleftrightarrow> (\<exists>m. s' = MainCoroutine.more_update m (s\<lparr>ml_sources := ml_sources s'\<rparr>))"

inductive main_reach ::
    "Event glib \<Rightarrow> json_glib \<Rightarrow> guint \<Rightarrow> 'z MainCoroutine_scheme \<Rightarrow> main_input list \<Rightarrow>
     'z MainCoroutine_scheme \<Rightarrow> bool"
  for G J myid s0 where
  start: "main_reach G J myid s0 [] s0"
| step: "main_reach G J myid s0 h s \<Longrightarrow> main_step G J myid inp s = Some s' \<Longrightarrow>
     main_reach G J myid s0 (inp # h) s'"
| guest: "main_reach G J myid s0 h s \<Longrightarrow> guest_move s s' \<Longrightarrow> main_reach G J myid s0 h s'"

inductive_cases main_reach_ConsE: "main_reach G J myid s0 (inp # h) s"

subsection \<open>A concrete daemon\<close>

text \<open>
  A daemon on the reference library, as primary or as secondary, and runs of it from
  its creation: the witnesses of the theorems about reachable states evaluate these.
\<close>

definition example_json :: json_glib where
  "example_json = \<lparr>json_from_string = (\<lambda>s. Some (if s = event_resume then JObject [(''event'', JString ''RESUME'')]
       else if s = event_stop then JObject [(''event'', JString ''STOP'')] else JArray [])),
     json_to_string = (\<lambda>_. ''''), json_node_equal = (=)\<rparr>"

definition example_ctx :: "bool \<Rightarrow> MainCoroutine" where
  "example_ctx primary = \<lparr>ml_sources = [], cpg_callbacks = [], cpg_source_id = 0, cpg_retransmit_source_id = 0,
     cpg_retransmit = replicate MESSAGE_MAX False, cpg_mcast = [],
     qmp_channel = idle_channel False, qmp_yank_channel = idle_channel True, qmp_timeout = 600,
     qmp_yank_instances = None, qmp_yank_callbacks = [], qmp_event_callbacks = [],
     qmp_hup_callbacks = [], qmp_did_yank = False, qmp_error = None, qmp_inflight = 0, qmp_hup_source_id = 0,
     qmp_waits = (\<lambda>_. None), yl_pc = Y_done, yl_quit = False,
     yl_monitor_interface = None, yl_listening = False, yl_callbacks = [],
     yl_timeout1 = 0, yl_timeout2 = 0, rt_co = None, cx_qmp_timeout_low = 600, cx_qmp_timeout_high = 10000,
     wd_interval = 0, wd_timer_id = 0, wd_quit = False, wd_pc = W_start,
     mc_pc = PC_start, mc_quit = False,
     mc_queue = \<lparr>eq_sequence = [], eq_seq_counter = 0, eq_size = 32, eq_used = 0,
       eq_interrupting_always = (\<lambda>_. False), eq_interrupting = (\<lambda>_. False)\<rparr>,
     mc_wake_source_id = 0, mc_state = STATE_SECONDARY_STARTUP, mc_transitioning = False,
     mc_failed = False, mc_peer_failed = False, mc_yellow = False, mc_peer_yellow = False,
     mc_qemu_quit = False, mc_peer_failover = False, mc_primary = False, mc_replication = False,
     mc_peer = Some '''', mc_issued = [], mc_trace = [],
     cx_commands = \<lparr>migration_start = JArray [], migration_switchover = JArray [],
       failover_primary = JArray [], failover_secondary = JArray []\<rparr>,
     cx_primary_startup = primary, cx_mainloop_quit = False\<rparr>"

definition example_start :: "bool \<Rightarrow> MainCoroutine option" where
  "example_start primary = (case colod_main_new ref_glib True True None (example_ctx primary) of
     Some (True, s) \<Rightarrow> Some s | _ \<Rightarrow> None)"

fun example_run :: "main_input list \<Rightarrow> MainCoroutine \<Rightarrow> MainCoroutine option" where
  "example_run [] s = Some s"
| "example_run (i # is) s = do { s' \<leftarrow> main_step ref_glib example_json 1 i s; example_run is s' }"

lemma example_run_reach:
  "main_reach ref_glib example_json 1 s0 h s \<Longrightarrow> example_run is s = Some s' \<Longrightarrow>
     main_reach ref_glib example_json 1 s0 (rev is @ h) s'"
proof (induction "is" arbitrary: s h)
  case Nil
  then show ?case by simp
next
  case (Cons i "is")
  then obtain s1 where "main_step ref_glib example_json 1 i s = Some s1" "example_run is s1 = Some s'"
    by (auto simp: bind_eq_Some_conv)
  with Cons.IH main_reach.step [OF Cons.prems(1)] show ?case by fastforce
qed

lemma example_reach:
  assumes "map_option f (Option.bind (example_start p) (example_run is)) = Some x"
  shows "\<exists>s0 s. colod_main_new ref_glib True True None (example_ctx p) = Some (True, s0) \<and>
    main_reach ref_glib example_json 1 s0 (rev is) s \<and> f s = x"
proof -
  obtain s0 s where s: "example_start p = Some s0" "example_run is s0 = Some s" "f s = x"
    using assms by (auto simp: bind_eq_Some_conv)
  from s(1) have "colod_main_new ref_glib True True None (example_ctx p) = Some (True, s0)"
    by (auto simp: example_start_def split: option.splits prod.splits bool.splits)
  with s(3) example_run_reach [OF main_reach.start s(2)] show ?thesis by auto
qed

lemma example_reach2:
  assumes "Option.bind (Option.bind (example_start p) (example_run is1))
      (\<lambda>s. map_option (\<lambda>s'. (f s, g s')) (example_run is2 s)) = Some (x, y)"
  shows "\<exists>s0 s s'. colod_main_new ref_glib True True None (example_ctx p) = Some (True, s0) \<and>
    main_reach ref_glib example_json 1 s0 (rev is1) s \<and>
    main_reach ref_glib example_json 1 s (rev is2) s' \<and> f s = x \<and> g s' = y"
proof -
  obtain s s' where s: "Option.bind (example_start p) (example_run is1) = Some s"
      "example_run is2 s = Some s'" "f s = x" "g s' = y"
    using assms by (auto simp: bind_eq_Some_conv)
  from s(1) have "map_option (\<lambda>t. t) (Option.bind (example_start p) (example_run is1)) = Some s" by simp
  from example_reach [OF this] obtain s0 where
    "colod_main_new ref_glib True True None (example_ctx p) = Some (True, s0)"
    "main_reach ref_glib example_json 1 s0 (rev is1) s" by blast
  with s(3,4) example_run_reach [OF main_reach.start s(2)] show ?thesis by auto
qed

end
