(* ===== verification/Main_Frame.thy ===== *)
theory Main_Frame
  imports Main_System
begin

text \<open>
  What everything but the main coroutine's own dispatch leaves alone. The locale
  \<open>main_ops\<close> takes a predicate of the daemon's state that looks only at the suspension
  point, the state and the flags of the coroutine, its event queue and its trace, the settings
  of clients and the state of later components, and that queueing an event preserves; its
  lemmas show that every callback, every client request but a setting, every timer and every
  end of a QMP call then preserves it. \<open>main_frame\<close> is the case of a predicate that does not
  look at the settings, and \<open>daemon_ops\<close> the part of \<open>main_ops\<close> that a predicate has which also
  looks at the lists the coroutine is registered in.
\<close>

subsection \<open>What the invariants look at\<close>

text \<open>The suspension point, the state and the flags that no callback and no client touches.\<close>

definition main_core :: "'z MainCoroutine_scheme \<Rightarrow> main_pc \<times> MainState \<times> bool \<times> bool \<times> bool \<times> bool \<times> bool" where
  "main_core s = (mc_pc s, mc_state s, mc_transitioning s, mc_failed s, mc_peer_failover s,
     mc_primary s, mc_replication s)"

definition main_view :: "'z MainCoroutine_scheme \<Rightarrow>
    (main_pc \<times> MainState \<times> bool \<times> bool \<times> bool \<times> bool \<times> bool) \<times> EventQueue \<times> main_trace list" where
  "main_view s = (main_core s, mc_queue s, mc_trace s)"

lemma main_core_simps [simp]:
  "main_core (s\<lparr>ml_sources := ss\<rparr>) = main_core s"
  "main_core (s\<lparr>cpg_retransmit := fl\<rparr>) = main_core s"
  "main_core (s\<lparr>cpg_callbacks := cbs\<rparr>) = main_core s"
  "main_core (s\<lparr>cpg_retransmit_source_id := i\<rparr>) = main_core s"
  "main_core (s\<lparr>cpg_mcast := out\<rparr>) = main_core s"
  "main_core (s\<lparr>qmp_hup_source_id := i\<rparr>) = main_core s"
  "main_core (s\<lparr>qmp_did_yank := b\<rparr>) = main_core s"
  "main_core (s\<lparr>qmp_error := e\<rparr>) = main_core s"
  "main_core (s\<lparr>qmp_timeout := t\<rparr>) = main_core s"
  "main_core (s\<lparr>qmp_waits := ws\<rparr>) = main_core s"
  "main_core (s\<lparr>qmp_yank_instances := y\<rparr>) = main_core s"
  "main_core (s\<lparr>qmp_event_callbacks := cbs\<rparr>) = main_core s"
  "main_core (s\<lparr>qmp_hup_callbacks := cbs\<rparr>) = main_core s"
  "main_core (s\<lparr>yl_pc := ypc\<rparr>) = main_core s"
  "main_core (s\<lparr>yl_quit := b\<rparr>) = main_core s"
  "main_core (s\<lparr>yl_listening := b\<rparr>) = main_core s"
  "main_core (s\<lparr>yl_callbacks := cbs\<rparr>) = main_core s"
  "main_core (s\<lparr>rt_co := rt\<rparr>) = main_core s"
  "main_core (s\<lparr>wd_pc := wpc\<rparr>) = main_core s"
  "main_core (s\<lparr>wd_timer_id := i\<rparr>) = main_core s"
  "main_core (s\<lparr>wd_interval := n\<rparr>) = main_core s"
  "main_core (s\<lparr>wd_quit := b\<rparr>) = main_core s"
  "main_core (s\<lparr>mc_wake_source_id := i\<rparr>) = main_core s"
  "main_core (s\<lparr>mc_peer_failed := b\<rparr>) = main_core s"
  "main_core (s\<lparr>mc_yellow := b\<rparr>) = main_core s"
  "main_core (s\<lparr>mc_peer_yellow := b\<rparr>) = main_core s"
  "main_core (s\<lparr>mc_qemu_quit := b\<rparr>) = main_core s"
  "main_core (s\<lparr>mc_peer := p\<rparr>) = main_core s"
  "main_core (s\<lparr>mc_quit := b\<rparr>) = main_core s"
  "main_core (s\<lparr>mc_issued := cs\<rparr>) = main_core s"
  "main_core (s\<lparr>cx_commands := cmds\<rparr>) = main_core s"
  "main_core (s\<lparr>cx_mainloop_quit := b\<rparr>) = main_core s"
  "main_core (s\<lparr>mc_queue := q\<rparr>) = main_core s"
  "main_core (s\<lparr>mc_trace := tr\<rparr>) = main_core s"
  "main_core (remove_source i s) = main_core s"
  "main_core (snd (add_source G d s)) = main_core s"
  by (simp_all add: main_core_def remove_source_def add_source_eq Let_def)

lemma main_view_simps [simp]:
  "main_view (s\<lparr>ml_sources := ss\<rparr>) = main_view s"
  "main_view (s\<lparr>cpg_retransmit := fl\<rparr>) = main_view s"
  "main_view (s\<lparr>cpg_callbacks := cbs\<rparr>) = main_view s"
  "main_view (s\<lparr>cpg_retransmit_source_id := i\<rparr>) = main_view s"
  "main_view (s\<lparr>cpg_mcast := out\<rparr>) = main_view s"
  "main_view (s\<lparr>qmp_hup_source_id := i\<rparr>) = main_view s"
  "main_view (s\<lparr>qmp_did_yank := b\<rparr>) = main_view s"
  "main_view (s\<lparr>qmp_error := e\<rparr>) = main_view s"
  "main_view (s\<lparr>qmp_timeout := t\<rparr>) = main_view s"
  "main_view (s\<lparr>qmp_waits := ws\<rparr>) = main_view s"
  "main_view (s\<lparr>qmp_yank_instances := y\<rparr>) = main_view s"
  "main_view (s\<lparr>qmp_event_callbacks := cbs\<rparr>) = main_view s"
  "main_view (s\<lparr>qmp_hup_callbacks := cbs\<rparr>) = main_view s"
  "main_view (s\<lparr>yl_pc := ypc\<rparr>) = main_view s"
  "main_view (s\<lparr>yl_quit := b\<rparr>) = main_view s"
  "main_view (s\<lparr>yl_listening := b\<rparr>) = main_view s"
  "main_view (s\<lparr>yl_callbacks := cbs\<rparr>) = main_view s"
  "main_view (s\<lparr>rt_co := rt\<rparr>) = main_view s"
  "main_view (s\<lparr>wd_pc := wpc\<rparr>) = main_view s"
  "main_view (s\<lparr>wd_timer_id := i\<rparr>) = main_view s"
  "main_view (s\<lparr>wd_interval := n\<rparr>) = main_view s"
  "main_view (s\<lparr>wd_quit := b\<rparr>) = main_view s"
  "main_view (s\<lparr>mc_wake_source_id := i\<rparr>) = main_view s"
  "main_view (s\<lparr>mc_peer_failed := b\<rparr>) = main_view s"
  "main_view (s\<lparr>mc_yellow := b\<rparr>) = main_view s"
  "main_view (s\<lparr>mc_peer_yellow := b\<rparr>) = main_view s"
  "main_view (s\<lparr>mc_qemu_quit := b\<rparr>) = main_view s"
  "main_view (s\<lparr>mc_peer := p\<rparr>) = main_view s"
  "main_view (s\<lparr>mc_quit := b\<rparr>) = main_view s"
  "main_view (s\<lparr>mc_issued := cs\<rparr>) = main_view s"
  "main_view (s\<lparr>cx_commands := cmds\<rparr>) = main_view s"
  "main_view (s\<lparr>cx_mainloop_quit := b\<rparr>) = main_view s"
  "main_view (remove_source i s) = main_view s"
  "main_view (snd (add_source G d s)) = main_view s"
  by (simp_all add: main_view_def remove_source_def add_source_eq Let_def)

text \<open>
  What clients set, the command lists and the match list of a yank, and the state of later
  components; the coroutine only reads the first two.
\<close>

definition main_rest :: "'z MainCoroutine_scheme \<Rightarrow> QmpCommands \<times> json option \<times> 'z" where
  "main_rest s = (cx_commands s, qmp_yank_instances s, MainCoroutine.more s)"

lemma main_rest_simps [simp]:
  "main_rest (s\<lparr>ml_sources := ss\<rparr>) = main_rest s"
  "main_rest (s\<lparr>cpg_retransmit := fl\<rparr>) = main_rest s"
  "main_rest (s\<lparr>cpg_callbacks := cbs\<rparr>) = main_rest s"
  "main_rest (s\<lparr>cpg_retransmit_source_id := i\<rparr>) = main_rest s"
  "main_rest (s\<lparr>cpg_mcast := out\<rparr>) = main_rest s"
  "main_rest (s\<lparr>qmp_hup_source_id := i\<rparr>) = main_rest s"
  "main_rest (s\<lparr>qmp_did_yank := b\<rparr>) = main_rest s"
  "main_rest (s\<lparr>qmp_error := e\<rparr>) = main_rest s"
  "main_rest (s\<lparr>qmp_timeout := t\<rparr>) = main_rest s"
  "main_rest (s\<lparr>qmp_waits := ws\<rparr>) = main_rest s"
  "main_rest (s\<lparr>qmp_event_callbacks := cbs\<rparr>) = main_rest s"
  "main_rest (s\<lparr>qmp_hup_callbacks := cbs\<rparr>) = main_rest s"
  "main_rest (s\<lparr>yl_pc := ypc\<rparr>) = main_rest s"
  "main_rest (s\<lparr>yl_quit := b\<rparr>) = main_rest s"
  "main_rest (s\<lparr>yl_listening := b\<rparr>) = main_rest s"
  "main_rest (s\<lparr>yl_callbacks := cbs\<rparr>) = main_rest s"
  "main_rest (s\<lparr>rt_co := rt\<rparr>) = main_rest s"
  "main_rest (s\<lparr>wd_pc := wpc\<rparr>) = main_rest s"
  "main_rest (s\<lparr>wd_timer_id := i\<rparr>) = main_rest s"
  "main_rest (s\<lparr>wd_interval := n\<rparr>) = main_rest s"
  "main_rest (s\<lparr>wd_quit := b\<rparr>) = main_rest s"
  "main_rest (s\<lparr>mc_wake_source_id := i\<rparr>) = main_rest s"
  "main_rest (s\<lparr>mc_peer_failed := b\<rparr>) = main_rest s"
  "main_rest (s\<lparr>mc_yellow := b\<rparr>) = main_rest s"
  "main_rest (s\<lparr>mc_peer_yellow := b\<rparr>) = main_rest s"
  "main_rest (s\<lparr>mc_qemu_quit := b\<rparr>) = main_rest s"
  "main_rest (s\<lparr>mc_peer := p\<rparr>) = main_rest s"
  "main_rest (s\<lparr>mc_quit := b\<rparr>) = main_rest s"
  "main_rest (s\<lparr>mc_issued := cs\<rparr>) = main_rest s"
  "main_rest (s\<lparr>cx_mainloop_quit := b\<rparr>) = main_rest s"
  "main_rest (s\<lparr>mc_queue := q\<rparr>) = main_rest s"
  "main_rest (s\<lparr>mc_trace := tr\<rparr>) = main_rest s"
  "main_rest (s\<lparr>mc_pc := pc\<rparr>) = main_rest s"
  "main_rest (s\<lparr>mc_state := st\<rparr>) = main_rest s"
  "main_rest (s\<lparr>mc_transitioning := b\<rparr>) = main_rest s"
  "main_rest (s\<lparr>mc_failed := b\<rparr>) = main_rest s"
  "main_rest (s\<lparr>mc_peer_failover := b\<rparr>) = main_rest s"
  "main_rest (s\<lparr>mc_primary := b\<rparr>) = main_rest s"
  "main_rest (s\<lparr>mc_replication := b\<rparr>) = main_rest s"
  "main_rest (remove_source i s) = main_rest s"
  "main_rest (snd (add_source G d s)) = main_rest s"
  by (simp_all add: main_rest_def remove_source_def add_source_eq Let_def)

text \<open>
  Where others know the main coroutine: the callback lists it is in, the wait for a QMP event
  its coroutine is suspended in, and the flag that tells its release that it has quit.
\<close>

definition registrations :: "'z MainCoroutine_scheme \<Rightarrow>
    callback callbacks \<times> ColodWaitState option \<times> callback callbacks \<times> callback callbacks \<times> callback callbacks \<times> bool" where
  "registrations s = (qmp_event_callbacks s, qmp_waits s S_main, qmp_hup_callbacks s, cpg_callbacks s, yl_callbacks s,
     mc_quit s)"

lemma registrations_simps [simp]:
  "registrations (s\<lparr>ml_sources := ss\<rparr>) = registrations s"
  "registrations (s\<lparr>cpg_retransmit := fl\<rparr>) = registrations s"
  "registrations (s\<lparr>cpg_retransmit_source_id := i\<rparr>) = registrations s"
  "registrations (s\<lparr>cpg_mcast := out\<rparr>) = registrations s"
  "registrations (s\<lparr>qmp_hup_source_id := i\<rparr>) = registrations s"
  "registrations (s\<lparr>qmp_did_yank := b\<rparr>) = registrations s"
  "registrations (s\<lparr>qmp_error := e\<rparr>) = registrations s"
  "registrations (s\<lparr>qmp_timeout := t\<rparr>) = registrations s"
  "registrations (s\<lparr>yl_pc := ypc\<rparr>) = registrations s"
  "registrations (s\<lparr>yl_quit := b\<rparr>) = registrations s"
  "registrations (s\<lparr>yl_listening := b\<rparr>) = registrations s"
  "registrations (s\<lparr>rt_co := rt\<rparr>) = registrations s"
  "registrations (s\<lparr>wd_pc := wpc\<rparr>) = registrations s"
  "registrations (s\<lparr>wd_timer_id := i\<rparr>) = registrations s"
  "registrations (s\<lparr>wd_interval := n\<rparr>) = registrations s"
  "registrations (s\<lparr>wd_quit := b\<rparr>) = registrations s"
  "registrations (s\<lparr>mc_wake_source_id := i\<rparr>) = registrations s"
  "registrations (s\<lparr>mc_peer_failed := b\<rparr>) = registrations s"
  "registrations (s\<lparr>mc_yellow := b\<rparr>) = registrations s"
  "registrations (s\<lparr>mc_peer_yellow := b\<rparr>) = registrations s"
  "registrations (s\<lparr>mc_qemu_quit := b\<rparr>) = registrations s"
  "registrations (s\<lparr>mc_peer := p\<rparr>) = registrations s"
  "registrations (s\<lparr>mc_issued := cs\<rparr>) = registrations s"
  "registrations (s\<lparr>cx_mainloop_quit := b\<rparr>) = registrations s"
  "registrations (s\<lparr>mc_queue := q\<rparr>) = registrations s"
  "registrations (s\<lparr>mc_trace := tr\<rparr>) = registrations s"
  "registrations (s\<lparr>mc_pc := pc\<rparr>) = registrations s"
  "registrations (s\<lparr>mc_state := st\<rparr>) = registrations s"
  "registrations (s\<lparr>mc_transitioning := b\<rparr>) = registrations s"
  "registrations (s\<lparr>mc_failed := b\<rparr>) = registrations s"
  "registrations (s\<lparr>mc_peer_failover := b\<rparr>) = registrations s"
  "registrations (s\<lparr>mc_primary := b\<rparr>) = registrations s"
  "registrations (s\<lparr>mc_replication := b\<rparr>) = registrations s"
  "registrations (remove_source i s) = registrations s"
  "registrations (snd (add_source G d s)) = registrations s"
  "registrations (s\<lparr>cx_commands := cmds\<rparr>) = registrations s"
  "registrations (s\<lparr>qmp_yank_instances := y\<rparr>) = registrations s"
  by (simp_all add: registrations_def remove_source_def add_source_eq Let_def)

lemma guest_move_frame [simp]:
  "guest_move s s' \<Longrightarrow> main_core s' = main_core s"
  "guest_move s s' \<Longrightarrow> main_view s' = main_view s"
proof -
  assume "guest_move s s'"
  then obtain m where "s' = MainCoroutine.more_update m (s\<lparr>ml_sources := ml_sources s'\<rparr>)"
    by (auto simp: guest_move_def)
  moreover have "main_core (MainCoroutine.more_update m (s\<lparr>ml_sources := ss\<rparr>)) = main_core s"
    "main_view (MainCoroutine.more_update m (s\<lparr>ml_sources := ss\<rparr>)) = main_view s" for ss
    by (simp_all add: main_core_def main_view_def)
  ultimately show "main_core s' = main_core s" and "main_view s' = main_view s" by metis+
qed

lemma foreach_preserves_mem:
  assumes "qlist_foreach_safe head f cs s = Some s'" and "P s"
    and "\<And>c s s'. c \<in> set cs \<Longrightarrow> f c s = Some s' \<Longrightarrow> P s \<Longrightarrow> P s'"
  shows "P s'"
  using assms
proof (induction head f cs s rule: qlist_foreach_safe.induct)
  case (1 head f s)
  then show ?case by simp
next
  case (2 head f c cs s)
  from "2.prems"(1) obtain s1 u where s1: "f c s = Some s1"
    and u: "c_assert (filter (\<lambda>d. d \<in> set (head s)) cs = [] \<or>
        hd (filter (\<lambda>d. d \<in> set (head s)) cs) \<in> set (head s1)) = Some u"
    and rest: "qlist_foreach_safe head f (filter (\<lambda>d. d \<in> set (head s)) cs) s1 = Some s'"
    by (auto simp: Let_def bind_eq_Some_conv)
  have mem: "c' \<in> set (filter (\<lambda>d. d \<in> set (head s)) cs) \<Longrightarrow> c' \<in> set (c # cs)" for c' by simp
  have 1: "P s1" using "2.prems"(3) [OF _ s1 "2.prems"(2)] by simp
  show ?case by (rule "2.IH" [OF refl s1 u rest 1 "2.prems"(3) [OF mem]])
qed

lemma foreach_preserves:
  assumes "qlist_foreach_safe head f cs s = Some s'" and "P s"
    and "\<And>c s s'. f c s = Some s' \<Longrightarrow> P s \<Longrightarrow> P s'"
  shows "P s'"
  using assms(1,2) by (rule foreach_preserves_mem [where P = P]) (rule assms(3))

text \<open>The input that can bring this node's own \<open>EVENT_FAILOVER_WIN\<close>.\<close>

definition own_failover :: "guint \<Rightarrow> main_input \<Rightarrow> bool" where
  "own_failover myid inp = (case inp of
     Cpg_message nodeid msg \<Rightarrow> length msg = 4 \<and> nodeid = myid \<and> ntohl_bytes msg = MESSAGE_FAILOVER
   | _ \<Rightarrow> False)"

text \<open>The inputs by which clients set what the coroutine reads.\<close>

fun sets_context :: "main_input \<Rightarrow> bool" where
  "sets_context (Set_commands cmds) = True"
| "sets_context (Set_yank_instances instances) = True"
| "sets_context _ = False"

subsection \<open>The frame\<close>

text \<open>The inputs that change where the coroutine is registered.\<close>

fun registers :: "main_input \<Rightarrow> bool" where
  "registers (Dispatch cur outs) = True"
| "registers (Qmp_event result) = True"
| "registers (Raise_resume i) = True"
| "registers (Start_watchdog interval) = True"
| "registers Teardown = True"
| "registers _ = False"

text \<open>\<open>daemon_ops\<close> for a predicate that may also look at the settings and the registrations.\<close>

locale daemon_ops =
  fixes G :: "Event glib" and win :: bool and P :: "'z MainCoroutine_scheme \<Rightarrow> bool"
  assumes daemon_frame: "main_view s' = main_view s \<Longrightarrow> main_rest s' = main_rest s \<Longrightarrow>
      registrations s' = registrations s \<Longrightarrow> P s \<Longrightarrow> P s'"
    and event: "(e = EVENT_FAILOVER_WIN \<Longrightarrow> win) \<Longrightarrow> colod_event_queue G e s = Some s' \<Longrightarrow> P s \<Longrightarrow> P s'"
begin

lemma daemon_cong:
  "main_view s' = main_view s \<Longrightarrow> main_rest s' = main_rest s \<Longrightarrow> registrations s' = registrations s \<Longrightarrow> P s' = P s"
  using daemon_frame [of s' s] daemon_frame [of s s'] by auto

lemma P_upd [simp]:
  "P (s\<lparr>ml_sources := ss\<rparr>) = P s"
  "P (s\<lparr>cpg_retransmit := fl\<rparr>) = P s"
  "P (s\<lparr>cpg_retransmit_source_id := i\<rparr>) = P s"
  "P (s\<lparr>cpg_mcast := out\<rparr>) = P s"
  "P (s\<lparr>qmp_hup_source_id := i\<rparr>) = P s"
  "P (s\<lparr>qmp_did_yank := b\<rparr>) = P s"
  "P (s\<lparr>qmp_error := e\<rparr>) = P s"
  "P (s\<lparr>qmp_timeout := t\<rparr>) = P s"
  "P (s\<lparr>yl_pc := ypc\<rparr>) = P s"
  "P (s\<lparr>yl_quit := b\<rparr>) = P s"
  "P (s\<lparr>yl_listening := b\<rparr>) = P s"
  "P (s\<lparr>rt_co := rt\<rparr>) = P s"
  "P (s\<lparr>wd_pc := wpc\<rparr>) = P s"
  "P (s\<lparr>wd_timer_id := i\<rparr>) = P s"
  "P (s\<lparr>wd_interval := n\<rparr>) = P s"
  "P (s\<lparr>wd_quit := b\<rparr>) = P s"
  "P (s\<lparr>mc_wake_source_id := i\<rparr>) = P s"
  "P (s\<lparr>mc_peer_failed := b\<rparr>) = P s"
  "P (s\<lparr>mc_yellow := b\<rparr>) = P s"
  "P (s\<lparr>mc_peer_yellow := b\<rparr>) = P s"
  "P (s\<lparr>mc_qemu_quit := b\<rparr>) = P s"
  "P (s\<lparr>mc_peer := p\<rparr>) = P s"
  "P (s\<lparr>mc_issued := cs\<rparr>) = P s"
  "P (s\<lparr>cx_mainloop_quit := b\<rparr>) = P s"
  "P (remove_source i s) = P s"
  "P (snd (add_source G' d s)) = P s"
  by (rule daemon_cong; simp)+

lemma cpg_send: "colod_cpg_send G' m s = Some s' \<Longrightarrow> P s' = P s"
  by (drule cpg_send_update) auto

lemma set_timeout: "qmp_set_timeout t s = Some s' \<Longrightarrow> P s' = P s"
  by (drule set_timeout_update) auto

lemma raise_timeout: "colod_raise_timeout_coroutine G' s = Some s' \<Longrightarrow> P s' = P s"
  by (drule raise_timeout_update) auto

lemma execute_begin [simp]: "P (colod_execute_begin G' c s) = P s"
  using execute_begin_update [of G' c s] by auto

lemma refresh [simp]: "P (colod_watchdog_refresh G' s) = P s"
  by (simp add: colod_watchdog_refresh_def add_source_eq Let_def)

text \<open>Operations that queue events preserve the predicate.\<close>

lemma execute_nocheck_end:
  assumes "colod_execute_nocheck_end G out s = Some (r, s')" and "P s"
  shows "P s'"
proof -
  define s1 where "s1 = snd (qmp_execute_return out s)"
  have "P s1"
    using assms(2) by (auto simp: s1_def qmp_execute_return_def qmp_set_error_def qmp_set_yank_def
        split: exec_outcome.splits)
  with assms(1) show ?thesis
    by (auto simp: colod_execute_nocheck_end_def s1_def bind_eq_Some_conv Let_def split_beta
        qmp_clear_yank_def elim!: event [rotated] split: sum.splits if_splits)
qed

lemma execute_end:
  assumes "colod_execute_end G c out s = Some (r, s')" and "P s"
  shows "P s'"
proof -
  from assms(1) obtain r0 s0 where 0: "colod_execute_nocheck_end G out s = Some (r0, s0)"
    by (auto simp: colod_execute_end_def bind_eq_Some_conv)
  moreover have "s0 = s'"
    using assms(1) 0 by (cases r0) (auto simp: colod_execute_end_def bind_eq_Some_conv)
  ultimately show ?thesis using execute_nocheck_end assms(2) by blast
qed

lemma yank_return: "P (snd (qmp_yank_return out s)) = P s"
  by (cases out) (auto simp: qmp_yank_return_def qmp_set_yank_def qmp_set_error_def)

lemma yank_end:
  assumes "colod_yank_end G out s = Some (r, s')" and "P s"
  shows "P s'"
  using assms yank_return [of out s]
  by (auto simp: colod_yank_end_def Let_def split_beta qmp_clear_yank_def bind_eq_Some_conv
      elim!: event [rotated] split: sum.splits)

lemma check_health: "colod_check_health_end G ret s = Some (r, s') \<Longrightarrow> P s \<Longrightarrow> P s'"
  by (cases ret) (auto simp: colod_check_health_end_def bind_eq_Some_conv elim!: event [rotated] split: if_splits)

lemma yellow_callbacks: "yellow_callbacks G c e s = Some s' \<Longrightarrow> P s \<Longrightarrow> P s'"
  by (cases c) (auto simp: colod_yellow_event_cb_def elim!: event [rotated] split: if_splits)

lemma yellow_notify: "yellow_notify (yellow_callbacks G) e s = Some s' \<Longrightarrow> P s \<Longrightarrow> P s'"
  unfolding yellow_notify_def by (erule foreach_preserves [where P = P]) (auto dest: yellow_callbacks)

lemma delay_top: "delay_top G' t e s = Some (r, s') \<Longrightarrow> P s' = P s"
  by (auto simp: delay_top_def add_source_eq Let_def split: if_splits)

lemma yellow_send:
  "yellow_send_target_message G' t s = Some s' \<Longrightarrow> P s' = P s"
  "yellow_send_revert_message G' t s = Some s' \<Longrightarrow> P s' = P s"
  by (simp_all add: send_target_eq send_revert_eq cpg_send)

lemma yellow_delay: "yellow_delay_co G' t d e s = Some (r, s') \<Longrightarrow> P s' = P s"
  by (cases d)
    (auto simp: bind_eq_Some_conv add_source_eq Let_def split: if_splits
      dest!: delay_top yellow_send)

lemma yellow_in_delay:
  assumes "yellow_in_delay G (yellow_callbacks G) t d e s = Some s'" and "P s"
  shows "P s'"
proof -
  obtain r s1 where r: "yellow_delay_co G t d e s = Some (r, s1)"
    using assms(1) by (auto simp: yellow_in_delay_def bind_eq_Some_conv)
  with yellow_delay [OF r] assms show ?thesis
    by (cases r) (auto simp: yellow_in_delay_def bind_eq_Some_conv dest!: yellow_notify split: if_splits)
qed

lemma yellow_co_enter: "yellow_co_enter G (yellow_callbacks G) e s = Some s' \<Longrightarrow> P s \<Longrightarrow> P s'"
  by (cases "yl_pc s") (auto simp: yellow_co_enter_def dest: yellow_in_delay)

lemma yellow_queue_event: "yellow_queue_event G (yellow_callbacks G) e s = Some s' \<Longrightarrow> P s \<Longrightarrow> P s'"
  by (auto simp: yellow_queue_event_def bind_eq_Some_conv dest!: yellow_co_enter)

lemma yellow_shutdown: "yellow_shutdown G (yellow_callbacks G) s = Some s' \<Longrightarrow> P s \<Longrightarrow> P s'"
  by (auto simp: yellow_shutdown_def bind_eq_Some_conv dest!: yellow_queue_event split: if_splits)

lemma local_disk_error:
  assumes "colod_cpg_send G MESSAGE_YELLOW (s\<lparr>mc_yellow := True\<rparr>) = Some s1"
    and "yellow_shutdown G (yellow_callbacks G) s1 = Some s2"
    and "colod_event_queue G EVENT_YELLOW s2 = Some s'" and "P s"
  shows "P s'"
  by (rule event [OF _ assms(3)]) (use cpg_send [OF assms(1)] yellow_shutdown [OF assms(2)] assms(4) in auto)

lemma qmp_event_cb: "colod_qmp_event_cb G result s = Some s' \<Longrightarrow> P s \<Longrightarrow> P s'"
  unfolding colod_qmp_event_cb_def
  by (elim bind_SomeE) (auto elim!: bind_SomeE elim: event [rotated] local_disk_error
      simp: raise_timeout split: if_splits)

lemma cpg_event_cb:
  "colod_cpg_event_cb G m mine left s = Some s' \<Longrightarrow> (m = MESSAGE_FAILOVER \<Longrightarrow> mine \<Longrightarrow> \<not> left \<Longrightarrow> win) \<Longrightarrow>
     P s \<Longrightarrow> P s'"
  by (auto simp: colod_cpg_event_cb_def colod_peer_failed_def cpg_send elim!: event [rotated] split: if_splits)

lemma cpg_notify:
  assumes "cpg_notify (cpg_callbacks_main G) m mine left s = Some s'"
    and "m = MESSAGE_FAILOVER \<Longrightarrow> mine \<Longrightarrow> \<not> left \<Longrightarrow> win" and "P s"
  shows "P s'"
  using assms(1,3) unfolding cpg_notify_def
proof (rule foreach_preserves [where P = P])
  fix c t t' assume "cpg_callbacks_main G c m mine left t = Some t'" "P t"
  with assms(2) show "P t'" by (cases c) (auto elim: cpg_event_cb)
qed

lemma cpg_retransmit: "colod_cpg_retransmit G' s = Some (r, s') \<Longrightarrow> P s' = P s"
proof -
  have "retransmit_loop G' ms b s = Some (r, s') \<Longrightarrow> P s' = P s" for ms b
    by (induction G' ms b s rule: retransmit_loop.induct)
      (auto simp: bind_eq_Some_conv dest: cpg_send split: if_splits)
  then show "colod_cpg_retransmit G' s = Some (r, s') \<Longrightarrow> P s' = P s"
    by (auto simp: colod_cpg_retransmit_def)
qed

lemma hup_notify: "qmp_notify_hup (hup_callbacks_main G) s = Some s' \<Longrightarrow> P s \<Longrightarrow> P s'"
  unfolding qmp_notify_hup_def
proof (erule foreach_preserves [where P = P])
  fix c t t' assume "hup_callbacks_main G c t = Some t'" "P t"
  then show "P t'" by (cases c) (auto simp: colod_hup_cb_def elim!: event [rotated])
qed

lemma watchdog:
  "colod_watchdog_co G' cur s = Some s' \<Longrightarrow> P s' = P s"
  "watchdog_health_done G' ret s = Some s' \<Longrightarrow> P s' = P s"
  by (auto simp: colod_watchdog_co_def watchdog_co_def watchdog_leave_def watchdog_loop_def bind_eq_Some_conv
      watchdog_health_done_def watchdog_checked_def add_source_eq Let_def
      split: watchdog_pc.splits if_splits)

text \<open>The inputs that do not touch the registrations.\<close>

theorem daemon_step_ops:
  assumes step: "main_step G J myid inp s = Some s'" and "\<not> registers inp"
    and "\<not> sets_context inp" and own: "own_failover myid inp \<Longrightarrow> win" and P: "P s"
  shows "P s'"
proof (cases inp)
  case (Cpg_message nodeid msg)
  with step own P show ?thesis
    by (auto simp: main_step_def own_failover_def colod_cpg_deliver_def Let_def bind_eq_Some_conv
        elim!: cpg_notify split: if_splits)
next
  case (Cpg_left n)
  with step P show ?thesis
    by (auto simp: main_step_def colod_cpg_confchg_def bind_eq_Some_conv
        dest!: cpg_retransmit elim!: cpg_notify split: if_splits)
next
  case Cpg_tick
  with step P show ?thesis
    by (auto simp: main_step_def cpg_retransmit_dispatch_def colod_cpg_retransmit_cb_def bind_eq_Some_conv
        dest!: cpg_retransmit split: if_splits)
next
  case Qmp_hup
  with step P hup_notify show ?thesis
    by (auto simp: main_step_def qmp_hup_cb_def bind_eq_Some_conv)
next
  case (Link_change ifname up)
  with step P show ?thesis
    by (auto simp: main_step_def yellow_netlink_event_cb_def dest!: yellow_queue_event
        split: if_splits option.splits)
next
  case (Yellow_timer i)
  with step P show ?thesis
    by (auto simp: main_step_def yellow_timer_dispatch_def yellow_co_def bind_eq_Some_conv
        dest!: yellow_co_enter split: if_splits)
qed (use assms in \<open>auto simp: main_step_def bind_eq_Some_conv colod_set_peer_def colod_clear_peer_def
      colod_quit_def colod_start_migration_def colod_autoquit_def colod_qemu_failed_def watchdog
    elim!: event [rotated] elim: execute_end execute_nocheck_end yank_end check_health split: if_splits\<close>)

end

text \<open>\<open>main_ops\<close> for a predicate that does not look at the registrations.\<close>

locale main_ops =
  fixes G :: "Event glib" and win :: bool and P :: "'z MainCoroutine_scheme \<Rightarrow> bool"
  assumes ops_frame: "main_view s' = main_view s \<Longrightarrow> main_rest s' = main_rest s \<Longrightarrow> P s \<Longrightarrow> P s'"
    and ops_event: "(e = EVENT_FAILOVER_WIN \<Longrightarrow> win) \<Longrightarrow> colod_event_queue G e s = Some s' \<Longrightarrow> P s \<Longrightarrow> P s'"

sublocale main_ops \<subseteq> daemon_ops G win P
  by unfold_locales (auto intro: ops_frame ops_event)

context main_ops
begin

lemma ops_cong: "main_view s' = main_view s \<Longrightarrow> main_rest s' = main_rest s \<Longrightarrow> P s' = P s"
  using ops_frame [of s' s] ops_frame [of s s'] by auto

lemma P_registrations [simp]:
  "P (s\<lparr>mc_quit := b\<rparr>) = P s"
  "P (s\<lparr>cpg_callbacks := cbs\<rparr>) = P s"
  "P (s\<lparr>qmp_waits := ws\<rparr>) = P s"
  "P (s\<lparr>qmp_event_callbacks := cbs\<rparr>) = P s"
  "P (s\<lparr>qmp_hup_callbacks := cbs\<rparr>) = P s"
  "P (s\<lparr>yl_callbacks := cbs\<rparr>) = P s"
  by (rule ops_cong; simp)+

lemma wait_begin: "qmp_wait_event_begin G' J co t m s = Some (i, s') \<Longrightarrow> P s' = P s"
  by (drule wait_begin_update) auto

lemma wait_end: "qmp_wait_event_end co t i m cur s = Some (r, s') \<Longrightarrow> P s' = P s"
  by (drule wait_end_update) auto

lemma qmp_wait_event_cb: "qmp_wait_event_cb G' J co result s = Some s' \<Longrightarrow> P s' = P s"
  by (auto simp: qmp_wait_event_cb_def qmp_del_notify_event_def bind_eq_Some_conv add_source_eq Let_def
      split: if_splits)

lemma qmp_notify:
  "qmp_notify_event (qmp_event_dispatch G J (qmp_callbacks_main G)) result s = Some s' \<Longrightarrow> P s \<Longrightarrow> P s'"
  unfolding qmp_notify_event_def
proof (erule foreach_preserves [where P = P])
  fix c t t' assume "qmp_event_dispatch G J (qmp_callbacks_main G) c result t = Some t'" "P t"
  then show "P t'"
    by (cases c) (auto simp: colod_watchdog_event_cb_def qmp_wait_event_cb elim: qmp_event_cb)
qed

lemma raise_resume:
  assumes "colod_raise_timeout_co G' J cur s = Some s'"
  shows "P s' = P s"
proof -
  obtain pc where pc: "rt_co s = Some pc" using assms by (cases "rt_co s") (auto simp: colod_raise_timeout_co_def)
  with assms obtain r s1 where r: "raise_timeout_co G' J cur pc s = Some (r, s1)"
    by (auto simp: colod_raise_timeout_co_def bind_eq_Some_conv)
  have "P s1 = P s"
  proof (cases pc)
    case R_wait_stop
    then obtain ret s2 where 2: "qmp_wait_event_end S_raise 0 0 event_stop cur s = Some (ret, s2)"
      using r by (auto simp: raise_timeout_co_def bind_eq_Some_conv)
    with wait_end [OF 2] r R_wait_stop show ?thesis
      by (cases ret) (auto simp: raise_timeout_co_def bind_eq_Some_conv dest!: wait_begin)
  qed (use r in \<open>auto simp: raise_timeout_co_def bind_eq_Some_conv dest!: wait_begin wait_end\<close>)
  with assms pc r show ?thesis
    by (cases r) (auto simp: colod_raise_timeout_co_def bind_eq_Some_conv dest!: set_timeout)
qed

lemma main_free: "colod_main_free G s = Some s' \<Longrightarrow> P s \<Longrightarrow> P s'"
  by (auto simp: colod_main_free_def yellow_del_notify_def yellow_coroutine_free_def colod_cpg_del_notify_def
      qmp_del_notify_hup_def qmp_del_notify_event_def colod_raise_timeout_coroutine_free_def
      bind_eq_Some_conv dest!: event [rotated] yellow_shutdown split: if_splits)

text \<open>
  Nothing but a dispatch of the coroutine, a setting of a client and, unless \<open>win\<close>, its own
  FAILOVER message.
\<close>

theorem main_step_ops:
  assumes step: "main_step G J myid inp s = Some s'" and "\<nexists>cur outs. inp = Dispatch cur outs"
    and "\<not> sets_context inp" and own: "own_failover myid inp \<Longrightarrow> win" and P: "P s"
  shows "P s'"
proof (cases "registers inp")
  case True
  with assms show ?thesis
    by (cases inp) (auto simp: main_step_def bind_eq_Some_conv colod_watchdog_new_def qmp_add_notify_event_def
        add_source_eq Let_def raise_resume elim: main_free qmp_notify split: if_splits)
next
  case False
  from daemon_step_ops [OF step this assms(3) own P] show ?thesis .
qed

end

text \<open>\<open>main_frame\<close> for a predicate that does not look at what clients set.\<close>

locale main_frame =
  fixes G :: "Event glib" and win :: bool and P :: "'z MainCoroutine_scheme \<Rightarrow> bool"
  assumes frame: "main_view s' = main_view s \<Longrightarrow> P s \<Longrightarrow> P s'"
    and queued: "(e = EVENT_FAILOVER_WIN \<Longrightarrow> win) \<Longrightarrow> colod_event_queue G e s = Some s' \<Longrightarrow> P s \<Longrightarrow> P s'"

sublocale main_frame \<subseteq> main_ops G win P
  by unfold_locales (auto intro: frame queued)

context main_frame
begin

lemma P_cong: "main_view s' = main_view s \<Longrightarrow> P s' = P s"
  using frame [of s' s] frame [of s s'] by auto

lemma P_settings [simp]:
  "P (s\<lparr>cx_commands := cmds\<rparr>) = P s"
  "P (s\<lparr>qmp_yank_instances := y\<rparr>) = P s"
  by (rule P_cong; simp)+

theorem main_step_frame:
  assumes "main_step G J myid inp s = Some s'" and "\<nexists>cur outs. inp = Dispatch cur outs"
    and "own_failover myid inp \<Longrightarrow> win" and "P s"
  shows "P s'"
proof (cases "sets_context inp")
  case True
  with assms(1,4) show ?thesis
    by (cases inp) (auto simp: main_step_def qmp_set_yank_instances_def)
next
  case False
  from main_step_ops [OF assms(1,2) this assms(3,4)] show ?thesis .
qed

end

end
