(* ===== verification/Main_Safety.thy ===== *)
theory Main_Safety
  imports Main_Frame
begin

text \<open>
  The state machine of the main coroutine: which states can follow which, where it
  may wait in each, and what its flags mean there. Everything follows from one
  invariant of the reachable states, preserved by every segment of the coroutine and
  untouched by everything else that happens in the daemon.
\<close>

subsection \<open>Everything but a dispatch leaves the core alone\<close>

interpretation core: main_frame G True "\<lambda>t. main_core t = main_core s0"
  for G and s0 :: "'z MainCoroutine_scheme"
  by unfold_locales (auto simp: main_view_def dest!: event_queue_update)

lemmas cpg_send_core = core.cpg_send [THEN iffD2, OF _ refl]
lemmas raise_timeout_core = core.raise_timeout [THEN iffD2, OF _ refl]
lemmas wait_begin_core = core.wait_begin [THEN iffD2, OF _ refl]
lemmas wait_end_core = core.wait_end [THEN iffD2, OF _ refl]
lemmas set_timeout_core = core.set_timeout [THEN iffD2, OF _ refl]
lemmas execute_begin_core [simp] = core.execute_begin [THEN iffD2, OF refl]
lemmas watchdog_refresh_core [simp] = core.refresh [THEN iffD2, OF refl]
lemmas execute_end_core = core.execute_end [OF _ refl]
lemmas main_step_core = core.main_step_frame [OF _ _ TrueI refl]

lemma watchdog_refresh_pc [simp]: "mc_pc (colod_watchdog_refresh G s) = mc_pc s"
  by (simp add: colod_watchdog_refresh_def add_source_eq remove_source_def Let_def)

lemma set_interrupting_core: "set_interrupting G es s = Some s' \<Longrightarrow> main_core s' = main_core s"
  by (drule set_interrupting_update) auto

lemma event_wait_core: "colod_event_wait cur s = Some (e, s') \<Longrightarrow> main_core s' = main_core s"
  by (drule event_wait_update) auto

subsection \<open>The state diagram\<close>

fun next_states :: "MainState \<Rightarrow> MainState list" where
  "next_states STATE_SECONDARY_STARTUP = [STATE_SECONDARY_WAIT, STATE_FAILED]"
| "next_states STATE_SECONDARY_WAIT =
     [STATE_SECONDARY_COLO_RUNNING, STATE_FAILED, STATE_FAILED_PEER_FAILOVER, STATE_QUIT, STATE_AUTOQUIT]"
| "next_states STATE_SECONDARY_COLO_RUNNING =
     [STATE_FAILOVER_SYNC, STATE_FAILED, STATE_FAILED_PEER_FAILOVER, STATE_QUIT, STATE_AUTOQUIT]"
| "next_states STATE_PRIMARY_STARTUP = [STATE_PRIMARY_WAIT]"
| "next_states STATE_PRIMARY_WAIT =
     [STATE_PRIMARY_START_MIGRATION, STATE_FAILED, STATE_QUIT, STATE_AUTOQUIT]"
| "next_states STATE_PRIMARY_START_MIGRATION =
     [STATE_PRIMARY_COLO_RUNNING, STATE_FAILOVER_SYNC, STATE_FAILED, STATE_FAILED_PEER_FAILOVER,
      STATE_QUIT, STATE_AUTOQUIT]"
| "next_states STATE_PRIMARY_COLO_RUNNING =
     [STATE_FAILOVER_SYNC, STATE_FAILED, STATE_FAILED_PEER_FAILOVER, STATE_QUIT, STATE_AUTOQUIT]"
| "next_states STATE_FAILOVER_SYNC =
     [STATE_FAILOVER, STATE_FAILED, STATE_FAILED_PEER_FAILOVER, STATE_QUIT, STATE_AUTOQUIT]"
| "next_states STATE_FAILOVER = [STATE_PRIMARY_WAIT, STATE_FAILED]"
| "next_states STATE_FAILED_PEER_FAILOVER = [STATE_FAILED]"
| "next_states STATE_FAILED = [STATE_QUIT, STATE_AUTOQUIT]"
| "next_states STATE_AUTOQUIT = [STATE_QUIT]"
| "next_states STATE_QUIT = []"

definition edge :: "MainState \<Rightarrow> MainState \<Rightarrow> bool" where
  "edge a b \<longleftrightarrow> b \<in> set (next_states a)"

text \<open>Where the coroutine may be in a state.\<close>

fun event_at :: "MainState \<Rightarrow> event_pt \<Rightarrow> bool" where
  "event_at st E_sec_wait \<longleftrightarrow> st = STATE_SECONDARY_WAIT"
| "event_at st E_running \<longleftrightarrow> st = STATE_SECONDARY_COLO_RUNNING \<or> st = STATE_PRIMARY_COLO_RUNNING"
| "event_at st E_primary_wait \<longleftrightarrow> st = STATE_PRIMARY_WAIT"
| "event_at st E_mig \<longleftrightarrow> st = STATE_PRIMARY_START_MIGRATION"
| "event_at st E_failover_sync \<longleftrightarrow> st = STATE_FAILOVER_SYNC"
| "event_at st E_failed \<longleftrightarrow> st = STATE_FAILED"
| "event_at st E_autoquit \<longleftrightarrow> st = STATE_AUTOQUIT"

fun wait_at :: "MainState \<Rightarrow> wait_pt \<Rightarrow> bool" where
  "wait_at st Q_sec_resume \<longleftrightarrow> st = STATE_SECONDARY_WAIT"
| "wait_at st Q_run_resume1 \<longleftrightarrow> st = STATE_PRIMARY_COLO_RUNNING"
| "wait_at st Q_run_resume2 \<longleftrightarrow> st = STATE_PRIMARY_COLO_RUNNING"
| "wait_at st Q_mig_preswitch \<longleftrightarrow> st = STATE_PRIMARY_START_MIGRATION"
| "wait_at st Q_mig_colo \<longleftrightarrow> st = STATE_PRIMARY_START_MIGRATION"

fun array_at :: "MainState \<Rightarrow> array_pt \<Rightarrow> bool" where
  "array_at st A_failover \<longleftrightarrow> st = STATE_FAILOVER"
| "array_at st _ \<longleftrightarrow> st = STATE_PRIMARY_START_MIGRATION"

fun exec_at :: "MainState \<Rightarrow> exec_pt \<Rightarrow> bool" where
  "exec_at st X_sec_startup \<longleftrightarrow> st = STATE_SECONDARY_STARTUP"
| "exec_at st X_stop \<longleftrightarrow> st = STATE_FAILED"
| "exec_at st (X_array a els) \<longleftrightarrow> array_at st a"
| "exec_at st _ \<longleftrightarrow> st = STATE_PRIMARY_START_MIGRATION"

fun todo_at :: "MainState \<Rightarrow> todo \<Rightarrow> bool" where
  "todo_at st (T_enter st') \<longleftrightarrow> edge st st'"
| "todo_at st (T_event pt) \<longleftrightarrow> event_at st pt"
| "todo_at st (T_wait q) \<longleftrightarrow> wait_at st q"
| "todo_at st (T_exec pt c) \<longleftrightarrow> exec_at st pt"
| "todo_at st (T_array a els) \<longleftrightarrow> array_at st a"
| "todo_at st T_yank \<longleftrightarrow> st = STATE_FAILOVER"
| "todo_at st T_timer \<longleftrightarrow> st = STATE_PRIMARY_COLO_RUNNING"
| "todo_at st T_return \<longleftrightarrow> st = STATE_QUIT"

fun pc_at :: "MainState \<Rightarrow> main_pc \<Rightarrow> bool" where
  "pc_at st PC_start \<longleftrightarrow> False"
| "pc_at st (PC_exec pt i) \<longleftrightarrow> exec_at st pt"
| "pc_at st (PC_yank i) \<longleftrightarrow> st = STATE_FAILOVER"
| "pc_at st (PC_wait q i) \<longleftrightarrow> wait_at st q"
| "pc_at st (PC_timer i) \<longleftrightarrow> st = STATE_PRIMARY_COLO_RUNNING"
| "pc_at st (PC_event pt) \<longleftrightarrow> event_at st pt"
| "pc_at st PC_done \<longleftrightarrow> st = STATE_QUIT"

text \<open>What the flags mean in each state.\<close>

definition flags_ok :: "'z MainCoroutine_scheme \<Rightarrow> bool" where
  "flags_ok s \<longleftrightarrow>
     (mc_state s \<in> {STATE_SECONDARY_STARTUP, STATE_SECONDARY_WAIT, STATE_SECONDARY_COLO_RUNNING} \<longrightarrow> \<not> mc_primary s) \<and>
     (mc_state s \<in> {STATE_PRIMARY_STARTUP, STATE_PRIMARY_WAIT, STATE_PRIMARY_START_MIGRATION, STATE_PRIMARY_COLO_RUNNING}
        \<longrightarrow> mc_primary s) \<and>
     (mc_state s \<in> {STATE_SECONDARY_STARTUP, STATE_SECONDARY_WAIT, STATE_PRIMARY_STARTUP, STATE_PRIMARY_WAIT,
        STATE_PRIMARY_START_MIGRATION} \<longrightarrow> \<not> mc_replication s) \<and>
     (mc_state s \<in> {STATE_SECONDARY_COLO_RUNNING, STATE_PRIMARY_COLO_RUNNING} \<longrightarrow> mc_replication s) \<and>
     (mc_state s \<in> {STATE_FAILED, STATE_AUTOQUIT} \<longrightarrow> mc_failed s) \<and>
     (mc_failed s \<longrightarrow> mc_state s \<in> {STATE_FAILED, STATE_AUTOQUIT, STATE_QUIT}) \<and>
     (mc_peer_failover s \<longrightarrow> mc_state s \<in> {STATE_FAILED_PEER_FAILOVER, STATE_FAILED, STATE_AUTOQUIT, STATE_QUIT}) \<and>
     (mc_transitioning s \<longrightarrow> mc_state s \<in> {STATE_PRIMARY_START_MIGRATION, STATE_FAILOVER})"

definition main_inv :: "'z MainCoroutine_scheme \<Rightarrow> bool" where
  "main_inv s \<longleftrightarrow> (if mc_pc s = PC_start
     then mc_state s = STATE_SECONDARY_STARTUP \<and> \<not> mc_transitioning s \<and> \<not> mc_failed s \<and>
       \<not> mc_peer_failover s \<and> \<not> mc_replication s
     else pc_at (mc_state s) (mc_pc s) \<and> flags_ok s)"

lemma core_cong:
  assumes "main_core s = main_core s'"
  shows "mc_pc s = mc_pc s'" "mc_state s = mc_state s'" "flags_ok s = flags_ok s'" "main_inv s = main_inv s'"
    "mc_primary s = mc_primary s'" "mc_failed s = mc_failed s'"
  using assms by (auto simp: main_core_def flags_ok_def main_inv_def)

definition segment_ok :: "todo \<times> 'z MainCoroutine_scheme \<Rightarrow> bool" where
  "segment_ok ts \<longleftrightarrow> todo_at (mc_state (snd ts)) (fst ts) \<and> flags_ok (snd ts)"

subsection \<open>Every segment keeps the diagram\<close>

lemma mig_exits:
  "mig_handle_event s = Some (t, s') \<Longrightarrow> s' = s \<and> t = T_event E_mig"
  "mig_qmp_error e s = Some (t, s') \<Longrightarrow> s' = s \<and>
     (t = T_event E_mig \<or> t = T_exec (X_mig_cancel EVENT_FAILOVER_SYNC) cmd_migrate_cancel \<or> t = T_enter STATE_FAILED)"
  by (auto simp: mig_qmp_error_def mig_handle_event_def mig_failover_def bind_eq_Some_conv split: if_splits)

lemma mig_ok:
  assumes "mc_state s = STATE_PRIMARY_START_MIGRATION" and "flags_ok s"
  shows "mig_handle_event s = Some (t, s') \<Longrightarrow> segment_ok (t, s')"
    and "mig_qmp_error e s = Some (t, s') \<Longrightarrow> segment_ok (t, s')"
  using assms by (auto simp: segment_ok_def edge_def dest!: mig_exits)

lemma segment_ok_core:
  "main_core s' = main_core s \<Longrightarrow> segment_ok (t, s') = segment_ok (t, s)"
  by (auto simp: segment_ok_def core_cong(2,3) [of s' s])

lemma array_returned_ok:
  assumes "array_at (mc_state s) a" and "flags_ok s" and "array_returned G a ret s = Some (t, s')"
  shows "segment_ok (t, s')"
proof (cases a)
  case A_mig_start
  with assms have st: "mc_state s = STATE_PRIMARY_START_MIGRATION" by simp
  have "segment_ok (T_wait Q_mig_preswitch, s\<lparr>mc_transitioning := True\<rparr>)"
    using assms(2) st by (auto simp: segment_ok_def flags_ok_def)
  with A_mig_start assms(3) mig_ok [OF st assms(2)] show ?thesis
    by (auto simp: array_returned_defs bind_eq_Some_conv split: sum.splits if_splits)
next
  case A_mig_switchover
  with assms have st: "mc_state s = STATE_PRIMARY_START_MIGRATION" by simp
  have "segment_ok (T_exec X_mig_continue c, s)" for c
    using assms(2) st by (auto simp: segment_ok_def)
  with A_mig_switchover assms(3) mig_ok [OF st assms(2)] show ?thesis
    by (auto simp: array_returned_defs bind_eq_Some_conv segment_ok_core [OF raise_timeout_core]
        split: sum.splits if_splits)
next
  case A_failover
  with assms show ?thesis
    by (auto simp: array_returned_defs segment_ok_def edge_def colod_clear_peer_def flags_ok_def
        split: sum.splits)
qed

lemma array_loop_ok:
  assumes "array_at (mc_state s) a" and "flags_ok s" and "array_loop G J a els s = Some (t, s')"
  shows "segment_ok (t, s')"
  using assms array_returned_ok [OF assms(1,2)]
  by (cases els) (auto simp: array_loop_def bind_eq_Some_conv segment_ok_def split: if_splits)

lemma execute_returned_ok:
  assumes "exec_at (mc_state s) pt" and "flags_ok s" and "execute_returned G pt ret s = Some (t, s')"
  shows "segment_ok (t, s')"
proof (cases pt)
  case X_mig_caps
  with assms have st: "mc_state s = STATE_PRIMARY_START_MIGRATION" by simp
  with X_mig_caps assms mig_ok [OF st assms(2)] show ?thesis
    by (auto simp: execute_returned_defs start_array_def bind_eq_Some_conv segment_ok_def split: sum.splits if_splits)
next
  case X_mig_continue
  with assms have st: "mc_state s = STATE_PRIMARY_START_MIGRATION" by simp
  have ok: "mc_state s1 = STATE_PRIMARY_START_MIGRATION" "flags_ok s1"
    if "qmp_set_timeout t s = Some s1" for t s1
    using core_cong(2,3) [OF set_timeout_core [OF that]] st assms(2) by auto
  have "segment_ok (T_wait Q_mig_colo, s)" using st assms(2) by (simp add: segment_ok_def)
  with X_mig_continue assms(3) mig_ok [OF ok] show ?thesis
    by (auto simp: execute_returned_defs bind_eq_Some_conv split: sum.splits if_splits)
next
  case (X_array a els)
  with assms array_returned_ok [OF _ assms(2), of a] show ?thesis
    by (auto simp: execute_returned_defs segment_ok_def split: sum.splits if_splits)
qed (use assms in \<open>auto simp: execute_returned_defs segment_ok_def edge_def event_failover_def
      handle_event_failover_def bind_eq_Some_conv split: sum.splits\<close>)

lemma execute_done_ok:
  assumes "exec_at (mc_state s) pt" and "flags_ok s" and "execute_done G pt out s = Some (t, s')"
  shows "segment_ok (t, s')"
proof -
  obtain r s1 where 1: "colod_execute_end G (last (mc_issued s)) out s = Some (r, s1)" "execute_returned G pt r s1 = Some (t, s')"
    using assms(3) by (auto simp: execute_done_def bind_eq_Some_conv)
  note c = core_cong [OF execute_end_core [OF 1(1)]]
  from execute_returned_ok [OF _ _ 1(2)] assms(1,2) c show ?thesis by auto
qed

lemma yank_done_ok:
  assumes "mc_state s = STATE_FAILOVER" and "flags_ok s" and "yank_done G out s = Some (t, s')"
  shows "segment_ok (t, s')"
proof -
  have "main_core (snd (qmp_yank_return out s)) = main_core s"
    by (cases out) (auto simp: qmp_yank_return_def qmp_set_yank_def qmp_set_error_def)
  note c = core_cong [OF this]
  have "flags_ok (snd (qmp_yank_return out s))" "mc_state (snd (qmp_yank_return out s)) = STATE_FAILOVER"
    using assms c by auto
  with assms(3) show ?thesis
    by (auto simp: yank_done_def start_array_def Let_def split_beta segment_ok_def edge_def flags_ok_def
        bind_eq_Some_conv split: sum.splits if_splits)
qed

lemma wait_returned_ok:
  assumes "wait_at (mc_state s) q" and "flags_ok s" and "wait_returned G q ret s = Some (t, s')"
  shows "segment_ok (t, s')"
proof (cases q)
  case Q_sec_resume
  with assms show ?thesis
    by (auto simp: wait_returned_defs bind_eq_Some_conv segment_ok_core [OF raise_timeout_core]
        split: sum.splits) (simp_all add: segment_ok_def edge_def)
next
  case Q_mig_preswitch
  with assms have st: "mc_state s = STATE_PRIMARY_START_MIGRATION" by simp
  with Q_mig_preswitch assms(2,3) mig_ok(2) [OF st assms(2)] show ?thesis
    by (auto simp: wait_returned_defs start_array_def bind_eq_Some_conv segment_ok_def split: sum.splits)
next
  case Q_mig_colo
  with assms have st: "mc_state s = STATE_PRIMARY_START_MIGRATION" by simp
  have ok: "mc_state s1 = STATE_PRIMARY_START_MIGRATION" "flags_ok s1"
    if "qmp_set_timeout t s = Some s1" for t s1
    using core_cong(2,3) [OF set_timeout_core [OF that]] st assms(2) by auto
  have "segment_ok (T_enter STATE_PRIMARY_COLO_RUNNING, s)"
    using st assms(2) by (simp add: segment_ok_def edge_def)
  with Q_mig_colo assms(3) mig_ok(2) [OF ok] show ?thesis
    by (auto simp: wait_returned_defs bind_eq_Some_conv split: sum.splits)
qed (use assms in \<open>auto simp: wait_returned_defs segment_ok_def edge_def split: sum.splits\<close>)

lemma wait_resumed_ok:
  assumes "wait_at (mc_state s) q" and "flags_ok s"
    and "qmp_event_wait_resumed G q i cur s = Some (t, s')"
  shows "segment_ok (t, s')"
proof -
  from assms(3) obtain r s1 where 1: "qmp_wait_event_end S_main (wait_timeout q) i (wait_match q) cur s = Some (r, s1)"
    by (auto simp: qmp_event_wait_resumed_def bind_eq_Some_conv)
  note c = core_cong(2,3) [OF wait_end_core [OF 1]]
  have ok: "wait_at (mc_state s1) q" "flags_ok s1" using assms(1,2) c by auto
  have "segment_ok (T_wait q, s1)" using ok by (simp add: segment_ok_def)
  with 1 assms(3) wait_returned_ok [OF ok] show ?thesis
    by (cases r) (auto simp: qmp_event_wait_resumed_def bind_eq_Some_conv split: if_splits)
qed

lemma always_interrupting_state:
  "handle_always_interrupting e = Some st \<Longrightarrow>
     st \<in> {STATE_FAILED, STATE_FAILED_PEER_FAILOVER, STATE_QUIT, STATE_AUTOQUIT}"
  by (cases e) auto

lemma segment_ok_here:
  "todo_at (mc_state s) t \<Longrightarrow> flags_ok s \<Longrightarrow> segment_ok (t, s)"
  by (simp add: segment_ok_def)

lemma flags_ok_updates [simp]:
  "flags_ok (s\<lparr>mc_peer_failed := b\<rparr>) = flags_ok s"
  "flags_ok (s\<lparr>cx_mainloop_quit := b\<rparr>) = flags_ok s"
  "mc_state s = STATE_FAILED \<or> mc_state s = STATE_AUTOQUIT \<Longrightarrow>
     flags_ok s \<Longrightarrow> flags_ok (s\<lparr>mc_peer_failover := True\<rparr>)"
  by (rule core_cong; simp)+ (auto simp: flags_ok_def)

lemma flags_ok_pc [simp]: "flags_ok (s\<lparr>mc_pc := pc\<rparr>) = flags_ok s"
  "flags_ok (s\<lparr>ml_sources := ss\<rparr>) = flags_ok s"
  "flags_ok (s\<lparr>mc_quit := b\<rparr>) = flags_ok s"
  by (auto simp: flags_ok_def)

lemma interrupting_edge:
  assumes "handle_always_interrupting e = Some st" and
    "cur \<in> {STATE_SECONDARY_WAIT, STATE_SECONDARY_COLO_RUNNING, STATE_PRIMARY_COLO_RUNNING,
      STATE_PRIMARY_START_MIGRATION, STATE_FAILOVER_SYNC}"
  shows "edge cur st"
  using always_interrupting_state [OF assms(1)] assms(2) by (auto simp: edge_def)

lemma event_received_ok:
  assumes "event_at (mc_state s) pt" and "flags_ok s" and "event_received pt ev s = Some (t, s')"
  shows "segment_ok (t, s')"
proof (cases pt)
  case E_sec_wait
  with assms interrupting_edge [of ev _ STATE_SECONDARY_WAIT] show ?thesis
    by (auto simp: event_received_defs bind_eq_Some_conv intro!: segment_ok_here split: if_splits)
next
  case E_running
  have "edge (mc_state s) STATE_FAILOVER_SYNC" "edge (mc_state s) STATE_FAILED"
    "\<And>st. handle_always_interrupting ev = Some st \<Longrightarrow> edge (mc_state s) st"
    using E_running assms(1) interrupting_edge [of ev] by (auto simp: edge_def)
  with E_running assms show ?thesis
    by (auto simp: event_received_defs handle_event_failover_def bind_eq_Some_conv
        intro!: segment_ok_here split: if_splits)
next
  case E_primary_wait
  with assms show ?thesis
    by (auto simp: event_received_defs edge_def intro!: segment_ok_here split: if_splits)
next
  case E_mig
  with assms interrupting_edge [of ev _ STATE_PRIMARY_START_MIGRATION] show ?thesis
    by (auto simp: event_received_defs mig_failover_def bind_eq_Some_conv
        intro!: segment_ok_here split: if_splits)
next
  case E_failover_sync
  have "edge STATE_FAILOVER_SYNC STATE_FAILOVER" by (simp add: edge_def)
  with E_failover_sync assms interrupting_edge [of ev _ STATE_FAILOVER_SYNC] show ?thesis
    by (auto simp: event_received_defs bind_eq_Some_conv intro!: segment_ok_here split: if_splits)
qed (use assms in \<open>auto simp: event_received_defs do_autoquit_def edge_def
      intro!: segment_ok_here split: if_splits\<close>)

lemma segment_ok_send:
  "colod_cpg_send G m s = Some s' \<Longrightarrow> segment_ok (t, s') = segment_ok (t, s)"
  "set_interrupting G es s = Some s' \<Longrightarrow> segment_ok (t, s') = segment_ok (t, s)"
  "qmp_set_timeout to s = Some s' \<Longrightarrow> segment_ok (t, s') = segment_ok (t, s)"
  by (rule segment_ok_core, erule cpg_send_core set_interrupting_core set_timeout_core)+

text \<open>The flags on the edges of the diagram.\<close>

lemma flags_enter:
  assumes "edge (mc_state s) st" and "flags_ok s"
  shows "st \<in> {STATE_SECONDARY_STARTUP, STATE_SECONDARY_WAIT, STATE_PRIMARY_STARTUP,
      STATE_PRIMARY_START_MIGRATION, STATE_FAILOVER_SYNC, STATE_FAILOVER, STATE_QUIT} \<Longrightarrow>
      flags_ok (s\<lparr>mc_transitioning := False, mc_state := st\<rparr>)"
    and "st = STATE_PRIMARY_WAIT \<Longrightarrow> flags_ok (s\<lparr>mc_transitioning := False, mc_state := st,
      mc_primary := True, mc_replication := False\<rparr>)"
    and "st = STATE_FAILED_PEER_FAILOVER \<Longrightarrow> flags_ok (s\<lparr>mc_transitioning := False, mc_state := st,
      mc_peer_failover := True\<rparr>)"
    and "st = STATE_FAILED \<or> st = STATE_AUTOQUIT \<Longrightarrow> flags_ok (s\<lparr>mc_transitioning := False, mc_state := st,
      mc_failed := True\<rparr>)"
  using assms by (cases "mc_state s"; auto simp: edge_def flags_ok_def)+

lemma enter_state_ok:
  assumes "edge (mc_state s) st" and "flags_ok s" and "enter_state G st s = Some (t, s')"
  shows "segment_ok (t, s')"
proof (cases st)
  case STATE_SECONDARY_COLO_RUNNING
  with assms have st: "mc_state s = STATE_SECONDARY_WAIT" by (cases "mc_state s") (auto simp: edge_def)
  let ?s = "s\<lparr>mc_transitioning := False, mc_state := STATE_SECONDARY_COLO_RUNNING, mc_replication := True\<rparr>"
  have f: "flags_ok ?s" "\<not> mc_primary ?s" using assms(2) st by (auto simp: flags_ok_def)
  from assms(3) STATE_SECONDARY_COLO_RUNNING obtain s1 where
    1: "set_interrupting G [EVENT_FAILOVER_SYNC] ?s = Some s1" and
    2: "(t, s') = (if mc_primary s1 then T_wait Q_run_resume1 else T_event E_running, s1)"
    by (auto simp: enter_state_def colo_running_begin_def Let_def bind_eq_Some_conv)
  from core_cong(2,3,5) [OF set_interrupting_core [OF 1]] f 2 show ?thesis by (auto simp: segment_ok_def)
next
  case STATE_PRIMARY_COLO_RUNNING
  with assms have st: "mc_state s = STATE_PRIMARY_START_MIGRATION" by (cases "mc_state s") (auto simp: edge_def)
  let ?s = "s\<lparr>mc_transitioning := False, mc_state := STATE_PRIMARY_COLO_RUNNING, mc_replication := True\<rparr>"
  have f: "flags_ok ?s" "mc_primary ?s" using assms(2) st by (auto simp: flags_ok_def)
  from assms(3) STATE_PRIMARY_COLO_RUNNING obtain s1 where
    1: "set_interrupting G [EVENT_FAILOVER_SYNC] ?s = Some s1" and
    2: "(t, s') = (if mc_primary s1 then T_wait Q_run_resume1 else T_event E_running, s1)"
    by (auto simp: enter_state_def colo_running_begin_def Let_def bind_eq_Some_conv)
  from core_cong(2,3,5) [OF set_interrupting_core [OF 1]] f 2 show ?thesis by (auto simp: segment_ok_def)
next
  case STATE_FAILED
  let ?s = "s\<lparr>mc_transitioning := False, mc_state := STATE_FAILED, mc_failed := True\<rparr>"
  from STATE_FAILED assms(3) obtain s1 where 1: "colod_cpg_send G MESSAGE_FAILED ?s = Some s1"
    "qmp_set_timeout (cx_qmp_timeout_low s1) s1 = Some s'" and t: "t = T_exec X_stop cmd_stop"
    by (auto simp: enter_state_def Let_def bind_eq_Some_conv)
  have "segment_ok (t, ?s)"
    using flags_enter(4) [OF assms(1,2)] STATE_FAILED t by (auto intro!: segment_ok_here)
  with 1 show ?thesis by (simp add: segment_ok_send)
qed (use assms flags_enter [OF assms(1,2)] in \<open>auto simp: enter_state_def edge_def bind_eq_Some_conv
      intro!: segment_ok_here
      dest: core_cong(2,3) [OF set_interrupting_core] core_cong(2,3) [OF cpg_send_core]
        core_cong(2,3) [OF set_timeout_core]\<close>)

text \<open>What a step of a dispatch leaves behind.\<close>

fun progress_ok :: "'z MainCoroutine_scheme progress \<Rightarrow> bool" where
  "progress_ok (Go outs t s) \<longleftrightarrow> segment_ok (t, s)"
| "progress_ok (Yielded s) \<longleftrightarrow> pc_at (mc_state s) (mc_pc s) \<and> flags_ok s"
| "progress_ok (Returned s) \<longleftrightarrow> mc_state s = STATE_QUIT \<and> flags_ok s"

lemma go_ok:
  assumes "go outs seg = Some p" and "\<And>t s'. seg = Some (t, s') \<Longrightarrow> segment_ok (t, s')"
  shows "progress_ok p"
  using assms by (auto simp: go_def bind_eq_Some_conv)

lemma yield_io_ok:
  assumes "pc_at (mc_state s) (pc undefined)" and "\<And>i j. pc_at (mc_state s) (pc i) = pc_at (mc_state s) (pc j)"
    and "flags_ok s"
  shows "progress_ok (yield_io G pc s)"
proof -
  have "pc_at (mc_state s) (pc i)" for i using assms(1,2) by metis
  then show ?thesis using assms(3) by (simp add: yield_io_def add_source_eq Let_def)
qed

lemma main_micro_ok:
  assumes "todo_at (mc_state s) t" and "flags_ok s" and "main_micro G J cur outs t s = Some p"
  shows "progress_ok p"
proof (cases t)
  case (T_enter st)
  with assms have "go outs (enter_state G st s) = Some p" by (simp add: main_micro_def)
  then show ?thesis
  proof (rule go_ok)
    fix t' s' assume "enter_state G st s = Some (t', s')"
    then show "segment_ok (t', s')" by (rule enter_state_ok [rotated 2]) (use T_enter assms in simp_all)
  qed
next
  case (T_event pt)
  with assms obtain ev s1 where ev: "colod_event_wait cur s = Some (ev, s1)"
    by (auto simp: main_micro_def bind_eq_Some_conv)
  note c = core_cong(2,3) [OF event_wait_core [OF ev]]
  show ?thesis
  proof (cases ev)
    case None
    with T_event ev assms c show ?thesis by (auto simp: main_micro_def)
  next
    case (Some e)
    with T_event ev assms have "go outs (event_received pt e s1) = Some p" by (simp add: main_micro_def)
    then show ?thesis
      using event_received_ok [of s1 pt e] T_event assms c by (auto simp: go_def bind_eq_Some_conv)
  qed
next
  case (T_wait q)
  with assms obtain i s1 where 1: "qmp_wait_event_begin G J S_main (wait_timeout q) (wait_match q) s = Some (i, s1)"
    and p: "p = Yielded (s1\<lparr>mc_pc := PC_wait q i\<rparr>)"
    by (auto simp: main_micro_def bind_eq_Some_conv)
  from core_cong(2,3) [OF wait_begin_core [OF 1]] T_wait assms p show ?thesis by simp
next
  case (T_exec pt c)
  let ?s = "colod_execute_begin G c s"
  have ok: "exec_at (mc_state ?s) pt" "flags_ok ?s"
    using T_exec assms core_cong(2,3) [OF execute_begin_core [of G c s]] by auto
  show ?thesis
  proof (cases "\<exists>out outs'. outs = Exec out # outs'")
    case True
    then obtain out outs' where "outs = Exec out # outs'" by blast
    with T_exec assms have "go outs' (execute_done G pt out ?s) = Some p" by (simp add: main_micro_def Let_def)
    then show ?thesis using execute_done_ok [of ?s pt G out] ok by (auto simp: go_def bind_eq_Some_conv)
  next
    case False
    with T_exec assms have "p = yield_io G (PC_exec pt) ?s"
      by (auto simp: main_micro_def Let_def split: list.splits outcome.splits)
    with ok show ?thesis using yield_io_ok [of ?s "PC_exec pt" G] by simp
  qed
next
  case (T_array a els)
  with assms have "go outs (array_loop G J a els s) = Some p" by (simp add: main_micro_def)
  then show ?thesis using array_loop_ok [of s a G J els] T_array assms by (auto simp: go_def bind_eq_Some_conv)
next
  case T_yank
  show ?thesis
  proof (cases "\<exists>out outs'. outs = Yank out # outs'")
    case True
    then obtain out outs' where "outs = Yank out # outs'" by blast
    with T_yank assms have "go outs' (yank_done G out s) = Some p" by (simp add: main_micro_def)
    then show ?thesis using yank_done_ok [of s G out] T_yank assms by (auto simp: go_def bind_eq_Some_conv)
  next
    case False
    with T_yank assms have "p = yield_io G PC_yank s"
      by (auto simp: main_micro_def split: list.splits outcome.splits)
    with T_yank assms show ?thesis using yield_io_ok [of s PC_yank G] by simp
  qed
next
  case T_timer
  with assms show ?thesis using yield_io_ok [of s PC_timer G] by (auto simp: main_micro_def)
next
  case T_return
  with assms show ?thesis by (auto simp: main_micro_def)
qed

lemma main_run_ok:
  assumes "todo_at (mc_state s) t" and "flags_ok s" and "main_run G J cur outs t s = Some (r, s')"
  shows "flags_ok s' \<and> (if r then mc_state s' = STATE_QUIT else pc_at (mc_state s') (mc_pc s'))"
  using assms
proof (induction G J cur outs t s rule: main_run.induct)
  case (1 G J cur outs t s)
  obtain p where p: "main_micro G J cur outs t s = Some p"
    using "1.prems"(3) by (cases "main_micro G J cur outs t s") (auto simp: main_run.simps)
  note ok = main_micro_ok [OF "1.prems"(1,2) p]
  show ?case
  proof (cases p)
    case (Go outs' t' s1)
    with p "1.prems"(3) have "main_run G J cur outs' t' s1 = Some (r, s')"
      by (subst (asm) main_run.simps) simp
    with "1.IH" [OF p Go] ok Go show ?thesis by (simp add: segment_ok_def)
  qed (use p "1.prems"(3) ok in \<open>auto simp: main_run.simps [of G J cur outs t s]\<close>)
qed

subsection \<open>The invariant of the reachable states\<close>

lemma main_resume_ok:
  assumes "main_inv s" and "mc_pc s \<noteq> PC_start" and "main_resume G cur outs s = Some p"
  shows "progress_ok p"
proof -
  have inv: "pc_at (mc_state s) (mc_pc s)" "flags_ok s" using assms(1,2) by (auto simp: main_inv_def)
  show ?thesis
  proof (cases "mc_pc s")
    case (PC_exec pt i)
    let ?s = "colod_watchdog_refresh G s"
    note core = core_cong(2,3) [OF watchdog_refresh_core [of G s]]
    have "progress_ok (yield_io G (PC_exec pt) ?s)"
      using yield_io_ok [of ?s "PC_exec pt" G] inv PC_exec core by simp
    moreover have "pc_at (mc_state ?s) (mc_pc ?s)" "flags_ok ?s" "mc_pc ?s = mc_pc s" using inv core by simp_all
    ultimately show ?thesis
      using PC_exec assms(3) execute_done_ok [of ?s pt G]
      by (auto simp: main_resume_def go_def Let_def bind_eq_Some_conv split: if_splits list.splits outcome.splits)
  next
    case (PC_yank i)
    have "progress_ok (yield_io G PC_yank s)" using yield_io_ok [of s PC_yank G] inv PC_yank by simp
    with PC_yank assms(3) inv yank_done_ok [of s G] show ?thesis
      by (auto simp: main_resume_def go_def bind_eq_Some_conv split: if_splits list.splits outcome.splits)
  next
    case (PC_wait q i)
    with assms(3) inv wait_resumed_ok [of s q G i cur] show ?thesis
      by (auto simp: main_resume_def go_def bind_eq_Some_conv)
  next
    case (PC_timer i)
    have "flags_ok (remove_source i s)" "mc_state (remove_source i s) = mc_state s"
      using inv(2) by (simp_all add: remove_source_def)
    with PC_timer assms(3) inv show ?thesis
      by (auto simp: main_resume_defs segment_ok_def edge_def split: if_splits)
  next
    case (PC_event pt)
    with assms(3) inv show ?thesis by (auto simp: main_resume_defs segment_ok_def)
  qed (use assms in \<open>auto simp: main_resume_def\<close>)
qed

text \<open>The first dispatch.\<close>

lemma main_start_ok:
  assumes "main_inv s" and "mc_pc s = PC_start" and "main_resume G cur outs s = Some p"
    and "main_continue G J cur p = Some (r, s')"
  shows "flags_ok s' \<and> (if r then mc_state s' = STATE_QUIT else pc_at (mc_state s') (mc_pc s'))"
proof -
  let ?st = "if mc_primary s then STATE_PRIMARY_STARTUP else STATE_SECONDARY_STARTUP"
  from assms(2,3) obtain s1 where s1: "colod_cpg_send G MESSAGE_HELLO s = Some s1" "p = Go outs (T_enter ?st) s1"
    by (auto simp: main_resume_def Let_def bind_eq_Some_conv)
  have core: "mc_failed s1 = mc_failed s" "mc_peer_failover s1 = mc_peer_failover s"
    "mc_primary s1 = mc_primary s" "mc_replication s1 = mc_replication s"
    using cpg_send_core [OF s1(1)] by (simp_all add: main_core_def)
  define s2 where "s2 = s1\<lparr>mc_transitioning := False, mc_state := ?st\<rparr>"
  define t2 where "t2 = (if mc_primary s then T_enter STATE_PRIMARY_WAIT
    else T_exec X_sec_startup cmd_set_capabilities_events)"
  have micro: "main_micro G J cur outs (T_enter ?st) s1 = Some (Go outs t2 s2)"
    by (simp add: main_micro_def go_def enter_state_def s2_def t2_def)
  have "todo_at (mc_state s2) t2" "flags_ok s2"
    using assms(1,2) core by (auto simp: s2_def t2_def edge_def flags_ok_def main_inv_def)
  moreover have "main_run G J cur outs t2 s2 = Some (r, s')"
    using assms(4) s1(2) micro by (simp add: main_continue_def main_run.simps [of G J cur outs "T_enter ?st"])
  ultimately show ?thesis by (rule main_run_ok)
qed

lemma colod_main_co_ok:
  assumes "main_inv s" and "colod_main_co G J cur outs s = Some s'"
  shows "main_inv s'"
proof -
  obtain p r s1 where p: "main_resume G cur outs s = Some p" "main_continue G J cur p = Some (r, s1)"
    using assms(2) by (auto simp: colod_main_co_def bind_eq_Some_conv)
  have ok: "flags_ok s1 \<and> (if r then mc_state s1 = STATE_QUIT else pc_at (mc_state s1) (mc_pc s1))"
  proof (cases "mc_pc s = PC_start")
    case True
    with main_start_ok [OF assms(1) _ p] show ?thesis by simp
  next
    case False
    note ok = main_resume_ok [OF assms(1) False p(1)]
    show ?thesis
    proof (cases p)
      case (Go o' t' s2)
      with ok p(2) main_run_ok [of s2 t' G J cur o' r s1] show ?thesis
        by (simp add: main_continue_def segment_ok_def)
    qed (use ok p(2) in \<open>auto simp: main_continue_def\<close>)
  qed
  show ?thesis
  proof (cases r)
    case True
    with assms(2) p obtain ss where "s' = s1\<lparr>ml_sources := ss, mc_pc := PC_done, mc_quit := True\<rparr>"
      by (auto simp: colod_main_co_def bind_eq_Some_conv)
    with True ok show ?thesis by (simp add: main_inv_def)
  next
    case False
    with ok have "mc_pc s1 \<noteq> PC_start" by auto
    moreover have "s' = s1" using False assms(2) p by (simp add: colod_main_co_def)
    ultimately show ?thesis using False ok by (simp add: main_inv_def)
  qed
qed

lemma main_dispatch_ok:
  assumes "main_inv s" and "main_dispatch G J cur outs s = Some s'"
  shows "main_inv s'"
proof -
  have "main_inv (remove_source i t) = main_inv t" "main_inv (event_wake_source_destroy_cb t) = main_inv t"
    for i and t :: "'a MainCoroutine_scheme"
    by (rule core_cong; simp add: event_wake_source_destroy_cb_def)+
  with assms colod_main_co_ok [OF assms(1)] show ?thesis
    by (auto simp: main_dispatch_def bind_eq_Some_conv split: option.splits source.splits)
qed

lemma main_step_inv:
  assumes "main_inv s" and "main_step G J myid inp s = Some s'"
  shows "main_inv s'"
proof (cases "\<exists>cur outs. inp = Dispatch cur outs")
  case True
  with assms main_dispatch_ok show ?thesis by (auto simp: main_step_def)
next
  case False
  from core_cong(4) [OF main_step_core [OF assms(2) False]] assms(1) show ?thesis by simp
qed

lemma main_reach_inv:
  assumes "main_reach G J myid s0 h s" and "main_inv s0"
  shows "main_inv s"
  using assms
proof (induction rule: main_reach.induct)
  case (guest h s s')
  with core_cong(4) [OF guest_move_frame(1) [OF guest.hyps(2)]] show ?case by simp
qed (auto intro: main_step_inv)

lemma add_notify_updates:
  "qmp_add_notify_event c s = Some s' \<Longrightarrow> \<exists>cbs. s' = s\<lparr>qmp_event_callbacks := cbs\<rparr>"
  "qmp_add_notify_hup c s = Some s' \<Longrightarrow> \<exists>cbs. s' = s\<lparr>qmp_hup_callbacks := cbs\<rparr>"
  "colod_cpg_add_notify s c = Some s' \<Longrightarrow> \<exists>cbs. s' = s\<lparr>cpg_callbacks := cbs\<rparr>"
  "yellow_add_notify c s = Some s' \<Longrightarrow> \<exists>cbs. s' = s\<lparr>yl_callbacks := cbs\<rparr>"
  by (auto simp: qmp_add_notify_event_def qmp_add_notify_hup_def colod_cpg_add_notify_def
      yellow_add_notify_def bind_eq_Some_conv)

lemma main_new_update:
  assumes "colod_main_new G n r monitor ctx = Some (True, s)"
  shows "\<exists>s1 q ss cbs1 cbs2 cbs3 cbs4. colod_eventqueue_new = Some q \<and>
    yellow_coroutine_new G (yellow_callbacks G) n r monitor 500 1000 ctx = Some (True, s1) \<and>
    s = s1\<lparr>mc_pc := PC_start, mc_quit := False, mc_queue := q, mc_wake_source_id := 0,
          rt_co := None, mc_state := STATE_SECONDARY_STARTUP, mc_transitioning := False,
          mc_failed := False, mc_peer_failed := False, mc_yellow := False, mc_peer_yellow := False,
          mc_qemu_quit := False, mc_peer_failover := False, mc_primary := cx_primary_startup s1,
          mc_replication := False, mc_peer := Some '''', mc_issued := [], mc_trace := [],
          qmp_event_callbacks := cbs1, qmp_hup_callbacks := cbs2, cpg_callbacks := cbs3,
          yl_callbacks := cbs4, ml_sources := ss\<rparr>"
proof -
  obtain ok s1 where 1: "yellow_coroutine_new G (yellow_callbacks G) n r monitor 500 1000 ctx = Some (ok, s1)"
    using assms unfolding colod_main_new_def by (auto elim: bind_SomeE)
  then have "ok" using assms by (auto simp: colod_main_new_def split: if_splits)
  obtain q where q: "colod_eventqueue_new = Some q"
    using assms 1 \<open>ok\<close> by (auto simp: colod_main_new_def elim: bind_SomeE)
  let ?s2 = "s1\<lparr>mc_pc := PC_start, mc_quit := False, mc_queue := q, mc_wake_source_id := 0,
          rt_co := None, mc_state := STATE_SECONDARY_STARTUP, mc_transitioning := False,
          mc_failed := False, mc_peer_failed := False, mc_yellow := False, mc_peer_yellow := False,
          mc_qemu_quit := False, mc_peer_failover := False, mc_primary := cx_primary_startup s1,
          mc_replication := False, mc_peer := Some '''', mc_issued := [], mc_trace := []\<rparr>"
  obtain s3 s4 s5 s6 where s: "qmp_add_notify_event CB_qmp_event ?s2 = Some s3"
    "qmp_add_notify_hup CB_qmp_hup s3 = Some s4" "colod_cpg_add_notify s4 CB_cpg_event = Some s5"
    "yellow_add_notify CB_yellow_event s5 = Some s6" "s = snd (add_source G S_main s6)"
  proof -
    have "(do { s3 \<leftarrow> qmp_add_notify_event CB_qmp_event ?s2; s4 \<leftarrow> qmp_add_notify_hup CB_qmp_hup s3;
        s5 \<leftarrow> colod_cpg_add_notify s4 CB_cpg_event; s6 \<leftarrow> yellow_add_notify CB_yellow_event s5;
        Some (True, snd (add_source G S_main s6)) }) = Some (True, s)"
      using assms \<open>ok\<close> by (simp add: colod_main_new_def Let_def 1 q)
    then show thesis by (elim bind_SomeE) (rule that, assumption+, simp)
  qed
  from add_notify_updates(1) [OF s(1)] add_notify_updates(2) [OF s(2)] add_notify_updates(3) [OF s(3)]
    add_notify_updates(4) [OF s(4)] add_source_update [of G S_main s6]
  obtain cbs1 cbs2 cbs3 cbs4 i ss where "s3 = ?s2\<lparr>qmp_event_callbacks := cbs1\<rparr>"
    "s4 = s3\<lparr>qmp_hup_callbacks := cbs2\<rparr>" "s5 = s4\<lparr>cpg_callbacks := cbs3\<rparr>" "s6 = s5\<lparr>yl_callbacks := cbs4\<rparr>"
    "add_source G S_main s6 = (i, s6\<lparr>ml_sources := ss\<rparr>)" by blast
  with 1 \<open>ok\<close> q s(5) show ?thesis by (intro exI conjI) (assumption, simp, simp)
qed

lemma main_new_inv:
  assumes "colod_main_new G n r monitor ctx = Some (True, s)"
  shows "main_inv s \<and> mc_pc s = PC_start \<and> mc_primary s = cx_primary_startup s"
proof -
  obtain s1 q ss cbs1 cbs2 cbs3 cbs4 where
    "s = s1\<lparr>mc_pc := PC_start, mc_quit := False, mc_queue := q, mc_wake_source_id := 0,
          rt_co := None, mc_state := STATE_SECONDARY_STARTUP, mc_transitioning := False,
          mc_failed := False, mc_peer_failed := False, mc_yellow := False, mc_peer_yellow := False,
          mc_qemu_quit := False, mc_peer_failover := False, mc_primary := cx_primary_startup s1,
          mc_replication := False, mc_peer := Some '''', mc_issued := [], mc_trace := [],
          qmp_event_callbacks := cbs1, qmp_hup_callbacks := cbs2, cpg_callbacks := cbs3,
          yl_callbacks := cbs4, ml_sources := ss\<rparr>"
    using main_new_update [OF assms] by blast
  then show ?thesis by (simp add: main_inv_def)
qed

text \<open>
  C5. In every reachable state the coroutine waits where its state says, and the flags
  the clients see mean what they say: a node in a secondary state is not primary, a
  standalone primary and a migrating one are primary without replication, the running
  states replicate, \<open>failed\<close> is set exactly in the failed states (and may stay set when
  quitting), \<open>peer_failover\<close> implies a failed or quitting node, and the health check is
  suspended only while a migration or a failover is in progress.
\<close>

theorem main_flags:
  assumes "colod_main_new G n r monitor ctx = Some (True, s0)" and "main_reach G J myid s0 h s"
    and "mc_pc s \<noteq> PC_start"
  shows "pc_at (mc_state s) (mc_pc s) \<and> flags_ok s"
  using main_reach_inv [OF assms(2)] main_new_inv [OF assms(1)] assms(3) by (auto simp: main_inv_def)

lemma main_flags_witness:
  "\<exists>s0 h s. colod_main_new ref_glib True True None (example_ctx True) = Some (True, s0) \<and>
     main_reach ref_glib example_json 1 s0 h s \<and> mc_pc s = PC_event E_primary_wait \<and>
     pc_at (mc_state s) (mc_pc s) \<and> flags_ok s"
proof -
  have "map_option mc_pc (Option.bind (example_start True) (example_run [Dispatch 1 []])) =
      Some (PC_event E_primary_wait)"
    by code_simp
  from example_reach [OF this] obtain s0 s where
    1: "colod_main_new ref_glib True True None (example_ctx True) = Some (True, s0)"
      "main_reach ref_glib example_json 1 s0 (rev [Dispatch 1 []]) s" "mc_pc s = PC_event E_primary_wait"
    by blast
  moreover have "pc_at (mc_state s) (mc_pc s) \<and> flags_ok s"
    by (rule main_flags [OF 1(1,2)]) (simp add: 1(3))
  ultimately show ?thesis by blast
qed

subsection \<open>Flags that stay\<close>

text \<open>A segment other than entering a state or handling an event changes at most \<open>transitioning\<close>.\<close>

definition steady :: "'z MainCoroutine_scheme \<Rightarrow> 'z MainCoroutine_scheme \<Rightarrow> bool" where
  "steady s s' \<longleftrightarrow> (\<exists>b. main_core s' = main_core (s\<lparr>mc_transitioning := b\<rparr>))"

lemma steady_refl [simp]: "steady s s"
  unfolding steady_def by (rule exI [of _ "mc_transitioning s"]) simp

lemma main_core_transitioning:
  "main_core s' = main_core s \<Longrightarrow>
     main_core (s'\<lparr>mc_transitioning := b\<rparr>) = main_core (s\<lparr>mc_transitioning := b\<rparr>)"
  by (simp add: main_core_def)

lemma steady_core: "main_core s' = main_core s \<Longrightarrow> steady s s'"
  unfolding steady_def by (rule exI [of _ "mc_transitioning s"]) simp

lemma steady_core_left: "main_core s1 = main_core s \<Longrightarrow> steady s1 s' \<Longrightarrow> steady s s'"
  unfolding steady_def using main_core_transitioning by metis

lemma steady_transitioning: "steady s (s\<lparr>mc_transitioning := b\<rparr>)"
  unfolding steady_def by blast

lemma array_returned_steady: "array_returned G a ret s = Some (t, s') \<Longrightarrow> steady s s'"
  by (cases a)
    (auto simp: array_returned_defs bind_eq_Some_conv colod_clear_peer_def steady_transitioning
      intro: steady_core dest!: mig_exits raise_timeout_core split: sum.splits if_splits)

lemma execute_returned_steady: "execute_returned G pt ret s = Some (t, s') \<Longrightarrow> steady s s'"
  by (cases pt)
    (auto simp: execute_returned_defs start_array_def bind_eq_Some_conv
      intro: steady_core array_returned_steady dest!: mig_exits set_timeout_core split: sum.splits if_splits)

lemma wait_returned_steady: "wait_returned G q ret s = Some (t, s') \<Longrightarrow> steady s s'"
  by (cases q)
    (auto simp: wait_returned_defs start_array_def bind_eq_Some_conv
      intro: steady_core dest!: mig_exits set_timeout_core raise_timeout_core split: sum.splits if_splits)

lemma array_loop_steady: "array_loop G J a els s = Some (t, s') \<Longrightarrow> steady s s'"
  by (cases els) (auto simp: array_loop_def bind_eq_Some_conv intro: array_returned_steady split: if_splits)

lemma execute_done_steady: "execute_done G pt out s = Some (t, s') \<Longrightarrow> steady s s'"
  by (auto simp: execute_done_def bind_eq_Some_conv
      intro: steady_core_left [OF execute_end_core execute_returned_steady])

lemma yank_return_core [simp]: "main_core (snd (qmp_yank_return out s)) = main_core s"
  by (cases out) (auto simp: qmp_yank_return_def qmp_set_yank_def qmp_set_error_def)

lemma yank_done_steady: "yank_done G out s = Some (t, s') \<Longrightarrow> steady s s'"
  by (auto simp: yank_done_def start_array_def Let_def split_beta bind_eq_Some_conv
      intro: steady_core steady_core_left [OF yank_return_core steady_transitioning]
      split: sum.splits)

lemma wait_resumed_steady:
  assumes "qmp_event_wait_resumed G q i cur s = Some (t, s')"
  shows "steady s s'"
proof -
  from assms obtain r s1 where 1: "qmp_wait_event_end S_main (wait_timeout q) i (wait_match q) cur s = Some (r, s1)"
    by (auto simp: qmp_event_wait_resumed_def bind_eq_Some_conv)
  have "steady s1 s'"
    using assms 1 by (cases r) (auto simp: qmp_event_wait_resumed_def bind_eq_Some_conv
        intro: wait_returned_steady split: if_splits)
  with wait_end_core [OF 1] show ?thesis by (rule steady_core_left)
qed

text \<open>Failed, told by the peer, and primary: once set, these flags stay set.\<close>

definition keeps :: "'z MainCoroutine_scheme \<Rightarrow> 'z MainCoroutine_scheme \<Rightarrow> bool" where
  "keeps s s' \<longleftrightarrow> (mc_failed s \<longrightarrow> mc_failed s') \<and> (mc_peer_failover s \<longrightarrow> mc_peer_failover s') \<and>
     (mc_primary s \<longrightarrow> mc_primary s')"

lemma keeps_refl [simp]: "keeps s s"
  by (simp add: keeps_def)

lemma keeps_trans: "keeps s s1 \<Longrightarrow> keeps s1 s2 \<Longrightarrow> keeps s s2"
  by (simp add: keeps_def)

lemma steady_keeps: "steady s s' \<Longrightarrow> keeps s s'"
  by (auto simp: steady_def keeps_def main_core_def)

lemma core_keeps: "main_core s' = main_core s \<Longrightarrow> keeps s s'"
  by (simp add: keeps_def main_core_def)

lemma update_keeps:
  "keeps s s1 \<Longrightarrow> colod_cpg_send G c s1 = Some s' \<Longrightarrow> keeps s s'"
  "keeps s s1 \<Longrightarrow> set_interrupting G evs s1 = Some s' \<Longrightarrow> keeps s s'"
  "keeps s s1 \<Longrightarrow> qmp_set_timeout to s1 = Some s' \<Longrightarrow> keeps s s'"
  by (auto intro: keeps_trans core_keeps [OF cpg_send_core] core_keeps [OF set_interrupting_core]
      core_keeps [OF set_timeout_core])

lemma enter_state_keeps:
  assumes "enter_state G st s = Some (t, s')"
  shows "keeps s s'"
  using assms
  apply (cases st)
  apply (auto simp: enter_state_def colo_running_begin_def Let_def bind_eq_Some_conv
      elim!: update_keeps [rotated])
  apply (simp_all add: keeps_def)
  done

lemma event_received_keeps: "event_received pt e s = Some (t, s') \<Longrightarrow> keeps s s'"
  by (cases pt) (auto simp: event_received_defs mig_failover_def do_autoquit_def keeps_def bind_eq_Some_conv
      split: if_splits)

fun progress_state :: "'s progress \<Rightarrow> 's" where
  "progress_state (Go outs t s) = s"
| "progress_state (Yielded s) = s"
| "progress_state (Returned s) = s"

lemma go_keeps:
  "go outs (enter_state G st s) = Some p \<Longrightarrow> keeps s (progress_state p)"
  "go outs (event_received pt e s) = Some p \<Longrightarrow> keeps s (progress_state p)"
  "go outs (execute_done G ept out s) = Some p \<Longrightarrow> keeps s (progress_state p)"
  "go outs (array_loop G J a els s) = Some p \<Longrightarrow> keeps s (progress_state p)"
  "go outs (yank_done G yout s) = Some p \<Longrightarrow> keeps s (progress_state p)"
  "go outs (qmp_event_wait_resumed G q i cur s) = Some p \<Longrightarrow> keeps s (progress_state p)"
  by (auto simp: go_def bind_eq_Some_conv
      intro: enter_state_keeps event_received_keeps steady_keeps [OF execute_done_steady]
        steady_keeps [OF array_loop_steady] steady_keeps [OF yank_done_steady]
        steady_keeps [OF wait_resumed_steady])

lemma yield_io_keeps: "keeps s (progress_state (yield_io G pc s))"
  by (simp add: yield_io_def add_source_eq Let_def keeps_def)

lemma main_micro_keeps:
  assumes "main_micro G J cur outs t s = Some p"
  shows "keeps s (progress_state p)"
proof (cases t)
  case (T_enter st)
  with assms show ?thesis by (auto simp: main_micro_def intro: go_keeps)
next
  case (T_event pt)
  with assms obtain ev s1 where ev: "colod_event_wait cur s = Some (ev, s1)"
    by (auto simp: main_micro_def bind_eq_Some_conv)
  have k: "keeps s s1" by (rule core_keeps [OF event_wait_core [OF ev]])
  show ?thesis
  proof (cases ev)
    case None
    with T_event ev assms k show ?thesis by (auto simp: main_micro_def keeps_def)
  next
    case (Some e)
    with T_event ev assms have "go outs (event_received pt e s1) = Some p" by (simp add: main_micro_def)
    then have "keeps s1 (progress_state p)" by (rule go_keeps)
    with k show ?thesis by (rule keeps_trans)
  qed
next
  case (T_wait q)
  with assms obtain i s1 where 1: "qmp_wait_event_begin G J S_main (wait_timeout q) (wait_match q) s = Some (i, s1)"
    and p: "p = Yielded (s1\<lparr>mc_pc := PC_wait q i\<rparr>)"
    by (auto simp: main_micro_def bind_eq_Some_conv)
  from core_keeps [OF wait_begin_core [OF 1]] p show ?thesis by (simp add: keeps_def)
next
  case (T_exec pt c)
  let ?s = "colod_execute_begin G c s"
  have k: "keeps s ?s" by (rule core_keeps) simp
  have "keeps ?s (progress_state p)"
    using T_exec assms
    by (auto simp: main_micro_def Let_def intro: yield_io_keeps go_keeps split: list.splits outcome.splits)
  with k show ?thesis by (rule keeps_trans)
next
  case (T_array a els)
  with assms show ?thesis by (auto simp: main_micro_def intro: go_keeps)
next
  case T_yank
  with assms show ?thesis
    by (auto simp: main_micro_def intro: yield_io_keeps go_keeps split: list.splits outcome.splits)
next
  case T_timer
  with assms show ?thesis by (auto simp: main_micro_def intro: yield_io_keeps)
next
  case T_return
  with assms show ?thesis by (auto simp: main_micro_def)
qed

lemma main_run_keeps: "main_run G J cur outs t s = Some (r, s') \<Longrightarrow> keeps s s'"
proof (induction G J cur outs t s rule: main_run.induct)
  case (1 G J cur outs t s)
  obtain p where p: "main_micro G J cur outs t s = Some p"
    using "1.prems" by (cases "main_micro G J cur outs t s") (auto simp: main_run.simps)
  note k = main_micro_keeps [OF p]
  show ?case
  proof (cases p)
    case (Go outs' t' s1)
    with p "1.prems" have "main_run G J cur outs' t' s1 = Some (r, s')"
      by (subst (asm) main_run.simps) simp
    with "1.IH" [OF p Go] k Go show ?thesis by (auto intro: keeps_trans)
  qed (use p "1.prems" k in \<open>auto simp: main_run.simps [of G J cur outs t s]\<close>)
qed

lemma main_resume_keeps:
  assumes "main_resume G cur outs s = Some p"
  shows "keeps s (progress_state p)"
proof (cases "mc_pc s")
  case PC_start
  with assms show ?thesis
    by (auto simp: main_resume_def Let_def bind_eq_Some_conv intro: core_keeps [OF cpg_send_core])
next
  case (PC_exec pt i)
  with assms show ?thesis
    using yield_io_keeps [of "colod_watchdog_refresh G s" G "PC_exec pt"]
      core_keeps [OF watchdog_refresh_core [of G s]]
    by (auto simp: main_resume_def Let_def intro: keeps_trans [OF core_keeps [OF watchdog_refresh_core]] go_keeps
        split: if_splits list.splits outcome.splits)
next
  case (PC_yank i)
  with assms show ?thesis
    by (auto simp: main_resume_def intro: yield_io_keeps go_keeps split: if_splits list.splits outcome.splits)
next
  case (PC_wait q i)
  with assms show ?thesis by (auto simp: main_resume_def intro: go_keeps)
qed (use assms in \<open>auto simp: main_resume_defs keeps_def remove_source_def split: if_splits\<close>)

lemma main_step_keeps:
  assumes "main_step G J myid inp s = Some s'"
  shows "keeps s s'"
proof (cases "\<exists>cur outs. inp = Dispatch cur outs")
  case False
  from core_keeps [OF main_step_core [OF assms False]] show ?thesis .
next
  case True
  then obtain cur outs where inp: "inp = Dispatch cur outs" by blast
  have co: "keeps s t" if main: "colod_main_co G J cur outs s = Some t" for t
  proof -
    obtain p r s1 where p: "main_resume G cur outs s = Some p" "main_continue G J cur p = Some (r, s1)"
      using main by (auto simp: colod_main_co_def bind_eq_Some_conv)
    have "keeps (progress_state p) s1"
      using p(2) main_run_keeps by (cases p) (auto simp: main_continue_def)
    with main_resume_keeps [OF p(1)] have "keeps s s1" by (rule keeps_trans)
    with main p show ?thesis
      by (cases r) (auto simp: colod_main_co_def bind_eq_Some_conv keeps_def)
  qed
  show ?thesis
    using assms inp co
    by (auto simp: main_step_def main_dispatch_def bind_eq_Some_conv remove_source_def keeps_def
        event_wake_source_destroy_cb_def split: option.splits source.splits)
qed

lemma main_reach_keeps: "main_reach G J myid s h s' \<Longrightarrow> keeps s s'"
proof (induction rule: main_reach.induct)
  case (guest h s s')
  from keeps_trans [OF guest.IH core_keeps [OF guest_move_frame(1) [OF guest.hyps(2)]]] show ?case .
qed (auto intro: keeps_trans main_step_keeps)

text \<open>
  C4. A failed node stays failed: from a reachable state in which \<open>failed\<close> is set, no
  sequence of inputs whatsoever leads to a state in which it is not set, and the only
  states the node can be in are FAILED, AUTOQUIT and QUIT. In particular it never
  fails over and never becomes primary again.
\<close>

theorem main_fail_stop:
  assumes "colod_main_new G n r monitor ctx = Some (True, s0)" and "main_reach G J myid s0 h s"
    and "mc_failed s" and "main_reach G J myid s h' s'"
  shows "mc_failed s' \<and> mc_state s' \<in> {STATE_FAILED, STATE_AUTOQUIT, STATE_QUIT}"
proof -
  have inv: "main_inv s" using main_reach_inv [OF assms(2)] main_new_inv [OF assms(1)] by simp
  have inv': "main_inv s'" by (rule main_reach_inv [OF assms(4) inv])
  have "mc_failed s'" using main_reach_keeps [OF assms(4)] assms(3) by (simp add: keeps_def)
  with inv' show ?thesis by (auto simp: main_inv_def flags_ok_def split: if_splits)
qed

lemma main_fail_stop_witness:
  "\<exists>s0 h s h' s'. colod_main_new ref_glib True True None (example_ctx True) = Some (True, s0) \<and>
     main_reach ref_glib example_json 1 s0 h s \<and> mc_failed s \<and> 
     main_reach ref_glib example_json 1 s h' s' \<and> mc_state s' = STATE_AUTOQUIT \<and> mc_failed s'"
proof -
  have "Option.bind (Option.bind (example_start True) (example_run [Dispatch 1 [], Qemu_failed,
        Dispatch 1 [Exec (Exec_ok False \<lparr>qr_json_root = JObject [], qr_line = []\<rparr>)]]))
      (\<lambda>s. map_option (\<lambda>s'. (mc_failed s, mc_state s')) (example_run [Autoquit, Dispatch 1 []] s)) =
    Some (True, STATE_AUTOQUIT)"
    by code_simp
  from example_reach2 [OF this] obtain s0 s s' h h' where
    1: "colod_main_new ref_glib True True None (example_ctx True) = Some (True, s0)"
      "main_reach ref_glib example_json 1 s0 h s" "main_reach ref_glib example_json 1 s h' s'"
      "mc_failed s" "mc_state s' = STATE_AUTOQUIT"
    by blast
  moreover have "mc_failed s'" using main_fail_stop [OF 1(1,2,4,3)] by blast
  ultimately show ?thesis by blast
qed

end
