(* ===== verification/Main_Queue.thy ===== *)
theory Main_Queue
  imports Main_Safety
begin

text \<open>
  What happens to the event queue of the main coroutine. The locale \<open>queue_frame\<close> takes a
  predicate of the queue and the trace that each operation of the queue preserves; then
  every input of the daemon preserves it. It is interpreted for the accounting of events,
  for the order of the queue and for \<open>EVENT_FAILOVER_WIN\<close>.
\<close>

subsection \<open>Segments that leave the queue alone\<close>

definition same_queue :: "'z MainCoroutine_scheme \<Rightarrow> 'z MainCoroutine_scheme \<Rightarrow> bool" where
  "same_queue s s' \<longleftrightarrow> mc_queue s' = mc_queue s \<and> mc_trace s' = mc_trace s"

lemma same_queue_refl [simp]: "same_queue s s"
  by (simp add: same_queue_def)

lemma array_returned_same: "array_returned G a ret s = Some (t, s') \<Longrightarrow> same_queue s s'"
  by (cases a)
    (auto simp: array_returned_defs bind_eq_Some_conv colod_clear_peer_def same_queue_def
      dest!: mig_exits raise_timeout_update split: sum.splits if_splits)

lemma execute_returned_same: "execute_returned G pt ret s = Some (t, s') \<Longrightarrow> same_queue s s'"
  by (cases pt)
    (auto simp: execute_returned_defs start_array_def bind_eq_Some_conv same_queue_def
      dest!: mig_exits set_timeout_update dest: array_returned_same [unfolded same_queue_def] split: sum.splits if_splits)

lemma wait_returned_same: "wait_returned G q ret s = Some (t, s') \<Longrightarrow> same_queue s s'"
  by (cases q)
    (auto simp: wait_returned_defs start_array_def bind_eq_Some_conv same_queue_def
      dest!: mig_exits set_timeout_update raise_timeout_update split: sum.splits if_splits)

lemma wait_resumed_same:
  assumes "qmp_event_wait_resumed G q i cur s = Some (t, s')"
  shows "same_queue s s'"
proof -
  from assms obtain r s1 where 1: "qmp_wait_event_end S_main (wait_timeout q) i (wait_match q) cur s = Some (r, s1)"
    by (auto simp: qmp_event_wait_resumed_def bind_eq_Some_conv)
  have "same_queue s1 s'"
    using assms 1 by (cases r) (auto simp: qmp_event_wait_resumed_def bind_eq_Some_conv
        dest: wait_returned_same split: if_splits)
  with wait_end_update [OF 1] show ?thesis by (auto simp: same_queue_def)
qed

lemma array_loop_same: "array_loop G J a els s = Some (t, s') \<Longrightarrow> same_queue s s'"
  by (cases els) (auto simp: array_loop_def bind_eq_Some_conv dest: array_returned_same split: if_splits)

lemma yank_done_same: "yank_done G out s = Some (t, s') \<Longrightarrow> same_queue s s'"
  by (cases out) (auto simp: yank_done_def qmp_yank_return_def qmp_set_yank_def qmp_set_error_def
      start_array_def bind_eq_Some_conv same_queue_def split: if_splits)

lemma event_received_same: "event_received pt e s = Some (t, s') \<Longrightarrow> same_queue s s'"
  by (cases pt) (auto simp: event_received_defs mig_failover_def do_autoquit_def bind_eq_Some_conv
      same_queue_def split: if_splits)

subsection \<open>Predicates of the queue and the trace\<close>

locale queue_frame =
  fixes G :: "Event glib" and win :: bool and Q :: "EventQueue \<Rightarrow> main_trace list \<Rightarrow> bool"
  assumes add: "(e = EVENT_FAILOVER_WIN \<Longrightarrow> win) \<Longrightarrow> eventqueue_add G q e 0 = Some (r, q') \<Longrightarrow> Q q tr \<Longrightarrow>
      Q q' (tr @ [Queued e])"
    and drop: "(e = EVENT_FAILOVER_WIN \<Longrightarrow> win) \<Longrightarrow> Q q tr \<Longrightarrow> Q q (tr @ [Queued e])"
    and select: "eventqueue_set_interrupting G q es = Some q' \<Longrightarrow> Q q tr \<Longrightarrow> Q q' tr"
    and take: "eventqueue_remove q = Some (Some x, q') \<Longrightarrow> Q q tr \<Longrightarrow> Q q' (tr @ [Got (ev_event x)])"

sublocale queue_frame \<subseteq> main_frame G win "\<lambda>s. Q (mc_queue s) (mc_trace s)"
proof
  fix s s' :: "'z MainCoroutine_scheme" and e
  show "main_view s' = main_view s \<Longrightarrow> Q (mc_queue s) (mc_trace s) \<Longrightarrow> Q (mc_queue s') (mc_trace s')"
    by (simp add: main_view_def)
  assume "e = EVENT_FAILOVER_WIN \<Longrightarrow> win" "colod_event_queue G e s = Some s'" "Q (mc_queue s) (mc_trace s)"
  with event_queue_update [of G e s s'] add drop show "Q (mc_queue s') (mc_trace s')" by auto
qed

context queue_frame
begin

abbreviation QS :: "'z MainCoroutine_scheme \<Rightarrow> bool" where
  "QS s \<equiv> Q (mc_queue s) (mc_trace s)"

lemma same_queue_QS: "same_queue s s' \<Longrightarrow> QS s \<Longrightarrow> QS s'"
  by (simp add: same_queue_def)

text \<open>The segments of the coroutine.\<close>

lemma execute_done_QS: "execute_done G pt out s = Some (t, s') \<Longrightarrow> QS s \<Longrightarrow> QS s'"
  by (auto simp: execute_done_def bind_eq_Some_conv
      intro: same_queue_QS [OF execute_returned_same] elim: execute_end)

lemma set_interrupting_QS: "set_interrupting G es s = Some s' \<Longrightarrow> QS s \<Longrightarrow> QS s'"
  by (auto simp: set_interrupting_def bind_eq_Some_conv intro: select)

lemma event_wait_QS: "colod_event_wait cur s = Some (ev, s') \<Longrightarrow> QS s \<Longrightarrow> QS s'"
  by (cases ev) (auto dest!: event_wait_update dest: take)

lemma enter_state_QS:
  assumes "enter_state G st s = Some (t, s')" and "QS s"
  shows "QS s'"
proof -
  have *: "QS (s1\<lparr>mc_transitioning := a, mc_state := b\<rparr>) = QS s1"
    "QS (s1\<lparr>mc_replication := c\<rparr>) = QS s1" "QS (s1\<lparr>mc_failed := c\<rparr>) = QS s1"
    for s1 :: "'z MainCoroutine_scheme" and a b c by simp_all
  show ?thesis
    using assms
    by (cases st)
      (auto simp: enter_state_def colo_running_begin_def Let_def bind_eq_Some_conv
        dest!: cpg_send_update set_timeout_update elim!: set_interrupting_QS)
qed

lemmas segment_QS = execute_done_QS enter_state_QS event_wait_QS same_queue_QS [OF array_loop_same]
  same_queue_QS [OF yank_done_same] same_queue_QS [OF wait_resumed_same] same_queue_QS [OF event_received_same]

text \<open>One step of a dispatch, and a whole dispatch.\<close>

lemma yield_io_QS: "QS (progress_state (yield_io G' pc s)) = QS s"
  by (simp add: yield_io_def add_source_eq Let_def)

lemma go_QS:
  "go outs (enter_state G st s) = Some p \<Longrightarrow> QS s \<Longrightarrow> QS (progress_state p)"
  "go outs (event_received pt e s) = Some p \<Longrightarrow> QS s \<Longrightarrow> QS (progress_state p)"
  "go outs (execute_done G ept out s) = Some p \<Longrightarrow> QS s \<Longrightarrow> QS (progress_state p)"
  "go outs (array_loop G J a els s) = Some p \<Longrightarrow> QS s \<Longrightarrow> QS (progress_state p)"
  "go outs (yank_done G yout s) = Some p \<Longrightarrow> QS s \<Longrightarrow> QS (progress_state p)"
  "go outs (qmp_event_wait_resumed G q i cur s) = Some p \<Longrightarrow> QS s \<Longrightarrow> QS (progress_state p)"
  by (auto simp: go_def bind_eq_Some_conv intro: segment_QS)

lemma main_micro_QS:
  assumes "main_micro G J cur outs t s = Some p" and "QS s"
  shows "QS (progress_state p)"
proof (cases t)
  case (T_event pt)
  with assms obtain ev s1 where ev: "colod_event_wait cur s = Some (ev, s1)"
    by (auto simp: main_micro_def bind_eq_Some_conv)
  with event_wait_QS [OF ev assms(2)] T_event assms show ?thesis
    by (cases ev) (auto simp: main_micro_def intro: go_QS)
next
  case (T_wait q)
  with assms obtain i s1 where 1: "qmp_wait_event_begin G J S_main (wait_timeout q) (wait_match q) s = Some (i, s1)"
    and p: "p = Yielded (s1\<lparr>mc_pc := PC_wait q i\<rparr>)"
    by (auto simp: main_micro_def bind_eq_Some_conv)
  from wait_begin_update [OF 1] p assms(2) show ?thesis by auto
next
  case (T_exec pt c)
  with assms execute_begin [of G c s] show ?thesis
    by (auto simp: main_micro_def Let_def yield_io_QS intro: go_QS split: list.splits outcome.splits)
qed (use assms in \<open>auto simp: main_micro_def yield_io_QS intro: go_QS split: list.splits outcome.splits\<close>)

lemma main_run_QS:
  assumes "main_run G J cur outs t s = Some (r, s')" and "QS s"
  shows "QS s'"
proof -
  have "H = G \<Longrightarrow> main_run H J cur outs t s = Some (r, s') \<Longrightarrow> QS s \<Longrightarrow> QS s'" for H
  proof (induction H J cur outs t s rule: main_run.induct)
    case (1 H J cur outs t s)
    obtain p where p: "main_micro H J cur outs t s = Some p"
      using "1.prems"(2) by (cases "main_micro H J cur outs t s") (auto simp: main_run.simps)
    with "1.prems" have k: "QS (progress_state p)" by (auto intro: main_micro_QS)
    show ?case
    proof (cases p)
      case (Go outs' t' s1)
      with p "1.prems"(2) have "main_run H J cur outs' t' s1 = Some (r, s')"
        by (subst (asm) main_run.simps) simp
      with "1.IH" [OF p Go "1.prems"(1)] k Go show ?thesis by simp
    qed (use p "1.prems" k in \<open>auto simp: main_run.simps [of G J cur outs t s]\<close>)
  qed
  with assms show ?thesis by blast
qed

lemma main_resume_QS:
  assumes "main_resume G cur outs s = Some p" and "QS s"
  shows "QS (progress_state p)"
proof (cases "mc_pc s")
  case PC_start
  with assms show ?thesis by (auto simp: main_resume_def Let_def bind_eq_Some_conv cpg_send)
next
  case (PC_timer i)
  with assms show ?thesis
    by (auto simp: main_resume_defs bind_eq_Some_conv remove_source_def split: if_splits)
qed (use assms in \<open>auto simp: main_resume_def Let_def yield_io_QS intro: go_QS
      split: if_splits list.splits outcome.splits\<close>)

lemma colod_main_co_QS:
  assumes "colod_main_co G J cur outs s = Some s'" and "QS s"
  shows "QS s'"
proof -
  obtain p r s1 where p: "main_resume G cur outs s = Some p" "main_continue G J cur p = Some (r, s1)"
    using assms(1) by (auto simp: colod_main_co_def bind_eq_Some_conv)
  have "QS s1"
    using p(2) main_resume_QS [OF p(1) assms(2)]
    by (cases p) (auto simp: main_continue_def intro: main_run_QS)
  with assms(1) p show ?thesis by (cases r) (auto simp: colod_main_co_def bind_eq_Some_conv)
qed

lemma main_dispatch_QS:
  assumes "main_dispatch G J cur outs s = Some s'" and "QS s"
  shows "QS s'"
proof -
  have *: "QS t" if "colod_main_co G J cur outs s = Some t" for t
    by (rule colod_main_co_QS [OF that assms(2)])
  show ?thesis
    using assms
    by (auto simp: main_dispatch_def event_wake_source_destroy_cb_def remove_source_def
        bind_eq_Some_conv * split: option.splits source.splits)
qed

theorem main_step_QS:
  assumes "main_step G J myid inp s = Some s'" and "own_failover myid inp \<Longrightarrow> win" and "QS s"
  shows "QS s'"
proof (cases "\<exists>cur outs. inp = Dispatch cur outs")
  case True
  with assms(1,3) show ?thesis by (auto simp: main_step_def intro: main_dispatch_QS)
next
  case False
  then show ?thesis by (intro main_step_frame [OF assms(1) _ assms(2,3)])
qed

theorem main_reach_QS:
  assumes "main_reach G J myid s0 h s" and "\<forall>inp\<in>set h. own_failover myid inp \<longrightarrow> win" and "QS s0"
  shows "QS s"
  using assms
proof (induction rule: main_reach.induct)
  case (guest h s s')
  with P_cong [OF guest_move_frame(2) [OF guest.hyps(2)]] show ?case by simp
qed (auto elim: main_step_QS)

end

subsection \<open>The trace\<close>

text \<open>What was queued and what was taken.\<close>

fun queued :: "main_trace list \<Rightarrow> ColodEvent list" where
  "queued [] = []"
| "queued (Queued e # tr) = e # queued tr"
| "queued (Got e # tr) = queued tr"

fun got :: "main_trace list \<Rightarrow> ColodEvent list" where
  "got [] = []"
| "got (Queued e # tr) = got tr"
| "got (Got e # tr) = e # got tr"

lemma queued_append [simp]: "queued (tr @ tr') = queued tr @ queued tr'"
  by (induction tr rule: queued.induct) auto

lemma got_append [simp]: "got (tr @ tr') = got tr @ got tr'"
  by (induction tr rule: got.induct) auto

lemma length_trace: "length tr = length (queued tr) + length (got tr)"
  by (induction tr rule: queued.induct) auto

lemma eventqueue_add_mset:
  assumes "sequence_lawful G" and "eventqueue_add G q e d = Some (r, q')"
  shows "mset (map ev_event (eq_sequence q')) = mset (map ev_event (eq_sequence q)) \<or>
    mset (map ev_event (eq_sequence q')) = add_mset e (mset (map ev_event (eq_sequence q)))"
  using assms by (auto simp: eventqueue_add_def bind_eq_Some_conv Let_def sequence_lawfulD(2) split: if_splits)

lemma eventqueue_select_mset:
  assumes "sequence_lawful G" and "eventqueue_set_interrupting G q es = Some q'"
  shows "mset (map ev_event (eq_sequence q')) = mset (map ev_event (eq_sequence q))"
  using assms by (auto simp: eventqueue_set_interrupting_def bind_eq_Some_conv Let_def sequence_lawfulD(1))

lemma eventqueue_remove_mset:
  assumes "eventqueue_remove q = Some (Some x, q')"
  shows "mset (map ev_event (eq_sequence q)) = add_mset (ev_event x) (mset (map ev_event (eq_sequence q')))"
  using assms by (auto simp: eventqueue_remove_def split: if_splits list.splits)

lemmas queue_msets = eventqueue_add_mset eventqueue_select_mset eventqueue_remove_mset

text \<open>The trace only grows.\<close>

interpretation grows: queue_frame G True "\<lambda>q tr. \<exists>els. tr = tr0 @ els"
  for G tr0
  by unfold_locales auto

text \<open>No event is taken that was not queued, and none twice.\<close>

definition accounted :: "Event glib \<Rightarrow> EventQueue \<Rightarrow> main_trace list \<Rightarrow> bool" where
  "accounted G q tr \<longleftrightarrow> (sequence_lawful G \<longrightarrow>
     mset (map ev_event (eq_sequence q)) + mset (got tr) \<subseteq># mset (queued tr))"

lemma subset_add_msetI: "A \<subseteq># B \<Longrightarrow> A \<subseteq># add_mset e B"
  by (rule subset_mset.order_trans [of A B]) auto

interpretation accounted: queue_frame G True "accounted G"
  for G
  by unfold_locales
    (auto simp: accounted_def subset_add_msetI dest: queue_msets)

text \<open>Without its own FAILOVER message a node has no \<open>EVENT_FAILOVER_WIN\<close>.\<close>

definition no_win :: "EventQueue \<Rightarrow> main_trace list \<Rightarrow> bool" where
  "no_win q tr \<longleftrightarrow> EVENT_FAILOVER_WIN \<notin> set (queued tr)"

interpretation no_win: queue_frame G False no_win
  for G
  by unfold_locales (auto simp: no_win_def)

subsection \<open>The order of the queue\<close>

text \<open>
  As long as fewer than \<open>2 ^ 31\<close> events were queued since the start, the queue keeps its
  invariant, and the events that always interrupt do.
\<close>

definition few_queued :: "main_trace list \<Rightarrow> bool" where
  "few_queued tr \<longleftrightarrow> length (queued tr) < 2 ^ 31"

definition ordered :: "Event glib \<Rightarrow> EventQueue \<Rightarrow> main_trace list \<Rightarrow> bool" where
  "ordered G q tr \<longleftrightarrow> (sequence_lawful G \<and> few_queued tr \<longrightarrow>
     eventqueue_inv q \<and> young (length (queued tr)) q \<and>
     (\<forall>e. eq_interrupting_always q e = event_always_interrupting e) \<and>
     (\<forall>e. eq_interrupting_always q e \<longrightarrow> eq_interrupting q e))"

lemma few_queued_append: "few_queued (tr @ tr') \<Longrightarrow> few_queued tr"
  by (simp add: few_queued_def)

lemma young_mono: "young k q \<Longrightarrow> k \<le> k' \<Longrightarrow> young k' q"
  by (fastforce simp: young_def)

lemma ordered_add:
  assumes "eventqueue_add G q e 0 = Some (r, q')" and "ordered G q tr"
  shows "ordered G q' (tr @ [Queued e])"
  unfolding ordered_def
proof (intro impI, elim conjE)
  assume G: "sequence_lawful G" and few: "few_queued (tr @ [Queued e])"
  note few_queued_append [OF few]
  with assms(2) G have o: "eventqueue_inv q" "young (length (queued tr)) q"
    "\<And>e. eq_interrupting_always q e = event_always_interrupting e"
    "\<And>e. eq_interrupting_always q e \<Longrightarrow> eq_interrupting q e"
    by (auto simp: ordered_def)
  have room: "eventqueue_room q" using young_room [OF o(2)] few by (simp add: few_queued_def)
  have e: "e \<noteq> EVENT_MAX" using assms(1) by (auto simp: eventqueue_add_def bind_eq_Some_conv)
  show "eventqueue_inv q' \<and> young (length (queued (tr @ [Queued e]))) q' \<and>
    (\<forall>e. eq_interrupting_always q' e = event_always_interrupting e) \<and>
    (\<forall>e. eq_interrupting_always q' e \<longrightarrow> eq_interrupting q' e)"
  proof (cases "length (eq_sequence q) < unat (eq_size q)")
    case True
    obtain s where s: "eventqueue_add G q e 0 = Some (0, pushed q s)" "eventqueue_inv (pushed q s)"
      "arrivals (pushed q s) = arrivals q @ [new_event q e 0]"
      by (rule eventqueue_add_inv [OF G o(1) e True room, of 0])
    have "mset s = add_mset (new_event q e 0) (mset (eq_sequence q))"
      using arg_cong [OF s(3), of mset] by simp
    then have "set s = insert (new_event q e 0) (set (eq_sequence q))"
      by (metis set_mset_mset set_mset_add_mset_insert)
    then have "young (Suc (length (queued tr))) (pushed q s)"
      using o(2) few by (intro young_pushed) (auto simp: few_queued_def)
    with s assms(1) o(3,4) show ?thesis by (auto simp: pushed_def)
  next
    case False
    then have "q' = q"
      using assms(1) e eventqueue_invD(1) [OF o(1)] eventqueue_add_full [of q e G 0]
      by (auto simp: eventqueue_wf_def)
    with o show ?thesis by (auto intro: young_mono)
  qed
qed

interpretation ordered: queue_frame G True "ordered G"
  for G
proof
  fix e r q q' tr
  show "eventqueue_add G q e 0 = Some (r, q') \<Longrightarrow> ordered G q tr \<Longrightarrow> ordered G q' (tr @ [Queued e])"
    by (rule ordered_add)
  show "ordered G q tr \<Longrightarrow> ordered G q (tr @ [Queued e])"
    by (auto simp: ordered_def dest: few_queued_append intro: young_mono)
next
  fix q es q' tr
  assume sel: "eventqueue_set_interrupting G q es = Some q'" and o: "ordered G q tr"
  have es: "EVENT_MAX \<notin> set es"
  proof
    assume "EVENT_MAX \<in> set es"
    then have "set_flags (eq_interrupting_always q) es = None" by (rule set_flags_None)
    with sel show False by (simp add: eventqueue_set_interrupting_def)
  qed
  show "ordered G q' tr"
    unfolding ordered_def
  proof (intro impI, elim conjE)
    assume G: "sequence_lawful G" and "few_queued tr"
    with o have o: "eventqueue_inv q" "young (length (queued tr)) q"
      "\<And>e. eq_interrupting_always q e = event_always_interrupting e"
      by (auto simp: ordered_def)
    obtain q1 where q1: "eventqueue_set_interrupting G q es = Some q1" "eventqueue_inv q1"
      "eq_interrupting q1 = (\<lambda>e. eq_interrupting_always q e \<or> e \<in> set es)"
      "eq_interrupting_always q1 = eq_interrupting_always q"
      by (rule eventqueue_select_inv [OF G o(1) es])
    moreover have "young (length (queued tr)) q'"
      using sel o(2) by (auto simp: eventqueue_set_interrupting_def bind_eq_Some_conv Let_def young_def
          ev_age_def sequence_lawful_set(1) [OF G])
    ultimately show "eventqueue_inv q' \<and> young (length (queued tr)) q' \<and>
      (\<forall>e. eq_interrupting_always q' e = event_always_interrupting e) \<and>
      (\<forall>e. eq_interrupting_always q' e \<longrightarrow> eq_interrupting q' e)"
      using sel o(3) by auto
  qed
next
  fix q x q' tr
  assume rem: "eventqueue_remove q = Some (Some x, q')" and o: "ordered G q tr"
  show "ordered G q' (tr @ [Got (ev_event x)])"
    unfolding ordered_def
  proof (intro impI, elim conjE)
    assume "sequence_lawful G" and few: "few_queued (tr @ [Got (ev_event x)])"
    note few_queued_append [OF few]
    with o \<open>sequence_lawful G\<close> have o: "eventqueue_inv q" "young (length (queued tr)) q"
      "\<And>e. eq_interrupting_always q e = event_always_interrupting e"
      "\<And>e. eq_interrupting_always q e \<Longrightarrow> eq_interrupting q e"
      by (auto simp: ordered_def)
    have seq: "eq_sequence q = x # eq_sequence q'" "q' = q\<lparr>eq_sequence := eq_sequence q', eq_used := eq_used q - 1\<rparr>"
      using rem by (auto simp: eventqueue_remove_def split: if_splits list.splits)
    then have "eq_sequence q \<noteq> []" by simp
    then obtain q1 where "eventqueue_remove q = Some (Some (pick (is_intr q) (arrivals q)), q1)"
      "eventqueue_inv q1" "eq_interrupting q1 = eq_interrupting q"
      "eq_interrupting_always q1 = eq_interrupting_always q"
      by (rule eventqueue_remove_inv [OF o(1)])
    with rem have q': "eventqueue_inv q'" "eq_interrupting q' = eq_interrupting q"
      "eq_interrupting_always q' = eq_interrupting_always q" by auto
    have "eq_seq_counter q' = eq_seq_counter q" by (subst seq(2)) simp
    then have "young (length (queued tr)) q'"
      using o(2) seq(1) by (simp add: young_def ev_age_def)
    with q' o show "eventqueue_inv q' \<and> young (length (queued (tr @ [Got (ev_event x)]))) q' \<and>
      (\<forall>e. eq_interrupting_always q' e = event_always_interrupting e) \<and>
      (\<forall>e. eq_interrupting_always q' e \<longrightarrow> eq_interrupting q' e)"
      by auto
  qed
qed

text \<open>The first event is interrupting if any is.\<close>

lemma ordered_head:
  assumes "ordered G q tr" and "sequence_lawful G" and "few_queued tr"
    and "eventqueue_remove q = Some (Some x, q')" and "y \<in> set (eq_sequence q)" and "eq_interrupting q (ev_event y)"
  shows "eq_interrupting q (ev_event x)"
proof -
  have inv: "eventqueue_inv q" using assms(1-3) by (simp add: ordered_def)
  have "eventqueue_pending_interrupt q = Some True"
    using eventqueue_pending_interrupt_inv [OF inv] assms(5,6) by auto
  moreover have "eq_sequence q = x # eq_sequence q'"
    using assms(4) by (auto simp: eventqueue_remove_def split: if_splits list.splits)
  ultimately show ?thesis
    using eventqueue_pending_interrupt_wf [OF eventqueue_invD(1) [OF inv]] by simp
qed

end
