(* ===== verification/Main_Failover.thy ===== *)
theory Main_Failover
  imports Main_Queue
begin

text \<open>
  Who may take over. Both nodes announce a failover on the process group, and the total
  order of its messages decides: a node goes to FAILOVER only on its own announcement, and
  not any more once the other one's, or any other event that always interrupts, is pending.
  The locale \<open>dispatch_inv\<close> lifts an invariant from the segments of the coroutine to the
  reachable states.
\<close>

subsection \<open>Invariants of the coroutine\<close>

text \<open>
  \<open>S\<close> holds where the coroutine is suspended, \<open>R t\<close> where it is about to do \<open>t\<close>. Most
  segments are calm: they change at most \<open>transitioning\<close> of what these look at, and never
  lead to a failover.
\<close>

locale dispatch_inv = main_frame G win S
  for G :: "Event glib" and win :: bool and S :: "'z MainCoroutine_scheme \<Rightarrow> bool" +
  fixes R :: "todo \<Rightarrow> 'z MainCoroutine_scheme \<Rightarrow> bool"
  assumes pc: "S s \<Longrightarrow> pc' \<noteq> PC_start \<Longrightarrow> S (s\<lparr>mc_pc := pc'\<rparr>)"
    and start: "S s \<Longrightarrow> main_inv s \<Longrightarrow> mc_pc s = PC_start \<Longrightarrow>
      enter_state G (if mc_primary s then STATE_PRIMARY_STARTUP else STATE_SECONDARY_STARTUP) s = Some (t, s') \<Longrightarrow>
      R t s'"
    and calm: "S s \<Longrightarrow> steady s s' \<Longrightarrow> same_queue s s' \<Longrightarrow> todo_at (mc_state s') t \<Longrightarrow>
      t \<noteq> T_enter STATE_FAILOVER \<Longrightarrow> R t s'"
    and suspend: "R t s \<Longrightarrow> (\<nexists>st. t = T_enter st) \<Longrightarrow> S s"
    and enter: "R (T_enter st) s \<Longrightarrow> edge (mc_state s) st \<Longrightarrow> flags_ok s \<Longrightarrow>
      enter_state G st s = Some (t, s') \<Longrightarrow> R t s'"
    and receive: "S s \<Longrightarrow> event_at (mc_state s) pt \<Longrightarrow> colod_event_wait cur s = Some (Some e, s1) \<Longrightarrow>
      event_received pt e s1 = Some (t, s') \<Longrightarrow> R t s'"
begin

fun progress_inv :: "'z MainCoroutine_scheme progress \<Rightarrow> bool" where
  "progress_inv (Go outs t s) \<longleftrightarrow> R t s"
| "progress_inv (Yielded s) \<longleftrightarrow> S s"
| "progress_inv (Returned s) \<longleftrightarrow> S s"

end

lemma not_failover:
  "array_returned G a ret s = Some (t, s') \<Longrightarrow> t \<noteq> T_enter STATE_FAILOVER"
  "execute_returned G ept r s = Some (t, s') \<Longrightarrow> t \<noteq> T_enter STATE_FAILOVER"
  "array_loop G J a els s = Some (t, s') \<Longrightarrow> t \<noteq> T_enter STATE_FAILOVER"
  "yank_done G yout s = Some (t, s') \<Longrightarrow> t \<noteq> T_enter STATE_FAILOVER"
  "wait_returned G q ret s = Some (t, s') \<Longrightarrow> t \<noteq> T_enter STATE_FAILOVER"
proof -
  show *: "array_returned G a ret s = Some (t, s') \<Longrightarrow> t \<noteq> T_enter STATE_FAILOVER" for a ret s t s'
    by (cases a) (auto simp: array_returned_defs bind_eq_Some_conv
      dest!: mig_exits split: sum.splits if_splits)
  show "execute_returned G ept r s = Some (t, s') \<Longrightarrow> t \<noteq> T_enter STATE_FAILOVER"
    by (cases ept) (auto simp: execute_returned_defs start_array_def bind_eq_Some_conv handle_event_failover_def
      dest!: mig_exits dest: * split: sum.splits if_splits)
  show "array_loop G J a els s = Some (t, s') \<Longrightarrow> t \<noteq> T_enter STATE_FAILOVER"
    by (cases els) (auto simp: array_loop_def bind_eq_Some_conv dest: * split: if_splits)
  show "yank_done G yout s = Some (t, s') \<Longrightarrow> t \<noteq> T_enter STATE_FAILOVER"
    by (auto simp: yank_done_def start_array_def Let_def split_beta bind_eq_Some_conv split: sum.splits)
  show "wait_returned G q ret s = Some (t, s') \<Longrightarrow> t \<noteq> T_enter STATE_FAILOVER"
    by (cases q) (auto simp: wait_returned_defs start_array_def bind_eq_Some_conv
      dest!: mig_exits split: sum.splits if_splits)
qed

lemma wait_resumed_not_failover:
  assumes "qmp_event_wait_resumed G q i cur s = Some (t, s')"
  shows "t \<noteq> T_enter STATE_FAILOVER"
proof -
  from assms obtain r s1 where 1: "qmp_wait_event_end S_main (wait_timeout q) i (wait_match q) cur s = Some (r, s1)"
    by (auto simp: qmp_event_wait_resumed_def bind_eq_Some_conv)
  then show ?thesis
    using assms by (cases r) (auto simp: qmp_event_wait_resumed_def bind_eq_Some_conv
        dest: not_failover split: if_splits)
qed

context dispatch_inv
begin

lemma execute_done_R:
  assumes "execute_done G ept out s = Some (t, s')" and "S s" and "exec_at (mc_state s) ept" and "flags_ok s"
  shows "R t s'"
proof -
  obtain r s1 where 1: "colod_execute_end G (last (mc_issued s)) out s = Some (r, s1)"
    and 2: "execute_returned G ept r s1 = Some (t, s')"
    using assms(1) by (auto simp: execute_done_def bind_eq_Some_conv)
  have "S s1" by (rule execute_end [OF 1 assms(2)])
  moreover have "todo_at (mc_state s') t"
    using execute_done_ok [OF assms(3,4,1)] by (simp add: segment_ok_def)
  ultimately show ?thesis
    by (rule calm [OF _ execute_returned_steady [OF 2] execute_returned_same [OF 2] _ not_failover(2) [OF 2]])
qed

lemma array_loop_R:
  assumes "array_loop G J a els s = Some (t, s')" and "S s" and "array_at (mc_state s) a" and "flags_ok s"
  shows "R t s'"
  using array_loop_ok [OF assms(3,4,1)]
  by (intro calm [OF assms(2) array_loop_steady [OF assms(1)] array_loop_same [OF assms(1)] _
        not_failover(3) [OF assms(1)]]) (simp add: segment_ok_def)

lemma yank_done_R:
  assumes "yank_done G out s = Some (t, s')" and "S s" and "mc_state s = STATE_FAILOVER" and "flags_ok s"
  shows "R t s'"
  using yank_done_ok [OF assms(3,4,1)]
  by (intro calm [OF assms(2) yank_done_steady [OF assms(1)] yank_done_same [OF assms(1)] _
        not_failover(4) [OF assms(1)]]) (simp add: segment_ok_def)

lemma wait_resumed_R:
  assumes "qmp_event_wait_resumed G q i cur s = Some (t, s')" and "S s" and "wait_at (mc_state s) q" and "flags_ok s"
  shows "R t s'"
  using wait_resumed_ok [OF assms(3,4,1)]
  by (intro calm [OF assms(2) wait_resumed_steady [OF assms(1)] wait_resumed_same [OF assms(1)] _
        wait_resumed_not_failover [OF assms(1)]]) (simp add: segment_ok_def)

lemma progress_yield_io: "S s \<Longrightarrow> (\<And>i. pc' i \<noteq> PC_start) \<Longrightarrow> progress_inv (yield_io G' pc' s)"
  by (simp add: yield_io_def add_source_eq Let_def pc)

lemma main_micro_R:
  assumes "main_micro G J cur outs t s = Some p" and "R t s" and "todo_at (mc_state s) t" and "flags_ok s"
  shows "progress_inv p"
proof (cases "\<exists>st. t = T_enter st")
  case True
  then obtain st where st: "t = T_enter st" by blast
  with assms(1) obtain t' s' where 1: "enter_state G st s = Some (t', s')" "p = Go outs t' s'"
    by (auto simp: main_micro_def go_def bind_eq_Some_conv)
  with enter [OF _ _ assms(4) 1(1)] assms(2,3) st show ?thesis by simp
next
  case False
  with suspend [OF assms(2)] have S: "S s" by blast
  show ?thesis
  proof (cases t)
    case (T_event pt)
    with assms obtain ev s1 where ev: "colod_event_wait cur s = Some (ev, s1)"
      by (auto simp: main_micro_def bind_eq_Some_conv)
    show ?thesis
    proof (cases ev)
      case None
      with event_wait_update [OF ev] S have "S s1" by auto
      with None T_event assms ev show ?thesis by (auto simp: main_micro_def pc)
    next
      case (Some e)
      with T_event assms ev S show ?thesis
        by (auto simp: main_micro_def go_def bind_eq_Some_conv intro: receive)
    qed
  next
    case (T_wait q)
    with assms obtain i s1 where 1: "qmp_wait_event_begin G J S_main (wait_timeout q) (wait_match q) s = Some (i, s1)"
      and p: "p = Yielded (s1\<lparr>mc_pc := PC_wait q i\<rparr>)"
      by (auto simp: main_micro_def bind_eq_Some_conv)
    from wait_begin [OF 1] S p show ?thesis by (simp add: pc)
  next
    case (T_exec pt c)
    let ?s = "colod_execute_begin G c s"
    have s: "S ?s" "exec_at (mc_state ?s) pt" "flags_ok ?s"
      using S T_exec assms(3,4) core_cong(2,3) [OF execute_begin_core [of G c s]] by auto
    have "R t' s'" if "execute_done G pt out ?s = Some (t', s')" for out t' s'
      by (rule execute_done_R [OF that s])
    with T_exec assms(1) S show ?thesis
      by (auto simp: main_micro_def Let_def go_def bind_eq_Some_conv intro!: progress_yield_io
          split: list.splits outcome.splits)
  next
    case (T_array a els)
    with assms S show ?thesis by (auto simp: main_micro_def go_def bind_eq_Some_conv intro: array_loop_R)
  next
    case T_yank
    with assms S show ?thesis
      by (auto simp: main_micro_def go_def bind_eq_Some_conv intro: yank_done_R intro!: progress_yield_io
          split: list.splits outcome.splits)
  qed (use assms S False in \<open>auto simp: main_micro_def intro!: progress_yield_io\<close>)
qed

lemma main_run_R:
  assumes "main_run G J cur outs t s = Some (r, s')" and "R t s" and "todo_at (mc_state s) t" and "flags_ok s"
  shows "S s'"
proof -
  have "H = G \<Longrightarrow> main_run H J cur outs t s = Some (r, s') \<Longrightarrow> R t s \<Longrightarrow> todo_at (mc_state s) t \<Longrightarrow>
      flags_ok s \<Longrightarrow> S s'" for H
  proof (induction H J cur outs t s rule: main_run.induct)
    case (1 H J cur outs t s)
    obtain p where p: "main_micro H J cur outs t s = Some p"
      using "1.prems"(2) by (cases "main_micro H J cur outs t s") (auto simp: main_run.simps)
    note inv = main_micro_R [OF p [unfolded "1.prems"(1)] "1.prems"(3-5)]
      and ok = main_micro_ok [OF "1.prems"(4,5) p]
    show ?case
    proof (cases p)
      case (Go outs' t' s1)
      with p "1.prems"(2) have "main_run H J cur outs' t' s1 = Some (r, s')"
        by (subst (asm) main_run.simps) simp
      with "1.IH" [OF p Go "1.prems"(1)] inv ok Go show ?thesis by (simp add: segment_ok_def)
    qed (use p "1.prems"(1,2) inv in \<open>auto simp: main_run.simps [of G J cur outs t s]\<close>)
  qed
  with assms show ?thesis by blast
qed

lemma main_resume_R:
  assumes "main_resume G cur outs s = Some p" and "S s" and "main_inv s" and "mc_pc s \<noteq> PC_start"
  shows "progress_inv p"
proof -
  have inv: "pc_at (mc_state s) (mc_pc s)" "flags_ok s" using assms(3,4) by (auto simp: main_inv_def)
  show ?thesis
  proof (cases "mc_pc s")
    case (PC_exec pt i)
    let ?s = "colod_watchdog_refresh G s"
    have "S ?s" "exec_at (mc_state ?s) pt" "flags_ok ?s"
      using PC_exec assms(2) inv core_cong(2,3) [OF watchdog_refresh_core [of G s]] by auto
    note fin = execute_done_R [OF _ this]
    from PC_exec assms(1,2) show ?thesis
      by (auto simp: main_resume_def Let_def go_def bind_eq_Some_conv pc intro: fin
          intro!: progress_yield_io split: if_splits list.splits outcome.splits)
  next
    case (PC_yank i)
    with assms(1,2) inv show ?thesis
      by (auto simp: main_resume_defs bind_eq_Some_conv pc intro: yank_done_R intro!: progress_yield_io
          split: if_splits list.splits outcome.splits)
  next
    case (PC_wait q i)
    with assms(1,2) inv show ?thesis
      by (auto simp: main_resume_defs bind_eq_Some_conv intro: wait_resumed_R)
  next
    case (PC_timer i)
    have "todo_at (mc_state s) (T_event E_running)" "todo_at (mc_state s) (T_enter STATE_FAILED)"
      using PC_timer inv(1) by (auto simp: edge_def)
    moreover have "steady s (remove_source i s)" "same_queue s (remove_source i s)"
      by (auto intro: steady_core simp: same_queue_def remove_source_def)
    ultimately show ?thesis
      using PC_timer assms(1,2)
      by (auto simp: main_resume_defs remove_source_def intro!: calm [OF assms(2)] split: if_splits)
  next
    case (PC_event pt)
    with assms(1,2) inv show ?thesis
      by (auto simp: main_resume_defs intro!: calm [OF assms(2)])
  qed (use assms in \<open>auto simp: main_resume_def\<close>)
qed

text \<open>A dispatch.\<close>

lemma main_start_R:
  assumes "main_resume G cur outs s = Some p" and "main_continue G J cur p = Some (r, s')"
    and "S s" and "main_inv s" and "mc_pc s = PC_start"
  shows "S s'"
proof -
  let ?st = "if mc_primary s then STATE_PRIMARY_STARTUP else STATE_SECONDARY_STARTUP"
  from assms(1,5) obtain s1 where s1: "colod_cpg_send G MESSAGE_HELLO s = Some s1" "p = Go outs (T_enter ?st) s1"
    by (auto simp: main_resume_def Let_def bind_eq_Some_conv)
  note core = cpg_send_core [OF s1(1)]
  have inv: "S s1" "main_inv s1" "mc_pc s1 = PC_start" "mc_primary s1 = mc_primary s"
    using cpg_send [OF s1(1)] core_cong [OF core] assms(3-5) by auto
  define t2 where "t2 = (if mc_primary s then T_enter STATE_PRIMARY_WAIT
    else T_exec X_sec_startup cmd_set_capabilities_events)"
  define s2 where "s2 = s1\<lparr>mc_transitioning := False, mc_state := ?st\<rparr>"
  have enter: "enter_state G ?st s1 = Some (t2, s2)"
    by (simp add: enter_state_def s2_def t2_def)
  then have micro: "main_micro G J cur outs (T_enter ?st) s1 = Some (Go outs t2 s2)"
    by (simp add: main_micro_def go_def)
  have "main_run G J cur outs t2 s2 = Some (r, s')"
    using assms(2) s1(2) micro by (simp add: main_continue_def main_run.simps [of G J cur outs "T_enter ?st"])
  moreover have "R t2 s2" using start [OF inv(1-3)] inv(4) enter by simp
  moreover have "todo_at (mc_state s2) t2" "flags_ok s2"
    using inv by (auto simp: s2_def t2_def edge_def flags_ok_def main_inv_def)
  ultimately show ?thesis by (rule main_run_R)
qed

lemma colod_main_co_R:
  assumes "colod_main_co G J cur outs s = Some s'" and "S s" and "main_inv s"
  shows "S s'"
proof -
  obtain p r s1 where p: "main_resume G cur outs s = Some p" "main_continue G J cur p = Some (r, s1)"
    using assms(1) by (auto simp: colod_main_co_def bind_eq_Some_conv)
  have "S s1"
  proof (cases "mc_pc s = PC_start")
    case True
    with p assms(2,3) show ?thesis by (rule main_start_R)
  next
    case False
    note inv = main_resume_R [OF p(1) assms(2,3) False] and ok = main_resume_ok [OF assms(3) False p(1)]
    show ?thesis
      using p(2) inv ok
      by (cases p) (auto simp: main_continue_def segment_ok_def intro: main_run_R)
  qed
  with assms(1) p show ?thesis
    by (cases r) (auto simp: colod_main_co_def bind_eq_Some_conv pc)
qed

lemma main_dispatch_R:
  assumes "main_dispatch G J cur outs s = Some s'" and "S s" and "main_inv s"
  shows "S s'"
proof -
  have *: "S t" if "colod_main_co G J cur outs s = Some t" for t
    by (rule colod_main_co_R [OF that assms(2,3)])
  show ?thesis
    using assms(1,2)
    by (auto simp: main_dispatch_def event_wake_source_destroy_cb_def
        bind_eq_Some_conv * split: option.splits source.splits)
qed

theorem main_step_R:
  assumes "main_step G J myid inp s = Some s'" and "own_failover myid inp \<Longrightarrow> win" and "S s" and "main_inv s"
  shows "S s'"
proof (cases "\<exists>cur outs. inp = Dispatch cur outs")
  case True
  with assms(1,3,4) show ?thesis by (auto simp: main_step_def intro: main_dispatch_R)
next
  case False
  then show ?thesis by (intro main_step_frame [OF assms(1) _ assms(2,3)])
qed

theorem main_reach_R:
  assumes "main_reach G J myid s h s'" and "\<forall>inp\<in>set h. own_failover myid inp \<longrightarrow> win" and "S s" and "main_inv s"
  shows "S s'"
  using assms
proof (induction rule: main_reach.induct)
  case (step h s1 inp s2)
  with main_reach_inv [OF step.hyps(1)] main_step_R [OF step.hyps(2)] show ?case by auto
next
  case (guest h s1 s2)
  with P_cong [OF guest_move_frame(2) [OF guest.hyps(2)]] show ?case by simp
qed

end

subsection \<open>A failover needs the node's own announcement\<close>

text \<open>Whoever is in FAILOVER, or primary without having started so, has taken \<open>EVENT_FAILOVER_WIN\<close>.\<close>

definition won :: "bool \<Rightarrow> 'z MainCoroutine_scheme \<Rightarrow> bool" where
  "won prim s \<longleftrightarrow> EVENT_FAILOVER_WIN \<in> set (got (mc_trace s)) \<or>
     mc_state s \<noteq> STATE_FAILOVER \<and> (mc_primary s \<longrightarrow> prim)"

definition won_todo :: "bool \<Rightarrow> todo \<Rightarrow> 'z MainCoroutine_scheme \<Rightarrow> bool" where
  "won_todo prim t s \<longleftrightarrow> won prim s \<and>
     (EVENT_FAILOVER_WIN \<in> set (got (mc_trace s)) \<or> t \<noteq> T_enter STATE_FAILOVER)"

lemma steady_state: "steady s s' \<Longrightarrow> mc_state s' = mc_state s \<and> mc_primary s' = mc_primary s"
  by (auto simp: steady_def main_core_def)

text \<open>What entering a state and handling an event do to the state and to \<open>primary\<close>.\<close>

lemma enter_state_core:
  assumes "enter_state G st s = Some (t, s')"
  shows "mc_state s' = st \<and> mc_primary s' = (mc_primary s \<or> st = STATE_PRIMARY_WAIT) \<and>
    mc_trace s' = mc_trace s \<and> t \<noteq> T_enter STATE_FAILOVER"
  using assms
  by (cases st)
    (auto simp: enter_state_def colo_running_begin_def Let_def bind_eq_Some_conv
      dest!: cpg_send_update set_interrupting_update set_timeout_update split: if_splits)

lemma event_received_core:
  assumes "event_received pt e s = Some (t, s')"
  shows "mc_state s' = mc_state s \<and> mc_primary s' = mc_primary s \<and> mc_trace s' = mc_trace s \<and>
    mc_queue s' = mc_queue s \<and> (t = T_enter STATE_FAILOVER \<longrightarrow> e = EVENT_FAILOVER_WIN \<and> pt = E_failover_sync)"
  using assms
  by (cases pt; cases e)
    (auto simp: event_received_defs mig_failover_def do_autoquit_def handle_event_failover_def
      event_failover_def event_yellow_def bind_eq_Some_conv split: if_splits)

lemma event_wait_core_trace:
  assumes "colod_event_wait cur s = Some (Some e, s1)"
  shows "mc_state s1 = mc_state s \<and> mc_primary s1 = mc_primary s \<and> mc_trace s1 = mc_trace s @ [Got e] \<and>
    (\<exists>x. eventqueue_remove (mc_queue s) = Some (Some x, mc_queue s1) \<and> ev_event x = e)"
  using event_wait_update [OF assms] by auto

interpretation won: dispatch_inv G True "won prim" "won_todo prim"
  for G and prim
proof
  fix e and s s' :: "'z MainCoroutine_scheme"
  show "main_view s' = main_view s \<Longrightarrow> won prim s \<Longrightarrow> won prim s'"
    by (auto simp: main_view_def main_core_def won_def)
  show "colod_event_queue G e s = Some s' \<Longrightarrow> won prim s \<Longrightarrow> won prim s'"
    by (auto simp: won_def dest!: event_queue_update)
next
  fix s :: "'z MainCoroutine_scheme" and pc'
  show "won prim s \<Longrightarrow> won prim (s\<lparr>mc_pc := pc'\<rparr>)" by (simp add: won_def)
next
  fix t and s s' :: "'z MainCoroutine_scheme"
  assume "won prim s"
    and e: "enter_state G (if mc_primary s then STATE_PRIMARY_STARTUP else STATE_SECONDARY_STARTUP) s = Some (t, s')"
  with enter_state_core [OF e] show "won_todo prim t s'" by (auto simp: won_todo_def won_def split: if_splits)
next
  fix s s' :: "'z MainCoroutine_scheme" and t
  show "won prim s \<Longrightarrow> steady s s' \<Longrightarrow> same_queue s s' \<Longrightarrow> todo_at (mc_state s') t \<Longrightarrow>
      t \<noteq> T_enter STATE_FAILOVER \<Longrightarrow> won_todo prim t s'"
    by (auto simp: won_todo_def won_def same_queue_def dest: steady_state)
next
  fix t and s :: "'z MainCoroutine_scheme"
  show "won_todo prim t s \<Longrightarrow> won prim s" by (simp add: won_todo_def)
next
  fix st t and s s' :: "'z MainCoroutine_scheme"
  assume 1: "won_todo prim (T_enter st) s" "edge (mc_state s) st" "flags_ok s" "enter_state G st s = Some (t, s')"
  have "mc_primary s" if "st = STATE_PRIMARY_WAIT" "mc_state s \<noteq> STATE_FAILOVER"
    using 1(2,3) that by (cases "mc_state s") (auto simp: edge_def flags_ok_def)
  with 1 enter_state_core [OF 1(4)] show "won_todo prim t s'"
    by (auto simp: won_todo_def won_def)
next
  fix pt cur e t and s s1 s' :: "'z MainCoroutine_scheme"
  assume "won prim s" "colod_event_wait cur s = Some (Some e, s1)" "event_received pt e s1 = Some (t, s')"
  with event_received_core event_wait_core_trace show "won_todo prim t s'"
    by (fastforce simp: won_todo_def won_def)
qed

lemma main_new_start:
  assumes "colod_main_new G n r monitor ctx = Some (True, s)"
  shows "mc_trace s = []" and "eq_sequence (mc_queue s) = []" and "mc_state s = STATE_SECONDARY_STARTUP"
    and "mc_pc s = PC_start" and "mc_primary s = cx_primary_startup s"
    and "eq_used (mc_queue s) = 0" and "main_inv s"
    and "eq_interrupting_always (mc_queue s) = event_always_interrupting"
    and "eq_interrupting (mc_queue s) = event_always_interrupting"
proof -
  have new: "colod_eventqueue_new = Some q \<Longrightarrow> eq_sequence q = [] \<and> eq_used q = 0 \<and>
      eq_interrupting_always q = event_always_interrupting \<and> eq_interrupting q = event_always_interrupting" for q
    by (auto simp: colod_eventqueue_new_def eventqueue_new_ok fun_eq_iff
        elim: event_always_interrupting.elims)
  show "mc_trace s = []" "eq_sequence (mc_queue s) = []" "mc_state s = STATE_SECONDARY_STARTUP"
    "mc_pc s = PC_start" "mc_primary s = cx_primary_startup s" "eq_used (mc_queue s) = 0" "main_inv s"
    "eq_interrupting_always (mc_queue s) = event_always_interrupting"
    "eq_interrupting (mc_queue s) = event_always_interrupting"
    using main_new_update [OF assms] main_new_inv [OF assms] new by auto
qed

text \<open>
  A secondary that runs COLO, whose peer leaves the group: it announces its failover. The
  witnesses let it receive its own announcement, or the peer's first.
\<close>

definition example_race :: "main_input list" where
  "example_race = [Dispatch 1 [Exec (Exec_ok False \<lparr>qr_json_root = JObject [], qr_line = []\<rparr>)],
     Qmp_event (JObject [(''event'', JString ''RESUME'')]), Dispatch 1 [], Cpg_left 1, Dispatch 1 []]"

text \<open>What the two claims about taking over, for the main coroutine's system and for the whole daemon, share.\<close>

lemma takeover_needs_own_message:
  assumes "colod_main_new G n r monitor ctx = Some (True, s0)" and "main_reach G J myid s0 h s"
    and "sequence_lawful G"
    and "mc_state s = STATE_FAILOVER \<or> mc_primary s \<and> \<not> cx_primary_startup s0"
  shows "\<exists>inp\<in>set h. own_failover myid inp"
proof (rule ccontr)
  assume "\<not> ?thesis"
  then have no: "\<forall>inp\<in>set h. own_failover myid inp \<longrightarrow> False" by blast
  note new = main_new_start [OF assms(1)]
  have "no_win (mc_queue s) (mc_trace s)"
    by (rule no_win.main_reach_QS [OF assms(2) no]) (simp add: no_win_def new)
  moreover have "accounted G (mc_queue s) (mc_trace s)"
    by (rule accounted.main_reach_QS [OF assms(2)]) (simp_all add: accounted_def new)
  then have "set (got (mc_trace s)) \<subseteq> set (queued (mc_trace s))"
    using assms(3) set_mset_mono by (fastforce simp: accounted_def)
  moreover have "won (cx_primary_startup s0) s"
    by (rule won.main_reach_R [OF assms(2)]) (simp_all add: won_def new)
  ultimately show False using assms(4) by (auto simp: won_def no_win_def)
qed

text \<open>
  C2. Whatever happened since its creation, a daemon that is in FAILOVER, or that is primary
  without having been started as primary, has received its own FAILOVER message from the
  process group: no other input, in whatever order, makes a node take over.
\<close>

theorem failover_needs_own_message:
  assumes "colod_main_new G n r monitor ctx = Some (True, s0)" and "main_reach G J myid s0 h s"
    and "sequence_lawful G"
    and "mc_state s = STATE_FAILOVER \<or> mc_primary s \<and> \<not> cx_primary_startup s0"
  shows "\<exists>inp\<in>set h. own_failover myid inp"
  using assms by (rule takeover_needs_own_message)

lemma failover_needs_own_message_witness:
  "\<exists>s0 s. colod_main_new ref_glib True True None (example_ctx False) = Some (True, s0) \<and>
     main_reach ref_glib example_json 1 s0
       (rev (example_race @ [Cpg_message 1 (htonl_bytes MESSAGE_FAILOVER), Dispatch 1 []])) s \<and>
     mc_state s = STATE_FAILOVER \<and>
     (\<exists>inp\<in>set (rev (example_race @ [Cpg_message 1 (htonl_bytes MESSAGE_FAILOVER), Dispatch 1 []])).
        own_failover 1 inp)"
proof -
  have "map_option mc_state (Option.bind (example_start False)
      (example_run (example_race @ [Cpg_message 1 (htonl_bytes MESSAGE_FAILOVER), Dispatch 1 []]))) =
    Some STATE_FAILOVER"
    by code_simp
  from example_reach [OF this] obtain s0 s where
    1: "colod_main_new ref_glib True True None (example_ctx False) = Some (True, s0)"
      "main_reach ref_glib example_json 1 s0
         (rev (example_race @ [Cpg_message 1 (htonl_bytes MESSAGE_FAILOVER), Dispatch 1 []])) s"
      "mc_state s = STATE_FAILOVER"
    by blast
  with failover_needs_own_message [OF 1(1,2) ref_sequence_lawful] show ?thesis by blast
qed

text \<open>
  C19. The coroutine takes no event that was not queued, and none more often than it was
  queued: what it has taken and what is pending are among what was queued.
\<close>

theorem events_accounted:
  assumes "colod_main_new G n r monitor ctx = Some (True, s0)" and "main_reach G J myid s0 h s"
    and "sequence_lawful G"
  shows "mset (map ev_event (eq_sequence (mc_queue s))) + mset (got (mc_trace s)) \<subseteq># mset (queued (mc_trace s))"
proof -
  have "accounted G (mc_queue s) (mc_trace s)"
    by (rule accounted.main_reach_QS [OF assms(2)]) (simp_all add: accounted_def main_new_start [OF assms(1)])
  with assms(3) show ?thesis by (simp add: accounted_def)
qed

lemma events_accounted_witness:
  "\<exists>s0 s. colod_main_new ref_glib True True None (example_ctx False) = Some (True, s0) \<and>
     main_reach ref_glib example_json 1 s0 (rev (example_race @ [Cpg_message 2 (htonl_bytes MESSAGE_FAILOVER)])) s \<and>
     mc_trace s = [Queued EVENT_FAILOVER_SYNC, Got EVENT_FAILOVER_SYNC, Queued EVENT_PEER_FAILOVER] \<and>
     mset (map ev_event (eq_sequence (mc_queue s))) + mset (got (mc_trace s)) \<subseteq># mset (queued (mc_trace s))"
proof -
  have "map_option mc_trace (Option.bind (example_start False)
      (example_run (example_race @ [Cpg_message 2 (htonl_bytes MESSAGE_FAILOVER)]))) =
    Some [Queued EVENT_FAILOVER_SYNC, Got EVENT_FAILOVER_SYNC, Queued EVENT_PEER_FAILOVER]"
    by code_simp
  from example_reach [OF this] obtain s0 s where
    1: "colod_main_new ref_glib True True None (example_ctx False) = Some (True, s0)"
      "main_reach ref_glib example_json 1 s0 (rev (example_race @ [Cpg_message 2 (htonl_bytes MESSAGE_FAILOVER)])) s"
      "mc_trace s = [Queued EVENT_FAILOVER_SYNC, Got EVENT_FAILOVER_SYNC, Queued EVENT_PEER_FAILOVER]"
    by blast
  with events_accounted [OF 1(1,2) ref_sequence_lawful] show ?thesis by blast
qed

subsection \<open>A lost race\<close>

text \<open>The states in which a failover may still be ahead, and those after which none is.\<close>

definition may_win :: "MainState \<Rightarrow> bool" where
  "may_win st \<longleftrightarrow> st \<in> {STATE_SECONDARY_COLO_RUNNING, STATE_PRIMARY_COLO_RUNNING,
     STATE_PRIMARY_START_MIGRATION, STATE_FAILOVER_SYNC}"

definition dead_state :: "MainState \<Rightarrow> bool" where
  "dead_state st \<longleftrightarrow> st \<in> {STATE_FAILED_PEER_FAILOVER, STATE_FAILED, STATE_QUIT, STATE_AUTOQUIT}"

definition win_waits :: "Event glib \<Rightarrow> 'z MainCoroutine_scheme \<Rightarrow> bool" where
  "win_waits G s \<longleftrightarrow> ordered G (mc_queue s) (mc_trace s) \<and>
     (sequence_lawful G \<and> few_queued (mc_trace s) \<longrightarrow>
        may_win (mc_state s) \<longrightarrow> \<not> eq_interrupting (mc_queue s) EVENT_FAILOVER_WIN)"

lemma add_frame:
  assumes "eventqueue_add G q e 0 = Some (r, q')"
  shows "eq_interrupting q' = eq_interrupting q \<and> eq_interrupting_always q' = eq_interrupting_always q"
  using assms by (auto simp: eventqueue_add_def bind_eq_Some_conv Let_def split: if_splits)

lemma remove_frame:
  assumes "eventqueue_remove q = Some (Some x, q')"
  shows "eq_interrupting q' = eq_interrupting q \<and> eq_sequence q = x # eq_sequence q'"
  using assms by (auto simp: eventqueue_remove_def split: if_splits list.splits)

lemma event_queue_frame:
  assumes "colod_event_queue G e s = Some s'"
  shows "main_core s' = main_core s \<and> eq_interrupting (mc_queue s') = eq_interrupting (mc_queue s) \<and>
    mc_trace s' = mc_trace s @ [Queued e]"
  using event_queue_update [OF assms] add_frame by fastforce

lemma select_flags:
  assumes "eventqueue_set_interrupting G q es = Some q'"
  shows "eq_interrupting q' e \<longleftrightarrow> eq_interrupting_always q e \<or> e \<in> set es"
proof -
  have "EVENT_MAX \<notin> set es"
  proof
    assume "EVENT_MAX \<in> set es"
    then have "set_flags (eq_interrupting_always q) es = None" by (rule set_flags_None)
    with assms(1) show False by (simp add: eventqueue_set_interrupting_def)
  qed
  with assms show ?thesis by (auto simp: eventqueue_select_ok Let_def)
qed

text \<open>Entering a state: which events interrupt then, and which are pending.\<close>

lemma enter_state_select:
  assumes "enter_state G st s = Some (t, s')" and "may_win st"
  shows "if st = STATE_FAILOVER_SYNC then mc_queue s' = mc_queue s
    else eventqueue_set_interrupting G (mc_queue s) [EVENT_FAILOVER_SYNC] = Some (mc_queue s')"
  using assms
  by (cases st) (auto simp: may_win_def enter_state_def colo_running_begin_def set_interrupting_def Let_def
      bind_eq_Some_conv dest!: cpg_send_update)

definition pending :: "'z MainCoroutine_scheme \<Rightarrow> ColodEvent set" where
  "pending s = ev_event ` set (eq_sequence (mc_queue s))"

lemma pending_cong: "mc_queue s' = mc_queue s \<Longrightarrow> pending s' = pending s"
  by (simp add: pending_def)

lemma set_interrupting_pending:
  assumes "set_interrupting G es s = Some s'" and "sequence_lawful G"
  shows "pending s' = pending s"
  using assms sequence_lawful_set(1) [OF assms(2)]
  by (auto simp: pending_def set_interrupting_def eventqueue_set_interrupting_def bind_eq_Some_conv Let_def)

lemma enter_state_pending:
  assumes "enter_state G st s = Some (t, s')" and "sequence_lawful G"
  shows "pending s' = pending s"
  using assms(1)
  by (cases st) (auto simp: enter_state_def colo_running_begin_def Let_def bind_eq_Some_conv
      dest!: cpg_send_update set_timeout_update set_interrupting_pending [OF _ assms(2)] intro: pending_cong
      simp: pending_def)

lemma event_queue_pending:
  assumes "colod_event_queue G e s = Some s'" and "sequence_lawful G"
  shows "pending s \<subseteq> pending s'"
  using event_queue_update [OF assms(1)] sequence_lawful_set(2) [OF assms(2)]
  by (fastforce simp: pending_def eventqueue_add_def bind_eq_Some_conv Let_def split: if_splits)

subsection \<open>In a race \<open>EVENT_FAILOVER_WIN\<close> does not interrupt\<close>

interpretation waits: dispatch_inv G True "win_waits G" "\<lambda>t s. win_waits G s"
  for G
proof
  fix e and s s' :: "'z MainCoroutine_scheme"
  show "main_view s' = main_view s \<Longrightarrow> win_waits G s \<Longrightarrow> win_waits G s'"
    by (auto simp: main_view_def main_core_def win_waits_def)
  assume q: "colod_event_queue G e s = Some s'" and w: "win_waits G s"
  have "ordered G (mc_queue s') (mc_trace s')"
    using ordered.event [OF _ q] w by (simp add: win_waits_def)
  with event_queue_frame [OF q] w few_queued_append show "win_waits G s'"
    by (auto simp: win_waits_def main_core_def)
next
  fix s :: "'z MainCoroutine_scheme" and pc'
  show "win_waits G s \<Longrightarrow> win_waits G (s\<lparr>mc_pc := pc'\<rparr>)" by (simp add: win_waits_def)
next
  fix t and s s' :: "'z MainCoroutine_scheme"
  assume w: "win_waits G s"
    and e: "enter_state G (if mc_primary s then STATE_PRIMARY_STARTUP else STATE_SECONDARY_STARTUP) s = Some (t, s')"
  with enter_state_core [OF e] ordered.enter_state_QS [OF e] show "win_waits G s'"
    by (auto simp: win_waits_def may_win_def split: if_splits)
next
  fix s s' :: "'z MainCoroutine_scheme"
  show "win_waits G s \<Longrightarrow> steady s s' \<Longrightarrow> same_queue s s' \<Longrightarrow> win_waits G s'"
    by (auto simp: win_waits_def same_queue_def dest: steady_state)
next
  fix st t and s s' :: "'z MainCoroutine_scheme"
  assume w: "win_waits G s" and edge: "edge (mc_state s) st" and e: "enter_state G st s = Some (t, s')"
  note core = enter_state_core [OF e]
  have o: "ordered G (mc_queue s') (mc_trace s')"
    using ordered.enter_state_QS [OF e] w by (simp add: win_waits_def)
  have "\<not> eq_interrupting (mc_queue s') EVENT_FAILOVER_WIN"
    if "sequence_lawful G" "few_queued (mc_trace s')" "may_win st"
  proof (cases "st = STATE_FAILOVER_SYNC")
    case True
    then have "may_win (mc_state s)" using edge by (cases "mc_state s") (auto simp: edge_def may_win_def)
    with w core that True enter_state_select [OF e] show ?thesis by (simp add: win_waits_def)
  next
    case False
    with enter_state_select [OF e that(3)]
    have "eventqueue_set_interrupting G (mc_queue s) [EVENT_FAILOVER_SYNC] = Some (mc_queue s')" by simp
    with select_flags w core that show ?thesis by (fastforce simp: win_waits_def ordered_def)
  qed
  with o core show "win_waits G s'" by (simp add: win_waits_def)
next
  fix pt cur e t and s s1 s' :: "'z MainCoroutine_scheme"
  assume w: "win_waits G s" and 1: "colod_event_wait cur s = Some (Some e, s1)"
    and 2: "event_received pt e s1 = Some (t, s')"
  have "ordered G (mc_queue s1) (mc_trace s1)"
    using ordered.event_wait_QS [OF 1] w by (simp add: win_waits_def)
  moreover have "eq_interrupting (mc_queue s1) = eq_interrupting (mc_queue s)"
    using event_wait_core_trace [OF 1] remove_frame by blast
  ultimately show "win_waits G s'"
    using w event_wait_core_trace [OF 1] event_received_core [OF 2]
    by (auto simp: win_waits_def dest: few_queued_append)
qed

subsection \<open>Once the race is lost\<close>

text \<open>
  An event that always interrupts is pending, or was already taken, and the node has neither
  won nor was it standing alone.
\<close>

definition out_of_race :: "MainState \<Rightarrow> bool" where
  "out_of_race st \<longleftrightarrow> st \<notin> {STATE_FAILOVER, STATE_PRIMARY_STARTUP, STATE_PRIMARY_WAIT}"

definition stopping :: "'z MainCoroutine_scheme \<Rightarrow> bool" where
  "stopping s \<longleftrightarrow> dead_state (mc_state s) \<or> (\<exists>e\<in>pending s. event_always_interrupting e)"

definition lost :: "Event glib \<Rightarrow> bool \<Rightarrow> 'z MainCoroutine_scheme \<Rightarrow> bool" where
  "lost G prim s \<longleftrightarrow> win_waits G s \<and> (sequence_lawful G \<and> few_queued (mc_trace s) \<longrightarrow>
     mc_primary s = prim \<and> mc_pc s \<noteq> PC_start \<and> out_of_race (mc_state s) \<and> stopping s)"

definition lost_todo :: "Event glib \<Rightarrow> bool \<Rightarrow> todo \<Rightarrow> 'z MainCoroutine_scheme \<Rightarrow> bool" where
  "lost_todo G prim t s \<longleftrightarrow> win_waits G s \<and> (sequence_lawful G \<and> few_queued (mc_trace s) \<longrightarrow>
     mc_primary s = prim \<and> mc_pc s \<noteq> PC_start \<and> out_of_race (mc_state s) \<and> t \<noteq> T_enter STATE_FAILOVER \<and>
     (stopping s \<or> (\<exists>st. t = T_enter st \<and> dead_state st)))"

lemma handle_always_dead: "handle_always_interrupting e = Some st \<Longrightarrow> dead_state st"
  by (cases e) (auto simp: dead_state_def)

lemma edge_dead: "edge st st' \<Longrightarrow> dead_state st \<Longrightarrow> dead_state st'"
  by (cases st) (auto simp: edge_def dead_state_def)

lemma edge_out_of_race: "edge st st' \<Longrightarrow> out_of_race st \<Longrightarrow> st' \<noteq> STATE_FAILOVER \<Longrightarrow> out_of_race st'"
  by (cases st) (auto simp: edge_def out_of_race_def)

text \<open>An event is taken while one that always interrupts is pending.\<close>

lemma event_received_pc: "event_received pt e s = Some (t, s') \<Longrightarrow> mc_pc s' = mc_pc s"
  by (cases pt) (auto simp: event_received_defs mig_failover_def do_autoquit_def bind_eq_Some_conv split: if_splits)

lemma enter_state_pc: "enter_state G st s = Some (t, s') \<Longrightarrow> mc_pc s' = mc_pc s"
  by (cases st) (auto simp: enter_state_def colo_running_begin_def Let_def bind_eq_Some_conv
      dest!: cpg_send_update set_interrupting_update set_timeout_update)

lemma event_received_interrupted:
  assumes "event_received pt e s = Some (t, s')" and "pt \<noteq> E_primary_wait"
  shows "event_always_interrupting e \<longrightarrow> pt \<noteq> E_failed \<longrightarrow> pt \<noteq> E_autoquit \<longrightarrow> (\<exists>st. t = T_enter st \<and> dead_state st)"
  using assms
  by (cases pt; cases e)
    (auto simp: event_received_defs mig_failover_def event_failover_def handle_event_failover_def
      dead_state_def bind_eq_Some_conv split: if_splits)

lemma lost_receive:
  assumes l: "lost G prim s" and at: "event_at (mc_state s) pt"
    and 1: "colod_event_wait cur s = Some (Some e, s1)" and 2: "event_received pt e s1 = Some (t, s')"
  shows "lost_todo G prim t s'"
proof -
  note w = event_wait_core_trace [OF 1] and r = event_received_core [OF 2]
  obtain x where x: "eventqueue_remove (mc_queue s) = Some (Some x, mc_queue s1)" "ev_event x = e"
    using w by blast
  have pc: "mc_pc s' = mc_pc s"
    using event_received_pc [OF 2] event_wait_update [OF 1] by auto
  have waits: "win_waits G s'"
    by (rule waits.receive [OF _ at 1 2]) (use l in \<open>simp add: lost_def\<close>)
  have "t \<noteq> T_enter STATE_FAILOVER \<and> (stopping s' \<or> (\<exists>st. t = T_enter st \<and> dead_state st))"
    if G: "sequence_lawful G" and few: "few_queued (mc_trace s')"
  proof -
    have few: "few_queued (mc_trace s)" using few r w by (metis few_queued_append)
    have ls: "out_of_race (mc_state s)" "stopping s" and ww: "win_waits G s" using l G few by (auto simp: lost_def)
    show ?thesis
    proof (cases "dead_state (mc_state s)")
      case True
      then have "pt \<noteq> E_failover_sync" using at by (cases "mc_state s") (auto simp: dead_state_def)
      with True r w show ?thesis by (auto simp: stopping_def)
    next
      case False
      then obtain y where y: "y \<in> set (eq_sequence (mc_queue s))" "event_always_interrupting (ev_event y)"
        using ls(2) by (auto simp: stopping_def pending_def)
      have ord: "ordered G (mc_queue s) (mc_trace s)" using ww by (simp add: win_waits_def)
      have "eq_interrupting (mc_queue s) (ev_event y)" using ord G few y(2) by (auto simp: ordered_def)
      from ordered_head [OF ord G few x(1) y(1) this] x(2)
      have intr: "eq_interrupting (mc_queue s) e" by simp
      have not_win: "t \<noteq> T_enter STATE_FAILOVER"
      proof
        assume "t = T_enter STATE_FAILOVER"
        with r have "e = EVENT_FAILOVER_WIN" "pt = E_failover_sync" by auto
        with at ww G few intr show False by (auto simp: win_waits_def may_win_def)
      qed
      have pts: "pt \<noteq> E_primary_wait" "pt \<noteq> E_failed" "pt \<noteq> E_autoquit"
        using at ls(1) False by (auto simp: out_of_race_def dead_state_def)
      show ?thesis
      proof (cases "event_always_interrupting e")
        case True
        with event_received_interrupted [OF 2 pts(1)] pts not_win show ?thesis by blast
      next
        case False
        with y x remove_frame [OF x(1)] have "y \<in> set (eq_sequence (mc_queue s1))" by auto
        with y(2) r have "stopping s'" by (auto simp: stopping_def pending_def)
        with not_win show ?thesis by blast
      qed
    qed
  qed
  with waits w r pc l show ?thesis
    by (auto simp: lost_todo_def lost_def dest: few_queued_append)
qed

lemma lost_enter:
  assumes l: "lost_todo G prim (T_enter st) s" and edge: "edge (mc_state s) st" and fl: "flags_ok s"
    and e: "enter_state G st s = Some (t, s')"
  shows "lost_todo G prim t s'"
proof -
  note core = enter_state_core [OF e] and pc = enter_state_pc [OF e]
  have waits: "win_waits G s'"
    by (rule waits.enter [OF _ edge fl e]) (use l in \<open>simp add: lost_todo_def\<close>)
  have "mc_primary s' = prim \<and> out_of_race st \<and> stopping s'"
    if G: "sequence_lawful G" and few: "few_queued (mc_trace s)"
  proof -
    have ls: "out_of_race (mc_state s)" "st \<noteq> STATE_FAILOVER" "stopping s \<or> dead_state st" "mc_primary s = prim"
      using l G few by (auto simp: lost_todo_def)
    have st: "out_of_race st" by (rule edge_out_of_race [OF edge ls(1,2)])
    have "stopping s'"
      using ls(3) core edge_dead [OF edge] enter_state_pending [OF e G] by (auto simp: stopping_def)
    with st ls(4) core show ?thesis by (auto simp: out_of_race_def)
  qed
  with waits core pc l show ?thesis by (auto simp: lost_todo_def)
qed

interpretation lost: dispatch_inv G True "lost G prim" "lost_todo G prim"
  for G and prim
proof
  fix e and s s' :: "'z MainCoroutine_scheme"
  show "main_view s' = main_view s \<Longrightarrow> lost G prim s \<Longrightarrow> lost G prim s'"
    using waits.frame [of s' s G] pending_cong [of s' s]
    by (auto simp: main_view_def main_core_def lost_def stopping_def)
  assume q: "colod_event_queue G e s = Some s'" and l: "lost G prim s"
  have "win_waits G s'" using waits.event [OF _ q] l by (simp add: lost_def)
  with event_queue_frame [OF q] event_queue_pending [OF q] l show "lost G prim s'"
    by (auto simp: lost_def main_core_def stopping_def dest: few_queued_append)
next
  fix s :: "'z MainCoroutine_scheme" and pc'
  show "lost G prim s \<Longrightarrow> pc' \<noteq> PC_start \<Longrightarrow> lost G prim (s\<lparr>mc_pc := pc'\<rparr>)"
    by (simp add: lost_def win_waits_def stopping_def pending_def)
next
  fix t and s s' :: "'z MainCoroutine_scheme"
  assume l: "lost G prim s" and pc: "mc_pc s = PC_start" and inv: "main_inv s"
    and e: "enter_state G (if mc_primary s then STATE_PRIMARY_STARTUP else STATE_SECONDARY_STARTUP) s = Some (t, s')"
  have "win_waits G s'" using waits.start [OF _ inv pc e] l by (simp add: lost_def)
  with l pc enter_state_core [OF e] show "lost_todo G prim t s'" by (auto simp: lost_def lost_todo_def)
next
  fix s s' :: "'z MainCoroutine_scheme" and t
  assume l: "lost G prim s" and st: "steady s s'" and sq: "same_queue s s'" and t: "t \<noteq> T_enter STATE_FAILOVER"
    and at: "todo_at (mc_state s') t"
  have "win_waits G s'" using waits.calm [OF _ st sq at t] l by (simp add: lost_def)
  moreover have "mc_pc s' = mc_pc s" using st by (auto simp: steady_def main_core_def)
  ultimately show "lost_todo G prim t s'"
    using l steady_state [OF st] sq t by (auto simp: lost_def lost_todo_def same_queue_def stopping_def pending_def)
next
  fix t and s :: "'z MainCoroutine_scheme"
  show "lost_todo G prim t s \<Longrightarrow> \<nexists>st. t = T_enter st \<Longrightarrow> lost G prim s"
    by (auto simp: lost_todo_def lost_def)
next
  fix st t and s s' :: "'z MainCoroutine_scheme"
  show "lost_todo G prim (T_enter st) s \<Longrightarrow> edge (mc_state s) st \<Longrightarrow> flags_ok s \<Longrightarrow>
      enter_state G st s = Some (t, s') \<Longrightarrow> lost_todo G prim t s'"
    by (rule lost_enter)
next
  fix pt cur e t and s s1 s' :: "'z MainCoroutine_scheme"
  show "lost G prim s \<Longrightarrow> event_at (mc_state s) pt \<Longrightarrow> colod_event_wait cur s = Some (Some e, s1) \<Longrightarrow>
      event_received pt e s1 = Some (t, s') \<Longrightarrow> lost_todo G prim t s'"
    by (rule lost_receive)
qed

text \<open>
  C3. Losing the race is final: once an event that always interrupts, such as the peer's
  failover, is pending in a node that is neither in FAILOVER nor a standing alone primary,
  then whatever else happens, and in whatever order, the node never goes to FAILOVER, its
  \<open>primary\<close> flag stays as it is, and until it stops the event stays pending - provided that
  fewer than \<open>2 ^ 31\<close> events are queued since its start.
\<close>

theorem lost_race_is_final:
  assumes "colod_main_new G n r monitor ctx = Some (True, s0)" and "main_reach G J myid s0 h s"
    and "sequence_lawful G" and "mc_pc s \<noteq> PC_start" and "out_of_race (mc_state s)"
    and "e \<in> pending s" and "event_always_interrupting e"
    and "main_reach G J myid s h' s'" and "few_queued (mc_trace s')"
  shows "mc_state s' \<noteq> STATE_FAILOVER \<and> mc_primary s' = mc_primary s \<and> stopping s'"
proof -
  note new = main_new_start [OF assms(1)]
  have inv: "main_inv s" by (rule main_reach_inv [OF assms(2) new(7)])
  have "ordered G (mc_queue s0) (mc_trace s0)"
    using eventqueue_empty_inv new by (auto simp: ordered_def young_def)
  then have "win_waits G s0" by (simp add: win_waits_def new may_win_def)
  then have "win_waits G s"
    by (intro waits.main_reach_R [OF assms(2) _ _ new(7)]) auto
  then have "lost G (mc_primary s) s"
    using assms(4-7) by (auto simp: lost_def stopping_def)
  then have "lost G (mc_primary s) s'"
    by (intro lost.main_reach_R [OF assms(8) _ _ inv]) auto
  with assms(3,9) show ?thesis by (auto simp: lost_def out_of_race_def)
qed

lemma lost_race_is_final_witness:
  "\<exists>s0 s s'. colod_main_new ref_glib True True None (example_ctx False) = Some (True, s0) \<and>
     main_reach ref_glib example_json 1 s0 (rev (example_race @ [Cpg_message 2 (htonl_bytes MESSAGE_FAILOVER)])) s \<and>
     mc_state s = STATE_FAILOVER_SYNC \<and>
     main_reach ref_glib example_json 1 s (rev [Cpg_message 1 (htonl_bytes MESSAGE_FAILOVER), Dispatch 1 []]) s' \<and>
     mc_state s' \<noteq> STATE_FAILOVER \<and> mc_primary s' = mc_primary s \<and> stopping s'"
proof -
  have "Option.bind (Option.bind (example_start False)
        (example_run (example_race @ [Cpg_message 2 (htonl_bytes MESSAGE_FAILOVER)])))
      (\<lambda>s. map_option (\<lambda>s'. ((mc_pc s, mc_state s, map ev_event (eq_sequence (mc_queue s))), length (queued (mc_trace s')) < 100))
        (example_run [Cpg_message 1 (htonl_bytes MESSAGE_FAILOVER), Dispatch 1 []] s)) =
    Some ((PC_event E_failover_sync, STATE_FAILOVER_SYNC, [EVENT_PEER_FAILOVER]), True)"
    by code_simp
  from example_reach2 [OF this] obtain s0 s s' where
    1: "colod_main_new ref_glib True True None (example_ctx False) = Some (True, s0)"
      "main_reach ref_glib example_json 1 s0 (rev (example_race @ [Cpg_message 2 (htonl_bytes MESSAGE_FAILOVER)])) s"
      "main_reach ref_glib example_json 1 s (rev [Cpg_message 1 (htonl_bytes MESSAGE_FAILOVER), Dispatch 1 []]) s'"
    and 2: "mc_pc s = PC_event E_failover_sync" "mc_state s = STATE_FAILOVER_SYNC"
      "map ev_event (eq_sequence (mc_queue s)) = [EVENT_PEER_FAILOVER]" "length (queued (mc_trace s')) < 100"
    by auto
  have "EVENT_PEER_FAILOVER \<in> pending s" using arg_cong [OF 2(3), of set] by (simp add: pending_def)
  moreover have "few_queued (mc_trace s')" using 2(4) by (simp add: few_queued_def)
  ultimately have "mc_state s' \<noteq> STATE_FAILOVER \<and> mc_primary s' = mc_primary s \<and> stopping s'"
    using lost_race_is_final [OF 1(1,2) ref_sequence_lawful _ _ _ _ 1(3), of EVENT_PEER_FAILOVER] 2
    by (simp add: out_of_race_def)
  with 1 2 show ?thesis by blast
qed

end
