(* ===== verification/Qmp_Channel.thy ===== *)
theory Qmp_Channel
  imports Qmp_State
begin

text \<open>
  The coroutines of \<^verbatim>\<open>qmp.c\<close> that talk to QEMU: reading a line, executing a
  command, yanking, the handshake and the event reader of each of the two channels, and the
  creation and release of the state. \<open>y\<close> is the channel: \<open>False\<close> the QMP channel, \<open>True\<close>
  the yank channel. \<open>f\<close> are the callbacks for events, \<open>co\<close> the source that resumes the
  coroutine.

  \<^verbatim>\<open>_qmp_read_line_co\<close> and \<^verbatim>\<open>__qmp_execute_co\<close> are called again by the yank that a
  read may do, on the other channel and with \<^verbatim>\<open>yank\<close> false. So a read takes the yank as an
  argument (\<open>None\<close> for \<^verbatim>\<open>yank\<close> false) and an execution takes the read.
\<close>

subsection \<open>Channels\<close>

type_synonym ('p, 'r, 's) co_result = "(('p, 'r) co \<times> io_answer list \<times> 's) abortable"
type_synonym ('p, 'r, 's) co_resume = "'p \<Rightarrow> guint \<Rightarrow> io_answer list \<Rightarrow> 's \<Rightarrow> ('p, 'r, 's) co_result"

definition qmp_chan :: "bool \<Rightarrow> 'z QmpState_scheme \<Rightarrow> QmpChannel" where
  "qmp_chan y s = (if y then qmp_yank_channel s else qmp_channel s)"

definition qmp_set_chan :: "bool \<Rightarrow> QmpChannel \<Rightarrow> 'z QmpState_scheme \<Rightarrow> 'z QmpState_scheme" where
  "qmp_set_chan y c s = (if y then s\<lparr>qmp_yank_channel := c\<rparr> else s\<lparr>qmp_channel := c\<rparr>)"

definition qmp_set_lock :: "bool \<Rightarrow> CoroutineLock \<Rightarrow> 'z QmpState_scheme \<Rightarrow> 'z QmpState_scheme" where
  "qmp_set_lock y l s = qmp_set_chan y ((qmp_chan y s)\<lparr>ch_lock := l\<rparr>) s"

definition qmp_log :: "bool \<Rightarrow> ch_io \<Rightarrow> 'z QmpState_scheme \<Rightarrow> 'z QmpState_scheme" where
  "qmp_log y e s = qmp_set_chan y ((qmp_chan y s)\<lparr>ch_log := ch_log (qmp_chan y s) @ [e]\<rparr>) s"

definition qmp_unlock :: "source \<Rightarrow> bool \<Rightarrow> 'z QmpState_scheme \<Rightarrow> 'z QmpState_scheme abortable" where
  "qmp_unlock co y s = do {
     l \<leftarrow> colod_unlock_co co (ch_lock (qmp_chan y s));
     Some (qmp_set_lock y l s) }"

text \<open>The calls into \<open>Channel_Io\<close>, with the timeout of the state.\<close>

fun logged_read ::
    "source \<Rightarrow> bool \<Rightarrow> (read_pc, string fallible) co \<times> io_answer list \<times> 'z QmpState_scheme \<Rightarrow>
     (read_pc, string fallible, 'z QmpState_scheme) co_result" where
  "logged_read co y (Done (Inr line), io, s) = Some (Done (Inr line), io, qmp_log y (Got_line co line) s)"
| "logged_read co y (r, io, s) = Some (r, io, s)"

fun logged_write ::
    "source \<Rightarrow> bool \<Rightarrow> (write_pc, unit fallible) co \<times> string \<times> io_answer list \<times> 'z QmpState_scheme \<Rightarrow>
     (write_pc, unit fallible, 'z QmpState_scheme) co_result" where
  "logged_write co y (r, out, io, s) = Some (r, io, if out = [] then s else qmp_log y (Sent co out) s)"

subsection \<open>Reading a line\<close>

text \<open>\<open>R_idle\<close>: it handed out an event and lets the main loop run; \<open>R_yank\<close>: it yanks.\<close>

datatype 'p qmp_read_pc = R_line read_pc | R_idle | R_yank 'p

datatype ('a, 's) loop = Again 's | Stop 'a

text \<open>The body of the loop once a line or an error is there.\<close>

definition qmp_read_got ::
    "'e glib \<Rightarrow> json_glib \<Rightarrow> 'z QmpState_scheme qmp_event_callback \<Rightarrow>
     (io_answer list \<Rightarrow> 'z QmpState_scheme \<Rightarrow> ('p, ColodQmpResult fallible, 'z QmpState_scheme) co_result) option \<Rightarrow>
     source \<Rightarrow> bool \<Rightarrow> bool \<Rightarrow> string fallible \<Rightarrow> io_answer list \<Rightarrow> 'z QmpState_scheme \<Rightarrow>
     (('p qmp_read_pc, ColodQmpResult fallible) co \<times> io_answer list \<times> 'z QmpState_scheme,
      'z QmpState_scheme) loop abortable" where
  "qmp_read_got G J f yank co y skip_events ret io s = (case ret of
     Inl e \<Rightarrow>
       (case yank of
          Some yank_and_read \<Rightarrow>
            if g_error_matches e COLOD_ERROR_TIMEOUT
            then do {
              x \<leftarrow> co_recurse (yank_and_read io s) R_yank (\<lambda>result io1 s1. Some (Done result, io1, s1));
              Some (Stop x) }
            else Some (Stop (Done (Inl e), io, s))
        | None \<Rightarrow> Some (Stop (Done (Inl e), io, s)))
   | Inr line \<Rightarrow>
       (case qmp_parse_result J line of
          Inl e \<Rightarrow> Some (Stop (Done (Inl e), io, s))
        | Inr result \<Rightarrow> do {
            event \<leftarrow> has_member (qr_json_root result) ''event'';
            (if skip_events \<and> event then
               if \<not> ch_discard_events (qmp_chan y s) then do {
                 s1 \<leftarrow> qmp_notify_event f (qr_json_root result) s;
                 Some (Stop (Yielding R_idle, io, snd (add_source G co s1))) }
               else Some (Again s)
             else Some (Stop (Done (Inr result), io, s))) }))"

lemma read_line_begin_shorter:
  "read_line_begin G co timeout io s = (Done r, io', s') \<Longrightarrow> length io' < length io"
  by (auto simp: read_line_begin_def read_line_loop_def read_line_wait_def
      split: list.splits io_answer.splits io_status.splits if_splits prod.splits)

lemma read_line_begin_shorter':
  "Done r = fst (read_line_begin G co timeout io s) \<Longrightarrow>
     length (fst (snd (read_line_begin G co timeout io s))) < length io"
  by (metis prod.collapse read_line_begin_shorter)

lemma logged_read_Some:
  "logged_read co y x = Some (r, io, s) \<longleftrightarrow> r = fst x \<and> io = fst (snd x) \<and>
     s = (case fst x of Done (Inr line) \<Rightarrow> qmp_log y (Got_line co line) (snd (snd x)) | _ \<Rightarrow> snd (snd x))"
  by (cases "(co, y, x)" rule: logged_read.cases) auto

function qmp_read_loop ::
    "'e glib \<Rightarrow> json_glib \<Rightarrow> 'z QmpState_scheme qmp_event_callback \<Rightarrow>
     (io_answer list \<Rightarrow> 'z QmpState_scheme \<Rightarrow> ('p, ColodQmpResult fallible, 'z QmpState_scheme) co_result) option \<Rightarrow>
     source \<Rightarrow> bool \<Rightarrow> bool \<Rightarrow> io_answer list \<Rightarrow> 'z QmpState_scheme \<Rightarrow>
     ('p qmp_read_pc, ColodQmpResult fallible, 'z QmpState_scheme) co_result" where
  "qmp_read_loop G J f yank co y skip_events io s = do {
     (r, io1, s1) \<leftarrow> logged_read co y (read_line_begin G co (qmp_timeout s) io s);
     (case r of
        Yielding pc \<Rightarrow> Some (Yielding (R_line pc), io1, s1)
      | Done ret \<Rightarrow> do {
          l \<leftarrow> qmp_read_got G J f yank co y skip_events ret io1 s1;
          (case l of
             Stop x \<Rightarrow> Some x
           | Again s2 \<Rightarrow> qmp_read_loop G J f yank co y skip_events io1 s2) }) }"
  by pat_completeness auto
termination
  by (relation "measure (\<lambda>(G, J, f, yank, co, y, skip_events, io, s). length io)")
    (auto simp: logged_read_Some intro: read_line_begin_shorter')

declare qmp_read_loop.simps [simp del]

definition qmp_read_resumed ::
    "'e glib \<Rightarrow> json_glib \<Rightarrow> 'z QmpState_scheme qmp_event_callback \<Rightarrow>
     (io_answer list \<Rightarrow> 'z QmpState_scheme \<Rightarrow> ('p, ColodQmpResult fallible, 'z QmpState_scheme) co_result) option \<Rightarrow>
     source \<Rightarrow> bool \<Rightarrow> bool \<Rightarrow> string fallible \<Rightarrow> io_answer list \<Rightarrow> 'z QmpState_scheme \<Rightarrow>
     ('p qmp_read_pc, ColodQmpResult fallible, 'z QmpState_scheme) co_result" where
  "qmp_read_resumed G J f yank co y skip_events ret io s = do {
     l \<leftarrow> qmp_read_got G J f yank co y skip_events ret io s;
     (case l of Stop x \<Rightarrow> Some x | Again s1 \<Rightarrow> qmp_read_loop G J f yank co y skip_events io s1) }"

fun qmp_read_resume ::
    "'e glib \<Rightarrow> json_glib \<Rightarrow> 'z QmpState_scheme qmp_event_callback \<Rightarrow>
     (io_answer list \<Rightarrow> 'z QmpState_scheme \<Rightarrow> ('p, ColodQmpResult fallible, 'z QmpState_scheme) co_result) option \<Rightarrow>
     ('p, ColodQmpResult fallible, 'z QmpState_scheme) co_resume \<Rightarrow>
     source \<Rightarrow> bool \<Rightarrow> bool \<Rightarrow> ('p qmp_read_pc, ColodQmpResult fallible, 'z QmpState_scheme) co_resume" where
  "qmp_read_resume G J f yank yank_resume co y skip_events (R_line pc) cur io s =
     co_recurse (logged_read co y (read_line_resume G co (qmp_timeout s) pc cur io s)) R_line
       (qmp_read_resumed G J f yank co y skip_events)"
| "qmp_read_resume G J f yank yank_resume co y skip_events R_idle cur io s =
     qmp_read_loop G J f yank co y skip_events io s"
| "qmp_read_resume G J f yank yank_resume co y skip_events (R_yank p) cur io s =
     co_recurse (yank_resume p cur io s) R_yank (\<lambda>result io1 s1. Some (Done result, io1, s1))"

subsection \<open>Executing a command\<close>

datatype 'p qmp_execute_pc = X_lock | X_write write_pc | X_read 'p

definition execute_read ::
    "source \<Rightarrow> bool \<Rightarrow> ColodQmpResult fallible \<Rightarrow> io_answer list \<Rightarrow> 'z QmpState_scheme \<Rightarrow>
     ('p, ColodQmpResult fallible, 'z QmpState_scheme) co_result" where
  "execute_read co y result io s = do {
     s1 \<leftarrow> qmp_unlock co y s;
     let s2 = s1\<lparr>qmp_inflight := qmp_inflight s1 - 1\<rparr>;
     (case result of
        Inl e \<Rightarrow> Some (Done (Inl (g_prefix_error ''qmp: '' e)), io, qmp_set_error e s2)
      | Inr r \<Rightarrow> Some (Done (Inr r), io, s2)) }"

definition execute_wrote ::
    "(io_answer list \<Rightarrow> 'z QmpState_scheme \<Rightarrow> ('p, ColodQmpResult fallible, 'z QmpState_scheme) co_result) \<Rightarrow>
     source \<Rightarrow> bool \<Rightarrow> unit fallible \<Rightarrow> io_answer list \<Rightarrow> 'z QmpState_scheme \<Rightarrow>
     ('p qmp_execute_pc, ColodQmpResult fallible, 'z QmpState_scheme) co_result" where
  "execute_wrote read_begin co y ret io s = (case ret of
     Inl e \<Rightarrow> do {
       s1 \<leftarrow> qmp_unlock co y (qmp_set_error e s);
       Some (Done (Inl (g_prefix_error ''qmp: '' e)), io, s1\<lparr>qmp_inflight := qmp_inflight s1 - 1\<rparr>) }
   | Inr _ \<Rightarrow> co_recurse (read_begin io s) X_read (execute_read co y))"

definition execute_lock ::
    "'e glib \<Rightarrow> (io_answer list \<Rightarrow> 'z QmpState_scheme \<Rightarrow> ('p, ColodQmpResult fallible, 'z QmpState_scheme) co_result) \<Rightarrow>
     source \<Rightarrow> bool \<Rightarrow> string \<Rightarrow> CoroutineLock option \<Rightarrow> io_answer list \<Rightarrow> 'z QmpState_scheme \<Rightarrow>
     ('p qmp_execute_pc, ColodQmpResult fallible, 'z QmpState_scheme) co_result" where
  "execute_lock G read_begin co y command lock io s = (case lock of
     None \<Rightarrow> Some (Yielding X_lock, io, snd (add_source G co s))
   | Some l \<Rightarrow>
       let s1 = qmp_set_lock y l s in
       co_recurse (logged_write co y (write_begin G co (qmp_timeout s1) command io s1)) X_write
         (execute_wrote read_begin co y))"

definition qmp_execute_begin ::
    "'e glib \<Rightarrow> (io_answer list \<Rightarrow> 'z QmpState_scheme \<Rightarrow> ('p, ColodQmpResult fallible, 'z QmpState_scheme) co_result) \<Rightarrow>
     source \<Rightarrow> bool \<Rightarrow> string \<Rightarrow> io_answer list \<Rightarrow> 'z QmpState_scheme \<Rightarrow>
     ('p qmp_execute_pc, ColodQmpResult fallible, 'z QmpState_scheme) co_result" where
  "qmp_execute_begin G read_begin co y command io s = do {
     let s1 = s\<lparr>qmp_inflight := qmp_inflight s + 1\<rparr>;
     lock \<leftarrow> colod_lock_co co (ch_lock (qmp_chan y s1));
     execute_lock G read_begin co y command lock io s1 }"

fun qmp_execute_resume ::
    "'e glib \<Rightarrow> (io_answer list \<Rightarrow> 'z QmpState_scheme \<Rightarrow> ('p, ColodQmpResult fallible, 'z QmpState_scheme) co_result) \<Rightarrow>
     ('p, ColodQmpResult fallible, 'z QmpState_scheme) co_resume \<Rightarrow>
     source \<Rightarrow> bool \<Rightarrow> string \<Rightarrow> ('p qmp_execute_pc, ColodQmpResult fallible, 'z QmpState_scheme) co_resume" where
  "qmp_execute_resume G read_begin read_resume co y command X_lock cur io s = do {
     lock \<leftarrow> colod_lock_retry co (ch_lock (qmp_chan y s));
     execute_lock G read_begin co y command lock io s }"
| "qmp_execute_resume G read_begin read_resume co y command (X_write pc) cur io s =
     co_recurse (logged_write co y (write_resume G co (qmp_timeout s) command pc cur io s)) X_write
       (execute_wrote read_begin co y)"
| "qmp_execute_resume G read_begin read_resume co y command (X_read p) cur io s =
     co_recurse (read_resume p cur io s) X_read (execute_read co y)"

subsection \<open>Yanking\<close>

text \<open>A read and an execution that do not yank.\<close>

type_synonym read0_pc = "unit qmp_read_pc"
type_synonym execute0_pc = "read0_pc qmp_execute_pc"

definition read0_begin ::
    "'e glib \<Rightarrow> json_glib \<Rightarrow> 'z QmpState_scheme qmp_event_callback \<Rightarrow> source \<Rightarrow> bool \<Rightarrow> bool \<Rightarrow>
     io_answer list \<Rightarrow> 'z QmpState_scheme \<Rightarrow> (read0_pc, ColodQmpResult fallible, 'z QmpState_scheme) co_result" where
  "read0_begin G J f co y skip_events = qmp_read_loop G J f None co y skip_events"

definition read0_resume ::
    "'e glib \<Rightarrow> json_glib \<Rightarrow> 'z QmpState_scheme qmp_event_callback \<Rightarrow> source \<Rightarrow> bool \<Rightarrow> bool \<Rightarrow>
     (read0_pc, ColodQmpResult fallible, 'z QmpState_scheme) co_resume" where
  "read0_resume G J f co y skip_events =
     qmp_read_resume G J f None (\<lambda>p cur io s. None) co y skip_events"

definition execute0_begin ::
    "'e glib \<Rightarrow> json_glib \<Rightarrow> 'z QmpState_scheme qmp_event_callback \<Rightarrow> source \<Rightarrow> bool \<Rightarrow> string \<Rightarrow>
     io_answer list \<Rightarrow> 'z QmpState_scheme \<Rightarrow> (execute0_pc, ColodQmpResult fallible, 'z QmpState_scheme) co_result" where
  "execute0_begin G J f co y command = qmp_execute_begin G (read0_begin G J f co y True) co y command"

definition execute0_resume ::
    "'e glib \<Rightarrow> json_glib \<Rightarrow> 'z QmpState_scheme qmp_event_callback \<Rightarrow> source \<Rightarrow> bool \<Rightarrow> string \<Rightarrow>
     (execute0_pc, ColodQmpResult fallible, 'z QmpState_scheme) co_resume" where
  "execute0_resume G J f co y command =
     qmp_execute_resume G (read0_begin G J f co y True) (read0_resume G J f co y True) co y command"

datatype qmp_yank_pc = Query_yank execute0_pc | Do_yank string execute0_pc

definition query_yank_command :: string where
  "query_yank_command = ''{'' @ [CHR 0x27] @ ''exec-oob'' @ [CHR 0x27] @ '': '' @ [CHR 0x27] @
     ''query-yank'' @ [CHR 0x27] @ '', '' @ [CHR 0x27] @ ''id'' @ [CHR 0x27] @ '': '' @ [CHR 0x27] @
     ''yank0'' @ [CHR 0x27] @ ''}'' @ [CHR 0x0A]"

definition yank_command :: "string \<Rightarrow> string" where
  "yank_command instances = ''{'' @ [CHR 0x27] @ ''exec-oob'' @ [CHR 0x27] @ '': '' @ [CHR 0x27] @
     ''yank'' @ [CHR 0x27] @ '', '' @ [CHR 0x27] @ ''id'' @ [CHR 0x27] @ '': '' @ [CHR 0x27] @
     ''yank0'' @ [CHR 0x27] @ '', '' @ [CHR 0x27] @ ''arguments'' @ [CHR 0x27] @ '':{ '' @ [CHR 0x27] @
     ''instances'' @ [CHR 0x27] @ '': '' @ instances @ '' }}'' @ [CHR 0x0A]"

definition yank_yanked ::
    "string \<Rightarrow> ColodQmpResult fallible \<Rightarrow> io_answer list \<Rightarrow> 'z QmpState_scheme \<Rightarrow>
     (qmp_yank_pc, unit fallible, 'z QmpState_scheme) co_result" where
  "yank_yanked command result io s = (case result of
     Inl e \<Rightarrow> Some (Done (Inl e), io, s)
   | Inr r \<Rightarrow> do {
       b \<leftarrow> has_member (qr_json_root r) ''error'';
       Some (if b
         then (Done (Inl (GError (Some COLOD_ERROR_FATAL) (''qmp yank: '' @ command @ '': '' @ qr_line r))), io, s)
         else (Done (Inr ()), io, qmp_set_yank s)) })"

definition yank_queried ::
    "'e glib \<Rightarrow> json_glib \<Rightarrow> 'z QmpState_scheme qmp_event_callback \<Rightarrow> source \<Rightarrow>
     ColodQmpResult fallible \<Rightarrow> io_answer list \<Rightarrow> 'z QmpState_scheme \<Rightarrow>
     (qmp_yank_pc, unit fallible, 'z QmpState_scheme) co_result" where
  "yank_queried G J f co result io s = (case result of
     Inl e \<Rightarrow> Some (Done (Inl e), io, s)
   | Inr r \<Rightarrow> do {
       b \<leftarrow> has_member (qr_json_root r) ''error'';
       (if b
        then Some (Done (Inl (GError (Some COLOD_ERROR_FATAL) (''qmp query-yank: '' @ qr_line r))), io, s)
        else do {
          instances \<leftarrow> pick_yank_instances J (qr_json_root r) (qmp_yank_instances s);
          let command = yank_command instances;
          co_recurse (execute0_begin G J f co True command io s) (Do_yank command) (yank_yanked command) }) })"

definition qmp_yank_begin ::
    "'e glib \<Rightarrow> json_glib \<Rightarrow> 'z QmpState_scheme qmp_event_callback \<Rightarrow> source \<Rightarrow>
     io_answer list \<Rightarrow> 'z QmpState_scheme \<Rightarrow> (qmp_yank_pc, unit fallible, 'z QmpState_scheme) co_result" where
  "qmp_yank_begin G J f co io s =
     co_recurse (execute0_begin G J f co True query_yank_command io s) Query_yank (yank_queried G J f co)"

fun qmp_yank_resume ::
    "'e glib \<Rightarrow> json_glib \<Rightarrow> 'z QmpState_scheme qmp_event_callback \<Rightarrow> source \<Rightarrow>
     (qmp_yank_pc, unit fallible, 'z QmpState_scheme) co_resume" where
  "qmp_yank_resume G J f co (Query_yank p) cur io s =
     co_recurse (execute0_resume G J f co True query_yank_command p cur io s) Query_yank (yank_queried G J f co)"
| "qmp_yank_resume G J f co (Do_yank command p) cur io s =
     co_recurse (execute0_resume G J f co True command p cur io s) (Do_yank command) (yank_yanked command)"

subsection \<open>Executing a command and yanking when the reply does not come\<close>

text \<open>What a read does on a timeout when it may yank: yank, then read again without.\<close>

datatype yank_read_pc = Yanking qmp_yank_pc | Read_again read0_pc

definition yank_read_yanked ::
    "'e glib \<Rightarrow> json_glib \<Rightarrow> 'z QmpState_scheme qmp_event_callback \<Rightarrow> source \<Rightarrow> bool \<Rightarrow> bool \<Rightarrow>
     unit fallible \<Rightarrow> io_answer list \<Rightarrow> 'z QmpState_scheme \<Rightarrow>
     (yank_read_pc, ColodQmpResult fallible, 'z QmpState_scheme) co_result" where
  "yank_read_yanked G J f co y skip_events ret io s = (case ret of
     Inl e \<Rightarrow> Some (Done (Inl e), io, s)
   | Inr _ \<Rightarrow> co_recurse (read0_begin G J f co y skip_events io s) Read_again
       (\<lambda>result io1 s1. Some (Done result, io1, s1)))"

definition yank_read_begin ::
    "'e glib \<Rightarrow> json_glib \<Rightarrow> 'z QmpState_scheme qmp_event_callback \<Rightarrow> source \<Rightarrow> bool \<Rightarrow> bool \<Rightarrow>
     io_answer list \<Rightarrow> 'z QmpState_scheme \<Rightarrow> (yank_read_pc, ColodQmpResult fallible, 'z QmpState_scheme) co_result" where
  "yank_read_begin G J f co y skip_events io s =
     co_recurse (qmp_yank_begin G J f co io s) Yanking (yank_read_yanked G J f co y skip_events)"

fun yank_read_resume ::
    "'e glib \<Rightarrow> json_glib \<Rightarrow> 'z QmpState_scheme qmp_event_callback \<Rightarrow> source \<Rightarrow> bool \<Rightarrow> bool \<Rightarrow>
     (yank_read_pc, ColodQmpResult fallible, 'z QmpState_scheme) co_resume" where
  "yank_read_resume G J f co y skip_events (Yanking p) cur io s =
     co_recurse (qmp_yank_resume G J f co p cur io s) Yanking (yank_read_yanked G J f co y skip_events)"
| "yank_read_resume G J f co y skip_events (Read_again p) cur io s =
     co_recurse (read0_resume G J f co y skip_events p cur io s) Read_again
       (\<lambda>result io1 s1. Some (Done result, io1, s1))"

type_synonym read1_pc = "yank_read_pc qmp_read_pc"
type_synonym execute1_pc = "read1_pc qmp_execute_pc"

definition read1_begin ::
    "'e glib \<Rightarrow> json_glib \<Rightarrow> 'z QmpState_scheme qmp_event_callback \<Rightarrow> source \<Rightarrow> bool \<Rightarrow> bool \<Rightarrow>
     io_answer list \<Rightarrow> 'z QmpState_scheme \<Rightarrow> (read1_pc, ColodQmpResult fallible, 'z QmpState_scheme) co_result" where
  "read1_begin G J f co y skip_events =
     qmp_read_loop G J f (Some (yank_read_begin G J f co y skip_events)) co y skip_events"

definition read1_resume ::
    "'e glib \<Rightarrow> json_glib \<Rightarrow> 'z QmpState_scheme qmp_event_callback \<Rightarrow> source \<Rightarrow> bool \<Rightarrow> bool \<Rightarrow>
     (read1_pc, ColodQmpResult fallible, 'z QmpState_scheme) co_resume" where
  "read1_resume G J f co y skip_events =
     qmp_read_resume G J f (Some (yank_read_begin G J f co y skip_events))
       (yank_read_resume G J f co y skip_events) co y skip_events"

text \<open>\<open>_qmp_execute_nocheck_co\<close> and, with the check of the reply, \<open>_qmp_execute_co\<close>.\<close>

definition qmp_execute_nocheck_begin ::
    "'e glib \<Rightarrow> json_glib \<Rightarrow> 'z QmpState_scheme qmp_event_callback \<Rightarrow> source \<Rightarrow> string \<Rightarrow>
     io_answer list \<Rightarrow> 'z QmpState_scheme \<Rightarrow> (execute1_pc, ColodQmpResult fallible, 'z QmpState_scheme) co_result" where
  "qmp_execute_nocheck_begin G J f co command =
     qmp_execute_begin G (read1_begin G J f co False True) co False command"

definition qmp_execute_nocheck_resume ::
    "'e glib \<Rightarrow> json_glib \<Rightarrow> 'z QmpState_scheme qmp_event_callback \<Rightarrow> source \<Rightarrow> string \<Rightarrow>
     (execute1_pc, ColodQmpResult fallible, 'z QmpState_scheme) co_resume" where
  "qmp_execute_nocheck_resume G J f co command =
     qmp_execute_resume G (read1_begin G J f co False True) (read1_resume G J f co False True) co False command"

definition qmp_execute_check ::
    "string \<Rightarrow> ColodQmpResult fallible \<Rightarrow> io_answer list \<Rightarrow> 'z QmpState_scheme \<Rightarrow>
     (execute1_pc, ColodQmpResult fallible, 'z QmpState_scheme) co_result" where
  "qmp_execute_check command result io s = (case result of
     Inl e \<Rightarrow> Some (Done (Inl e), io, s)
   | Inr r \<Rightarrow> do {
       b \<leftarrow> has_member (qr_json_root r) ''error'';
       Some (Done (if b
         then Inl (GError (Some COLOD_ERROR_QMP) (''qmp command returned error: '' @ command @ '' '' @ qr_line r))
         else Inr r), io, s) })"

subsection \<open>The handshake\<close>

text \<open>
  The handshake of channel \<open>y\<close> is the coroutine \<open>S_qmp_handshake y\<close>; it holds the
  channel's lock from its creation on.
\<close>

datatype handshake_pc = Hs_start | Hs_greeting read0_pc | Hs_capabilities execute0_pc

definition qmp_capabilities_command :: string where
  "qmp_capabilities_command = ''{'' @ [CHR 0x27] @ ''execute'' @ [CHR 0x27] @ '': '' @ [CHR 0x27] @
     ''qmp_capabilities'' @ [CHR 0x27] @ '', '' @ [CHR 0x27] @ ''arguments'' @ [CHR 0x27] @ '': {'' @
     [CHR 0x27] @ ''enable'' @ [CHR 0x27] @ '': ['' @ [CHR 0x27] @ ''oob'' @ [CHR 0x27] @ '']}}'' @ [CHR 0x0A]"

definition handshake_capable ::
    "bool \<Rightarrow> ColodQmpResult fallible \<Rightarrow> io_answer list \<Rightarrow> 'z QmpState_scheme \<Rightarrow>
     (handshake_pc, unit, 'z QmpState_scheme) co_result" where
  "handshake_capable y result io s = do {
     s1 \<leftarrow> qmp_unlock (S_qmp_handshake y) y s;
     (case result of
        Inl e \<Rightarrow> Some (Done (), io, qmp_set_error e s1)
      | Inr r \<Rightarrow> do {
          b \<leftarrow> has_member (qr_json_root r) ''error'';
          Some (Done (), io, if b
            then qmp_set_error (GError (Some COLOD_ERROR_FATAL) (''qmp_capabilities: '' @ qr_line r)) s1
            else s1) }) }"

definition handshake_greeted ::
    "'e glib \<Rightarrow> json_glib \<Rightarrow> 'z QmpState_scheme qmp_event_callback \<Rightarrow> bool \<Rightarrow>
     ColodQmpResult fallible \<Rightarrow> io_answer list \<Rightarrow> 'z QmpState_scheme \<Rightarrow>
     (handshake_pc, unit, 'z QmpState_scheme) co_result" where
  "handshake_greeted G J f y result io s = (case result of
     Inl e \<Rightarrow> do {
       s1 \<leftarrow> qmp_unlock (S_qmp_handshake y) y s;
       Some (Done (), io, qmp_set_error e s1) }
   | Inr r \<Rightarrow> co_recurse (execute0_begin G J f (S_qmp_handshake y) y qmp_capabilities_command io s)
       Hs_capabilities (handshake_capable y))"

fun handshake_resume ::
    "'e glib \<Rightarrow> json_glib \<Rightarrow> 'z QmpState_scheme qmp_event_callback \<Rightarrow> bool \<Rightarrow>
     (handshake_pc, unit, 'z QmpState_scheme) co_resume" where
  "handshake_resume G J f y Hs_start cur io s =
     co_recurse (read0_begin G J f (S_qmp_handshake y) y True io s) Hs_greeting (handshake_greeted G J f y)"
| "handshake_resume G J f y (Hs_greeting p) cur io s =
     co_recurse (read0_resume G J f (S_qmp_handshake y) y True p cur io s) Hs_greeting
       (handshake_greeted G J f y)"
| "handshake_resume G J f y (Hs_capabilities p) cur io s =
     co_recurse (execute0_resume G J f (S_qmp_handshake y) y qmp_capabilities_command p cur io s)
       Hs_capabilities (handshake_capable y)"

text \<open>The end of both reader coroutines.\<close>

definition qmp_coroutine_end :: "source \<Rightarrow> 'z QmpState_scheme \<Rightarrow> 'z QmpState_scheme abortable" where
  "qmp_coroutine_end co s = do {
     ss \<leftarrow> colod_assert_remove_one_source co (ml_sources s);
     Some (s\<lparr>ml_sources := ss, qmp_inflight := qmp_inflight s - 1\<rparr>) }"

definition qmp_handshake_readable_co ::
    "'e glib \<Rightarrow> json_glib \<Rightarrow> 'z QmpState_scheme qmp_event_callback \<Rightarrow> bool \<Rightarrow> handshake_pc \<Rightarrow> guint \<Rightarrow>
     io_answer list \<Rightarrow> 'z QmpState_scheme \<Rightarrow> (handshake_pc option \<times> 'z QmpState_scheme) abortable" where
  "qmp_handshake_readable_co G J f y pc cur io s = do {
     (r, _, s1) \<leftarrow> handshake_resume G J f y pc cur io s;
     (case r of
        Yielding pc' \<Rightarrow> Some (Some pc', s1)
      | Done _ \<Rightarrow> do { s2 \<leftarrow> qmp_coroutine_end (S_qmp_handshake y) s1; Some (None, s2) }) }"

definition qmp_handshake_coroutine :: "'e glib \<Rightarrow> bool \<Rightarrow> 'z QmpState_scheme \<Rightarrow> 'z QmpState_scheme abortable" where
  "qmp_handshake_coroutine G y s = do {
     c_assert (lk_count (ch_lock (qmp_chan y s)) = 0);
     let s1 = qmp_set_lock y \<lparr>lk_holder = Some (S_qmp_handshake y), lk_count = 1\<rparr> s;
     let s2 = snd (add_source G (S_qmp_handshake y) s1);
     Some (s2\<lparr>qmp_inflight := qmp_inflight s2 + 1\<rparr>) }"

subsection \<open>The event reader\<close>

text \<open>
  A suspension comes with what the coroutine yields: \<open>True\<close> (\<^verbatim>\<open>G_SOURCE_CONTINUE\<close>)
  keeps the watch that resumed it, which it does while the channel is locked.
\<close>

datatype event_pc = Ev_start | Ev_watch | Ev_read read0_pc

definition event_again ::
    "'e glib \<Rightarrow> bool \<Rightarrow> io_answer list \<Rightarrow> 'z QmpState_scheme \<Rightarrow>
     (bool \<times> event_pc, unit, 'z QmpState_scheme) co_result" where
  "event_again G y io s = Some (Yielding (False, Ev_watch), io, snd (add_source G (S_qmp_event y) s))"

definition event_got ::
    "'e glib \<Rightarrow> 'z QmpState_scheme qmp_event_callback \<Rightarrow> bool \<Rightarrow>
     ColodQmpResult fallible \<Rightarrow> io_answer list \<Rightarrow> 'z QmpState_scheme \<Rightarrow>
     (bool \<times> event_pc, unit, 'z QmpState_scheme) co_result" where
  "event_got G f y result io s = do {
     s1 \<leftarrow> qmp_unlock (S_qmp_event y) y s;
     (case result of
        Inl e \<Rightarrow> Some (Done (), io, qmp_set_error e s1)
      | Inr r \<Rightarrow> do {
          event \<leftarrow> has_member (qr_json_root r) ''event'';
          (if \<not> event
           then event_again G y io
             (qmp_set_error (GError (Some COLOD_ERROR_FATAL) (''Not an event: '' @ qr_line r)) s1)
           else do {
             s2 \<leftarrow> (if \<not> ch_discard_events (qmp_chan y s1)
               then qmp_notify_event f (qr_json_root r) s1 else Some s1);
             event_again G y io s2 }) }) }"

fun event_resume ::
    "'e glib \<Rightarrow> json_glib \<Rightarrow> 'z QmpState_scheme qmp_event_callback \<Rightarrow> bool \<Rightarrow> event_pc \<Rightarrow> guint \<Rightarrow>
     io_answer list \<Rightarrow> 'z QmpState_scheme \<Rightarrow> (bool \<times> event_pc, unit, 'z QmpState_scheme) co_result" where
  "event_resume G J f y Ev_start cur io s = event_again G y io s"
| "event_resume G J f y Ev_watch cur io s =
     (if lk_holder (ch_lock (qmp_chan y s)) \<noteq> None then Some (Yielding (True, Ev_watch), io, s)
      else do {
        lock \<leftarrow> colod_lock_co (S_qmp_event y) (ch_lock (qmp_chan y s));
        l \<leftarrow> c_nonnull lock;
        co_recurse (read0_begin G J f (S_qmp_event y) y False io (qmp_set_lock y l s))
          (\<lambda>p. (False, Ev_read p)) (event_got G f y) })"
| "event_resume G J f y (Ev_read p) cur io s =
     co_recurse (read0_resume G J f (S_qmp_event y) y False p cur io s)
       (\<lambda>p. (False, Ev_read p)) (event_got G f y)"

definition qmp_event_co ::
    "'e glib \<Rightarrow> json_glib \<Rightarrow> 'z QmpState_scheme qmp_event_callback \<Rightarrow> bool \<Rightarrow> event_pc \<Rightarrow> guint \<Rightarrow>
     io_answer list \<Rightarrow> 'z QmpState_scheme \<Rightarrow> ((bool \<times> event_pc) option \<times> 'z QmpState_scheme) abortable" where
  "qmp_event_co G J f y pc cur io s = do {
     (r, _, s1) \<leftarrow> event_resume G J f y pc cur io s;
     (case r of
        Yielding pc' \<Rightarrow> Some (Some pc', s1)
      | Done _ \<Rightarrow> do { s2 \<leftarrow> qmp_coroutine_end (S_qmp_event y) s1; Some (None, s2) }) }"

definition qmp_event_coroutine :: "'e glib \<Rightarrow> bool \<Rightarrow> 'z QmpState_scheme \<Rightarrow> 'z QmpState_scheme" where
  "qmp_event_coroutine G y s = (let s1 = snd (add_source G (S_qmp_event y) s) in
     s1\<lparr>qmp_inflight := qmp_inflight s1 + 1\<rparr>)"

subsection \<open>Creation and release\<close>

text \<open>\<open>channel_error\<close> and \<open>yank_error\<close> are what \<^verbatim>\<open>colod_create_channel\<close> reports.\<close>

definition qmp_new ::
    "'e glib \<Rightarrow> gerror option \<Rightarrow> gerror option \<Rightarrow> guint \<Rightarrow> 'z QmpState_scheme \<Rightarrow>
     (unit fallible \<times> 'z QmpState_scheme) abortable" where
  "qmp_new G channel_error yank_error timeout s = (case (channel_error, yank_error) of
     (Some e, _) \<Rightarrow> Some (Inl e, s)
   | (None, Some e) \<Rightarrow> Some (Inl e, s)
   | (None, None) \<Rightarrow> do {
       let s0 = s\<lparr>qmp_channel := idle_channel False, qmp_yank_channel := idle_channel True,
         qmp_timeout := timeout, qmp_yank_instances := None, qmp_yank_callbacks := [],
         qmp_event_callbacks := [], qmp_hup_callbacks := [], qmp_did_yank := False,
         qmp_error := None, qmp_inflight := 0, qmp_waits := (\<lambda>_. None)\<rparr>;
       s1 \<leftarrow> qmp_handshake_coroutine G False s0;
       s2 \<leftarrow> qmp_handshake_coroutine G True s1;
       let s3 = qmp_event_coroutine G False s2;
       let s4 = qmp_event_coroutine G True s3;
       let (i, s5) = add_source G S_hup s4;
       Some (Inr (), s5\<lparr>qmp_hup_source_id := i\<rparr>) })"

definition qmp_hup_source :: "'e glib \<Rightarrow> source \<Rightarrow> 'z QmpState_scheme \<Rightarrow> guint \<times> 'z QmpState_scheme" where
  "qmp_hup_source G func s = add_source G func s"

text \<open>\<open>qmp_free\<close> up to its loop, which runs the main loop until nothing is in flight.\<close>

definition qmp_free :: "'z QmpState_scheme \<Rightarrow> 'z QmpState_scheme" where
  "qmp_free s = (let s1 = (if qmp_hup_source_id s \<noteq> 0 then remove_source (qmp_hup_source_id s) s else s) in
     s1\<lparr>qmp_event_callbacks := colod_callback_clear (qmp_event_callbacks s1),
        qmp_yank_callbacks := colod_callback_clear (qmp_yank_callbacks s1),
        qmp_hup_callbacks := colod_callback_clear (qmp_hup_callbacks s1)\<rparr>)"

subsection \<open>All coroutines\<close>

text \<open>
  The system of the coroutines that use the channels: the two handshakes, the two readers,
  and any others, which execute a command (\<open>check\<close> for \<open>_qmp_execute_co\<close>) or yank.
  \<open>qs_cos\<close> has the suspension point of each; \<open>qs_returned\<close> is output, the calls that
  returned, in order.
\<close>

datatype qmp_co =
    Co_execute bool string execute1_pc | Co_yank qmp_yank_pc
  | Co_handshake bool handshake_pc | Co_event bool event_pc

record 's QmpSystem =
  qs_state :: 's
  qs_cos :: "(source \<times> qmp_co) list"
  qs_returned :: "(source \<times> string \<times> ColodQmpResult fallible) list"

fun reader_co :: "source \<Rightarrow> bool" where
  "reader_co (S_qmp_handshake y) = True"
| "reader_co (S_qmp_event y) = True"
| "reader_co _ = False"

definition qs_suspend :: "source \<Rightarrow> qmp_co \<Rightarrow> 's QmpSystem \<Rightarrow> 's QmpSystem" where
  "qs_suspend co pc sys = sys\<lparr>qs_cos := (co, pc) # qs_cos sys\<rparr>"

definition qs_execute ::
    "source \<Rightarrow> bool \<Rightarrow> string \<Rightarrow> (execute1_pc, ColodQmpResult fallible, 'z QmpState_scheme) co_result \<Rightarrow>
     'z QmpState_scheme QmpSystem \<Rightarrow> 'z QmpState_scheme QmpSystem abortable" where
  "qs_execute co check command res sys = do {
     (r, _, s) \<leftarrow> (if check then co_recurse res (\<lambda>p. p) (qmp_execute_check command) else res);
     let sys1 = sys\<lparr>qs_state := s\<rparr>;
     Some (case r of
       Yielding p \<Rightarrow> qs_suspend co (Co_execute check command p) sys1
     | Done v \<Rightarrow> sys1\<lparr>qs_returned := qs_returned sys @ [(co, command, v)]\<rparr>) }"

definition qs_yank ::
    "source \<Rightarrow> (qmp_yank_pc, unit fallible, 'z QmpState_scheme) co_result \<Rightarrow>
     'z QmpState_scheme QmpSystem \<Rightarrow> 'z QmpState_scheme QmpSystem abortable" where
  "qs_yank co res sys = do {
     (r, _, s) \<leftarrow> res;
     let sys1 = sys\<lparr>qs_state := s\<rparr>;
     Some (case r of Yielding p \<Rightarrow> qs_suspend co (Co_yank p) sys1 | Done v \<Rightarrow> sys1) }"

text \<open>
  The source \<open>i\<close> resumes \<open>co\<close> at \<open>pc\<close>; the result is whether the main loop keeps the source.
\<close>

fun qs_resume ::
    "'e glib \<Rightarrow> json_glib \<Rightarrow> 'z QmpState_scheme qmp_event_callback \<Rightarrow> source \<Rightarrow> qmp_co \<Rightarrow> guint \<Rightarrow>
     io_answer list \<Rightarrow> 'z QmpState_scheme QmpSystem \<Rightarrow> (bool \<times> 'z QmpState_scheme QmpSystem) abortable" where
  "qs_resume G J f co (Co_execute check command p) i io sys = do {
     sys1 \<leftarrow> qs_execute co check command (qmp_execute_nocheck_resume G J f co command p i io (qs_state sys)) sys;
     Some (False, sys1) }"
| "qs_resume G J f co (Co_yank p) i io sys = do {
     sys1 \<leftarrow> qs_yank co (qmp_yank_resume G J f co p i io (qs_state sys)) sys;
     Some (False, sys1) }"
| "qs_resume G J f co (Co_handshake y p) i io sys = do {
     (r, s) \<leftarrow> qmp_handshake_readable_co G J f y p i io (qs_state sys);
     let sys1 = sys\<lparr>qs_state := s\<rparr>;
     Some (False, case r of Some p' \<Rightarrow> qs_suspend co (Co_handshake y p') sys1 | None \<Rightarrow> sys1) }"
| "qs_resume G J f co (Co_event y p) i io sys = do {
     (r, s) \<leftarrow> qmp_event_co G J f y p i io (qs_state sys);
     let sys1 = sys\<lparr>qs_state := s\<rparr>;
     Some (case r of
       Some (keep, p') \<Rightarrow> (keep, qs_suspend co (Co_event y p') sys1) | None \<Rightarrow> (False, sys1)) }"

definition qs_without :: "source \<Rightarrow> 's QmpSystem \<Rightarrow> 's QmpSystem" where
  "qs_without co sys = sys\<lparr>qs_cos := filter (\<lambda>x. fst x \<noteq> co) (qs_cos sys)\<rparr>"

definition qs_dispatch ::
    "'e glib \<Rightarrow> json_glib \<Rightarrow> 'z QmpState_scheme qmp_event_callback \<Rightarrow> guint \<Rightarrow> io_answer list \<Rightarrow>
     'z QmpState_scheme QmpSystem \<Rightarrow> 'z QmpState_scheme QmpSystem abortable" where
  "qs_dispatch G J f i io sys = (case map_of (ml_sources (qs_state sys)) i of
     None \<Rightarrow> Some sys
   | Some src \<Rightarrow> let co = source_user_data src in
       (case map_of (qs_cos sys) co of
          None \<Rightarrow> Some sys
        | Some pc \<Rightarrow> do {
            (keep, sys1) \<leftarrow> qs_resume G J f co pc i io (qs_without co sys);
            Some (if keep then sys1 else sys1\<lparr>qs_state := remove_source i (qs_state sys1)\<rparr>) }))"

text \<open>\<open>Qmp_other\<close> is a step of the rest of the daemon, which has no access to the channels.\<close>

datatype 's qmp_input =
    Call_execute source bool string "io_answer list" | Call_yank source "io_answer list"
  | Qmp_dispatch guint "io_answer list" | Qmp_other 's

definition same_channels :: "'z QmpState_scheme \<Rightarrow> 'z QmpState_scheme \<Rightarrow> bool" where
  "same_channels s s' \<longleftrightarrow> qmp_channel s' = qmp_channel s \<and> qmp_yank_channel s' = qmp_yank_channel s \<and>
     qmp_inflight s' = qmp_inflight s \<and> (qmp_error s \<noteq> None \<longrightarrow> qmp_error s' \<noteq> None)"

fun qs_step ::
    "'e glib \<Rightarrow> json_glib \<Rightarrow> 'z QmpState_scheme qmp_event_callback \<Rightarrow> 'z QmpState_scheme qmp_input \<Rightarrow>
     'z QmpState_scheme QmpSystem \<Rightarrow> 'z QmpState_scheme QmpSystem abortable" where
  "qs_step G J f (Call_execute co check command io) sys =
     (if reader_co co \<or> map_of (qs_cos sys) co \<noteq> None then Some sys
      else qs_execute co check command (qmp_execute_nocheck_begin G J f co command io (qs_state sys)) sys)"
| "qs_step G J f (Call_yank co io) sys =
     (if reader_co co \<or> map_of (qs_cos sys) co \<noteq> None then Some sys
      else qs_yank co (qmp_yank_begin G J f co io (qs_state sys)) sys)"
| "qs_step G J f (Qmp_dispatch i io) sys = qs_dispatch G J f i io sys"
| "qs_step G J f (Qmp_other s) sys =
     (if same_channels (qs_state sys) s then Some (sys\<lparr>qs_state := s\<rparr>) else Some sys)"

definition qs_start :: "'s \<Rightarrow> 's QmpSystem" where
  "qs_start s = \<lparr>qs_state = s, qs_cos =
     [(S_qmp_handshake False, Co_handshake False Hs_start), (S_qmp_handshake True, Co_handshake True Hs_start),
      (S_qmp_event False, Co_event False Ev_start), (S_qmp_event True, Co_event True Ev_start)],
     qs_returned = []\<rparr>"

inductive qs_reach ::
    "'e glib \<Rightarrow> json_glib \<Rightarrow> 'z QmpState_scheme qmp_event_callback \<Rightarrow> guint \<Rightarrow>
     'z QmpState_scheme \<Rightarrow> 'z QmpState_scheme QmpSystem \<Rightarrow> bool"
  for G J f timeout s0 where
  new: "qmp_new G None None timeout s0 = Some (Inr (), s) \<Longrightarrow> qs_reach G J f timeout s0 (qs_start s)"
| step: "qs_reach G J f timeout s0 sys \<Longrightarrow> qs_step G J f inp sys = Some sys' \<Longrightarrow> qs_reach G J f timeout s0 sys'"

end
