(* ===== verification/Qmp_Exclusion.thy ===== *)
theory Qmp_Exclusion
  imports Qmp_Channel
begin

text \<open>
  The channels are used by one coroutine at a time. \<open>owns co N F K\<close> describes, from
  the point of view of one coroutine, how often it holds each lock and how many of the calls in
  flight are its own; \<open>K\<close> has the others' calls and the records of channels that do
  not change. \<open>channel_step co\<close> is what its segments may do to the channels. Each
  function of \<open>Qmp_Channel\<close> gets one rule in these terms.
\<close>

subsection \<open>The view of one coroutine\<close>

definition holds :: "source \<Rightarrow> nat \<Rightarrow> CoroutineLock \<Rightarrow> bool" where
  "holds co n l \<longleftrightarrow> n < 8 \<and> (lk_holder l = None \<longrightarrow> lk_count l = 0) \<and>
     (if n = 0 then lk_holder l \<noteq> Some co else lk_holder l = Some co \<and> lk_count l = of_nat n)"

type_synonym others = "guint \<times> (bool \<Rightarrow> ch_io list option)"

definition owns :: "source \<Rightarrow> (bool \<Rightarrow> nat) \<Rightarrow> nat \<Rightarrow> others \<Rightarrow> 'z QmpState_scheme \<Rightarrow> bool" where
  "owns co N F K s \<longleftrightarrow> (\<forall>y. holds co (N y) (ch_lock (qmp_chan y s))) \<and> qmp_inflight s = fst K + of_nat F \<and>
     (\<forall>y l. snd K y = Some l \<longrightarrow> ch_log (qmp_chan y s) = l)"

definition chan_step :: "source \<Rightarrow> QmpChannel \<Rightarrow> QmpChannel \<Rightarrow> bool" where
  "chan_step co c c' \<longleftrightarrow> ch_discard_events c' = ch_discard_events c \<and>
     (if lk_holder (ch_lock c) = None \<or> lk_holder (ch_lock c) = Some co
      then lk_holder (ch_lock c') = None \<or> lk_holder (ch_lock c') = Some co else c' = c)"

definition channel_step :: "source \<Rightarrow> 'z QmpState_scheme \<Rightarrow> 'z QmpState_scheme \<Rightarrow> bool" where
  "channel_step co s s' \<longleftrightarrow> (qmp_error s \<noteq> None \<longrightarrow> qmp_error s' \<noteq> None) \<and>
     (\<forall>y. chan_step co (qmp_chan y s) (qmp_chan y s'))"

lemma chan_step_refl [simp]: "chan_step co c c"
  by (simp add: chan_step_def)

lemma chan_step_trans: "chan_step co c1 c2 \<Longrightarrow> chan_step co c2 c3 \<Longrightarrow> chan_step co c1 c3"
  by (auto simp: chan_step_def split: if_splits)

lemma channel_step_refl [simp]: "channel_step co s s"
  by (simp add: channel_step_def)

lemma channel_step_trans [trans]: "channel_step co s1 s2 \<Longrightarrow> channel_step co s2 s3 \<Longrightarrow> channel_step co s1 s3"
  by (auto simp: channel_step_def intro: chan_step_trans)

text \<open>What leaves the channels alone.\<close>

lemma same_channels_chan: "same_channels s s' \<Longrightarrow> qmp_chan y s' = qmp_chan y s"
  by (simp add: same_channels_def qmp_chan_def)

lemma same_channels_refl [simp]: "same_channels s s"
  by (simp add: same_channels_def)

lemma same_channels_trans [trans]:
  "same_channels s1 s2 \<Longrightarrow> same_channels s2 s3 \<Longrightarrow> same_channels s1 s3"
  by (simp add: same_channels_def)

lemma same_channels_sources [simp]:
  "same_channels s (s\<lparr>ml_sources := ss\<rparr>)" "same_channels s (snd (add_source G co s))"
  "same_channels s (remove_source i s)" "same_channels s (qmp_set_error e s)"
  "same_channels s (qmp_set_yank s)"
  by (simp_all add: same_channels_def add_source_eq Let_def remove_source_def qmp_set_error_def qmp_set_yank_def)

lemma same_channels_step: "same_channels s s' \<Longrightarrow> channel_step co s s'"
  by (simp add: channel_step_def same_channels_chan) (simp add: same_channels_def)

lemma same_channels_owns: "same_channels s s' \<Longrightarrow> owns co N F K s' = owns co N F K s"
  by (simp add: owns_def same_channels_chan) (simp add: same_channels_def)

text \<open>The other coroutines' view survives a step of this one.\<close>

lemma holds_other:
  assumes "channel_step co s s'" and "holds co' n (ch_lock (qmp_chan y s))" and "co' \<noteq> co"
    and "holds co m (ch_lock (qmp_chan y s'))"
  shows "holds co' n (ch_lock (qmp_chan y s'))"
proof -
  have "chan_step co (qmp_chan y s) (qmp_chan y s')" using assms(1) by (simp add: channel_step_def)
  with assms(2-) show ?thesis by (auto simp: chan_step_def holds_def split: if_splits)
qed

subsection \<open>Locks and the log\<close>

lemma qmp_chan_set_lock [simp]:
  "qmp_chan y (qmp_set_lock z l s) = (if y = z then (qmp_chan y s)\<lparr>ch_lock := l\<rparr> else qmp_chan y s)"
  by (auto simp: qmp_set_lock_def qmp_set_chan_def qmp_chan_def)

lemma qmp_chan_log [simp]:
  "qmp_chan y (qmp_log z e s) =
     (if y = z then (qmp_chan y s)\<lparr>ch_log := ch_log (qmp_chan y s) @ [e]\<rparr> else qmp_chan y s)"
  by (auto simp: qmp_log_def qmp_set_chan_def qmp_chan_def)

lemma qmp_set_lock_sel [simp]:
  "qmp_inflight (qmp_set_lock z l s) = qmp_inflight s" "qmp_error (qmp_set_lock z l s) = qmp_error s"
  "qmp_timeout (qmp_set_lock z l s) = qmp_timeout s"
  by (simp_all add: qmp_set_lock_def qmp_set_chan_def)

lemma qmp_log_sel [simp]:
  "qmp_inflight (qmp_log z e s) = qmp_inflight s" "qmp_error (qmp_log z e s) = qmp_error s"
  by (simp_all add: qmp_log_def qmp_set_chan_def)

lemma qmp_chan_inflight [simp]: "qmp_chan y (s\<lparr>qmp_inflight := n\<rparr>) = qmp_chan y s"
  by (simp add: qmp_chan_def)

lemma of_nat_small: "0 < n \<Longrightarrow> n < 9 \<Longrightarrow> (of_nat n :: guint) \<noteq> 0"
proof -
  assume "0 < n" "n < 9"
  then have "unat (of_nat n :: guint) = n" by (simp add: unat_of_nat take_bit_nat_eq_self)
  with \<open>0 < n\<close> show ?thesis by auto
qed

lemma lock_rule:
  assumes "colod_lock_co co l = Some (Some l')" and "holds co n l" and "n < 7"
  shows "holds co (Suc n) l' \<and> lk_holder l \<in> {None, Some co}"
  using assms of_nat_small [of n]
  by (auto simp: colod_lock_co_def colod_lock_retry_def holds_def bind_eq_Some_conv add.commute
      split: if_splits)

lemma lock_retry_rule:
  assumes "colod_lock_retry co l = Some (Some l')" and "holds co 0 l"
  shows "holds co 1 l' \<and> lk_holder l = None"
  using assms
  by (auto simp: colod_lock_retry_def holds_def bind_eq_Some_conv split: if_splits)

lemma unlock_rule:
  assumes "colod_unlock_co co l = Some l'" and "holds co n l"
  shows "0 < n \<and> holds co (n - 1) l'"
proof -
  from assms have n: "0 < n" "n < 8"
    by (auto simp: colod_unlock_co_def holds_def bind_eq_Some_conv split: if_splits)
  then have c: "(of_nat n - 1 :: guint) = of_nat (n - 1)" by (simp add: of_nat_diff)
  have h: "lk_holder l = Some co" "lk_count l = of_nat n"
    using assms(2) n by (simp_all add: holds_def)
  then have l': "l' = l\<lparr>lk_count := of_nat (n - 1),
      lk_holder := (if (of_nat (n - 1) :: guint) = 0 then None else Some co)\<rparr>"
    using assms(1) c by (auto simp: colod_unlock_co_def bind_eq_Some_conv Let_def)
  show ?thesis
  proof (cases "n = 1")
    case True
    then show ?thesis by (simp add: l' holds_def)
  next
    case False
    with n have "0 < n - 1" "n - 1 < 9" by simp_all
    then have "(of_nat (n - 1) :: guint) \<noteq> 0" by (rule of_nat_small)
    with n False show ?thesis by (simp add: l' holds_def)
  qed
qed

subsection \<open>What a read and a write record\<close>

definition is_event :: "json_glib \<Rightarrow> string \<Rightarrow> bool" where
  "is_event J line \<longleftrightarrow> (\<exists>root. json_from_string J line = Some root \<and> has_member root ''event'' = Some True)"

definition log_of :: "bool \<Rightarrow> 'z QmpState_scheme \<Rightarrow> ch_io list" where
  "log_of y s = ch_log (qmp_chan y s)"

text \<open>Reading on \<open>y\<close> records events and then the line it returns.\<close>

definition read_log :: "json_glib \<Rightarrow> source \<Rightarrow> bool \<Rightarrow> bool \<Rightarrow> ('p, ColodQmpResult fallible) co \<Rightarrow>
     'z QmpState_scheme \<Rightarrow> 'z QmpState_scheme \<Rightarrow> bool" where
  "read_log J co y skip r s s' \<longleftrightarrow> (case r of
     Yielding p \<Rightarrow> \<exists>events. (\<forall>l\<in>set events. is_event J l) \<and> log_of y s' = log_of y s @ map (Got_line co) events
   | Done (Inr x) \<Rightarrow> \<exists>events. (\<forall>l\<in>set events. is_event J l) \<and>
       log_of y s' = log_of y s @ map (Got_line co) events @ [Got_line co (qr_line x)] \<and>
       (skip \<longrightarrow> \<not> is_event J (qr_line x))
   | Done (Inl e) \<Rightarrow> True)"

text \<open>The rule of a call: \<open>nest\<close> and \<open>flights\<close> are what a suspension point holds.\<close>

definition read_rule ::
    "json_glib \<Rightarrow> source \<Rightarrow> bool \<Rightarrow> bool \<Rightarrow> (bool \<Rightarrow> nat) \<Rightarrow> nat \<Rightarrow> others \<Rightarrow> ('p \<Rightarrow> bool \<Rightarrow> nat) \<Rightarrow> ('p \<Rightarrow> nat) \<Rightarrow>
     'z QmpState_scheme \<Rightarrow> ('p, ColodQmpResult fallible, 'z QmpState_scheme) co_result \<Rightarrow> bool" where
  "read_rule J co y skip N F K nest flights s res \<longleftrightarrow> (\<forall>r io s'. res = Some (r, io, s') \<longrightarrow>
     channel_step co s s' \<and> read_log J co y skip r s s' \<and>
     (case r of Yielding p \<Rightarrow> owns co (\<lambda>z. N z + nest p z) (F + flights p) K s'
      | Done v \<Rightarrow> owns co N F K s'))"

lemma co_recurseE:
  assumes "co_recurse call point k = Some (r, io, s)"
  obtains p where "call = Some (Yielding p, io, s)" and "r = Yielding (point p)"
  | v io1 s1 where "call = Some (Done v, io1, s1)" and "k v io1 s1 = Some (r, io, s)"
proof -
  from assms obtain x io1 s1 where "call = Some (x, io1, s1)"
    and "(case x of Yielding p \<Rightarrow> Some (Yielding (point p), io1, s1) | Done v \<Rightarrow> k v io1 s1) = Some (r, io, s)"
    by (auto simp: co_recurse_def bind_eq_Some_conv)
  with that show thesis by (cases x) auto
qed

text \<open>The channel coroutines themselves only attach and remove sources.\<close>

lemma same_channels_stop [simp]: "same_channels s (stop_timeout timeout tmo s)"
  by (simp add: stop_timeout_def)

lemma same_channels_start: "start_timeout G co timeout s = (tmo, s') \<Longrightarrow> same_channels s s'"
  by (auto simp: start_timeout_def add_source_eq Let_def split: if_splits)

lemma same_channels_io_step: "io_step G co timeout tmo ids r s s' \<Longrightarrow> same_channels s s'"
  by (auto simp: io_step_def add_source_eq Let_def split: co.splits)

lemma same_channels_resume_step: "resume_step G co timeout ids pc cur r s s' \<Longrightarrow> same_channels s s'"
proof -
  assume r: "resume_step G co timeout ids pc cur r s s'"
  obtain tmo i where ids: "ids pc = (tmo, i)" by fastforce
  show ?thesis
  proof (cases "timeout \<noteq> 0 \<and> cur = tmo")
    case True
    with r ids have "s' = stop_timeout timeout tmo (remove_source i s)" by (simp add: resume_step_def)
    then show ?thesis using same_channels_trans [OF same_channels_sources(3) same_channels_stop] by blast
  next
    case False
    with r ids have "same_channels (if cur \<noteq> i then remove_source i s else s) s'"
      by (auto simp: resume_step_def dest: same_channels_io_step)
    then show ?thesis
      by (auto split: if_splits intro: same_channels_trans [OF same_channels_sources(3)])
  qed
qed

lemma same_channels_read_begin: "read_line_begin G co timeout io s = (r, io', s') \<Longrightarrow> same_channels s s'"
  by (auto simp: read_line_begin_def split: prod.splits
      dest!: same_channels_start read_loop_step same_channels_io_step intro: same_channels_trans)

lemma same_channels_write_begin: "write_begin G co timeout buf io s = (r, out, io', s') \<Longrightarrow> same_channels s s'"
  by (auto simp: write_begin_def split: prod.splits
      dest!: same_channels_start write_loop_step same_channels_io_step intro: same_channels_trans)

lemmas same_channels_read_resume = same_channels_resume_step [OF read_resume_step]
lemmas same_channels_write_resume = same_channels_resume_step [OF write_resume_step]

subsection \<open>The callbacks\<close>

definition qmp_quiet :: "'z QmpState_scheme qmp_event_callback \<Rightarrow> bool" where
  "qmp_quiet f \<longleftrightarrow> (\<forall>c root s s'. f c root s = Some s' \<longrightarrow> same_channels s s')"

lemma same_channels_notify:
  assumes "qmp_quiet f" and "qmp_notify_event f root s = Some s'"
  shows "same_channels s s'"
proof -
  have "qlist_foreach_safe qmp_event_callbacks (\<lambda>c. f c root) cs s = Some s' \<Longrightarrow> same_channels s s'" for cs
  proof (induction "qmp_event_callbacks :: 'a QmpState_scheme \<Rightarrow> _" "\<lambda>c. f c root" cs s rule: qlist_foreach_safe.induct)
    case (2 c cs s)
    then obtain s1 where s1: "f c root s = Some s1"
      "qlist_foreach_safe qmp_event_callbacks (\<lambda>c. f c root)
        (filter (\<lambda>d. d \<in> set (qmp_event_callbacks s)) cs) s1 = Some s'"
      and live: "filter (\<lambda>d. d \<in> set (qmp_event_callbacks s)) cs = [] \<or>
        hd (filter (\<lambda>d. d \<in> set (qmp_event_callbacks s)) cs) \<in> set (qmp_event_callbacks s1)"
      by (auto simp: Let_def bind_eq_Some_conv)
    from s1(1) assms(1) have "same_channels s s1" by (simp add: qmp_quiet_def)
    also have "same_channels s1 s'" using 2(1) [OF refl s1(1) _ s1(2)] live by simp
    finally show ?case .
  qed simp
  with assms(2) show ?thesis by (simp add: qmp_notify_event_def)
qed

subsection \<open>Reading\<close>

fun read_nest :: "('p \<Rightarrow> bool \<Rightarrow> nat) \<Rightarrow> 'p qmp_read_pc \<Rightarrow> bool \<Rightarrow> nat" where
  "read_nest nest (R_yank p) z = nest p z"
| "read_nest nest _ z = 0"

fun read_flights :: "('p \<Rightarrow> nat) \<Rightarrow> 'p qmp_read_pc \<Rightarrow> nat" where
  "read_flights flights (R_yank p) = flights p"
| "read_flights flights _ = 0"

lemma log_of_simps [simp]:
  "log_of y (qmp_log z e s) = (if y = z then log_of y s @ [e] else log_of y s)"
  "log_of y (qmp_set_lock z l s) = log_of y s" "log_of y (s\<lparr>qmp_inflight := n\<rparr>) = log_of y s"
  by (simp_all add: log_of_def)

lemma same_channels_log: "same_channels s s' \<Longrightarrow> log_of y s' = log_of y s"
  by (simp add: log_of_def same_channels_chan)

text \<open>Whoever holds the lock of \<open>y\<close> may record on \<open>y\<close>.\<close>

lemma ch_lock_log [simp]: "ch_lock (qmp_chan z (qmp_log y e s)) = ch_lock (qmp_chan z s)"
  by simp

lemma ch_log_other: "y \<noteq> z \<Longrightarrow> ch_log (qmp_chan z (qmp_log y e s)) = ch_log (qmp_chan z s)"
  by simp

lemma ch_log_frozen: "snd K y = None \<Longrightarrow> snd K z = Some l \<Longrightarrow>
    ch_log (qmp_chan z (qmp_log y e s)) = ch_log (qmp_chan z s)"
  by (cases "y = z") simp_all

lemma owns_log [simp]: "snd K y = None \<Longrightarrow> owns co N F K s \<Longrightarrow> owns co N F K (qmp_log y e s)"
  by (auto simp: owns_def ch_log_frozen simp del: qmp_chan_log)

lemma channel_step_log:
  "owns co N F K s \<Longrightarrow> 0 < N y \<Longrightarrow> channel_step co s (qmp_log y e s)"
proof -
  assume "owns co N F K s" and "0 < N y"
  then have "lk_holder (ch_lock (qmp_chan y s)) = Some co"
    by (auto simp: owns_def holds_def dest: spec [of _ y])
  then show ?thesis by (simp add: channel_step_def chan_step_def)
qed

text \<open>A rule survives what leaves the channels alone, before and after.\<close>

lemma read_log_prefix:
  assumes "log_of y s1 = log_of y s @ map (Got_line co) events" and "\<forall>l\<in>set events. is_event J l"
    and "read_log J co y skip r s1 s'"
  shows "read_log J co y skip r s s'"
proof (cases r)
  case (Yielding p)
  with assms(3) obtain es where "\<forall>l\<in>set es. is_event J l" "log_of y s' = log_of y s1 @ map (Got_line co) es"
    by (auto simp: read_log_def)
  with assms(1,2) Yielding show ?thesis
    by (auto simp: read_log_def intro!: exI [of _ "events @ es"])
next
  case (Done v)
  show ?thesis
  proof (cases v)
    case (Inr x)
    with assms(3) Done obtain es where "\<forall>l\<in>set es. is_event J l" "skip \<longrightarrow> \<not> is_event J (qr_line x)"
      "log_of y s' = log_of y s1 @ map (Got_line co) es @ [Got_line co (qr_line x)]"
      by (auto simp: read_log_def)
    with assms(1,2) Done Inr show ?thesis
      by (auto simp: read_log_def intro!: exI [of _ "events @ es"])
  qed (simp add: read_log_def Done)
qed

lemma read_rule_same:
  assumes "same_channels s0 s" and "read_rule J co y skip N F K nest flights s res"
  shows "read_rule J co y skip N F K nest flights s0 res"
proof -
  have "log_of y s = log_of y s0 @ map (Got_line co) []" by (simp add: same_channels_log [OF assms(1)])
  note pre = read_log_prefix [OF this] channel_step_trans [OF same_channels_step [OF assms(1)]]
  show ?thesis
    unfolding read_rule_def
    using assms(2) by (auto simp: read_rule_def intro!: pre)
qed

lemma parse_result_line:
  "qmp_parse_result J line = Inr r \<Longrightarrow> qr_line r = line \<and> json_from_string J line = Some (qr_json_root r)"
  by (auto simp: qmp_parse_result_def split: option.splits if_splits)

text \<open>
  The body of the loop on a line that was read: \<open>s0\<close> is the state before it was recorded.
\<close>

definition got_rule where
  "got_rule J co y skip N F K nest flights s l \<longleftrightarrow> (case l of
     Stop res \<Rightarrow> read_rule J co y skip N F K nest flights s (Some res)
   | Again s' \<Rightarrow> channel_step co s s' \<and> owns co N F K s' \<and>
       (\<exists>events. (\<forall>e\<in>set events. is_event J e) \<and> log_of y s' = log_of y s @ map (Got_line co) events))"

definition yank_rule ::
    "json_glib \<Rightarrow> source \<Rightarrow> bool \<Rightarrow> bool \<Rightarrow> (bool \<Rightarrow> nat) \<Rightarrow> nat \<Rightarrow> others \<Rightarrow> ('p \<Rightarrow> bool \<Rightarrow> nat) \<Rightarrow> ('p \<Rightarrow> nat) \<Rightarrow>
     (io_answer list \<Rightarrow> 'z QmpState_scheme \<Rightarrow> ('p, ColodQmpResult fallible, 'z QmpState_scheme) co_result) option \<Rightarrow> bool" where
  "yank_rule J co y skip N F K nest flights yank \<longleftrightarrow> (\<forall>k. yank = Some k \<longrightarrow>
     (\<forall>io s. owns co N F K s \<longrightarrow> read_rule J co y skip N F K nest flights s (k io s)))"

lemma read_rule_wrap:
  assumes "read_rule J co y skip N F K nest flights s m"
    and "\<And>p. nest' (w p) = nest p" and "\<And>p. flights' (w p) = flights p"
  shows "read_rule J co y skip N F K nest' flights' s
    (co_recurse m w (\<lambda>result io s. Some (Done result, io, s)))"
  unfolding read_rule_def
proof (intro allI impI)
  fix r io s'
  assume "co_recurse m w (\<lambda>result io s. Some (Done result, io, s)) = Some (r, io, s')"
  then show "channel_step co s s' \<and> read_log J co y skip r s s' \<and>
     (case r of Yielding p \<Rightarrow> owns co (\<lambda>z. N z + nest' p z) (F + flights' p) K s'
      | Done v \<Rightarrow> owns co N F K s')"
    by (rule co_recurseE) (use assms in \<open>auto simp: read_rule_def read_log_def\<close>)
qed

definition line_logged :: "source \<Rightarrow> bool \<Rightarrow> string fallible \<Rightarrow> 'z QmpState_scheme \<Rightarrow> 'z QmpState_scheme" where
  "line_logged co y ret s = (case ret of Inr line \<Rightarrow> qmp_log y (Got_line co line) s | Inl e \<Rightarrow> s)"

lemma logged_read_cases:
  assumes "logged_read co y (r0, io0, s0) = Some (r, io, s)"
  shows "r = r0 \<and> io = io0 \<and> (case r of Yielding p \<Rightarrow> s = s0 | Done ret \<Rightarrow> s = line_logged co y ret s0)"
  using assms
  by (auto simp: logged_read_Some line_logged_def split: co.splits sum.splits)

lemma has_member_event: "json_from_string J line = Some root \<Longrightarrow> has_member root ''event'' = Some b \<Longrightarrow>
    is_event J line = b"
  by (auto simp: is_event_def)

lemma qmp_read_got_rule:
  assumes q: "qmp_quiet f" and yank: "yank_rule J co y skip N F K nest flights yank" and Ny: "0 < N y \<and> snd K y = None"
    and owns: "owns co N F K s"
    and got: "qmp_read_got G J f yank co y skip ret io (line_logged co y ret s) = Some l"
  shows "got_rule J co y skip N F K (read_nest nest) (read_flights flights) s l"
proof (cases ret)
  case (Inl e)
  have stop: ?thesis if "l = Stop (Done (Inl e), io, s)"
    using that owns by (simp add: got_rule_def read_rule_def read_log_def)
  show ?thesis
  proof (cases "\<exists>k. yank = Some k \<and> g_error_matches e COLOD_ERROR_TIMEOUT")
    case True
    then obtain k where k: "yank = Some k" "g_error_matches e COLOD_ERROR_TIMEOUT" by blast
    with got Inl obtain x where "l = Stop x"
      and x: "co_recurse (k io s) R_yank (\<lambda>result io1 s1. Some (Done result, io1, s1)) = Some x"
      by (auto simp: qmp_read_got_def line_logged_def bind_eq_Some_conv)
    moreover have "read_rule J co y skip N F K nest flights s (k io s)"
      using yank k owns by (simp add: yank_rule_def)
    ultimately show ?thesis 
      using read_rule_wrap [of J co y skip N F K nest flights s "k io s" "read_nest nest" R_yank "read_flights flights"]
      by (simp add: got_rule_def fun_eq_iff)
  next
    case False
    with got Inl have "l = Stop (Done (Inl e), io, s)"
      by (auto simp: qmp_read_got_def line_logged_def split: option.splits)
    then show ?thesis by (rule stop)
  qed
next
  case (Inr line)
  let ?s = "qmp_log y (Got_line co line) s"
  have step: "channel_step co s ?s" by (rule channel_step_log [OF owns conjunct1 [OF Ny]])
  have ow: "owns co N F K ?s" using owns Ny by simp
  show ?thesis
  proof (cases "qmp_parse_result J line")
    case (Inl e)
    with got Inr have "l = Stop (Done (Inl e), io, ?s)"
      by (simp add: qmp_read_got_def line_logged_def)
    with step ow show ?thesis by (simp add: got_rule_def read_rule_def read_log_def)
  next
    case (Inr x)
    note line = parse_result_line [OF Inr]
    from got \<open>ret = Inr line\<close> Inr obtain b where b: "has_member (qr_json_root x) ''event'' = Some b"
      by (auto simp: qmp_read_got_def line_logged_def bind_eq_Some_conv)
    with line have ev: "is_event J line = b" using has_member_event by blast
    consider "skip" "b" "\<not> ch_discard_events (qmp_chan y ?s)" | "skip" "b" "ch_discard_events (qmp_chan y ?s)"
      | "\<not> (skip \<and> b)" by blast
    then show ?thesis
    proof cases
      case 1
      with got \<open>ret = Inr line\<close> Inr b obtain s1 where
        s1: "qmp_notify_event f (qr_json_root x) ?s = Some s1"
        and l: "l = Stop (Yielding R_idle, io, snd (add_source G co s1))"
        by (auto simp: qmp_read_got_def line_logged_def bind_eq_Some_conv simp del: qmp_chan_log)
      have same: "same_channels ?s (snd (add_source G co s1))"
        using same_channels_notify [OF q s1] same_channels_sources(2) by (rule same_channels_trans)
      have "channel_step co s (snd (add_source G co s1))"
        using step same_channels_step [OF same] by (rule channel_step_trans)
      moreover have "log_of y (snd (add_source G co s1)) = log_of y s @ map (Got_line co) [line]"
        by (simp add: same_channels_log [OF same])
      ultimately show ?thesis
        using ev 1 same_channels_owns [OF same] ow l
        by (auto simp: got_rule_def read_rule_def read_log_def intro!: exI [of _ "[line]"])
    next
      case 2
      with got \<open>ret = Inr line\<close> Inr b have l: "l = Again ?s"
        by (auto simp: qmp_read_got_def line_logged_def simp del: qmp_chan_log)
      show ?thesis
        using ev 2 step ow l by (auto simp: got_rule_def intro!: exI [of _ "[line]"])
    next
      case 3
      with got \<open>ret = Inr line\<close> Inr b have l: "l = Stop (Done (Inr x), io, ?s)"
        by (auto simp: qmp_read_got_def line_logged_def simp del: qmp_chan_log)
      show ?thesis
        using ev 3 step ow l line by (auto simp: got_rule_def read_rule_def read_log_def intro!: exI [of _ "[]"])
    qed
  qed
qed

text \<open>The loop, from any state in which \<open>co\<close> holds the channel.\<close>

lemma got_rule_then:
  assumes "got_rule J co y skip N F K nest flights s l"
    and "\<And>s'. l = Again s' \<Longrightarrow> owns co N F K s' \<Longrightarrow> read_rule J co y skip N F K nest flights s' (again s')"
  shows "read_rule J co y skip N F K nest flights s
    (case l of Stop x \<Rightarrow> Some x | Again s' \<Rightarrow> again s')"
proof (cases l)
  case (Again s')
  with assms(1) obtain events where ev: "channel_step co s s'" "owns co N F K s'"
    "\<forall>e\<in>set events. is_event J e" "log_of y s' = log_of y s @ map (Got_line co) events"
    by (auto simp: got_rule_def)
  from assms(2) [OF Again ev(2)] show ?thesis
    using ev read_log_prefix [OF ev(4,3)] channel_step_trans [OF ev(1)]
    by (auto simp: Again read_rule_def)
qed (use assms(1) in \<open>simp add: got_rule_def\<close>)

lemma read_rule_case:
  assumes step: "logged_read co y x = Some (r, io1, s1)"
    and same: "\<And>r io s'. x = (r, io, s') \<Longrightarrow> same_channels s s'" and owns: "owns co N F K s"
    and q: "qmp_quiet f" and yank: "yank_rule J co y skip N F K nest flights yank" and Ny: "0 < N y \<and> snd K y = None"
    and again: "\<And>ret s2. r = Done ret \<Longrightarrow> owns co N F K s2 \<Longrightarrow>
      read_rule J co y skip N F K (read_nest nest) (read_flights flights) s2 (again s2)"
  shows "read_rule J co y skip N F K (read_nest nest) (read_flights flights) s (case r of
      Yielding pc \<Rightarrow> Some (Yielding (R_line pc), io1, s1)
    | Done ret \<Rightarrow> do {
        l \<leftarrow> qmp_read_got G J f yank co y skip ret io1 s1;
        (case l of Stop x \<Rightarrow> Some x | Again s2 \<Rightarrow> again s2) })"
proof -
  obtain r0 io0 s0 where x: "x = (r0, io0, s0)" by (rule prod_cases3)
  note L = logged_read_cases [OF step [unfolded x]]
  have s0: "same_channels s s0" using same x by blast
  have ow0: "owns co N F K s0" using owns same_channels_owns [OF s0] by simp
  show ?thesis
  proof (cases r)
    case (Yielding pc)
    with L ow0 have "read_rule J co y skip N F K (read_nest nest) (read_flights flights) s0
        (Some (Yielding (R_line pc), io1, s1))"
      by (auto simp: read_rule_def read_log_def intro!: exI [of _ "[]"])
    with Yielding read_rule_same [OF s0] show ?thesis by simp
  next
    case (Done ret)
    with L have s1: "s1 = line_logged co y ret s0" by simp
    show ?thesis
    proof (cases "qmp_read_got G J f yank co y skip ret io1 s1")
      case None
      with Done show ?thesis by (simp add: read_rule_def)
    next
      case (Some l)
      have "got_rule J co y skip N F K (read_nest nest) (read_flights flights) s0 l"
        by (rule qmp_read_got_rule [OF q yank Ny ow0 Some [unfolded s1]])
      then have "read_rule J co y skip N F K (read_nest nest) (read_flights flights) s0
          (case l of Stop x \<Rightarrow> Some x | Again s2 \<Rightarrow> again s2)"
        by (rule got_rule_then) (rule again [OF Done])
      with Done Some read_rule_same [OF s0] show ?thesis by simp
    qed
  qed
qed

lemma qmp_read_loop_rule:
  assumes q: "qmp_quiet f" and yank: "yank_rule J co y skip N F K nest flights yank" and Ny: "0 < N y \<and> snd K y = None"
    and owns: "owns co N F K s"
  shows "read_rule J co y skip N F K (read_nest nest) (read_flights flights) s
    (qmp_read_loop G J f yank co y skip io s)"
  using owns
proof (induction "length io" arbitrary: io s rule: less_induct)
  case less
  obtain r io1 s1 where r: "logged_read co y (read_line_begin G co (qmp_timeout s) io s) = Some (r, io1, s1)"
    by (metis logged_read_Some)
  have "read_rule J co y skip N F K (read_nest nest) (read_flights flights) s2
      (qmp_read_loop G J f yank co y skip io1 s2)" if "r = Done ret" "owns co N F K s2" for ret s2
  proof (rule less.hyps)
    show "length io1 < length io"
      using r that(1) read_line_begin_shorter' [of ret G co "qmp_timeout s" io s] by (auto simp: logged_read_Some)
  qed (rule that(2))
  note again = this
  have same: "read_line_begin G co (qmp_timeout s) io s = (r, io', s') \<Longrightarrow> same_channels s s'" for r io' s'
    by (rule same_channels_read_begin)
  from read_rule_case [OF r same less.prems q yank Ny again, where G = G] show ?case
    by (subst qmp_read_loop.simps) (simp add: r)
qed

lemma qmp_read_resume_rule:
  assumes q: "qmp_quiet f" and yank: "yank_rule J co y skip N F K nest flights yank" and Ny: "0 < N y \<and> snd K y = None"
    and res: "\<And>p. pc = R_yank p \<Longrightarrow> owns co (\<lambda>z. N z + nest p z) (F + flights p) K s \<Longrightarrow>
      read_rule J co y skip N F K nest flights s (yank_resume p cur io s)"
    and owns: "owns co (\<lambda>z. N z + read_nest nest pc z) (F + read_flights flights pc) K s"
  shows "read_rule J co y skip N F K (read_nest nest) (read_flights flights) s
    (qmp_read_resume G J f yank yank_resume co y skip pc cur io s)"
proof (cases pc)
  case (R_line rpc)
  obtain r io1 s1 where r: "logged_read co y (read_line_resume G co (qmp_timeout s) rpc cur io s) = Some (r, io1, s1)"
    by (metis logged_read_Some)
  have ow: "owns co N F K s" using owns R_line by simp
  have "read_rule J co y skip N F K (read_nest nest) (read_flights flights) s2
      (qmp_read_loop G J f yank co y skip io1 s2)" if "owns co N F K s2" for s2
    by (rule qmp_read_loop_rule [OF q yank Ny that])
  note again = this
  have same: "read_line_resume G co (qmp_timeout s) rpc cur io s = (r, io', s') \<Longrightarrow> same_channels s s'" for r io' s'
    by (rule same_channels_read_resume)
  from read_rule_case [OF r same ow q yank Ny again, where G = G] show ?thesis
    by (cases r) (simp_all add: R_line co_recurse_def r qmp_read_resumed_def)
next
  case R_idle
  with qmp_read_loop_rule [OF q yank Ny] owns show ?thesis by simp
next
  case (R_yank p)
  with res owns have "read_rule J co y skip N F K nest flights s (yank_resume p cur io s)" by simp
  then show ?thesis
    unfolding R_yank qmp_read_resume.simps by (rule read_rule_wrap) (simp_all add: fun_eq_iff)
qed

subsection \<open>Taking and releasing a lock\<close>

definition plus :: "(bool \<Rightarrow> nat) \<Rightarrow> bool \<Rightarrow> bool \<Rightarrow> nat" where
  "plus N y z = N z + of_bool (z = y)"

lemma plus_self [simp]: "plus N y y = Suc (N y)"
  by (simp add: plus_def)

lemma owns_set_lock:
  assumes "owns co N F K s" and "holds co n l"
  shows "owns co (\<lambda>z. if z = y then n else N z) F K (qmp_set_lock y l s)"
  using assms by (simp add: owns_def)

lemma set_lock_step:
  assumes "lk_holder (ch_lock (qmp_chan y s)) = None \<or> lk_holder (ch_lock (qmp_chan y s)) = Some co"
    and "lk_holder l = None \<or> lk_holder l = Some co"
  shows "channel_step co s (qmp_set_lock y l s)"
  using assms by (auto simp: channel_step_def chan_step_def)

lemma owns_holds: "owns co N F K s \<Longrightarrow> holds co (N y) (ch_lock (qmp_chan y s))"
  by (simp add: owns_def)

lemma qmp_lock_rule:
  assumes "owns co N F K s" and "N y < 7"
    and "colod_lock_co co (ch_lock (qmp_chan y s)) = Some (Some l) \<or>
      N y = 0 \<and> colod_lock_retry co (ch_lock (qmp_chan y s)) = Some (Some l)"
  shows "owns co (plus N y) F K (qmp_set_lock y l s)" and "channel_step co s (qmp_set_lock y l s)"
proof -
  note h = owns_holds [OF assms(1), of y]
  have l: "holds co (Suc (N y)) l" "lk_holder (ch_lock (qmp_chan y s)) \<in> {None, Some co}"
    using assms(3) lock_rule [OF _ h assms(2)] lock_retry_rule [of co "ch_lock (qmp_chan y s)" l] h by auto
  have "(\<lambda>z. if z = y then Suc (N y) else N z) = plus N y" by (auto simp: plus_def)
  with owns_set_lock [OF assms(1) l(1), of y] show "owns co (plus N y) F K (qmp_set_lock y l s)" by simp
  have "lk_holder l = Some co" using l(1) by (simp add: holds_def)
  with l(2) show "channel_step co s (qmp_set_lock y l s)" by (intro set_lock_step) auto
qed

lemma qmp_unlock_rule:
  assumes "owns co (plus N y) F K s" and "qmp_unlock co y s = Some s'"
  shows "owns co N F K s'" and "channel_step co s s'" and "log_of z s' = log_of z s"
    and "qmp_error s' = qmp_error s"
proof -
  from assms(2) obtain l where l: "colod_unlock_co co (ch_lock (qmp_chan y s)) = Some l"
    and s': "s' = qmp_set_lock y l s"
    by (auto simp: qmp_unlock_def bind_eq_Some_conv)
  have h: "holds co (Suc (N y)) (ch_lock (qmp_chan y s))" using owns_holds [OF assms(1), of y] by simp
  from unlock_rule [OF l h] have l': "holds co (N y) l" by simp
  have "(\<lambda>z. if z = y then N y else plus N y z) = N" by (auto simp: plus_def)
  with owns_set_lock [OF assms(1) l', of y] s' show "owns co N F K s'" by simp
  have "lk_holder l = None \<or> lk_holder l = Some co"
    using l by (auto simp: colod_unlock_co_def bind_eq_Some_conv Let_def split: if_splits)
  with h s' show "channel_step co s s'" by (auto simp: holds_def intro: set_lock_step)
  show "log_of z s' = log_of z s" "qmp_error s' = qmp_error s" by (simp_all add: s')
qed

lemma owns_landed: "owns co N (Suc F) K s \<Longrightarrow> owns co N F K (s\<lparr>qmp_inflight := qmp_inflight s - 1\<rparr>)"
  by (simp add: owns_def)

lemma owns_launched: "owns co N F K s \<Longrightarrow> owns co N (Suc F) K (s\<lparr>qmp_inflight := qmp_inflight s + 1\<rparr>)"
  by (simp add: owns_def)

lemma channel_step_inflight [simp]:
  "channel_step co s (s\<lparr>qmp_inflight := n\<rparr>)"
  by (simp add: channel_step_def)

subsection \<open>Executing a command\<close>

fun execute_nest :: "('p \<Rightarrow> bool \<Rightarrow> nat) \<Rightarrow> bool \<Rightarrow> 'p qmp_execute_pc \<Rightarrow> bool \<Rightarrow> nat" where
  "execute_nest nest y X_lock z = 0"
| "execute_nest nest y (X_write w) z = of_bool (z = y)"
| "execute_nest nest y (X_read p) z = of_bool (z = y) + nest p z"

fun execute_flights :: "('p \<Rightarrow> nat) \<Rightarrow> 'p qmp_execute_pc \<Rightarrow> nat" where
  "execute_flights flights (X_read p) = Suc (flights p)"
| "execute_flights flights _ = 1"

text \<open>What is recorded on \<open>y\<close> while a command is executed, and when its reply is there.\<close>

definition said :: "source \<Rightarrow> bool \<Rightarrow> string \<Rightarrow> 'z QmpState_scheme \<Rightarrow> bool" where
  "said co y bytes s \<longleftrightarrow> (\<exists>pre sent. log_of y s = pre @ map (Sent co) sent \<and> concat sent = bytes)"

definition heard :: "json_glib \<Rightarrow> source \<Rightarrow> bool \<Rightarrow> string \<Rightarrow> string list \<Rightarrow> 'z QmpState_scheme \<Rightarrow> bool" where
  "heard J co y command replies s \<longleftrightarrow> (\<exists>pre sent events.
     log_of y s = pre @ map (Sent co) sent @ map (Got_line co) (events @ replies) \<and>
     concat sent = command \<and> (\<forall>l\<in>set events. is_event J l) \<and> (\<forall>l\<in>set replies. \<not> is_event J l))"

fun talk :: "json_glib \<Rightarrow> source \<Rightarrow> bool \<Rightarrow> string \<Rightarrow> 'p qmp_execute_pc \<Rightarrow> 'z QmpState_scheme \<Rightarrow> bool" where
  "talk J co y command X_lock s = True"
| "talk J co y command (X_write w) s = said co y (take (write_offset command w) command) s"
| "talk J co y command (X_read p) s = heard J co y command [] s"

definition execute_rule ::
    "bool \<Rightarrow> json_glib \<Rightarrow> source \<Rightarrow> bool \<Rightarrow> string \<Rightarrow> (bool \<Rightarrow> nat) \<Rightarrow> nat \<Rightarrow> others \<Rightarrow> ('p \<Rightarrow> bool \<Rightarrow> nat) \<Rightarrow> ('p \<Rightarrow> nat) \<Rightarrow>
     'z QmpState_scheme \<Rightarrow> ('p qmp_execute_pc, ColodQmpResult fallible, 'z QmpState_scheme) co_result \<Rightarrow> bool" where
  "execute_rule T J co y command N F K nest flights s res \<longleftrightarrow> (\<forall>r io s'. res = Some (r, io, s') \<longrightarrow>
     channel_step co s s' \<and> (case r of
       Yielding p \<Rightarrow> (T \<longrightarrow> talk J co y command p s') \<and> (0 < N y \<longrightarrow> p \<noteq> X_lock) \<and>
         owns co (\<lambda>z. N z + execute_nest nest y p z) (F + execute_flights flights p) K s'
     | Done v \<Rightarrow> owns co N F K s' \<and> (case v of
           Inr x \<Rightarrow> T \<longrightarrow> heard J co y command [qr_line x] s'
         | Inl e \<Rightarrow> \<exists>e0. e = g_prefix_error ''qmp: '' e0 \<and> qmp_error s' = Some e0)))"

lemma execute_rule_step:
  assumes "channel_step co s0 s" and "execute_rule T J co y command N F K nest flights s res"
  shows "execute_rule T J co y command N F K nest flights s0 res"
  using assms channel_step_trans [OF assms(1)] by (auto simp: execute_rule_def)

lemma execute_read_rule:
  assumes "owns co (plus N y) (Suc F) K s"
    and "case result of Inr x \<Rightarrow> T \<longrightarrow> heard J co y command [qr_line x] s | Inl e \<Rightarrow> True"
  shows "execute_rule T J co y command N F K nest flights s (execute_read co y result io s)"
proof (cases "qmp_unlock co y s")
  case None
  then show ?thesis by (simp add: execute_rule_def execute_read_def)
next
  case (Some s1)
  note U = qmp_unlock_rule [OF assms(1) Some]
  let ?s = "s1\<lparr>qmp_inflight := qmp_inflight s1 - 1\<rparr>"
  have ow: "owns co N F K ?s" by (rule owns_landed [OF U(1)])
  have step: "channel_step co s ?s" using U(2) channel_step_inflight by (rule channel_step_trans)
  show ?thesis
  proof (cases result)
    case (Inl e)
    have same: "same_channels ?s (qmp_set_error e ?s)" by simp
    have "qmp_error (qmp_set_error e ?s) = Some e" by (simp add: qmp_set_error_def)
    with Some Inl ow same_channels_owns [OF same] channel_step_trans [OF step same_channels_step [OF same]]
    show ?thesis by (auto simp: execute_rule_def execute_read_def Let_def)
  next
    case (Inr x)
    have "log_of y ?s = log_of y s" using U(3) by simp
    with Some Inr ow step assms(2) show ?thesis
      by (simp add: execute_rule_def execute_read_def Let_def heard_def)
  qed
qed

lemma heardI:
  assumes "log_of y s = pre @ map (Sent co) sent @ map (Got_line co) (events @ replies)"
    and "concat sent = command" and "\<forall>l\<in>set events. is_event J l" and "\<forall>l\<in>set replies. \<not> is_event J l"
  shows "heard J co y command replies s"
  using assms unfolding heard_def by blast

lemma heard_read:
  assumes "heard J co y command [] s" and "read_log J co y True r s s'"
  shows "case r of Yielding p \<Rightarrow> heard J co y command [] s'
    | Done (Inr x) \<Rightarrow> heard J co y command [qr_line x] s' | Done (Inl e) \<Rightarrow> True"
proof -
  from assms(1) obtain pre sent events where h: "concat sent = command" "\<forall>l\<in>set events. is_event J l"
    "log_of y s = pre @ map (Sent co) sent @ map (Got_line co) events"
    by (auto simp: heard_def)
  show ?thesis
  proof (cases r)
    case (Yielding p)
    with assms(2) obtain es where "\<forall>l\<in>set es. is_event J l" "log_of y s' = log_of y s @ map (Got_line co) es"
      by (auto simp: read_log_def)
    with h Yielding show ?thesis
      using heardI [of y s' pre co sent "events @ es" "[]" command J] by auto
  next
    case (Done v)
    show ?thesis
    proof (cases v)
      case (Inr x)
      with assms(2) Done obtain es where "\<forall>l\<in>set es. is_event J l" "\<not> is_event J (qr_line x)"
        "log_of y s' = log_of y s @ map (Got_line co) es @ [Got_line co (qr_line x)]"
        by (auto simp: read_log_def)
      with h Done Inr show ?thesis
        using heardI [of y s' pre co sent "events @ es" "[qr_line x]" command J] by auto
    qed (simp add: Done)
  qed
qed

lemma plus_add: "(\<lambda>z. plus N y z + nest z) = (\<lambda>z. N z + (of_bool (z = y) + nest z))"
  by (simp add: plus_def add.assoc)

lemma execute_reading_rule:
  assumes rule: "read_rule J co y True (plus N y) (Suc F) K nest flights s m"
    and h: "T \<Longrightarrow> heard J co y command [] s"
  shows "execute_rule T J co y command N F K nest flights s (co_recurse m X_read (execute_read co y))"
proof -
  have rd: "execute_rule T J co y command N F K nest flights s (execute_read co y v io1 s1)"
    if m: "m = Some (Done v, io1, s1)" for v io1 s1
  proof -
    have "read_log J co y True (Done v :: ('a, _) co) s s1" "channel_step co s s1" "owns co (plus N y) (Suc F) K s1"
      using rule m by (auto simp: read_rule_def)
    with heard_read [OF h this(1)] show ?thesis
      by (intro execute_rule_step [OF _ execute_read_rule]) (cases v; auto)+
  qed
  have yd: "channel_step co s s' \<and> (T \<longrightarrow> heard J co y command [] s') \<and>
      owns co (\<lambda>z. N z + execute_nest nest y (X_read p) z) (F + execute_flights flights (X_read p)) K s'"
    if m: "m = Some (Yielding p, io, s')" for p io s'
  proof -
    have "read_log J co y True (Yielding p :: (_, ColodQmpResult fallible) co) s s'" "channel_step co s s'"
      "owns co (\<lambda>z. plus N y z + nest p z) (Suc F + flights p) K s'"
      using rule m by (auto simp: read_rule_def)
    with heard_read [OF h this(1)] show ?thesis by (auto simp: plus_add)
  qed
  show ?thesis
    unfolding execute_rule_def
  proof (intro allI impI)
    fix r io s'
    assume "co_recurse m X_read (execute_read co y) = Some (r, io, s')"
    then show "channel_step co s s' \<and> (case r of
       Yielding p \<Rightarrow> (T \<longrightarrow> talk J co y command p s') \<and> (0 < N y \<longrightarrow> p \<noteq> X_lock) \<and>
         owns co (\<lambda>z. N z + execute_nest nest y p z) (F + execute_flights flights p) K s'
     | Done v \<Rightarrow> owns co N F K s' \<and> (case v of
           Inr x \<Rightarrow> T \<longrightarrow> heard J co y command [qr_line x] s'
         | Inl e \<Rightarrow> \<exists>e0. e = g_prefix_error ''qmp: '' e0 \<and> qmp_error s' = Some e0))"
    proof (cases rule: co_recurseE)
      case (1 p)
      with yd [OF 1(1)] show ?thesis by simp
    next
      case (2 v io1 s1)
      with rd [OF 2(1)] show ?thesis by (auto simp: execute_rule_def)
    qed
  qed
qed

definition read_begin_rule ::
    "json_glib \<Rightarrow> source \<Rightarrow> bool \<Rightarrow> (bool \<Rightarrow> nat) \<Rightarrow> nat \<Rightarrow> others \<Rightarrow> ('p \<Rightarrow> bool \<Rightarrow> nat) \<Rightarrow> ('p \<Rightarrow> nat) \<Rightarrow>
     (io_answer list \<Rightarrow> 'z QmpState_scheme \<Rightarrow> ('p, ColodQmpResult fallible, 'z QmpState_scheme) co_result) \<Rightarrow> bool" where
  "read_begin_rule J co y N F K nest flights rb \<longleftrightarrow> (\<forall>io s. owns co (plus N y) (Suc F) K s \<longrightarrow>
     read_rule J co y True (plus N y) (Suc F) K nest flights s (rb io s))"

lemma said_heard: "said co y command s \<Longrightarrow> heard J co y command [] s"
  by (auto simp: said_def intro: heardI [where events = "[]"])

lemma execute_wrote_rule:
  assumes rb: "read_begin_rule J co y N F K nest flights rb"
    and owns: "owns co (plus N y) (Suc F) K s" and said: "ret = Inr () \<Longrightarrow> T \<Longrightarrow> said co y command s"
  shows "execute_rule T J co y command N F K nest flights s (execute_wrote rb co y ret io s)"
proof (cases ret)
  case (Inr u)
  have "read_rule J co y True (plus N y) (Suc F) K nest flights s (rb io s)"
    using rb owns by (simp add: read_begin_rule_def)
  from execute_reading_rule [OF this said_heard [OF said]] Inr show ?thesis by (simp add: execute_wrote_def)
next
  case (Inl e)
  have same: "same_channels s (qmp_set_error e s)" by simp
  have ow: "owns co (plus N y) (Suc F) K (qmp_set_error e s)" using owns same_channels_owns [OF same] by simp
  show ?thesis
  proof (cases "qmp_unlock co y (qmp_set_error e s)")
    case None
    with Inl show ?thesis by (simp add: execute_rule_def execute_wrote_def)
  next
    case (Some s1)
    note U = qmp_unlock_rule [OF ow Some]
    have "channel_step co s (s1\<lparr>qmp_inflight := qmp_inflight s1 - 1\<rparr>)"
      using channel_step_trans [OF channel_step_trans [OF same_channels_step [OF same] U(2)] channel_step_inflight] .
    moreover have "qmp_error s1 = Some e" using U(4) by (simp add: qmp_set_error_def)
    ultimately show ?thesis
      using Inl Some owns_landed [OF U(1)] by (simp add: execute_rule_def execute_wrote_def)
  qed
qed

lemma said_more:
  assumes "said co y bytes s"
  shows "said co y (bytes @ out) (if out = [] then s else qmp_log y (Sent co out) s)"
proof -
  from assms obtain pre sent where "log_of y s = pre @ map (Sent co) sent" "concat sent = bytes"
    by (auto simp: said_def)
  then have "log_of y (if out = [] then s else qmp_log y (Sent co out) s) =
      pre @ map (Sent co) (if out = [] then sent else sent @ [out])"
    and "concat (if out = [] then sent else sent @ [out]) = bytes @ out" by auto
  then show ?thesis unfolding said_def by blast
qed

lemma write_post_bytes:
  assumes "write_post buf offset r out"
  shows "case r of Yielding w \<Rightarrow> take offset buf @ out = take (write_offset buf w) buf
    | Done (Inr u) \<Rightarrow> take offset buf @ out = buf | Done (Inl e) \<Rightarrow> True"
  using assms
  by (cases "(buf, offset, r, out)" rule: write_post.cases) (auto simp flip: take_add)

lemma execute_writing_rule:
  assumes fr: "snd K y = None" and rb: "read_begin_rule J co y N F K nest flights rb"
    and owns: "owns co (plus N y) (Suc F) K s" and said: "T \<Longrightarrow> said co y (take offset command) s"
    and same: "same_channels s s1" and post: "write_post command offset r out"
  shows "execute_rule T J co y command N F K nest flights s
    (co_recurse (logged_write co y (r, out, io, s1)) X_write (execute_wrote rb co y))"
proof -
  define s2 where "s2 = (if out = [] then s1 else qmp_log y (Sent co out) s1)"
  have ow1: "owns co (plus N y) (Suc F) K s1" using owns same_channels_owns [OF same] by simp
  then have ow2: "owns co (plus N y) (Suc F) K s2" using fr by (simp add: s2_def)
  have st2: "channel_step co s s2"
    using channel_step_trans [OF same_channels_step [OF same] channel_step_log [OF ow1]]
      same_channels_step [OF same] by (simp add: s2_def)
  have "said co y (take offset command) s1" if T
    using said [OF that] by (simp add: said_def same_channels_log [OF same])
  from said_more [OF this, of out] have sd: "T \<Longrightarrow> said co y (take offset command @ out) s2" by (simp add: s2_def)
  note b = write_post_bytes [OF post]
  show ?thesis
  proof (cases r)
    case (Yielding w)
    with b sd st2 ow2 show ?thesis
      by (simp add: execute_rule_def co_recurse_def s2_def [symmetric])
        (simp add: plus_def [abs_def])
  next
    case (Done ret)
    have "ret = Inr () \<Longrightarrow> T \<Longrightarrow> said co y command s2" using b sd Done by auto
    from execute_rule_step [OF st2 execute_wrote_rule [OF rb ow2 this]] Done
    show ?thesis by (simp add: co_recurse_def s2_def [symmetric])
  qed
qed

lemma said_nothing: "said co y [] s"
  unfolding said_def by (rule exI [of _ "log_of y s"], rule exI [of _ "[]"]) simp

lemma execute_lock_rule:
  assumes rb: "read_begin_rule J co y N F K nest flights rb"
    and owns: "owns co N (Suc F) K s" and Ny: "N y < 7 \<and> snd K y = None"
    and lock: "colod_lock_co co (ch_lock (qmp_chan y s)) = Some lock \<or>
      N y = 0 \<and> colod_lock_retry co (ch_lock (qmp_chan y s)) = Some lock"
  shows "execute_rule T J co y command N F K nest flights s (execute_lock G rb co y command lock io s)"
proof (cases lock)
  case None
  have "N y = 0"
    using lock None owns_holds [OF owns, of y]
    by (auto simp: colod_lock_co_def holds_def bind_eq_Some_conv split: if_splits)
  moreover have "owns co N (Suc F) K (snd (add_source G co s))"
    using owns same_channels_owns [of s "snd (add_source G co s)"] by simp
  ultimately show ?thesis
    using None same_channels_step [of s "snd (add_source G co s)"]
    by (auto simp: execute_rule_def execute_lock_def)
next
  case (Some l)
  with lock have l: "colod_lock_co co (ch_lock (qmp_chan y s)) = Some (Some l) \<or>
      N y = 0 \<and> colod_lock_retry co (ch_lock (qmp_chan y s)) = Some (Some l)" by simp
  note L = qmp_lock_rule [OF owns conjunct1 [OF Ny] l]
  obtain r out io1 s2 where w: "write_begin G co (qmp_timeout s) command io (qmp_set_lock y l s) = (r, out, io1, s2)"
    by (rule prod_cases4)
  have "write_post command 0 r out"
    using w by (auto simp: write_begin_def dest: write_loop_post split: prod.splits)
  with execute_writing_rule [OF conjunct2 [OF Ny] rb L(1) _ same_channels_write_begin [OF w], of T 0 command r out io1]
    said_nothing [of co y "qmp_set_lock y l s"]
  have "execute_rule T J co y command N F K nest flights (qmp_set_lock y l s)
      (co_recurse (logged_write co y (r, out, io1, s2)) X_write (execute_wrote rb co y))"
    by (simp del: logged_write.simps)
  from execute_rule_step [OF L(2) this] show ?thesis
    by (simp add: execute_lock_def Some Let_def w)
qed

text \<open>The two rules of \<open>__qmp_execute_co\<close>.\<close>

lemma qmp_execute_begin_rule:
  assumes rb: "read_begin_rule J co y N F K nest flights rb" and owns: "owns co N F K s" and Ny: "N y < 7 \<and> snd K y = None"
  shows "execute_rule T J co y command N F K nest flights s (qmp_execute_begin G rb co y command io s)"
proof (cases "colod_lock_co co (ch_lock (qmp_chan y s))")
  case None
  then show ?thesis by (simp add: execute_rule_def qmp_execute_begin_def)
next
  case (Some lock)
  let ?s = "s\<lparr>qmp_inflight := qmp_inflight s + 1\<rparr>"
  have "execute_rule T J co y command N F K nest flights ?s (execute_lock G rb co y command lock io ?s)"
    using Some by (intro execute_lock_rule [OF rb owns_launched [OF owns] Ny]) simp
  with Some execute_rule_step [OF channel_step_inflight] show ?thesis
    by (simp add: qmp_execute_begin_def Let_def)
qed

definition read_resume_rule where
  "read_resume_rule J co y N F K nest flights rr \<longleftrightarrow> (\<forall>p cur io s.
     owns co (\<lambda>z. plus N y z + nest p z) (Suc F + flights p) K s \<longrightarrow>
     read_rule J co y True (plus N y) (Suc F) K nest flights s (rr p cur io s))"

lemma qmp_execute_resume_rule:
  assumes rb: "read_begin_rule J co y N F K nest flights rb"
    and rr: "read_resume_rule J co y N F K nest flights rr"
    and owns: "owns co (\<lambda>z. N z + execute_nest nest y pc z) (F + execute_flights flights pc) K s"
    and Ny: "N y < 7 \<and> snd K y = None" and talk: "T \<Longrightarrow> talk J co y command pc s" and first: "pc = X_lock \<Longrightarrow> N y = 0"
  shows "execute_rule T J co y command N F K nest flights s (qmp_execute_resume G rb rr co y command pc cur io s)"
proof (cases pc)
  case X_lock
  show ?thesis
  proof (cases "colod_lock_retry co (ch_lock (qmp_chan y s))")
    case None
    with X_lock show ?thesis by (simp add: execute_rule_def)
  next
    case (Some lock)
    have "owns co N (Suc F) K s" using owns X_lock by simp
    from execute_lock_rule [OF rb this Ny, of lock] Some first X_lock show ?thesis by simp
  qed
next
  case (X_write w)
  obtain r out io1 s2 where r: "write_resume G co (qmp_timeout s) command w cur io s = (r, out, io1, s2)"
    by (rule prod_cases4)
  have ow: "owns co (plus N y) (Suc F) K s" using owns X_write by (simp add: plus_def [abs_def])
  have sd: "T \<Longrightarrow> said co y (take (write_offset command w) command) s" using talk X_write by simp
  from execute_writing_rule [OF conjunct2 [OF Ny] rb ow sd same_channels_write_resume [OF r] write_resume_post [OF r]] r X_write
  show ?thesis by simp
next
  case (X_read p)
  have "owns co (\<lambda>z. plus N y z + nest p z) (Suc F + flights p) K s"
    using owns X_read by (simp add: plus_add)
  with rr have "read_rule J co y True (plus N y) (Suc F) K nest flights s (rr p cur io s)"
    by (simp add: read_resume_rule_def)
  from execute_reading_rule [OF this] talk X_read show ?thesis by simp
qed

subsection \<open>The calls of the code\<close>

definition no_nest :: "unit \<Rightarrow> bool \<Rightarrow> nat" where
  "no_nest p z = 0"

definition no_flights :: "unit \<Rightarrow> nat" where
  "no_flights p = 0"

abbreviation "read0_nest \<equiv> read_nest no_nest"
abbreviation "read0_flights \<equiv> read_flights no_flights"
abbreviation "execute0_nest \<equiv> execute_nest read0_nest"
abbreviation "execute0_flights \<equiv> execute_flights read0_flights"

lemma yank_rule_None [simp]: "yank_rule J co y skip N F K nest flights None"
  by (simp add: yank_rule_def)

lemma read0_begin_rule:
  assumes "qmp_quiet f" and "0 < N y \<and> snd K y = None" and "owns co N F K s"
  shows "read_rule J co y skip N F K read0_nest read0_flights s (read0_begin G J f co y skip io s)"
  unfolding read0_begin_def by (rule qmp_read_loop_rule [OF assms(1) yank_rule_None assms(2,3)])

lemma read0_resume_rule:
  assumes "qmp_quiet f" and "0 < N y \<and> snd K y = None"
    and "owns co (\<lambda>z. N z + read0_nest pc z) (F + read0_flights pc) K s"
  shows "read_rule J co y skip N F K read0_nest read0_flights s (read0_resume G J f co y skip pc cur io s)"
  unfolding read0_resume_def
  by (rule qmp_read_resume_rule [OF assms(1) yank_rule_None assms(2) _ assms(3)]) (simp add: read_rule_def)

lemma execute0_reads:
  assumes "qmp_quiet f" and "snd K y = None"
  shows "read_begin_rule J co y N F K read0_nest read0_flights (read0_begin G J f co y True)"
    and "read_resume_rule J co y N F K read0_nest read0_flights (read0_resume G J f co y True)"
  using assms by (auto simp: read_begin_rule_def read_resume_rule_def intro: read0_begin_rule read0_resume_rule)

lemma execute0_begin_rule:
  assumes "qmp_quiet f" and "owns co N F K s" and "N y < 7 \<and> snd K y = None"
  shows "execute_rule T J co y command N F K read0_nest read0_flights s (execute0_begin G J f co y command io s)"
  unfolding execute0_begin_def
  by (rule qmp_execute_begin_rule [OF execute0_reads(1) assms(2,3)]) (use assms in auto)

lemma execute0_resume_rule:
  assumes "qmp_quiet f"
    and "owns co (\<lambda>z. N z + execute0_nest y pc z) (F + execute0_flights pc) K s"
    and "N y < 7 \<and> snd K y = None" and "T \<Longrightarrow> talk J co y command pc s" and "pc = X_lock \<Longrightarrow> N y = 0"
  shows "execute_rule T J co y command N F K read0_nest read0_flights s
    (execute0_resume G J f co y command pc cur io s)"
  unfolding execute0_resume_def
  by (rule qmp_execute_resume_rule [OF execute0_reads assms(2-)]) (use assms in auto)

subsection \<open>Yanking\<close>

fun yank_nest :: "qmp_yank_pc \<Rightarrow> bool \<Rightarrow> nat" where
  "yank_nest (Query_yank p) z = execute0_nest True p z"
| "yank_nest (Do_yank command p) z = execute0_nest True p z"

fun yank_flights :: "qmp_yank_pc \<Rightarrow> nat" where
  "yank_flights (Query_yank p) = execute0_flights p"
| "yank_flights (Do_yank command p) = execute0_flights p"

text \<open>The rule of a call that holds no more when it returns.\<close>

definition call_rule ::
    "source \<Rightarrow> (bool \<Rightarrow> nat) \<Rightarrow> nat \<Rightarrow> others \<Rightarrow> ('p \<Rightarrow> bool \<Rightarrow> nat) \<Rightarrow> ('p \<Rightarrow> nat) \<Rightarrow>
     'z QmpState_scheme \<Rightarrow> ('p, 'r, 'z QmpState_scheme) co_result \<Rightarrow> bool" where
  "call_rule co N F K nest flights s res \<longleftrightarrow> (\<forall>r io s'. res = Some (r, io, s') \<longrightarrow>
     channel_step co s s' \<and> (case r of
       Yielding p \<Rightarrow> owns co (\<lambda>z. N z + nest p z) (F + flights p) K s'
     | Done v \<Rightarrow> owns co N F K s'))"

lemma call_rule_step:
  assumes "channel_step co s0 s" and "call_rule co N F K nest flights s res"
  shows "call_rule co N F K nest flights s0 res"
  using assms channel_step_trans [OF assms(1)] by (auto simp: call_rule_def)

lemma execute_call_rule:
  "execute_rule T J co y command N F K nest flights s res \<Longrightarrow>
     call_rule co N F K (execute_nest nest y) (execute_flights flights) s res"
  by (fastforce simp: execute_rule_def call_rule_def split: co.splits)

lemma call_rule_recurse:
  assumes "call_rule co N F K nest flights s m"
    and "\<And>p. nest' (w p) = nest p" and "\<And>p. flights' (w p) = flights p"
    and "\<And>v io s'. owns co N F K s' \<Longrightarrow> call_rule co N F K nest' flights' s' (k v io s')"
  shows "call_rule co N F K nest' flights' s (co_recurse m w k)"
  unfolding call_rule_def
proof (intro allI impI)
  fix r io s'
  assume "co_recurse m w k = Some (r, io, s')"
  then show "channel_step co s s' \<and> (case r of
      Yielding p \<Rightarrow> owns co (\<lambda>z. N z + nest' p z) (F + flights' p) K s'
    | Done v \<Rightarrow> owns co N F K s')"
  proof (cases rule: co_recurseE)
    case (1 p)
    with assms(1) have "channel_step co s s' \<and> owns co (\<lambda>z. N z + nest p z) (F + flights p) K s'"
      by (auto simp: call_rule_def)
    with 1 assms(2,3) show ?thesis by simp
  next
    case (2 v io1 s1)
    with assms(1) have "channel_step co s s1" "owns co N F K s1" by (auto simp: call_rule_def)
    with call_rule_step [OF this(1) assms(4) [OF this(2)]] 2(2) show ?thesis by (auto simp: call_rule_def)
  qed
qed

lemma call_rule_done:
  "owns co N F K s \<Longrightarrow> same_channels s s' \<Longrightarrow> call_rule co N F K nest flights s (Some (Done v, io, s'))"
  by (simp add: call_rule_def same_channels_owns same_channels_step)

lemma yank_yanked_rule:
  "owns co N F K s \<Longrightarrow> call_rule co N F K yank_nest yank_flights s (yank_yanked command result io s)"
  using same_channels_owns [of s "qmp_set_yank s" co N F K] same_channels_step [of s "qmp_set_yank s" co]
  by (auto simp: yank_yanked_def call_rule_def bind_eq_Some_conv split: sum.splits)

lemma yank_queried_rule:
  assumes q: "qmp_quiet f" and owns: "owns co N F K s" and N: "N True < 7 \<and> snd K True = None"
  shows "call_rule co N F K yank_nest yank_flights s (yank_queried G J f co result io s)"
proof -
  have go: "call_rule co N F K yank_nest yank_flights s
      (co_recurse (execute0_begin G J f co True command io s) (Do_yank command) (yank_yanked command))" for command
    by (rule call_rule_recurse [OF execute_call_rule [OF execute0_begin_rule [OF q owns N]]])
      (auto intro: yank_yanked_rule)
  show ?thesis
    using owns go by (auto simp: yank_queried_def call_rule_def bind_eq_Some_conv Let_def split: sum.splits if_splits)
qed

lemma qmp_yank_begin_rule:
  assumes q: "qmp_quiet f" and owns: "owns co N F K s" and N: "N True < 7 \<and> snd K True = None"
  shows "call_rule co N F K yank_nest yank_flights s (qmp_yank_begin G J f co io s)"
  unfolding qmp_yank_begin_def
  by (rule call_rule_recurse [OF execute_call_rule [OF execute0_begin_rule [OF q owns N]]])
    (auto intro: yank_queried_rule [where N = N and K = K, OF q _ N])

definition yank_first :: "qmp_yank_pc \<Rightarrow> bool" where
  "yank_first pc \<longleftrightarrow> pc = Query_yank X_lock \<or> (\<exists>c. pc = Do_yank c X_lock)"

lemma qmp_yank_resume_rule:
  assumes q: "qmp_quiet f" and owns: "owns co (\<lambda>z. N z + yank_nest pc z) (F + yank_flights pc) K s"
    and N: "N True < 7 \<and> snd K True = None" and first: "yank_first pc \<Longrightarrow> N True = 0"
  shows "call_rule co N F K yank_nest yank_flights s (qmp_yank_resume G J f co pc cur io s)"
proof (cases pc)
  case (Query_yank p)
  have "execute_rule False J co True query_yank_command N F K read0_nest read0_flights s
      (execute0_resume G J f co True query_yank_command p cur io s)"
    using owns first by (intro execute0_resume_rule [where N = N and K = K and y = True, OF q _ N]) (auto simp: Query_yank yank_first_def)
  then show ?thesis
    unfolding Query_yank qmp_yank_resume.simps
    by (intro call_rule_recurse [OF execute_call_rule]) (auto intro: yank_queried_rule [where N = N and K = K, OF q _ N])
next
  case (Do_yank command p)
  have "execute_rule False J co True command N F K read0_nest read0_flights s
      (execute0_resume G J f co True command p cur io s)"
    using owns first by (intro execute0_resume_rule [where N = N and K = K and y = True, OF q _ N]) (auto simp: Do_yank yank_first_def)
  then show ?thesis
    unfolding Do_yank qmp_yank_resume.simps
    by (intro call_rule_recurse [OF execute_call_rule]) (auto intro: yank_yanked_rule)
qed

subsection \<open>A read that may yank\<close>

text \<open>The yank is on the other channel: what is recorded on the QMP channel is kept meanwhile.\<close>

fun yank_read_nest :: "yank_read_pc \<Rightarrow> bool \<Rightarrow> nat" where
  "yank_read_nest (Yanking p) z = yank_nest p z"
| "yank_read_nest (Read_again p) z = read0_nest p z"

fun yank_read_flights :: "yank_read_pc \<Rightarrow> nat" where
  "yank_read_flights (Yanking p) = yank_flights p"
| "yank_read_flights (Read_again p) = read0_flights p"

definition freeze :: "others \<Rightarrow> 'z QmpState_scheme \<Rightarrow> others" where
  "freeze K s = (fst K, (snd K)(False := Some (log_of False s)))"

lemma owns_freeze: "owns co N F K s \<Longrightarrow> owns co N F (freeze K s) s"
  by (simp add: owns_def freeze_def log_of_def)

lemma owns_unfreeze:
  assumes ow: "owns co N F (freeze K s0) s" and "snd K False = None"
  shows "owns co N F K s" and "log_of False s = log_of False s0"
proof -
  from ow have *: "\<forall>y. holds co (N y) (ch_lock (qmp_chan y s))" "qmp_inflight s = fst K + of_nat F"
    "\<And>y l. ((snd K)(False := Some (log_of False s0))) y = Some l \<Longrightarrow> ch_log (qmp_chan y s) = l"
    by (simp_all add: owns_def freeze_def)
  from *(3) [of False] show "log_of False s = log_of False s0" by (simp add: log_of_def)
  have "ch_log (qmp_chan y s) = l" if "snd K y = Some l" for y l
    using *(3) [of y l] that assms(2) by (cases y) auto
  with *(1,2) show "owns co N F K s" by (simp add: owns_def)
qed

lemma read_rule_after_yank:
  assumes m: "call_rule co N F (freeze K s) nest flights s m" and K: "snd K False = None"
    and w: "\<And>p. nest' (w p) = nest p" "\<And>p. flights' (w p) = flights p"
    and k: "\<And>v io s1. owns co N F K s1 \<Longrightarrow> read_rule J co False skip N F K nest' flights' s1 (k v io s1)"
  shows "read_rule J co False skip N F K nest' flights' s (co_recurse m w k)"
  unfolding read_rule_def
proof (intro allI impI)
  fix r io s'
  assume "co_recurse m w k = Some (r, io, s')"
  then show "channel_step co s s' \<and> read_log J co False skip r s s' \<and> (case r of
      Yielding p \<Rightarrow> owns co (\<lambda>z. N z + nest' p z) (F + flights' p) K s' | Done v \<Rightarrow> owns co N F K s')"
  proof (cases rule: co_recurseE)
    case (1 p)
    with m have st: "channel_step co s s'" and ow: "owns co (\<lambda>z. N z + nest p z) (F + flights p) (freeze K s) s'"
      by (auto simp: call_rule_def)
    from owns_unfreeze [OF ow K] st 1(2) w show ?thesis
      by (auto simp: read_log_def intro!: exI [of _ "[]"])
  next
    case (2 v io1 s1)
    with m have st: "channel_step co s s1" and ow: "owns co N F (freeze K s) s1" by (auto simp: call_rule_def)
    note ow1 = owns_unfreeze [OF ow K]
    have "log_of False s1 = log_of False s @ map (Got_line co) []" using ow1(2) by simp
    note pre = read_log_prefix [OF this] channel_step_trans [OF st]
    from k [OF ow1(1), of v io1] 2(2) show ?thesis by (auto simp: read_rule_def intro!: pre)
  qed
qed

definition may_yank :: "(bool \<Rightarrow> nat) \<Rightarrow> others \<Rightarrow> bool" where
  "may_yank N K \<longleftrightarrow> 0 < N False \<and> N True = 0 \<and> snd K False = None \<and> snd K True = None"

lemma may_yankD:
  assumes "may_yank N K"
  shows "0 < N False \<and> snd K False = None" and "N True < 7 \<and> snd (freeze K s) True = None" and "N True = 0"
    and "snd K False = None"
  using assms by (auto simp: may_yank_def freeze_def)

lemma yank_read_yanked_rule:
  assumes q: "qmp_quiet f" and owns: "owns co N F K s" and N: "may_yank N K"
  shows "read_rule J co False skip N F K yank_read_nest yank_read_flights s
    (yank_read_yanked G J f co False skip ret io s)"
proof (cases ret)
  case (Inl e)
  with owns show ?thesis by (simp add: yank_read_yanked_def read_rule_def read_log_def)
next
  case (Inr u)
  have "read_rule J co False skip N F K read0_nest read0_flights s (read0_begin G J f co False skip io s)"
    by (rule read0_begin_rule [OF q may_yankD(1) [OF N] owns])
  then show ?thesis
    unfolding Inr yank_read_yanked_def sum.case by (rule read_rule_wrap) (simp_all add: fun_eq_iff)
qed

lemma yank_read_begin_rule:
  assumes q: "qmp_quiet f" and owns: "owns co N F K s" and N: "may_yank N K"
  shows "read_rule J co False skip N F K yank_read_nest yank_read_flights s
    (yank_read_begin G J f co False skip io s)"
  unfolding yank_read_begin_def
  by (rule read_rule_after_yank [OF qmp_yank_begin_rule [OF q owns_freeze [OF owns] may_yankD(2) [OF N]]])
    (use may_yankD(4) [OF N] yank_read_yanked_rule [where N = N and K = K, OF q _ N] in auto)

lemma yank_read_resume_rule:
  assumes q: "qmp_quiet f" and N: "may_yank N K"
    and owns: "owns co (\<lambda>z. N z + yank_read_nest pc z) (F + yank_read_flights pc) K s"
  shows "read_rule J co False skip N F K yank_read_nest yank_read_flights s
    (yank_read_resume G J f co False skip pc cur io s)"
proof (cases pc)
  case (Yanking p)
  have "owns co (\<lambda>z. N z + yank_nest p z) (F + yank_flights p) (freeze K s) s"
    using owns_freeze [OF owns] Yanking by simp
  then have "call_rule co N F (freeze K s) yank_nest yank_flights s (qmp_yank_resume G J f co p cur io s)"
    using may_yankD [OF N] by (intro qmp_yank_resume_rule [OF q]) auto
  then show ?thesis
    unfolding Yanking yank_read_resume.simps
    by (rule read_rule_after_yank)
      (use may_yankD(4) [OF N] yank_read_yanked_rule [where N = N and K = K, OF q _ N] in auto)
next
  case (Read_again p)
  have "read_rule J co False skip N F K read0_nest read0_flights s (read0_resume G J f co False skip p cur io s)"
    using owns Read_again 
    by (intro read0_resume_rule [where N = N and K = K and y = False, OF q may_yankD(1) [OF N]]) simp
  then show ?thesis
    unfolding Read_again yank_read_resume.simps by (rule read_rule_wrap) (simp_all add: fun_eq_iff)
qed

abbreviation "read1_nest \<equiv> read_nest yank_read_nest"
abbreviation "read1_flights \<equiv> read_flights yank_read_flights"
abbreviation "execute1_nest \<equiv> execute_nest read1_nest False"
abbreviation "execute1_flights \<equiv> execute_flights read1_flights"

text \<open>A coroutine that holds nothing executes a command.\<close>

definition idle :: "bool \<Rightarrow> nat" where
  "idle z = 0"

lemma may_yank_idle: "snd K = (\<lambda>_. None) \<Longrightarrow> may_yank (plus idle False) K"
  by (simp add: may_yank_def plus_def idle_def)

lemma execute1_reads:
  assumes q: "qmp_quiet f" and K: "snd K = (\<lambda>_. None)"
  shows "read_begin_rule J co False idle F K read1_nest read1_flights (read1_begin G J f co False True)"
    and "read_resume_rule J co False idle F K read1_nest read1_flights (read1_resume G J f co False True)"
proof -
  note N = may_yank_idle [OF K]
  have y: "yank_rule J co False True (plus idle False) (Suc F) K yank_read_nest yank_read_flights
      (Some (yank_read_begin G J f co False True))"
    unfolding yank_rule_def using yank_read_begin_rule [where N = "plus idle False" and K = K, OF q _ N] by blast
  show "read_begin_rule J co False idle F K read1_nest read1_flights (read1_begin G J f co False True)"
    unfolding read_begin_rule_def read1_begin_def
    by (intro allI impI qmp_read_loop_rule [OF q y may_yankD(1) [OF N]])
  show "read_resume_rule J co False idle F K read1_nest read1_flights (read1_resume G J f co False True)"
    unfolding read_resume_rule_def read1_resume_def
    by (intro allI impI qmp_read_resume_rule [OF q y may_yankD(1) [OF N]] yank_read_resume_rule [OF q N])
qed

lemma execute1_begin_rule:
  assumes q: "qmp_quiet f" and K: "snd K = (\<lambda>_. None)" and owns: "owns co idle F K s"
  shows "execute_rule T J co False command idle F K read1_nest read1_flights s
    (qmp_execute_nocheck_begin G J f co command io s)"
  unfolding qmp_execute_nocheck_begin_def
  by (rule qmp_execute_begin_rule [OF execute1_reads(1) [OF q K] owns]) (simp add: K idle_def)

lemma execute1_resume_rule:
  assumes q: "qmp_quiet f" and K: "snd K = (\<lambda>_. None)"
    and owns: "owns co (\<lambda>z. idle z + execute1_nest pc z) (F + execute1_flights pc) K s"
    and talk: "T \<Longrightarrow> talk J co False command pc s"
  shows "execute_rule T J co False command idle F K read1_nest read1_flights s
    (qmp_execute_nocheck_resume G J f co command pc cur io s)"
  unfolding qmp_execute_nocheck_resume_def
  by (rule qmp_execute_resume_rule [OF execute1_reads [OF q K] owns _ talk]) (simp_all add: K idle_def)

end
