(* ===== verification/Qmp_System.thy ===== *)
theory Qmp_System
  imports Qmp_Exclusion
begin

text \<open>
  The system of all coroutines on the two QMP channels, in any interleaving: the locks are
  held by the coroutine whose suspension point is inside the channel and by nobody else, the
  calls in flight are those of the suspended coroutines, and a reply is handed to the coroutine
  that sent the command.
\<close>

subsection \<open>Segments\<close>

definition segment_rule ::
    "source \<Rightarrow> (('p, 'r) co \<Rightarrow> 'z QmpState_scheme \<Rightarrow> bool) \<Rightarrow> 'z QmpState_scheme \<Rightarrow>
     ('p, 'r, 'z QmpState_scheme) co_result \<Rightarrow> bool" where
  "segment_rule co post s res \<longleftrightarrow> (\<forall>r io s'. res = Some (r, io, s') \<longrightarrow> channel_step co s s' \<and> post r s')"

lemma segment_rule_step:
  "channel_step co s0 s \<Longrightarrow> segment_rule co post s res \<Longrightarrow> segment_rule co post s0 res"
  unfolding segment_rule_def using channel_step_trans by blast

lemma segment_rule_recurse:
  assumes "segment_rule co post1 s m"
    and "\<And>p s'. post1 (Yielding p) s' \<Longrightarrow> post2 (Yielding (w p)) s'"
    and "\<And>v io s1. post1 (Done v) s1 \<Longrightarrow> segment_rule co post2 s1 (k v io s1)"
  shows "segment_rule co post2 s (co_recurse m w k)"
  unfolding segment_rule_def
proof (intro allI impI)
  fix r io s'
  assume "co_recurse m w k = Some (r, io, s')"
  then show "channel_step co s s' \<and> post2 r s'"
  proof (cases rule: co_recurseE)
    case (1 p)
    with assms(1,2) show ?thesis by (auto simp: segment_rule_def)
  next
    case (2 v io1 s1)
    with assms(1) have "channel_step co s s1" "post1 (Done v) s1" by (auto simp: segment_rule_def)
    with segment_rule_step [OF this(1) assms(3) [OF this(2)]] 2(2) show ?thesis
      by (auto simp: segment_rule_def)
  qed
qed

lemma read_segment:
  "read_rule J co y skip N F K nest flights s res \<Longrightarrow> segment_rule co (\<lambda>r s'. case r of
     Yielding p \<Rightarrow> owns co (\<lambda>z. N z + nest p z) (F + flights p) K s' | Done v \<Rightarrow> owns co N F K s') s res"
  by (simp add: read_rule_def segment_rule_def)

lemma execute_segment:
  "execute_rule T J co y command N F K nest flights s res \<Longrightarrow> segment_rule co (\<lambda>r s'. case r of
     Yielding p \<Rightarrow> (0 < N y \<longrightarrow> p \<noteq> X_lock) \<and>
       owns co (\<lambda>z. N z + execute_nest nest y p z) (F + execute_flights flights p) K s'
   | Done v \<Rightarrow> owns co N F K s') s res"
  by (fastforce simp: execute_rule_def segment_rule_def split: co.splits)

lemma owns_set_error: "owns co N F K s \<Longrightarrow> owns co N F K (qmp_set_error e s)"
  using same_channels_owns [of s "qmp_set_error e s" co N F K] by simp

lemma channel_step_set_error: "channel_step co s s' \<Longrightarrow> channel_step co s (qmp_set_error e s')"
  using channel_step_trans [OF _ same_channels_step [of s' "qmp_set_error e s'" co]] by simp

subsection \<open>Handshake\<close>

fun handshake_nest :: "bool \<Rightarrow> handshake_pc \<Rightarrow> bool \<Rightarrow> nat" where
  "handshake_nest y Hs_start = plus idle y"
| "handshake_nest y (Hs_greeting p) = (\<lambda>z. plus idle y z + read0_nest p z)"
| "handshake_nest y (Hs_capabilities p) = (\<lambda>z. plus idle y z + execute0_nest y p z)"

fun handshake_flights :: "handshake_pc \<Rightarrow> nat" where
  "handshake_flights Hs_start = 1"
| "handshake_flights (Hs_greeting p) = 1 + read0_flights p"
| "handshake_flights (Hs_capabilities p) = 1 + execute0_flights p"

definition handshake_post :: "bool \<Rightarrow> others \<Rightarrow> (handshake_pc, unit) co \<Rightarrow> 'z QmpState_scheme \<Rightarrow> bool" where
  "handshake_post y K r s \<longleftrightarrow> (case r of
     Yielding p \<Rightarrow> p \<noteq> Hs_capabilities X_lock \<and>
       owns (S_qmp_handshake y) (handshake_nest y p) (handshake_flights p) K s
   | Done v \<Rightarrow> owns (S_qmp_handshake y) idle 1 K s)"

lemma handshake_capable_rule:
  assumes "owns (S_qmp_handshake y) (plus idle y) 1 K s"
  shows "segment_rule (S_qmp_handshake y) (handshake_post y K) s (handshake_capable y result io s)"
proof (cases "qmp_unlock (S_qmp_handshake y) y s")
  case None
  then show ?thesis by (simp add: segment_rule_def handshake_capable_def)
next
  case (Some s1)
  from qmp_unlock_rule(1,2) [OF assms Some] Some show ?thesis
    by (cases result)
      (auto simp: segment_rule_def handshake_post_def handshake_capable_def bind_eq_Some_conv
        owns_set_error channel_step_set_error)
qed

lemma handshake_greeted_rule:
  assumes q: "qmp_quiet f" and K: "snd K = (\<lambda>_. None)" and owns: "owns (S_qmp_handshake y) (plus idle y) 1 K s"
  shows "segment_rule (S_qmp_handshake y) (handshake_post y K) s (handshake_greeted G J f y result io s)"
proof (cases result)
  case (Inl e)
  show ?thesis
  proof (cases "qmp_unlock (S_qmp_handshake y) y s")
    case (Some s1)
    with Inl qmp_unlock_rule(1,2) [OF owns Some] show ?thesis
      by (simp add: segment_rule_def handshake_post_def handshake_greeted_def owns_set_error
          channel_step_set_error)
  qed (simp add: Inl segment_rule_def handshake_greeted_def)
next
  case (Inr r)
  have N: "plus idle y y < 7 \<and> snd K y = None" by (simp add: K idle_def)
  show ?thesis
    unfolding handshake_greeted_def Inr sum.case
    by (rule segment_rule_recurse [OF execute_segment [OF execute0_begin_rule [OF q owns N]]])
      (auto simp: handshake_post_def intro: handshake_capable_rule)
qed

lemma handshake_resume_rule:
  assumes q: "qmp_quiet f" and K: "snd K = (\<lambda>_. None)"
    and owns: "owns (S_qmp_handshake y) (handshake_nest y pc) (handshake_flights pc) K s"
    and pc: "pc \<noteq> Hs_capabilities X_lock"
  shows "segment_rule (S_qmp_handshake y) (handshake_post y K) s (handshake_resume G J f y pc cur io s)"
proof -
  have N: "0 < plus idle y y \<and> snd K y = None" "plus idle y y < 7 \<and> snd K y = None"
    by (simp_all add: K idle_def)
  show ?thesis
  proof (cases pc)
    case Hs_start
    with owns have "owns (S_qmp_handshake y) (plus idle y) 1 K s" by simp
    then show ?thesis
      unfolding Hs_start handshake_resume.simps
      by (rule segment_rule_recurse [OF read_segment [OF read0_begin_rule [where N = "plus idle y" and K = K and y = y, OF q N(1)]]])
        (auto simp: handshake_post_def intro: handshake_greeted_rule [OF q K])
  next
    case (Hs_greeting p)
    have "read_rule J (S_qmp_handshake y) y True (plus idle y) 1 K read0_nest read0_flights s
        (read0_resume G J f (S_qmp_handshake y) y True p cur io s)"
      using owns Hs_greeting by (intro read0_resume_rule [where N = "plus idle y" and K = K, OF q N(1)]) simp
    then show ?thesis
      unfolding Hs_greeting handshake_resume.simps
      by (intro segment_rule_recurse [OF read_segment])
        (auto simp: handshake_post_def intro: handshake_greeted_rule [OF q K])
  next
    case (Hs_capabilities p)
    have E: "execute_rule False J (S_qmp_handshake y) y qmp_capabilities_command (plus idle y) 1 K
        read0_nest read0_flights s (execute0_resume G J f (S_qmp_handshake y) y qmp_capabilities_command p cur io s)"
      using owns pc Hs_capabilities
      by (intro execute0_resume_rule [where N = "plus idle y" and K = K and y = y, OF q _ N(2)]) auto
    show ?thesis
      unfolding Hs_capabilities handshake_resume.simps
      by (rule segment_rule_recurse [OF execute_segment [OF E]])
        (auto simp: handshake_post_def intro: handshake_capable_rule)
  qed
qed

lemma qmp_coroutine_end_rule:
  assumes "qmp_coroutine_end co s = Some s'" and "owns co idle 1 K s"
  shows "owns co idle 0 K s'" and "channel_step co s s'"
proof -
  from assms(1) obtain ss where s': "s' = (s\<lparr>ml_sources := ss\<rparr>)\<lparr>qmp_inflight := qmp_inflight s - 1\<rparr>"
    by (auto simp: qmp_coroutine_end_def bind_eq_Some_conv)
  have same: "same_channels s (s\<lparr>ml_sources := ss\<rparr>)" by simp
  have "owns co idle (Suc 0) K (s\<lparr>ml_sources := ss\<rparr>)" using assms(2) same_channels_owns [OF same] by simp
  from owns_landed [OF this] show "owns co idle 0 K s'" by (simp add: s')
  show "channel_step co s s'"
    unfolding s' using channel_step_trans [OF same_channels_step [OF same] channel_step_inflight] .
qed

subsection \<open>Event reader\<close>

fun event_nest :: "bool \<Rightarrow> event_pc \<Rightarrow> bool \<Rightarrow> nat" where
  "event_nest y (Ev_read p) = (\<lambda>z. plus idle y z + read0_nest p z)"
| "event_nest y _ = idle"

fun event_flights :: "event_pc \<Rightarrow> nat" where
  "event_flights (Ev_read p) = 1 + read0_flights p"
| "event_flights _ = 1"

definition event_post :: "bool \<Rightarrow> others \<Rightarrow> (bool \<times> event_pc, unit) co \<Rightarrow> 'z QmpState_scheme \<Rightarrow> bool" where
  "event_post y K r s \<longleftrightarrow> (case r of
     Yielding p \<Rightarrow> owns (S_qmp_event y) (event_nest y (snd p)) (event_flights (snd p)) K s
   | Done v \<Rightarrow> owns (S_qmp_event y) idle 1 K s)"

lemma event_again_rule:
  assumes "owns (S_qmp_event y) idle 1 K s"
  shows "segment_rule (S_qmp_event y) (event_post y K) s (event_again G y io s)"
proof -
  have same: "same_channels s (snd (add_source G (S_qmp_event y) s))" by simp
  show ?thesis
    using assms same_channels_owns [OF same] same_channels_step [OF same]
    by (simp add: segment_rule_def event_again_def event_post_def)
qed

lemma event_got_rule:
  assumes q: "qmp_quiet f" and owns: "owns (S_qmp_event y) (plus idle y) 1 K s"
  shows "segment_rule (S_qmp_event y) (event_post y K) s (event_got G f y result io s)"
proof (cases "qmp_unlock (S_qmp_event y) y s")
  case None
  then show ?thesis by (simp add: segment_rule_def event_got_def)
next
  case (Some s1)
  note U = qmp_unlock_rule(1,2) [OF owns Some]
  show ?thesis
  proof (cases result)
    case (Inl e)
    with U Some show ?thesis
      by (simp add: segment_rule_def event_post_def event_got_def owns_set_error channel_step_set_error)
  next
    case (Inr r)
    have again: "segment_rule (S_qmp_event y) (event_post y K) s (event_again G y io s2)"
      if "same_channels s1 s2" for s2
      using that U same_channels_owns [OF that]
      by (intro segment_rule_step [OF channel_step_trans [OF U(2) same_channels_step] event_again_rule]) simp_all
    show ?thesis
    proof (cases "has_member (qr_json_root r) ''event''")
      case None
      with Inr Some show ?thesis by (simp add: segment_rule_def event_got_def)
    next
      case (Some b)
      show ?thesis
      proof (cases "b \<and> \<not> ch_discard_events (qmp_chan y s1)")
        case True
        show ?thesis
        proof (cases "qmp_notify_event f (qr_json_root r) s1")
          case (Some s2)
          with again [OF same_channels_notify [OF q Some]] True Inr \<open>qmp_unlock _ y s = Some s1\<close> \<open>has_member _ _ = Some b\<close>
          show ?thesis by (simp add: event_got_def)
        qed (use True Inr \<open>qmp_unlock _ y s = Some s1\<close> \<open>has_member _ _ = Some b\<close>
            in \<open>simp add: segment_rule_def event_got_def\<close>)
      next
        case False
        with Inr \<open>qmp_unlock _ y s = Some s1\<close> \<open>has_member _ _ = Some b\<close> again show ?thesis
          by (auto simp: event_got_def)
      qed
    qed
  qed
qed

lemma event_resume_rule:
  assumes q: "qmp_quiet f" and K: "snd K = (\<lambda>_. None)"
    and owns: "owns (S_qmp_event y) (event_nest y pc) (event_flights pc) K s"
  shows "segment_rule (S_qmp_event y) (event_post y K) s (event_resume G J f y pc cur io s)"
proof -
  have N: "0 < plus idle y y \<and> snd K y = None" by (simp add: K idle_def)
  have got: "segment_rule (S_qmp_event y) (event_post y K) t
      (co_recurse m (\<lambda>p. (False, Ev_read p)) (event_got G f y))"
    if "read_rule J (S_qmp_event y) y False (plus idle y) 1 K read0_nest read0_flights t m" for t m
    by (rule segment_rule_recurse [OF read_segment [OF that]])
      (auto simp: event_post_def intro: event_got_rule [OF q])
  show ?thesis
  proof (cases pc)
    case Ev_start
    with owns show ?thesis by (auto intro: event_again_rule)
  next
    case Ev_watch
    show ?thesis
    proof (cases "lk_holder (ch_lock (qmp_chan y s)) = None")
      case False
      with owns Ev_watch show ?thesis by (simp add: segment_rule_def event_post_def)
    next
      case True
      show ?thesis
      proof (cases "colod_lock_co (S_qmp_event y) (ch_lock (qmp_chan y s))")
        case (Some lock)
        show ?thesis
        proof (cases lock)
          case (Some l)
          have ow: "owns (S_qmp_event y) idle 1 K s" using owns Ev_watch by simp
          have "idle y < 7" by (simp add: idle_def)
          note L = qmp_lock_rule [OF ow this, of l]
          have l: "colod_lock_co (S_qmp_event y) (ch_lock (qmp_chan y s)) = Some (Some l)"
            using Some \<open>colod_lock_co _ _ = Some lock\<close> by simp
          with L have "owns (S_qmp_event y) (plus idle y) 1 K (qmp_set_lock y l s)"
            and st: "channel_step (S_qmp_event y) s (qmp_set_lock y l s)" by blast+
          with got [OF read0_begin_rule [where N = "plus idle y" and K = K and y = y, OF q N]] True l
          show ?thesis by (auto simp: Ev_watch intro: segment_rule_step [OF st])
        qed (use True \<open>colod_lock_co _ _ = Some lock\<close> in \<open>simp add: Ev_watch segment_rule_def\<close>)
      qed (use True in \<open>simp add: Ev_watch segment_rule_def\<close>)
    qed
  next
    case (Ev_read p)
    have "read_rule J (S_qmp_event y) y False (plus idle y) 1 K read0_nest read0_flights s
        (read0_resume G J f (S_qmp_event y) y False p cur io s)"
      using owns Ev_read by (intro read0_resume_rule [where N = "plus idle y" and K = K, OF q N]) simp
    from got [OF this] show ?thesis by (simp add: Ev_read)
  qed
qed

subsection \<open>The invariant of the system\<close>

text \<open>What a suspended coroutine holds, which calls are its own, and what it has recorded.\<close>

fun co_nest :: "qmp_co \<Rightarrow> bool \<Rightarrow> nat" where
  "co_nest (Co_execute check command p) = (\<lambda>z. idle z + execute1_nest p z)"
| "co_nest (Co_yank p) = (\<lambda>z. idle z + yank_nest p z)"
| "co_nest (Co_handshake y p) = handshake_nest y p"
| "co_nest (Co_event y p) = event_nest y p"

fun co_flights :: "qmp_co \<Rightarrow> nat" where
  "co_flights (Co_execute check command p) = execute1_flights p"
| "co_flights (Co_yank p) = yank_flights p"
| "co_flights (Co_handshake y p) = handshake_flights p"
| "co_flights (Co_event y p) = event_flights p"

fun co_valid :: "json_glib \<Rightarrow> source \<Rightarrow> qmp_co \<Rightarrow> 'z QmpState_scheme \<Rightarrow> bool" where
  "co_valid J co (Co_execute check command p) s \<longleftrightarrow> \<not> reader_co co \<and> talk J co False command p s"
| "co_valid J co (Co_yank p) s \<longleftrightarrow> \<not> reader_co co"
| "co_valid J co (Co_handshake y p) s \<longleftrightarrow> co = S_qmp_handshake y \<and> p \<noteq> Hs_capabilities X_lock"
| "co_valid J co (Co_event y p) s \<longleftrightarrow> co = S_qmp_event y"

definition nest_of :: "(source \<times> qmp_co) list \<Rightarrow> source \<Rightarrow> bool \<Rightarrow> nat" where
  "nest_of cos co = (case map_of cos co of None \<Rightarrow> idle | Some pc \<Rightarrow> co_nest pc)"

definition flights_of :: "(source \<times> qmp_co) list \<Rightarrow> nat" where
  "flights_of cos = sum_list (map (\<lambda>x. co_flights (snd x)) cos)"

definition qs_inv :: "json_glib \<Rightarrow> 'z QmpState_scheme QmpSystem \<Rightarrow> bool" where
  "qs_inv J sys \<longleftrightarrow> distinct (map fst (qs_cos sys)) \<and>
     (\<forall>x\<in>set (qs_cos sys). co_valid J (fst x) (snd x) (qs_state sys)) \<and>
     (\<forall>co y. holds co (nest_of (qs_cos sys) co y) (ch_lock (qmp_chan y (qs_state sys)))) \<and>
     qmp_inflight (qs_state sys) = of_nat (flights_of (qs_cos sys))"

text \<open>
  The turn of one coroutine from the system without it: it returned, or it is suspended again.
  A command that returned is recorded with its result.
\<close>

definition result_ok :: "json_glib \<Rightarrow> source \<Rightarrow> string \<Rightarrow> ColodQmpResult fallible \<Rightarrow> 'z QmpState_scheme \<Rightarrow> bool" where
  "result_ok J co command v s \<longleftrightarrow> (case v of
     Inr x \<Rightarrow> heard J co False command [qr_line x] s
   | Inl e \<Rightarrow> qmp_error s \<noteq> None \<or> g_error_matches e COLOD_ERROR_QMP)"

definition turn :: "json_glib \<Rightarrow> source \<Rightarrow> others \<Rightarrow> 'z QmpState_scheme QmpSystem \<Rightarrow> 'z QmpState_scheme QmpSystem \<Rightarrow> bool" where
  "turn J co K sys sys' \<longleftrightarrow> channel_step co (qs_state sys) (qs_state sys') \<and>
     (qs_cos sys' = qs_cos sys \<and> owns co idle 0 K (qs_state sys') \<or>
      (\<exists>pc. qs_cos sys' = (co, pc) # qs_cos sys \<and> owns co (co_nest pc) (co_flights pc) K (qs_state sys') \<and>
         co_valid J co pc (qs_state sys'))) \<and>
     (qs_returned sys' = qs_returned sys \<or> (\<exists>command v.
        qs_returned sys' = qs_returned sys @ [(co, command, v)] \<and> result_ok J co command v (qs_state sys')))"

lemma qs_execute_turn:
  assumes "execute_rule True J co False command idle 0 K read1_nest read1_flights (qs_state sys) res"
    and "qs_execute co check command res sys = Some sys'" and "\<not> reader_co co"
  shows "turn J co K sys sys'"
proof -
  from assms(2) obtain r io s where
    r: "(if check then co_recurse res (\<lambda>p. p) (qmp_execute_check command) else res) = Some (r, io, s)"
    and sys': "sys' = (case r of
       Yielding p \<Rightarrow> qs_suspend co (Co_execute check command p) (sys\<lparr>qs_state := s\<rparr>)
     | Done v \<Rightarrow> sys\<lparr>qs_state := s, qs_returned := qs_returned sys @ [(co, command, v)]\<rparr>)"
    by (auto simp: qs_execute_def bind_eq_Some_conv Let_def)
  have yielding: "channel_step co (qs_state sys) s \<and> talk J co False command p s \<and>
      owns co (\<lambda>z. idle z + execute1_nest p z) (execute1_flights p) K s"
    if "res = Some (Yielding p, io', s)" for p io'
    using assms(1) that by (auto simp: execute_rule_def)
  have finished: "channel_step co (qs_state sys) s \<and> owns co idle 0 K s \<and> result_ok J co command v s"
    if "res = Some (Done v, io', s)" for v io'
    using assms(1) that by (auto simp: execute_rule_def result_ok_def split: sum.splits)
  have checked: "r = Done v \<and> s = s1 \<or> (\<exists>e. r = Done (Inl e) \<and> g_error_matches e COLOD_ERROR_QMP \<and> s = s1)"
    if "qmp_execute_check command v io1 s1 = Some (r, io, s)" for v io1 s1
    using that by (auto simp: qmp_execute_check_def bind_eq_Some_conv split: sum.splits if_splits)
  have "(\<exists>p. r = Yielding p \<and> channel_step co (qs_state sys) s \<and> talk J co False command p s \<and>
        owns co (\<lambda>z. idle z + execute1_nest p z) (execute1_flights p) K s) \<or>
      (\<exists>v. r = Done v \<and> channel_step co (qs_state sys) s \<and> owns co idle 0 K s \<and> result_ok J co command v s)"
  proof (cases check)
    case False
    with r yielding finished show ?thesis by (cases r) auto
  next
    case True
    with r have "co_recurse res (\<lambda>p. p) (qmp_execute_check command) = Some (r, io, s)" by simp
    then show ?thesis
    proof (cases rule: co_recurseE)
      case (1 p)
      with yielding show ?thesis by auto
    next
      case (2 v io1 s1)
      from checked [OF 2(2)] 2(1) finished show ?thesis by (auto simp: result_ok_def)
    qed
  qed
  then show ?thesis
    using sys' assms(3) by (auto simp: turn_def qs_suspend_def)
qed

lemma qs_yank_turn:
  assumes "call_rule co idle 0 K yank_nest yank_flights (qs_state sys) res"
    and "qs_yank co res sys = Some sys'" and "\<not> reader_co co"
  shows "turn J co K sys sys'"
proof -
  from assms(2) obtain r io s where r: "res = Some (r, io, s)"
    and sys': "sys' = (case r of Yielding p \<Rightarrow> qs_suspend co (Co_yank p) (sys\<lparr>qs_state := s\<rparr>)
      | Done v \<Rightarrow> sys\<lparr>qs_state := s\<rparr>)"
    by (auto simp: qs_yank_def bind_eq_Some_conv Let_def)
  with assms(1,3) show ?thesis
    by (cases r) (auto simp: turn_def call_rule_def qs_suspend_def)
qed

lemma qs_resume_turn:
  assumes q: "qmp_quiet f" and K: "snd K = (\<lambda>_. None)"
    and owns: "owns co (co_nest pc) (co_flights pc) K (qs_state sys)" and valid: "co_valid J co pc (qs_state sys)"
    and step: "qs_resume G J f co pc i io sys = Some (keep, sys')"
  shows "turn J co K sys sys'"
proof (cases pc)
  case (Co_execute check command p)
  with owns valid have "execute_rule True J co False command idle 0 K read1_nest read1_flights (qs_state sys)
      (qmp_execute_nocheck_resume G J f co command p i io (qs_state sys))"
    by (intro execute1_resume_rule [OF q K]) simp_all
  from qs_execute_turn [OF this] step valid Co_execute show ?thesis by (auto simp: bind_eq_Some_conv)
next
  case (Co_yank p)
  with owns have "call_rule co idle 0 K yank_nest yank_flights (qs_state sys)
      (qmp_yank_resume G J f co p i io (qs_state sys))"
    by (intro qmp_yank_resume_rule [OF q]) (simp_all add: K idle_def)
  from qs_yank_turn [OF this] step valid Co_yank show ?thesis by (auto simp: bind_eq_Some_conv)
next
  case (Co_handshake y p)
  with valid have co: "co = S_qmp_handshake y" by simp
  from step Co_handshake obtain pr s2 where
    pr: "qmp_handshake_readable_co G J f y p i io (qs_state sys) = Some (pr, s2)"
    and sys': "sys' = (case pr of Some p' \<Rightarrow> qs_suspend co (Co_handshake y p') (sys\<lparr>qs_state := s2\<rparr>)
      | None \<Rightarrow> sys\<lparr>qs_state := s2\<rparr>)"
    by (auto simp: bind_eq_Some_conv Let_def)
  from pr obtain r io1 s1 where r: "handshake_resume G J f y p i io (qs_state sys) = Some (r, io1, s1)"
    and "(case r of Yielding pc' \<Rightarrow> Some (Some pc', s1)
      | Done _ \<Rightarrow> do { s2 \<leftarrow> qmp_coroutine_end co s1; Some (None, s2) }) = Some (pr, s2)"
    unfolding co by (auto simp: qmp_handshake_readable_co_def bind_eq_Some_conv)
  with sys' have fin: "case r of Yielding p' \<Rightarrow> sys' = qs_suspend co (Co_handshake y p') (sys\<lparr>qs_state := s1\<rparr>)
      | Done u \<Rightarrow> \<exists>s2. qmp_coroutine_end co s1 = Some s2 \<and> sys' = sys\<lparr>qs_state := s2\<rparr>"
    by (cases r) (auto simp: bind_eq_Some_conv)
  have "segment_rule co (handshake_post y K) (qs_state sys) (handshake_resume G J f y p i io (qs_state sys))"
    using owns valid Co_handshake unfolding co by (intro handshake_resume_rule [OF q K]) simp_all
  with r have st: "channel_step co (qs_state sys) s1" and post: "handshake_post y K r s1"
    by (auto simp: segment_rule_def)
  show ?thesis
  proof (cases r)
    case (Yielding p')
    with fin st post show ?thesis
      by (auto simp: turn_def qs_suspend_def handshake_post_def co)
  next
    case (Done u)
    with fin obtain s2 where s2: "qmp_coroutine_end co s1 = Some s2" "sys' = sys\<lparr>qs_state := s2\<rparr>" by auto
    have "owns co idle 1 K s1" using post Done by (simp add: handshake_post_def co)
    from qmp_coroutine_end_rule [OF s2(1) this] st s2(2) show ?thesis
      by (auto simp: turn_def intro: channel_step_trans)
  qed
next
  case (Co_event y p)
  with valid have co: "co = S_qmp_event y" by simp
  from step Co_event obtain pr s2 where
    pr: "qmp_event_co G J f y p i io (qs_state sys) = Some (pr, s2)"
    and sys': "sys' = (case pr of Some p' \<Rightarrow> qs_suspend co (Co_event y (snd p')) (sys\<lparr>qs_state := s2\<rparr>)
      | None \<Rightarrow> sys\<lparr>qs_state := s2\<rparr>)"
    by (auto simp: bind_eq_Some_conv Let_def split: option.splits prod.splits)
  from pr obtain r io1 s1 where r: "event_resume G J f y p i io (qs_state sys) = Some (r, io1, s1)"
    and "(case r of Yielding pc' \<Rightarrow> Some (Some pc', s1)
      | Done _ \<Rightarrow> do { s2 \<leftarrow> qmp_coroutine_end co s1; Some (None, s2) }) = Some (pr, s2)"
    unfolding co by (auto simp: qmp_event_co_def bind_eq_Some_conv)
  with sys' have fin: "case r of Yielding p' \<Rightarrow> sys' = qs_suspend co (Co_event y (snd p')) (sys\<lparr>qs_state := s1\<rparr>)
      | Done u \<Rightarrow> \<exists>s2. qmp_coroutine_end co s1 = Some s2 \<and> sys' = sys\<lparr>qs_state := s2\<rparr>"
    by (cases r) (auto simp: bind_eq_Some_conv)
  have "segment_rule co (event_post y K) (qs_state sys) (event_resume G J f y p i io (qs_state sys))"
    using owns Co_event unfolding co by (intro event_resume_rule [OF q K]) simp
  with r have st: "channel_step co (qs_state sys) s1" and post: "event_post y K r s1"
    by (auto simp: segment_rule_def)
  show ?thesis
  proof (cases r)
    case (Yielding p')
    with fin st post show ?thesis
      by (auto simp: turn_def qs_suspend_def event_post_def co)
  next
    case (Done u)
    with fin obtain s2 where s2: "qmp_coroutine_end co s1 = Some s2" "sys' = sys\<lparr>qs_state := s2\<rparr>" by auto
    have "owns co idle 1 K s1" using post Done by (simp add: event_post_def co)
    from qmp_coroutine_end_rule [OF s2(1) this] st s2(2) show ?thesis
      by (auto simp: turn_def intro: channel_step_trans)
  qed
qed

text \<open>The other coroutines do not notice the turn.\<close>

lemma talk_nest:
  assumes "talk J co False command p s" and "log_of False s' = log_of False s \<or> execute1_nest p False = 0"
  shows "talk J co False command p s'"
proof (cases p)
  case (X_write w)
  with assms show ?thesis by (simp add: said_def)
next
  case (X_read q)
  with assms show ?thesis by (simp add: heard_def)
qed simp

lemma flights_of_without:
  assumes "distinct (map fst cos)"
  shows "flights_of cos = flights_of (filter (\<lambda>x. fst x \<noteq> co) cos) +
    (case map_of cos co of None \<Rightarrow> 0 | Some pc \<Rightarrow> co_flights pc)"
  using assms
proof (induction cos)
  case (Cons x cos)
  show ?case
  proof (cases "fst x = co")
    case True
    with Cons.prems have "filter (\<lambda>x. fst x \<noteq> co) cos = cos" by (intro filter_True) (auto simp: image_iff)
    with True show ?thesis by (cases x) (auto simp: flights_of_def)
  next
    case False
    with Cons show ?thesis by (cases x) (auto simp: flights_of_def)
  qed
qed (simp add: flights_of_def)

lemma nest_of_without: "nest_of (filter (\<lambda>x. fst x \<noteq> co) cos) co' = (if co' = co then idle else nest_of cos co')"
proof -
  have "map_of (filter (\<lambda>x. fst x \<noteq> co) cos) co' = (if co' = co then None else map_of cos co')"
    by (induction cos) auto
  then show ?thesis by (simp add: nest_of_def)
qed

definition others_of :: "(source \<times> qmp_co) list \<Rightarrow> others" where
  "others_of cos = (of_nat (flights_of cos), \<lambda>_. None)"

lemma qs_inv_owns:
  assumes "qs_inv J sys"
  shows "owns co (nest_of (qs_cos sys) co) (case map_of (qs_cos sys) co of None \<Rightarrow> 0 | Some pc \<Rightarrow> co_flights pc)
    (others_of (qs_cos (qs_without co sys))) (qs_state sys)"
  using assms flights_of_without [of "qs_cos sys" co]
  by (auto simp: qs_inv_def owns_def others_of_def qs_without_def)

lemma qs_inv_turn:
  assumes I: "qs_inv J sys"
    and t: "turn J co (others_of (qs_cos (qs_without co sys))) (qs_without co sys) sys'"
  shows "qs_inv J sys'"
proof -
  let ?cos = "filter (\<lambda>x. fst x \<noteq> co) (qs_cos sys)" and ?s = "qs_state sys" and ?s' = "qs_state sys'"
  from I have dist: "distinct (map fst (qs_cos sys))"
    and valid: "\<And>x. x \<in> set (qs_cos sys) \<Longrightarrow> co_valid J (fst x) (snd x) ?s"
    and held: "\<And>c y. holds c (nest_of (qs_cos sys) c y) (ch_lock (qmp_chan y ?s))"
    by (auto simp: qs_inv_def)
  have dist': "distinct (map fst ?cos)" using dist by (rule distinct_map_filter)
  from t have st: "channel_step co ?s ?s'"
    and after: "qs_cos sys' = ?cos \<and> owns co idle 0 (others_of ?cos) ?s' \<or>
      (\<exists>pc. qs_cos sys' = (co, pc) # ?cos \<and> owns co (co_nest pc) (co_flights pc) (others_of ?cos) ?s' \<and>
         co_valid J co pc ?s')"
    by (auto simp: turn_def qs_without_def)
  then obtain N F where own: "owns co N F (others_of ?cos) ?s'" by blast
  have other: "holds c (nest_of (qs_cos sys) c y) (ch_lock (qmp_chan y ?s'))" if "c \<noteq> co" for c y
    by (rule holds_other [OF st held that owns_holds [OF own]])
  have same_log: "log_of False ?s' = log_of False ?s" if "c \<noteq> co" "0 < nest_of (qs_cos sys) c False" for c
  proof -
    have "lk_holder (ch_lock (qmp_chan False ?s)) = Some c"
      using held [of c False] that(2) by (auto simp: holds_def split: if_splits)
    with st that(1) show ?thesis by (auto simp: channel_step_def chan_step_def log_of_def)
  qed
  have valid': "co_valid J (fst x) (snd x) ?s'" if x: "x \<in> set ?cos" for x
  proof (cases "snd x")
    case (Co_execute check command p)
    have m: "map_of (qs_cos sys) (fst x) = Some (snd x)"
      using x map_of_is_SomeI [OF dist, of "fst x" "snd x"] by simp
    have "talk J (fst x) False command p ?s'"
    proof (rule talk_nest)
      show "talk J (fst x) False command p ?s" using valid [of x] x Co_execute by simp
      have "nest_of (qs_cos sys) (fst x) False = execute1_nest p False"
        using m Co_execute by (simp add: nest_of_def idle_def)
      with same_log [of "fst x"] x show "log_of False ?s' = log_of False ?s \<or> execute1_nest p False = 0" by auto
    qed
    with valid [of x] x Co_execute show ?thesis by simp
  qed (use valid [of x] x in simp_all)
  then have valid'': "\<forall>x\<in>set ?cos. co_valid J (fst x) (snd x) ?s'" by blast
  have infl: "qmp_inflight ?s' = of_nat (flights_of ?cos + F)"
    using own by (simp add: owns_def others_of_def)
  show ?thesis
    using after
  proof (elim disjE exE conjE)
    assume cos: "qs_cos sys' = ?cos" and ow: "owns co idle 0 (others_of ?cos) ?s'"
    have "holds c (nest_of ?cos c y) (ch_lock (qmp_chan y ?s'))" for c y
      using other [of c y] owns_holds [OF ow, of y] by (cases "c = co") (simp_all add: nest_of_without)
    with dist' valid'' ow cos show ?thesis by (simp add: qs_inv_def owns_def others_of_def)
  next
    fix pc
    assume cos: "qs_cos sys' = (co, pc) # ?cos" and ow: "owns co (co_nest pc) (co_flights pc) (others_of ?cos) ?s'"
      and v: "co_valid J co pc ?s'"
    have n: "nest_of ((co, pc) # ?cos) c = (if c = co then co_nest pc else nest_of (qs_cos sys) c)" for c
      using nest_of_without [of co "qs_cos sys" c] by (auto simp: nest_of_def)
    have "holds c (nest_of ((co, pc) # ?cos) c y) (ch_lock (qmp_chan y ?s'))" for c y
      using other [of c y] owns_holds [OF ow, of y] by (simp add: n)
    moreover have "co \<notin> fst ` set ?cos" by auto
    ultimately show ?thesis
      using dist' valid'' ow cos v
      by (simp add: qs_inv_def owns_def others_of_def flights_of_def add.commute del: set_filter)
  qed
qed

lemma qs_without_absent: "map_of (qs_cos sys) co = None \<Longrightarrow> qs_without co sys = sys"
proof -
  assume "map_of (qs_cos sys) co = None"
  then have "filter (\<lambda>x. fst x \<noteq> co) (qs_cos sys) = qs_cos sys"
    by (intro filter_True) (auto simp: map_of_eq_None_iff image_iff)
  then show ?thesis by (simp add: qs_without_def)
qed

text \<open>Every step is a turn of one coroutine, or none.\<close>

lemma turn_same:
  assumes "turn J co K sys sys'" and "same_channels (qs_state sys') s"
  shows "turn J co K sys (sys'\<lparr>qs_state := s\<rparr>)"
proof -
  have ow: "owns co N F K' s = owns co N F K' (qs_state sys')" for N F K'
    by (rule same_channels_owns [OF assms(2)])
  have log: "log_of False s = log_of False (qs_state sys')" by (rule same_channels_log [OF assms(2)])
  have valid: "co_valid J co pc (qs_state sys') \<Longrightarrow> co_valid J co pc s" for pc
    by (cases pc) (auto intro: talk_nest [OF _ disjI1 [OF log]])
  have res: "result_ok J co command v (qs_state sys') \<Longrightarrow> result_ok J co command v s" for command v
    using assms(2) by (auto simp: result_ok_def heard_def log same_channels_def split: sum.splits)
  have "channel_step co (qs_state sys) s"
    using assms(1) same_channels_step [OF assms(2)] by (auto simp: turn_def intro: channel_step_trans)
  with assms(1) show ?thesis by (auto simp: turn_def ow intro: valid res)
qed

lemma qs_step_turn:
  assumes q: "qmp_quiet f" and I: "qs_inv J sys" and step: "qs_step G J f inp sys = Some sys'"
  shows "(\<exists>co. turn J co (others_of (qs_cos (qs_without co sys))) (qs_without co sys) sys') \<or>
    (same_channels (qs_state sys) (qs_state sys') \<and> sys' = sys\<lparr>qs_state := qs_state sys'\<rparr>)"
proof -
  have K: "snd (others_of cos) = (\<lambda>_. None)" for cos by (simp add: others_of_def)
  have own: "owns co idle 0 (others_of (qs_cos sys)) (qs_state sys)" if "map_of (qs_cos sys) co = None" for co
    using qs_inv_owns [OF I, of co] that by (simp add: qs_without_absent nest_of_def)
  show ?thesis
  proof (cases inp)
    case (Call_execute co check command io)
    show ?thesis
    proof (cases "reader_co co \<or> map_of (qs_cos sys) co \<noteq> None")
      case False
      then have n: "map_of (qs_cos sys) co = None" by simp
      note E = execute1_begin_rule [OF q K own [OF n], of True J command G io]
      from qs_execute_turn [OF E] False step Call_execute have "turn J co (others_of (qs_cos sys)) sys sys'"
        by auto
      then show ?thesis by (intro disjI1 exI [of _ co]) (simp add: qs_without_absent [OF n])
    qed (use step Call_execute in auto)
  next
    case (Call_yank co io)
    show ?thesis
    proof (cases "reader_co co \<or> map_of (qs_cos sys) co \<noteq> None")
      case False
      then have n: "map_of (qs_cos sys) co = None" by simp
      have N: "idle True < 7 \<and> snd (others_of (qs_cos sys)) True = None" by (simp add: K idle_def)
      note E = qmp_yank_begin_rule [OF q own [OF n] N, of G J io]
      from qs_yank_turn [OF E] False step Call_yank have "turn J co (others_of (qs_cos sys)) sys sys'"
        by auto
      then show ?thesis by (intro disjI1 exI [of _ co]) (simp add: qs_without_absent [OF n])
    qed (use step Call_yank in auto)
  next
    case (Qmp_dispatch i io)
    show ?thesis
    proof (cases "map_of (ml_sources (qs_state sys)) i")
      case None
      with step Qmp_dispatch show ?thesis by (simp add: qs_dispatch_def)
    next
      case (Some src)
      let ?co = "source_user_data src"
      show ?thesis
      proof (cases "map_of (qs_cos sys) ?co")
        case None
        with Some step Qmp_dispatch show ?thesis by (simp add: qs_dispatch_def Let_def)
      next
        case (Some pc)
        with \<open>map_of _ i = Some src\<close> step Qmp_dispatch obtain keep sys1 where
          r: "qs_resume G J f ?co pc i io (qs_without ?co sys) = Some (keep, sys1)"
          and sys': "sys' = (if keep then sys1 else sys1\<lparr>qs_state := remove_source i (qs_state sys1)\<rparr>)"
          by (auto simp: qs_dispatch_def Let_def bind_eq_Some_conv)
        have mem: "(?co, pc) \<in> set (qs_cos sys)" using Some by (rule map_of_SomeD)
        have st: "qs_state (qs_without ?co sys) = qs_state sys" by (simp add: qs_without_def)
        have "owns ?co (co_nest pc) (co_flights pc) (others_of (qs_cos (qs_without ?co sys))) (qs_state sys)"
          using qs_inv_owns [OF I, of ?co] Some by (simp add: nest_of_def)
        moreover have "co_valid J ?co pc (qs_state sys)" using I mem by (auto simp: qs_inv_def)
        ultimately have "turn J ?co (others_of (qs_cos (qs_without ?co sys))) (qs_without ?co sys) sys1"
          using r st by (intro qs_resume_turn [OF q K]) simp_all
        with turn_same [OF this, of "remove_source i (qs_state sys1)"] sys' show ?thesis by auto
      qed
    qed
  next
    case (Qmp_other s)
    with step show ?thesis by (auto split: if_splits)
  qed
qed

lemma qs_inv_other:
  assumes "qs_inv J sys" and "same_channels (qs_state sys) s"
  shows "qs_inv J (sys\<lparr>qs_state := s\<rparr>)"
proof -
  have log: "log_of False s = log_of False (qs_state sys)" by (rule same_channels_log [OF assms(2)])
  have valid: "co_valid J co pc (qs_state sys) \<Longrightarrow> co_valid J co pc s" for co pc
    by (cases pc) (auto intro: talk_nest [OF _ disjI1 [OF log]])
  show ?thesis
    using assms valid by (auto simp: qs_inv_def same_channels_chan) (simp add: same_channels_def)
qed

lemma qs_inv_step: "qmp_quiet f \<Longrightarrow> qs_inv J sys \<Longrightarrow> qs_step G J f inp sys = Some sys' \<Longrightarrow> qs_inv J sys'"
  using qs_step_turn [of f J sys G inp sys'] qs_inv_turn qs_inv_other by metis

subsection \<open>Every reachable state\<close>

lemma qs_inv_start:
  assumes "qmp_new G None None timeout s0 = Some (Inr (), s)"
  shows "qs_inv J (qs_start s)"
proof -
  have c: "qmp_chan y s = (idle_channel y)\<lparr>ch_lock := \<lparr>lk_holder = Some (S_qmp_handshake y), lk_count = 1\<rparr>\<rparr>"
    and i: "qmp_inflight s = 4" for y
    using assms
    by (cases y; auto simp: qmp_new_def qmp_handshake_coroutine_def qmp_event_coroutine_def Let_def
        add_source_eq qmp_chan_def qmp_set_lock_def qmp_set_chan_def idle_channel_def free_lock_def)+
  show ?thesis
    by (auto simp: qs_inv_def qs_start_def c i holds_def nest_of_def idle_def plus_def flights_of_def
        idle_channel_def)
qed

lemma qs_reach_inv: "qs_reach G J f timeout s0 sys \<Longrightarrow> qmp_quiet f \<Longrightarrow> qs_inv J sys"
  by (induction rule: qs_reach.induct) (auto intro: qs_inv_start qs_inv_step)

text \<open>
  C12. The QMP channels are used by one coroutine at a time: in every reachable state of any
  interleaving of command executions, yanks, handshakes and event readers, each lock is held,
  as often as it was taken, by exactly the coroutine that is suspended inside the channel, and
  it is free when there is none; \<open>inflight\<close>, for which \<open>qmp_free\<close> waits, counts the suspended
  calls and readers.
\<close>

theorem channels_exclusive:
  assumes "qs_reach G J f timeout s0 sys" and "qmp_quiet f"
  shows "(\<forall>y. let l = ch_lock (qmp_chan y (qs_state sys)); n = (\<lambda>co. nest_of (qs_cos sys) co y) in
      case lk_holder l of
        None \<Rightarrow> lk_count l = 0 \<and> (\<forall>co. n co = 0)
      | Some co \<Rightarrow> 0 < n co \<and> lk_count l = of_nat (n co) \<and> (\<forall>co'. co' \<noteq> co \<longrightarrow> n co' = 0)) \<and>
    qmp_inflight (qs_state sys) = of_nat (flights_of (qs_cos sys))"
proof (rule conjI)
  have I: "qs_inv J sys" using assms by (rule qs_reach_inv)
  then show "qmp_inflight (qs_state sys) = of_nat (flights_of (qs_cos sys))" by (simp add: qs_inv_def)
  have h: "holds co (nest_of (qs_cos sys) co y) (ch_lock (qmp_chan y (qs_state sys)))" for co y
    using I by (simp add: qs_inv_def)
  show "\<forall>y. let l = ch_lock (qmp_chan y (qs_state sys)); n = (\<lambda>co. nest_of (qs_cos sys) co y) in
      case lk_holder l of
        None \<Rightarrow> lk_count l = 0 \<and> (\<forall>co. n co = 0)
      | Some co \<Rightarrow> 0 < n co \<and> lk_count l = of_nat (n co) \<and> (\<forall>co'. co' \<noteq> co \<longrightarrow> n co' = 0)"
  proof
    fix y
    let ?l = "ch_lock (qmp_chan y (qs_state sys))" and ?n = "\<lambda>co. nest_of (qs_cos sys) co y"
    have n: "0 < ?n co \<Longrightarrow> lk_holder ?l = Some co \<and> lk_count ?l = of_nat (?n co)"
      "lk_holder ?l = Some co \<Longrightarrow> 0 < ?n co" "lk_holder ?l = None \<Longrightarrow> lk_count ?l = 0" for co
      using h [of co y] by (auto simp: holds_def split: if_splits)
    show "let l = ?l; n = ?n in case lk_holder l of
        None \<Rightarrow> lk_count l = 0 \<and> (\<forall>co. n co = 0)
      | Some co \<Rightarrow> 0 < n co \<and> lk_count l = of_nat (n co) \<and> (\<forall>co'. co' \<noteq> co \<longrightarrow> n co' = 0)"
    proof (cases "lk_holder ?l")
      case None
      have "?n co = 0" for co using n(1) [of co] None by (cases "?n co") auto
      with None n(3) show ?thesis by simp
    next
      case (Some co)
      have "?n co' = 0" if "co' \<noteq> co" for co' using n(1) [of co'] Some that by (cases "?n co'") auto
      with Some n(1) [of co] n(2) [of co] show ?thesis by simp
    qed
  qed
qed

text \<open>
  C6. A reply belongs to its command: when an executed command returns a result, the
  coroutine wrote exactly this command, whole, to the QMP channel and then read, with nobody
  else using the channel in between, any number of events and the line it returns, which is not
  an event. When it returns an error, the QMP state has an error or QEMU answered with one; an
  error of the state is never cleared.
\<close>

theorem reply_belongs_to_command:
  assumes "qs_reach G J f timeout s0 sys" and "qmp_quiet f" and "qs_step G J f inp sys = Some sys'"
  shows "(qs_returned sys' = qs_returned sys @ [(co, command, v)] \<longrightarrow> (case v of
      Inr x \<Rightarrow> \<exists>before sent events.
        ch_log (qmp_channel (qs_state sys')) =
          before @ map (Sent co) sent @ map (Got_line co) events @ [Got_line co (qr_line x)] \<and>
        concat sent = command \<and> (\<forall>l\<in>set events. is_event J l) \<and> \<not> is_event J (qr_line x)
    | Inl e \<Rightarrow> qmp_error (qs_state sys') \<noteq> None \<or> g_error_matches e COLOD_ERROR_QMP)) \<and>
    (qmp_error (qs_state sys) \<noteq> None \<longrightarrow> qmp_error (qs_state sys') \<noteq> None)"
proof (rule conjI)
  have I: "qs_inv J sys" using assms(1,2) by (rule qs_reach_inv)
  note T = qs_step_turn [OF assms(2) I assms(3)]
  show "qmp_error (qs_state sys) \<noteq> None \<longrightarrow> qmp_error (qs_state sys') \<noteq> None"
    using T by (auto simp: turn_def channel_step_def same_channels_def qs_without_def)
  show "qs_returned sys' = qs_returned sys @ [(co, command, v)] \<longrightarrow> (case v of
      Inr x \<Rightarrow> \<exists>before sent events.
        ch_log (qmp_channel (qs_state sys')) =
          before @ map (Sent co) sent @ map (Got_line co) events @ [Got_line co (qr_line x)] \<and>
        concat sent = command \<and> (\<forall>l\<in>set events. is_event J l) \<and> \<not> is_event J (qr_line x)
    | Inl e \<Rightarrow> qmp_error (qs_state sys') \<noteq> None \<or> g_error_matches e COLOD_ERROR_QMP)"
  proof
    assume r: "qs_returned sys' = qs_returned sys @ [(co, command, v)]"
    have "qs_returned sys' \<noteq> qs_returned sys" using r by simp
    with T have "\<exists>co' command' v'. qs_returned sys' = qs_returned sys @ [(co', command', v')] \<and>
        result_ok J co' command' v' (qs_state sys')"
      by (auto simp: turn_def qs_without_def) (metis QmpSystem.select_convs(3) QmpSystem.surjective QmpSystem.update_convs(1))
    with r have "result_ok J co command v (qs_state sys')" by auto
    then show "case v of
      Inr x \<Rightarrow> \<exists>before sent events.
        ch_log (qmp_channel (qs_state sys')) =
          before @ map (Sent co) sent @ map (Got_line co) events @ [Got_line co (qr_line x)] \<and>
        concat sent = command \<and> (\<forall>l\<in>set events. is_event J l) \<and> \<not> is_event J (qr_line x)
    | Inl e \<Rightarrow> qmp_error (qs_state sys') \<noteq> None \<or> g_error_matches e COLOD_ERROR_QMP"
      by (auto simp: result_ok_def heard_def log_of_def qmp_chan_def split: sum.splits)
  qed
qed

subsection \<open>An example\<close>

text \<open>
  The greeting and the handshake on the QMP channel, then a command whose reply comes after
  an event.
\<close>

definition qs_json :: json_glib where
  "qs_json = \<lparr>json_from_string = (\<lambda>l. Some (JObject (if l = ''e'' then [(''event'', JNull)] else []))),
     json_to_string = (\<lambda>_. []), json_node_equal = (=)\<rparr>"

definition no_callback :: "'z QmpState_scheme qmp_event_callback" where
  "no_callback c root s = Some s"

definition qs_example :: "QmpState qmp_input list" where
  "qs_example = [
     Qmp_dispatch 1 [Read_line Io_normal ''g'', Write_chars Io_normal 66, Flush Io_normal, Read_line Io_normal ''c''],
     Call_execute S_main True ''go'' [Write_chars Io_normal 1, Write_chars Io_normal 1, Flush Io_again]]"

fun qs_run :: "QmpState qmp_input list \<Rightarrow> QmpState QmpSystem \<Rightarrow> QmpState QmpSystem option" where
  "qs_run [] sys = Some sys"
| "qs_run (inp # inps) sys = do {
     sys' \<leftarrow> qs_step (ref_glib :: nat glib) qs_json no_callback inp sys;
     qs_run inps sys' }"

definition qs_example_state :: "QmpState QmpSystem option" where
  "qs_example_state = do {
     (r, s) \<leftarrow> qmp_new (ref_glib :: nat glib) None None 600 wait_witness_state;
     qs_run qs_example (qs_start s) }"

lemma no_callback_quiet: "qmp_quiet no_callback"
  by (simp add: qmp_quiet_def no_callback_def)

lemma qs_run_reach:
  assumes "qs_reach (ref_glib :: nat glib) qs_json no_callback 600 s0 sys" and "qs_run inps sys = Some sys'"
  shows "qs_reach (ref_glib :: nat glib) qs_json no_callback 600 s0 sys'"
  using assms by (induction inps arbitrary: sys) (auto simp: bind_eq_Some_conv intro: qs_reach.step)

lemma qs_example_reach:
  assumes "map_option f (Option.bind qs_example_state (qs_run inps)) = Some x"
  shows "\<exists>sys. qs_reach (ref_glib :: nat glib) qs_json no_callback 600 wait_witness_state sys \<and> f sys = x"
proof -
  from assms obtain r s sys1 sys where
    s: "qmp_new (ref_glib :: nat glib) None None 600 wait_witness_state = Some (r, s)"
    and run: "qs_run qs_example (qs_start s) = Some sys1" "qs_run inps sys1 = Some sys" and f: "f sys = x"
    by (auto simp: qs_example_state_def bind_eq_Some_conv)
  have "r = Inr ()" using s by (auto simp: qmp_new_def bind_eq_Some_conv Let_def split_beta)
  with s have "qs_reach (ref_glib :: nat glib) qs_json no_callback 600 wait_witness_state (qs_start s)"
    by (auto intro: qs_reach.new)
  from qs_run_reach [OF qs_run_reach [OF this run(1)] run(2)] f show ?thesis by blast
qed

definition qs_next :: "QmpState qmp_input" where
  "qs_next = Qmp_dispatch 1 [Read_line Io_normal ''r'']"

lemma channels_exclusive_witness:
  "\<exists>sys. qs_reach (ref_glib :: nat glib) qs_json no_callback 600 wait_witness_state sys \<and>
     lk_holder (ch_lock (qmp_chan False (qs_state sys))) = Some S_main \<and>
     0 < nest_of (qs_cos sys) S_main False \<and> nest_of (qs_cos sys) (S_qmp_event False) False = 0"
proof -
  have "map_option (\<lambda>sys. lk_holder (ch_lock (qmp_chan False (qs_state sys))))
      (Option.bind qs_example_state (qs_run [])) = Some (Some S_main)" by code_simp
  from qs_example_reach [OF this] obtain sys where
    r: "qs_reach (ref_glib :: nat glib) qs_json no_callback 600 wait_witness_state sys"
    and h: "lk_holder (ch_lock (qmp_chan False (qs_state sys))) = Some S_main" by blast
  from spec [OF conjunct1 [OF channels_exclusive [OF r no_callback_quiet]], of False] r h show ?thesis
    by (intro exI [of _ sys]) (simp add: Let_def)
qed

lemma reply_belongs_to_command_witness:
  "\<exists>sys sys'. qs_reach (ref_glib :: nat glib) qs_json no_callback 600 wait_witness_state sys \<and>
     qs_step (ref_glib :: nat glib) qs_json no_callback qs_next sys = Some sys' \<and>
     (\<exists>before sent events. ch_log (qmp_channel (qs_state sys')) =
        before @ map (Sent S_main) sent @ map (Got_line S_main) events @ [Got_line S_main ''r''] \<and>
      concat sent = ''go'')"
proof -
  let ?x = "\<lparr>qr_json_root = JObject [], qr_line = ''r''\<rparr>"
  let ?f = "\<lambda>sys. (qs_returned sys, map_option qs_returned (qs_step (ref_glib :: nat glib) qs_json no_callback qs_next sys))"
  have "map_option ?f (Option.bind qs_example_state
      (qs_run [Qmp_dispatch 6 [Flush Io_normal, Read_line Io_normal ''e'']])) =
    Some ([], Some [(S_main, ''go'', Inr ?x)])" by code_simp
  from qs_example_reach [OF this] obtain sys sys' where
    r: "qs_reach (ref_glib :: nat glib) qs_json no_callback 600 wait_witness_state sys"
    and s: "qs_step (ref_glib :: nat glib) qs_json no_callback qs_next sys = Some sys'"
    and ret: "qs_returned sys' = qs_returned sys @ [(S_main, ''go'', Inr ?x)]" by auto
  from mp [OF conjunct1 [OF reply_belongs_to_command [OF r no_callback_quiet s]] ret]
  obtain before sent events where l: "ch_log (qmp_channel (qs_state sys')) =
      before @ map (Sent S_main) sent @ map (Got_line S_main) events @ [Got_line S_main ''r'']"
    and c: "concat sent = ''go''" by auto
  show ?thesis
    by (intro exI [of _ sys] exI [of _ sys'] exI [of _ before] exI [of _ sent] exI [of _ events] conjI)
      (rule r, rule s, rule l, rule c)
qed

end
