(* ===== verification/Client.thy ===== *)
theory Client
  imports Main_System
begin

text \<open>
  \<^verbatim>\<open>client.c\<close>: the listener for management connections and one coroutine per client, which
  reads a request, handles it and writes one reply. What its socket answers and what QMP calls
  return is input, as for the main coroutine.
\<close>

subsection \<open>State\<close>

text \<open>
  The QMP calls of a client: those of \<open>query-status\<close>, of \<open>yank\<close>, \<open>stop\<close> and \<open>cont\<close>, a request
  that is passed through to QEMU, and the \<open>cont\<close> after a connection broke.
\<close>

datatype client_call =
    L_status | L_colo ColodQmpResult | L_yank | L_stop | L_cont | L_raw string | L_cleanup

text \<open>
  The suspension points: with a QMP call the coroutine keeps the I/O source, with a write
  the line of the reply.
\<close>

datatype client_pc =
    C_start | C_read read_pc | C_call client_call guint | C_write string write_pc

text \<open>
  \<open>cl_trace\<close>, \<open>cl_out\<close> and \<open>cl_calls\<close> are output: the trace lines, the bytes the socket took and
  the QMP calls that returned and whether they succeeded. \<open>cl_shutdown\<close> is set by
  \<open>colod_shutdown_channel\<close>.
\<close>

datatype client_trace = Request string | Reply string

record ColodClient =
  cl_pc :: client_pc
  cl_stopped_qemu :: bool
  cl_quit :: bool
  cl_busy :: bool
  cl_shutdown :: bool
  cl_trace :: "client_trace list"
  cl_out :: string
  cl_calls :: "(client_call \<times> bool) list"

text \<open>
  A client is named by a number, in place of its address. \<open>ls_socket\<close> tells whether the
  listening socket is open.
\<close>

record ClientListener = MainCoroutine +
  ls_socket :: bool
  ls_listen_source_id :: guint
  ls_clients :: "(nat \<times> ColodClient) list"
  ls_store :: "json option"

subsection \<open>Replies\<close>

definition quoted :: "string \<Rightarrow> string" where
  "quoted s = [CHR 0x22] @ s @ [CHR 0x22]"

definition parsed_reply :: "json_glib \<Rightarrow> string \<Rightarrow> ColodQmpResult abortable" where
  "parsed_reply J reply = (case qmp_parse_result J reply of Inl e \<Rightarrow> None | Inr result \<Rightarrow> Some result)"

definition reply_text :: "string \<Rightarrow> string" where
  "reply_text member = ''{'' @ quoted ''return'' @ '': '' @ member @ ''}'' @ nl"

definition error_reply_text :: "string \<Rightarrow> string" where
  "error_reply_text message = ''{'' @ quoted ''error'' @ '': '' @ quoted message @ ''}'' @ nl"

definition create_reply :: "json_glib \<Rightarrow> string \<Rightarrow> ColodQmpResult abortable" where
  "create_reply J member = parsed_reply J (reply_text member)"

definition create_error_reply :: "json_glib \<Rightarrow> string \<Rightarrow> ColodQmpResult abortable" where
  "create_error_reply J message = parsed_reply J (error_reply_text message)"

subsection \<open>Requests that are answered at once\<close>

type_synonym 's handled = "(ColodQmpResult \<times> 's) abortable"

definition replies :: "ColodQmpResult abortable \<Rightarrow> 's \<Rightarrow> 's handled" where
  "replies reply s = do { r \<leftarrow> reply; Some (r, s) }"

definition query_status_text :: "bool \<Rightarrow> ColodState \<Rightarrow> string" where
  "query_status_text failed state = ''{'' @ quoted ''return'' @ '': {'' @
     quoted ''primary'' @ '': '' @ bool_to_json (cs_primary state) @ '', '' @
     quoted ''replication'' @ '': '' @ bool_to_json (cs_replication state) @ '', '' @
     quoted ''failed'' @ '': '' @ bool_to_json (failed \<or> cs_failed state) @ '', '' @
     quoted ''peer-failover'' @ '': '' @ bool_to_json (cs_peer_failover state) @ '', '' @
     quoted ''peer-failed'' @ '': '' @ bool_to_json (cs_peer_failed state) @ ''}}'' @ nl"

definition handle_query_store :: "json_glib \<Rightarrow> 'z ClientListener_scheme \<Rightarrow> 'z ClientListener_scheme handled" where
  "handle_query_store J s = replies (create_reply J
     (case ls_store s of Some store \<Rightarrow> json_to_string J store | None \<Rightarrow> ''{}'')) s"

text \<open>\<open>get_member_node\<close> finds the member, as \<open>has_member\<close> did.\<close>

definition handle_set_store ::
    "json_glib \<Rightarrow> ColodQmpResult \<Rightarrow> 'z ClientListener_scheme \<Rightarrow> 'z ClientListener_scheme handled" where
  "handle_set_store J request s = do {
     b \<leftarrow> has_member (qr_json_root request) ''store'';
     (if \<not> b then replies (create_error_reply J ''Member 'store' missing'') s
      else do {
        store \<leftarrow> get_member_node (qr_json_root request) ''store'';
        replies (create_reply J ''{}'') (s\<lparr>ls_store := store\<rparr>) }) }"

definition handle_quit :: "json_glib \<Rightarrow> 'z ClientListener_scheme \<Rightarrow> 'z ClientListener_scheme handled" where
  "handle_quit J s = replies (create_reply J ''{}'') (colod_quit s)"

definition handle_autoquit ::
    "Event glib \<Rightarrow> json_glib \<Rightarrow> 'z ClientListener_scheme \<Rightarrow> 'z ClientListener_scheme handled" where
  "handle_autoquit G J s = do { s1 \<leftarrow> colod_autoquit G s; replies (create_reply J ''{}'') s1 }"

definition handle_start_migration ::
    "Event glib \<Rightarrow> json_glib \<Rightarrow> 'z ClientListener_scheme \<Rightarrow> 'z ClientListener_scheme handled" where
  "handle_start_migration G J s = do {
     (ret, s1) \<leftarrow> colod_start_migration G s;
     (if ret < 0 then replies (create_error_reply J ''Pending actions'') s1
      else replies (create_reply J ''{}'') s1) }"

definition get_commands :: "ColodQmpResult \<Rightarrow> json fallible abortable" where
  "get_commands request = do {
     b \<leftarrow> has_member (qr_json_root request) ''commands'';
     (if \<not> b then Some (Inl (GError (Some COLOD_ERROR_FATAL) ''Member 'commands' missing''))
      else do {
        c \<leftarrow> get_member_node (qr_json_root request) ''commands'';
        commands \<leftarrow> c_nonnull c;
        Some (if \<not> holds_array commands
          then Inl (GError (Some COLOD_ERROR_FATAL) ''Member 'commands' must be an array'')
          else Inr commands) }) }"

text \<open>The four handlers that set a command list are the same but for the list they set.\<close>

definition set_commands ::
    "(QmpCommands \<Rightarrow> json \<Rightarrow> int \<times> QmpCommands) \<Rightarrow> json_glib \<Rightarrow> ColodQmpResult \<Rightarrow>
     'z ClientListener_scheme \<Rightarrow> 'z ClientListener_scheme handled" where
  "set_commands setter J request s = do {
     commands \<leftarrow> get_commands request;
     (case commands of
        Inl e \<Rightarrow> replies (create_error_reply J (g_error_message e)) s
      | Inr cs \<Rightarrow> replies (create_reply J ''{}'') (s\<lparr>cx_commands := snd (setter (cx_commands s) cs)\<rparr>)) }"

definition handle_set_migration_start ::
    "json_glib \<Rightarrow> ColodQmpResult \<Rightarrow> 'z ClientListener_scheme \<Rightarrow> 'z ClientListener_scheme handled" where
  "handle_set_migration_start = set_commands qmp_commands_set_migration_start"

definition handle_set_migration_switchover ::
    "json_glib \<Rightarrow> ColodQmpResult \<Rightarrow> 'z ClientListener_scheme \<Rightarrow> 'z ClientListener_scheme handled" where
  "handle_set_migration_switchover = set_commands qmp_commands_set_migration_switchover"

definition handle_set_primary_failover ::
    "json_glib \<Rightarrow> ColodQmpResult \<Rightarrow> 'z ClientListener_scheme \<Rightarrow> 'z ClientListener_scheme handled" where
  "handle_set_primary_failover = set_commands qmp_commands_set_failover_primary"

definition handle_set_secondary_failover ::
    "json_glib \<Rightarrow> ColodQmpResult \<Rightarrow> 'z ClientListener_scheme \<Rightarrow> 'z ClientListener_scheme handled" where
  "handle_set_secondary_failover = set_commands qmp_commands_set_failover_secondary"

definition handle_set_yank ::
    "json_glib \<Rightarrow> ColodQmpResult \<Rightarrow> 'z ClientListener_scheme \<Rightarrow> 'z ClientListener_scheme handled" where
  "handle_set_yank J request s = do {
     b \<leftarrow> has_member (qr_json_root request) ''instances'';
     (if \<not> b then replies (create_error_reply J ''Member 'instances' missing'') s
      else do {
        i \<leftarrow> get_member_node (qr_json_root request) ''instances'';
        instances \<leftarrow> c_nonnull i;
        (if \<not> holds_array instances
         then replies (create_error_reply J ''Member 'instances' must be an array'') s
         else replies (create_reply J ''{}'') (qmp_set_yank_instances instances s)) }) }"

definition handle_set_peer ::
    "json_glib \<Rightarrow> ColodQmpResult \<Rightarrow> 'z ClientListener_scheme \<Rightarrow> 'z ClientListener_scheme handled" where
  "handle_set_peer J request s = do {
     b \<leftarrow> has_member (qr_json_root request) ''peer'';
     (if \<not> b then replies (create_error_reply J ''Member 'peer' missing'') s
      else do {
        peer \<leftarrow> get_member_str (qr_json_root request) ''peer'';
        replies (create_reply J ''{}'') (colod_set_peer peer s) }) }"

text \<open>The \<^verbatim>\<open>%s\<close> of the C library prints a NULL peer as \<^verbatim>\<open>(null)\<close>.\<close>

definition handle_query_peer :: "json_glib \<Rightarrow> 'z ClientListener_scheme \<Rightarrow> 'z ClientListener_scheme handled" where
  "handle_query_peer J s = replies (parsed_reply J (''{'' @ quoted ''return'' @ '': {'' @
     quoted ''peer'' @ '': '' @
     quoted (case colod_get_peer s of Some peer \<Rightarrow> peer | None \<Rightarrow> ''(null)'') @ ''}}'' @ nl)) s"

definition handle_clear_peer :: "json_glib \<Rightarrow> 'z ClientListener_scheme \<Rightarrow> 'z ClientListener_scheme handled" where
  "handle_clear_peer J s = replies (create_reply J ''{}'') (colod_clear_peer s)"

subsection \<open>The coroutine\<close>

text \<open>
  What the coroutine does next: the head of its loop, and what follows a read, a call, a
  handled request, a write, an error of the connection and the end of the function.
\<close>

datatype client_todo =
    K_loop | K_read "string fallible" | K_call client_call | K_reply ColodQmpResult
  | K_wrote "unit fallible" | K_broken gerror | K_return

definition handled_reply :: "'s handled \<Rightarrow> (client_todo \<times> 's) abortable" where
  "handled_reply h = do { (r, s) \<leftarrow> h; Some (K_reply r, s) }"

definition client_command ::
    "Event glib \<Rightarrow> json_glib \<Rightarrow> string \<Rightarrow> ColodQmpResult \<Rightarrow> 'z ClientListener_scheme \<Rightarrow>
     (client_todo \<times> 'z ClientListener_scheme) abortable" where
  "client_command G J command request s =
    (if command = ''query-status'' then Some (K_call L_status, s)
     else if command = ''query-store'' then handled_reply (handle_query_store J s)
     else if command = ''set-store'' then handled_reply (handle_set_store J request s)
     else if command = ''quit'' then handled_reply (handle_quit J s)
     else if command = ''autoquit'' then handled_reply (handle_autoquit G J s)
     else if command = ''set-migration-start'' then handled_reply (handle_set_migration_start J request s)
     else if command = ''set-migration-switchover''
     then handled_reply (handle_set_migration_switchover J request s)
     else if command = ''start-migration'' then handled_reply (handle_start_migration G J s)
     else if command = ''set-primary-failover'' then handled_reply (handle_set_primary_failover J request s)
     else if command = ''set-secondary-failover''
     then handled_reply (handle_set_secondary_failover J request s)
     else if command = ''set-yank'' then handled_reply (handle_set_yank J request s)
     else if command = ''yank'' then Some (K_call L_yank, s)
     else if command = ''stop'' then Some (K_call L_stop, s)
     else if command = ''cont'' then Some (K_call L_cont, s)
     else if command = ''set-peer'' then handled_reply (handle_set_peer J request s)
     else if command = ''query-peer'' then handled_reply (handle_query_peer J s)
     else if command = ''clear-peer'' then handled_reply (handle_clear_peer J s)
     else handled_reply (replies (create_error_reply J ''Unknown command'') s))"

definition client_request ::
    "Event glib \<Rightarrow> json_glib \<Rightarrow> ColodQmpResult \<Rightarrow> 'z ClientListener_scheme \<Rightarrow>
     (client_todo \<times> 'z ClientListener_scheme) abortable" where
  "client_request G J request s = do {
     b \<leftarrow> has_member (qr_json_root request) ''exec-colod'';
     (if \<not> b then Some (K_call (L_raw (qr_line request)), s)
      else do {
        command \<leftarrow> get_member_str (qr_json_root request) ''exec-colod'';
        (case command of
           None \<Rightarrow> handled_reply (replies (create_error_reply J ''Could not get exec-colod member'') s)
         | Some cmd \<Rightarrow> client_command G J cmd request s) }) }"

text \<open>After a line or an error was read.\<close>

definition client_read ::
    "Event glib \<Rightarrow> json_glib \<Rightarrow> string fallible \<Rightarrow> ColodClient \<Rightarrow> 'z ClientListener_scheme \<Rightarrow>
     (client_todo \<times> ColodClient \<times> 'z ClientListener_scheme) abortable" where
  "client_read G J ret c s =
    (if cl_quit c then Some (K_return, c, s)
     else case ret of
       Inl e \<Rightarrow> Some (K_broken e, c, s)
     | Inr line \<Rightarrow>
         (let c1 = c\<lparr>cl_busy := True\<rparr> in
          case qmp_parse_result J line of
            Inl e \<Rightarrow> Some (K_broken e, c1, s)
          | Inr request \<Rightarrow> do {
              (t, s1) \<leftarrow> client_request G J request s;
              Some (t, c1\<lparr>cl_trace := cl_trace c1 @ [Request (qr_line request)]\<rparr>, s1) }))"

subsection \<open>QMP calls\<close>

definition client_cmd_status :: string where
  "client_cmd_status = ''{'execute': 'query-status'}'' @ nl"

definition client_cmd_colo :: string where
  "client_cmd_colo = ''{'execute': 'query-colo-status'}'' @ nl"

definition client_cmd_stop :: string where
  "client_cmd_stop = ''{'execute': 'stop'}'' @ nl"

definition client_cmd_cont :: string where
  "client_cmd_cont = ''{'execute': 'cont'}'' @ nl"

fun call_fits :: "client_call \<Rightarrow> outcome \<Rightarrow> bool" where
  "call_fits L_yank (Yank out) = True"
| "call_fits L_yank (Exec out) = False"
| "call_fits call (Exec out) = True"
| "call_fits call (Yank out) = False"

text \<open>
  Entering the call, at first and whenever the coroutine is resumed in it: all but a yank go
  through \<open>_colod_execute_nocheck_co\<close>, which refreshes the watchdog each time.
\<close>

definition call_enter :: "'e glib \<Rightarrow> client_call \<Rightarrow> 'z ClientListener_scheme \<Rightarrow> 'z ClientListener_scheme" where
  "call_enter G call s = (if call = L_yank then s else colod_watchdog_refresh G s)"

definition returned :: "client_call \<Rightarrow> 'r fallible \<Rightarrow> ColodClient \<Rightarrow> ColodClient" where
  "returned call r c = c\<lparr>cl_calls := cl_calls c @ [(call, \<not> isl r)]\<rparr>"

text \<open>\<open>_handle_query_status_co\<close> after its health check.\<close>

definition query_status_done ::
    "Event glib \<Rightarrow> json_glib \<Rightarrow> (bool \<times> bool) fallible \<Rightarrow> ColodClient \<Rightarrow> 'z ClientListener_scheme \<Rightarrow>
     (client_todo \<times> ColodClient \<times> 'z ClientListener_scheme) abortable" where
  "query_status_done G J ret c s = do {
     (health, s1) \<leftarrow> colod_check_health_end G ret s;
     reply \<leftarrow> parsed_reply J (query_status_text (isl health) (colod_query_status s1));
     Some (K_reply reply, c, s1) }"

text \<open>\<open>_qemu_query_status_co\<close> after its first and its second command.\<close>

definition client_status_executed ::
    "Event glib \<Rightarrow> json_glib \<Rightarrow> ColodQmpResult fallible \<Rightarrow> ColodClient \<Rightarrow> 'z ClientListener_scheme \<Rightarrow>
     (client_todo \<times> ColodClient \<times> 'z ClientListener_scheme) abortable" where
  "client_status_executed G J result c s = (case result of
     Inl e \<Rightarrow> query_status_done G J (Inl e) c s
   | Inr qemu_status \<Rightarrow> Some (K_call (L_colo qemu_status), c, s))"

definition client_colo_executed ::
    "Event glib \<Rightarrow> json_glib \<Rightarrow> ColodQmpResult \<Rightarrow> ColodQmpResult fallible \<Rightarrow> ColodClient \<Rightarrow>
     'z ClientListener_scheme \<Rightarrow> (client_todo \<times> ColodClient \<times> 'z ClientListener_scheme) abortable" where
  "client_colo_executed G J qemu_status result c s = (case result of
     Inl e \<Rightarrow> query_status_done G J (Inl e) c s
   | Inr colo_status \<Rightarrow> do {
       ret \<leftarrow> qemu_query_status qemu_status colo_status;
       query_status_done G J ret c s })"

definition client_yanked ::
    "json_glib \<Rightarrow> unit fallible \<Rightarrow> ColodClient \<Rightarrow> 'z ClientListener_scheme \<Rightarrow>
     (client_todo \<times> ColodClient \<times> 'z ClientListener_scheme) abortable" where
  "client_yanked J ret c s = do {
     reply \<leftarrow> (case ret of
        Inl e \<Rightarrow> create_error_reply J (g_error_message e)
      | Inr _ \<Rightarrow> create_reply J ''{}'');
     Some (K_reply reply, c, s) }"

text \<open>\<open>_handle_stop_co\<close>, \<open>_handle_cont_co\<close>, and a request for QEMU, which does not touch the flag.\<close>

definition client_executed ::
    "json_glib \<Rightarrow> ColodQmpResult fallible \<Rightarrow> bool \<Rightarrow> ColodClient \<Rightarrow> 'z ClientListener_scheme \<Rightarrow>
     (client_todo \<times> ColodClient \<times> 'z ClientListener_scheme) abortable" where
  "client_executed J result stopped c s = (case result of
     Inl e \<Rightarrow> do { reply \<leftarrow> create_error_reply J (g_error_message e); Some (K_reply reply, c, s) }
   | Inr r \<Rightarrow> Some (K_reply r, c\<lparr>cl_stopped_qemu := stopped\<rparr>, s))"

definition client_cleanup ::
    "Event glib \<Rightarrow> ColodQmpResult fallible \<Rightarrow> ColodClient \<Rightarrow> 'z ClientListener_scheme \<Rightarrow>
     (client_todo \<times> ColodClient \<times> 'z ClientListener_scheme) abortable" where
  "client_cleanup G result c s = (case result of
     Inl e \<Rightarrow> do { s1 \<leftarrow> colod_qemu_failed G s; Some (K_return, c, s1) }
   | Inr r \<Rightarrow> Some (K_return, c, s))"

fun call_done ::
    "Event glib \<Rightarrow> json_glib \<Rightarrow> client_call \<Rightarrow> outcome \<Rightarrow> ColodClient \<Rightarrow> 'z ClientListener_scheme \<Rightarrow>
     (client_todo \<times> ColodClient \<times> 'z ClientListener_scheme) abortable" where
  "call_done G J L_status (Exec out) c s = do {
     (result, s1) \<leftarrow> colod_execute_end G client_cmd_status out s;
     client_status_executed G J result (returned L_status result c) s1 }"
| "call_done G J (L_colo qemu_status) (Exec out) c s = do {
     (result, s1) \<leftarrow> colod_execute_end G client_cmd_colo out s;
     client_colo_executed G J qemu_status result (returned (L_colo qemu_status) result c) s1 }"
| "call_done G J L_yank (Yank out) c s = do {
     (ret, s1) \<leftarrow> colod_yank_end G out s;
     client_yanked J ret (returned L_yank ret c) s1 }"
| "call_done G J L_stop (Exec out) c s = do {
     (result, s1) \<leftarrow> colod_execute_end G client_cmd_stop out s;
     client_executed J result True (returned L_stop result c) s1 }"
| "call_done G J L_cont (Exec out) c s = do {
     (result, s1) \<leftarrow> colod_execute_end G client_cmd_cont out s;
     client_executed J result False (returned L_cont result c) s1 }"
| "call_done G J (L_raw line) (Exec out) c s = do {
     (result, s1) \<leftarrow> colod_execute_nocheck_end G out s;
     client_executed J result (cl_stopped_qemu c) (returned (L_raw line) result c) s1 }"
| "call_done G J L_cleanup (Exec out) c s = do {
     (result, s1) \<leftarrow> colod_execute_end G client_cmd_cont out s;
     client_cleanup G result (returned L_cleanup result c) s1 }"
| "call_done G J _ _ c s = None"

text \<open>
  The connection broke. An error that is not the end of the file was freed and is passed on
  to the call that lets QEMU continue: when that fails before it has suspended, its error is
  read through the freed one. A resumed coroutine begins with a fresh one.
\<close>

definition client_broken ::
    "Event glib \<Rightarrow> gerror \<Rightarrow> exec_outcome \<Rightarrow> ColodClient \<Rightarrow> 'z ClientListener_scheme \<Rightarrow>
     (client_todo \<times> ColodClient \<times> 'z ClientListener_scheme) abortable" where
  "client_broken G e out c s = do {
     (result, s1) \<leftarrow> colod_execute_end G client_cmd_cont out s;
     c_assert (g_error_matches e COLOD_ERROR_EOF \<or> \<not> isl result);
     client_cleanup G result (returned L_cleanup result c) s1 }"

subsection \<open>One step and a whole run\<close>

datatype 's client_progress =
    C_go "io_answer list" "outcome list" client_todo ColodClient 's
  | C_suspended ColodClient 's | C_returned ColodClient 's

definition client_go ::
    "io_answer list \<Rightarrow> outcome list \<Rightarrow> (client_todo \<times> ColodClient \<times> 's) abortable \<Rightarrow>
     's client_progress abortable" where
  "client_go io outs seg = do { (t, c, s) \<leftarrow> seg; Some (C_go io outs t c s) }"

definition client_suspend ::
    "'e glib \<Rightarrow> nat \<Rightarrow> client_call \<Rightarrow> ColodClient \<Rightarrow> 'z ClientListener_scheme \<Rightarrow>
     'z ClientListener_scheme client_progress" where
  "client_suspend G i call c s = (let (src, s1) = add_source G (S_client i) s in
     C_suspended (c\<lparr>cl_pc := C_call call src\<rparr>) s1)"

text \<open>The results of the channel operations.\<close>

definition client_got ::
    "outcome list \<Rightarrow> ColodClient \<Rightarrow>
     (read_pc, string fallible) co \<times> io_answer list \<times> 's \<Rightarrow> 's client_progress" where
  "client_got outs c x = (case x of
     (Yielding pc, io, s) \<Rightarrow> C_suspended (c\<lparr>cl_pc := C_read pc\<rparr>) s
   | (Done ret, io, s) \<Rightarrow> C_go io outs (K_read ret) c s)"

definition client_wrote ::
    "outcome list \<Rightarrow> string \<Rightarrow> ColodClient \<Rightarrow>
     (write_pc, unit fallible) co \<times> string \<times> io_answer list \<times> 's \<Rightarrow> 's client_progress" where
  "client_wrote outs line c x = (case x of (r, out, io, s) \<Rightarrow>
     (let c1 = c\<lparr>cl_out := cl_out c @ out\<rparr> in
      case r of
        Yielding pc \<Rightarrow> C_suspended (c1\<lparr>cl_pc := C_write line pc\<rparr>) s
      | Done ret \<Rightarrow> C_go io outs (K_wrote ret) c1 s))"

definition client_write_timeout :: guint where
  "client_write_timeout = 1000"

definition client_micro ::
    "Event glib \<Rightarrow> json_glib \<Rightarrow> nat \<Rightarrow> io_answer list \<Rightarrow> outcome list \<Rightarrow> client_todo \<Rightarrow> ColodClient \<Rightarrow>
     'z ClientListener_scheme \<Rightarrow> 'z ClientListener_scheme client_progress abortable" where
  "client_micro G J i io outs t c s = (case t of
     K_loop \<Rightarrow>
       if cl_quit c then Some (C_go io outs K_return c s)
       else Some (client_got outs (c\<lparr>cl_busy := False\<rparr>) (read_line_begin G (S_client i) 0 io s))
   | K_read ret \<Rightarrow> client_go io outs (client_read G J ret c s)
   | K_call call \<Rightarrow>
       (let s1 = call_enter G call s in
        case outs of
          [] \<Rightarrow> Some (client_suspend G i call c s1)
        | out # outs' \<Rightarrow>
            if call_fits call out then client_go io outs' (call_done G J call out c s1)
            else Some (client_suspend G i call c s1))
   | K_reply result \<Rightarrow>
       (let line = qr_line result; c1 = c\<lparr>cl_trace := cl_trace c @ [Reply line]\<rparr> in
        Some (client_wrote outs line c1 (write_begin G (S_client i) client_write_timeout line io s)))
   | K_wrote ret \<Rightarrow>
       (case ret of
          Inl e \<Rightarrow> Some (C_go io outs (K_broken e) c s)
        | Inr _ \<Rightarrow> Some (C_go io outs K_loop c s))
   | K_broken e \<Rightarrow>
       if \<not> cl_stopped_qemu c then Some (C_go io outs K_return c s)
       else
         (let s1 = call_enter G L_cleanup s in
          case outs of
            Exec out # outs' \<Rightarrow> client_go io outs' (client_broken G e out c s1)
          | _ \<Rightarrow> Some (client_suspend G i L_cleanup c s1))
   | K_return \<Rightarrow> Some (C_returned c s))"

text \<open>
  A run ends: every request it reads takes an answer of the socket and every further call
  of a request one of QEMU.
\<close>

fun client_rank :: "client_todo \<Rightarrow> nat" where
  "client_rank K_return = 0"
| "client_rank (K_broken e) = 1"
| "client_rank K_loop = 1"
| "client_rank (K_wrote ret) = 2"
| "client_rank (K_reply result) = 3"
| "client_rank (K_call call) = 4"
| "client_rank (K_read ret) = 5"

definition client_measure :: "io_answer list \<Rightarrow> outcome list \<Rightarrow> client_todo \<Rightarrow> nat" where
  "client_measure io outs t = 5 * length io + 2 * length outs + client_rank t"

lemma read_shorter:
  "read_line_begin G co timeout io s = (Done r, io', s') \<Longrightarrow> length io' < length io"
  by (auto simp: read_line_begin_def read_line_loop_def read_line_wait_def
      split: list.splits io_answer.splits io_status.splits if_splits prod.splits)

lemma flush_loop_shorter:
  "flush_loop G co timeout tmo io s = (r, out, io', s') \<Longrightarrow> length io' \<le> length io"
  by (auto simp: flush_loop_def Let_def split: list.splits io_answer.splits io_status.splits prod.splits)

lemma write_loop_shorter:
  "write_loop G co timeout tmo buf offset io s = (r, out, io', s') \<Longrightarrow> length io' \<le> length io"
proof (induction "length io" arbitrary: offset io s out rule: less_induct)
  case less
  note eq = less.prems [unfolded write_loop.simps [of G co timeout tmo buf offset]]
  show ?case
  proof (cases "offset < length buf")
    case False
    with eq show ?thesis by (auto dest: flush_loop_shorter)
  next
    case True
    show ?thesis
    proof (cases io)
      case Nil
      with eq True show ?thesis by (auto split: prod.splits)
    next
      case (Cons a io1)
      have IH: "write_loop G co timeout tmo buf o1 io1 s1 = (r, out1, io', s') \<Longrightarrow> length io' \<le> length io1"
        for o1 s1 out1
        using less.hyps [of io1] Cons by simp
      from eq True Cons show ?thesis
        by (auto dest: IH split: io_answer.splits io_status.splits if_splits prod.splits)
    qed
  qed
qed

lemma write_begin_shorter:
  "write_begin G co timeout buf io s = (r, out, io', s') \<Longrightarrow> length io' \<le> length io"
  by (auto simp: write_begin_def dest: write_loop_shorter split: prod.splits)

lemma handled_reply_rank: "handled_reply h = Some (t, s') \<Longrightarrow> client_rank t = 3"
  by (auto simp: handled_reply_def bind_eq_Some_conv)

text \<open>To show something of every branch of the dispatch on the command.\<close>

lemma if_both: "Q a \<Longrightarrow> Q b \<Longrightarrow> Q (if p then a else b)"
  by simp

lemma client_command_rank:
  "client_command G J command request s = Some (t, s') \<Longrightarrow> client_rank t < 5"
proof -
  have "\<forall>t s'. client_command G J command request s = Some (t, s') \<longrightarrow> client_rank t < 5"
    unfolding client_command_def
    by (intro if_both [where Q = "\<lambda>x. \<forall>t s'. x = Some (t, s') \<longrightarrow> client_rank t < 5"])
      (auto dest!: handled_reply_rank)
  then show "client_command G J command request s = Some (t, s') \<Longrightarrow> client_rank t < 5" by blast
qed

lemma client_read_rank:
  "client_read G J ret c s = Some (t, c', s') \<Longrightarrow> client_rank t < 5"
  by (auto simp: client_read_def client_request_def Let_def bind_eq_Some_conv
      dest!: handled_reply_rank client_command_rank split: if_splits sum.splits option.splits)

lemma client_parts_rank:
  "query_status_done G J ret c s = Some (t, c', s') \<Longrightarrow> client_rank t = 3"
  "client_executed J result b c s = Some (t, c', s') \<Longrightarrow> client_rank t = 3"
  "client_yanked J ret' c s = Some (t, c', s') \<Longrightarrow> client_rank t = 3"
  "client_status_executed G J result c s = Some (t, c', s') \<Longrightarrow> client_rank t \<le> 4"
  "client_colo_executed G J r result c s = Some (t, c', s') \<Longrightarrow> client_rank t = 3"
  "client_cleanup G result c s = Some (t, c', s') \<Longrightarrow> t = K_return"
  by (auto simp: query_status_done_def client_executed_def client_cleanup_def client_yanked_def
      client_status_executed_def client_colo_executed_def bind_eq_Some_conv split: sum.splits)

lemma call_done_rank:
  "call_done G J call out c s = Some (t, c', s') \<Longrightarrow> client_rank t \<le> 4"
  by (cases "(G, J, call, out, c, s)" rule: call_done.cases)
    (auto simp: bind_eq_Some_conv dest!: client_parts_rank)

lemma client_broken_rank: "client_broken G e out c s = Some (t, c', s') \<Longrightarrow> t = K_return"
  by (auto simp: client_broken_def bind_eq_Some_conv dest!: client_parts_rank)

lemma client_micro_decreases:
  assumes "client_micro G J i io outs t c s = Some (C_go io' outs' t' c' s')"
  shows "client_measure io' outs' t' < client_measure io outs t"
proof (cases t)
  case K_loop
  with assms show ?thesis
    by (auto simp: client_micro_def client_got_def client_measure_def dest!: read_shorter
        split: if_splits prod.splits co.splits)
next
  case (K_reply r)
  with assms show ?thesis
    by (auto simp: client_micro_def client_wrote_def client_measure_def Let_def dest!: write_begin_shorter
        split: if_splits prod.splits co.splits)
qed (use assms in \<open>auto simp: client_micro_def client_go_def client_suspend_def client_measure_def Let_def
    bind_eq_Some_conv dest!: client_read_rank call_done_rank client_broken_rank
    split: if_splits sum.splits list.splits outcome.splits prod.splits\<close>)

function client_run ::
    "Event glib \<Rightarrow> json_glib \<Rightarrow> nat \<Rightarrow> io_answer list \<Rightarrow> outcome list \<Rightarrow> client_todo \<Rightarrow> ColodClient \<Rightarrow>
     'z ClientListener_scheme \<Rightarrow> (bool \<times> ColodClient \<times> 'z ClientListener_scheme) abortable" where
  "client_run G J i io outs t c s = (case client_micro G J i io outs t c s of
     None \<Rightarrow> None
   | Some (C_go io' outs' t' c' s') \<Rightarrow> client_run G J i io' outs' t' c' s'
   | Some (C_suspended c' s') \<Rightarrow> Some (False, c', s')
   | Some (C_returned c' s') \<Rightarrow> Some (True, c', s'))"
  by pat_completeness auto
termination
  by (relation "measure (\<lambda>(G, J, i, io, outs, t, c, s). client_measure io outs t)")
    (auto dest: client_micro_decreases)

declare client_run.simps [simp del]

subsection \<open>A dispatch\<close>

text \<open>
  The source \<open>cur\<close> resumes the coroutine. A call that is resumed by its own source and has
  no answer yet waits on.
\<close>

definition client_resume ::
    "Event glib \<Rightarrow> json_glib \<Rightarrow> nat \<Rightarrow> guint \<Rightarrow> io_answer list \<Rightarrow> outcome list \<Rightarrow> ColodClient \<Rightarrow>
     'z ClientListener_scheme \<Rightarrow> 'z ClientListener_scheme client_progress abortable" where
  "client_resume G J i cur io outs c s = (case cl_pc c of
     C_start \<Rightarrow> Some (C_go io outs K_loop c s)
   | C_read pc \<Rightarrow> Some (client_got outs c (read_line_resume G (S_client i) 0 pc cur io s))
   | C_call call src \<Rightarrow>
       (let s1 = call_enter G call s in
        if cur \<noteq> src then Some (C_suspended c s1)
        else case outs of
          [] \<Rightarrow> Some (client_suspend G i call c s1)
        | out # outs' \<Rightarrow>
            if call_fits call out then client_go io outs' (call_done G J call out c s1)
            else Some (client_suspend G i call c s1))
   | C_write line pc \<Rightarrow>
       Some (client_wrote outs line c (write_resume G (S_client i) client_write_timeout line pc cur io s)))"

definition client_co ::
    "Event glib \<Rightarrow> json_glib \<Rightarrow> nat \<Rightarrow> guint \<Rightarrow> io_answer list \<Rightarrow> outcome list \<Rightarrow> ColodClient \<Rightarrow>
     'z ClientListener_scheme \<Rightarrow> (bool \<times> ColodClient \<times> 'z ClientListener_scheme) abortable" where
  "client_co G J i cur io outs c s = do {
     p \<leftarrow> client_resume G J i cur io outs c s;
     (case p of
        C_go io' outs' t c' s' \<Rightarrow> client_run G J i io' outs' t c' s'
      | C_suspended c' s' \<Rightarrow> Some (False, c', s')
      | C_returned c' s' \<Rightarrow> Some (True, c', s')) }"

text \<open>A list of clients with one replaced.\<close>

definition client_put :: "nat \<Rightarrow> ColodClient \<Rightarrow> (nat \<times> ColodClient) list \<Rightarrow> (nat \<times> ColodClient) list" where
  "client_put i c cs = map (\<lambda>(j, d). (j, if j = i then c else d)) cs"

definition client_free :: "nat \<Rightarrow> 'z ClientListener_scheme \<Rightarrow> 'z ClientListener_scheme" where
  "client_free i s = s\<lparr>ls_clients := filter (\<lambda>x. fst x \<noteq> i) (ls_clients s)\<rparr>"

text \<open>
  \<open>colod_client_co\<close> as the main loop calls it: it always returns \<^verbatim>\<open>G_SOURCE_REMOVE\<close>. A source
  of a client that was freed would be a use after free.
\<close>

definition colod_client_co ::
    "Event glib \<Rightarrow> json_glib \<Rightarrow> nat \<Rightarrow> guint \<Rightarrow> io_answer list \<Rightarrow> outcome list \<Rightarrow>
     'z ClientListener_scheme \<Rightarrow> 'z ClientListener_scheme abortable" where
  "colod_client_co G J i cur io outs s = do {
     c \<leftarrow> map_of (ls_clients s) i;
     (finished, c1, s1) \<leftarrow> client_co G J i cur io outs c s;
     (if finished then do {
        ss \<leftarrow> colod_assert_remove_one_source (S_client i) (ml_sources s1);
        Some (client_free i (s1\<lparr>ml_sources := ss\<rparr>)) }
      else Some (s1\<lparr>ls_clients := client_put i c1 (ls_clients s1)\<rparr>)) }"

definition client_dispatch ::
    "Event glib \<Rightarrow> json_glib \<Rightarrow> guint \<Rightarrow> io_answer list \<Rightarrow> outcome list \<Rightarrow>
     'z ClientListener_scheme \<Rightarrow> 'z ClientListener_scheme abortable" where
  "client_dispatch G J cur io outs s = (case map_of (ml_sources s) cur of
     Some (S_client i) \<Rightarrow> do {
       s1 \<leftarrow> colod_client_co G J i cur io outs s;
       Some (remove_source cur s1) }
   | _ \<Rightarrow> Some s)"

subsection \<open>The listener\<close>

text \<open>The memory of a new client is not that of a living one.\<close>

definition new_client_id :: "(nat \<times> ColodClient) list \<Rightarrow> nat" where
  "new_client_id cs = Suc (fold max (map fst cs) 0)"

definition new_client :: ColodClient where
  "new_client = \<lparr>cl_pc = C_start, cl_stopped_qemu = False, cl_quit = False, cl_busy = False,
     cl_shutdown = False, cl_trace = [], cl_out = [], cl_calls = []\<rparr>"

text \<open>\<open>channel_error\<close> is what \<^verbatim>\<open>colod_create_channel\<close> reports.\<close>

definition client_new ::
    "'e glib \<Rightarrow> gerror option \<Rightarrow> 'z ClientListener_scheme \<Rightarrow> int \<times> 'z ClientListener_scheme" where
  "client_new G channel_error s = (case channel_error of
     Some e \<Rightarrow> (-1, s)
   | None \<Rightarrow>
       (let i = new_client_id (ls_clients s);
            s1 = s\<lparr>ls_clients := (i, new_client) # ls_clients s\<rparr>
        in (0, snd (add_source G (S_client i) s1))))"

text \<open>
  The answers of \<^verbatim>\<open>accept\<close>: a connection, with the result of making it a channel, or an error,
  which may be that no connection is left; without an answer there is none left.
\<close>

datatype accept_answer = Accepted "gerror option" | Would_block | Accept_failed

fun accept_loop ::
    "'e glib \<Rightarrow> accept_answer list \<Rightarrow> 'z ClientListener_scheme \<Rightarrow> bool \<times> 'z ClientListener_scheme" where
  "accept_loop G [] s = (True, s)"
| "accept_loop G (Would_block # as) s = (True, s)"
| "accept_loop G (Accept_failed # as) s = (False, s\<lparr>ls_listen_source_id := 0, ls_socket := False\<rparr>)"
| "accept_loop G (Accepted e # as) s = accept_loop G as (snd (client_new G e s))"

definition client_listener_new_client ::
    "'e glib \<Rightarrow> guint \<Rightarrow> accept_answer list \<Rightarrow> 'z ClientListener_scheme \<Rightarrow> 'z ClientListener_scheme" where
  "client_listener_new_client G cur as s = (case accept_loop G as s of
     (continue, s1) \<Rightarrow> if continue then s1 else remove_source cur s1)"

definition client_listener_new :: "'e glib \<Rightarrow> 'z ClientListener_scheme \<Rightarrow> 'z ClientListener_scheme" where
  "client_listener_new G s =
     (let s1 = s\<lparr>ls_socket := True, ls_clients := [], ls_store := None\<rparr>;
          (i, s2) = add_source G S_listener s1
      in s2\<lparr>ls_listen_source_id := i\<rparr>)"

definition client_told_to_quit :: "ColodClient \<Rightarrow> ColodClient" where
  "client_told_to_quit c = c\<lparr>cl_quit := True, cl_shutdown := cl_shutdown c \<or> \<not> cl_busy c\<rparr>"

text \<open>\<open>client_listener_free\<close> up to its loop, which runs the main loop until there are no clients.\<close>

definition client_listener_free :: "'z ClientListener_scheme \<Rightarrow> 'z ClientListener_scheme" where
  "client_listener_free s =
     (let s1 = (if ls_listen_source_id s \<noteq> 0
                then (remove_source (ls_listen_source_id s) s)\<lparr>ls_socket := False\<rparr> else s)
      in s1\<lparr>ls_clients := map (\<lambda>(i, c). (i, client_told_to_quit c)) (ls_clients s1)\<rparr>)"

end
