(* ===== verification/Main_Settings.thy ===== *)
theory Main_Settings
  imports Main_Safety
begin

text \<open>
  The main coroutine and everything that calls it leave alone what clients set, the command
  lists and the match list of a yank, and the state of later components.
\<close>

interpretation rest: main_ops G True "\<lambda>t. main_rest t = main_rest s0"
  for G and s0 :: "'z MainCoroutine_scheme"
  by unfold_locales (auto dest!: event_queue_update)

lemmas rest_ops =
  rest.cpg_send [THEN iffD2, OF _ refl] rest.raise_timeout [THEN iffD2, OF _ refl]
  rest.wait_begin [THEN iffD2, OF _ refl] rest.wait_end [THEN iffD2, OF _ refl]
  rest.set_timeout [THEN iffD2, OF _ refl] rest.execute_end [OF _ refl]

lemmas rest_simps [simp] =
  rest.execute_begin [THEN iffD2, OF refl] rest.refresh [THEN iffD2, OF refl]
  rest.yank_return [THEN iffD2, OF refl]

lemma array_returned_rest: "array_returned G a ret s = Some (t, s') \<Longrightarrow> main_rest s' = main_rest s"
  by (cases a)
    (auto simp: array_returned_defs bind_eq_Some_conv colod_clear_peer_def
      dest!: mig_exits rest_ops split: sum.splits if_splits)

lemma execute_returned_rest: "execute_returned G pt ret s = Some (t, s') \<Longrightarrow> main_rest s' = main_rest s"
  by (cases pt)
    (auto simp: execute_returned_defs start_array_def bind_eq_Some_conv
      dest!: mig_exits array_returned_rest rest_ops split: sum.splits if_splits)

lemma execute_done_rest: "execute_done G pt out s = Some (t, s') \<Longrightarrow> main_rest s' = main_rest s"
  by (auto simp: execute_done_def bind_eq_Some_conv dest!: execute_returned_rest rest_ops)

lemma wait_returned_rest: "wait_returned G q ret s = Some (t, s') \<Longrightarrow> main_rest s' = main_rest s"
  by (cases q)
    (auto simp: wait_returned_defs start_array_def bind_eq_Some_conv
      dest!: mig_exits rest_ops split: sum.splits if_splits)

lemma wait_resumed_rest:
  assumes "qmp_event_wait_resumed G q i cur s = Some (t, s')"
  shows "main_rest s' = main_rest s"
proof -
  from assms obtain r s1 where 1: "qmp_wait_event_end S_main (wait_timeout q) i (wait_match q) cur s = Some (r, s1)"
    by (auto simp: qmp_event_wait_resumed_def bind_eq_Some_conv)
  have "main_rest s' = main_rest s1"
    using assms 1 by (cases r) (auto simp: qmp_event_wait_resumed_def bind_eq_Some_conv
        dest: wait_returned_rest split: if_splits)
  with rest_ops(4) [OF 1] show ?thesis by simp
qed

lemma array_loop_rest: "array_loop G J a els s = Some (t, s') \<Longrightarrow> main_rest s' = main_rest s"
  by (cases els) (auto simp: array_loop_def bind_eq_Some_conv dest: array_returned_rest split: if_splits)

lemma yank_done_rest: "yank_done G out s = Some (t, s') \<Longrightarrow> main_rest s' = main_rest s"
  by (auto simp: yank_done_def start_array_def Let_def split_beta bind_eq_Some_conv split: sum.splits)

lemma event_received_rest: "event_received pt e s = Some (t, s') \<Longrightarrow> main_rest s' = main_rest s"
  by (cases pt) (auto simp: event_received_defs mig_failover_def do_autoquit_def bind_eq_Some_conv
      split: if_splits)

lemma enter_state_rest: "enter_state G st s = Some (t, s') \<Longrightarrow> main_rest s' = main_rest s"
  by (cases st) (auto simp: enter_state_def colo_running_begin_def Let_def bind_eq_Some_conv
      dest!: rest_ops set_interrupting_update)

lemma go_rest:
  "go outs seg = Some p \<Longrightarrow> (\<And>t s'. seg = Some (t, s') \<Longrightarrow> main_rest s' = main_rest s) \<Longrightarrow>
     main_rest (progress_state p) = main_rest s"
  by (auto simp: go_def bind_eq_Some_conv)

lemma yield_io_rest: "main_rest (progress_state (yield_io G pc s)) = main_rest s"
  by (simp add: yield_io_def add_source_eq Let_def)

lemma event_wait_rest: "colod_event_wait cur s = Some (ev, s') \<Longrightarrow> main_rest s' = main_rest s"
  by (drule event_wait_update) auto

lemma main_micro_rest:
  assumes "main_micro G J cur outs t s = Some p"
  shows "main_rest (progress_state p) = main_rest s"
proof (cases t)
  case (T_enter st)
  with assms show ?thesis by (auto simp: main_micro_def dest: enter_state_rest elim!: go_rest)
next
  case (T_event pt)
  with assms obtain ev s1 where ev: "colod_event_wait cur s = Some (ev, s1)"
    by (auto simp: main_micro_def bind_eq_Some_conv)
  have "main_rest (progress_state p) = main_rest s1"
    using T_event ev assms by (cases ev) (auto simp: main_micro_def dest: event_received_rest elim!: go_rest)
  with event_wait_rest [OF ev] show ?thesis by simp
next
  case (T_exec pt c)
  have "main_rest (progress_state p) = main_rest (colod_execute_begin G c s)"
    using T_exec assms
    by (auto simp: main_micro_def Let_def yield_io_rest dest: execute_done_rest elim!: go_rest
        split: list.splits outcome.splits)
  then show ?thesis by simp
qed (use assms in \<open>auto simp: main_micro_def yield_io_rest bind_eq_Some_conv dest!: rest_ops
      dest: array_loop_rest yank_done_rest elim!: go_rest split: list.splits outcome.splits\<close>)

lemma main_run_rest: "main_run G J cur outs t s = Some (r, s') \<Longrightarrow> main_rest s' = main_rest s"
proof (induction G J cur outs t s rule: main_run.induct)
  case (1 G J cur outs t s)
  obtain p where p: "main_micro G J cur outs t s = Some p"
    using "1.prems" by (cases "main_micro G J cur outs t s") (auto simp: main_run.simps)
  note k = main_micro_rest [OF p]
  show ?case
  proof (cases p)
    case (Go outs' t' s1)
    with p "1.prems" have "main_run G J cur outs' t' s1 = Some (r, s')"
      by (subst (asm) main_run.simps) simp
    with "1.IH" [OF p Go] k Go show ?thesis by simp
  qed (use p "1.prems" k in \<open>auto simp: main_run.simps [of G J cur outs t s]\<close>)
qed

lemma main_resume_rest:
  assumes "main_resume G cur outs s = Some p"
  shows "main_rest (progress_state p) = main_rest s"
proof (cases "mc_pc s")
  case PC_start
  with assms show ?thesis by (auto simp: main_resume_def Let_def bind_eq_Some_conv dest!: rest_ops)
next
  case (PC_exec pt i)
  have "main_rest (progress_state p) = main_rest (colod_watchdog_refresh G s)"
    using PC_exec assms
    by (auto simp: main_resume_def Let_def yield_io_rest dest: execute_done_rest elim!: go_rest
        split: if_splits list.splits outcome.splits)
  then show ?thesis by simp
next
  case (PC_timer i)
  with assms show ?thesis by (auto simp: main_resume_defs remove_source_def split: if_splits)
qed (use assms in \<open>auto simp: main_resume_def yield_io_rest bind_eq_Some_conv
      dest: yank_done_rest wait_resumed_rest elim!: go_rest split: if_splits list.splits outcome.splits\<close>)

lemma main_dispatch_rest:
  assumes "main_dispatch G J cur outs s = Some s'"
  shows "main_rest s' = main_rest s"
proof -
  have "main_rest t = main_rest s" if co: "colod_main_co G J cur outs s = Some t" for t
  proof -
    obtain p r s1 where p: "main_resume G cur outs s = Some p" "main_continue G J cur p = Some (r, s1)"
      using co by (auto simp: colod_main_co_def bind_eq_Some_conv)
    have "main_rest s1 = main_rest s"
      using main_resume_rest [OF p(1)] p(2)
      by (cases p) (auto simp: main_continue_def dest: main_run_rest)
    with co p show ?thesis by (cases r) (auto simp: colod_main_co_def bind_eq_Some_conv)
  qed
  with assms show ?thesis
    by (auto simp: main_dispatch_def bind_eq_Some_conv event_wake_source_destroy_cb_def
        split: option.splits source.splits)
qed

text \<open>Every input but a setting leaves the settings and the later components alone.\<close>

theorem main_step_rest:
  assumes "main_step G J myid inp s = Some s'" and "\<not> sets_context inp"
  shows "main_rest s' = main_rest s"
proof (cases "\<exists>cur outs. inp = Dispatch cur outs")
  case True
  with assms show ?thesis by (auto simp: main_step_def dest: main_dispatch_rest)
next
  case False
  from rest.main_step_ops [OF assms(1) False assms(2) TrueI refl] show ?thesis .
qed

end
