(* ===== verification/Client_System.thy ===== *)
theory Client_System
  imports Client Main_Failover Main_Settings
begin

text \<open>
  The daemon with its clients: the transition system of the main coroutine, where the requests
  of clients were inputs, composed with the client coroutines that make them.
\<close>

subsection \<open>What a client does to the rest of the daemon\<close>

text \<open>The inputs of \<open>main_step\<close> that come from clients.\<close>

fun by_client :: "main_input \<Rightarrow> bool" where
  "by_client Other_exec_begin = True"
| "by_client (Other_exec command out) = True"
| "by_client (Other_exec_nocheck out) = True"
| "by_client (Other_yank out) = True"
| "by_client (Health ret) = True"
| "by_client Start_migration = True"
| "by_client Autoquit = True"
| "by_client Qemu_failed = True"
| "by_client (Set_peer peer) = True"
| "by_client Clear_peer = True"
| "by_client (Set_commands cmds) = True"
| "by_client (Set_yank_instances instances) = True"
| "by_client Quit_request = True"
| "by_client _ = False"

text \<open>The command lists and the match list of a yank are arrays.\<close>

definition ctx_ok :: "'z MainCoroutine_scheme \<Rightarrow> bool" where
  "ctx_ok s \<longleftrightarrow> commands_ok (cx_commands s) \<and>
     (case qmp_yank_instances s of None \<Rightarrow> True | Some instances \<Rightarrow> holds_array instances)"

text \<open>Requests of a client, which keep these types, and changes of what is its own.\<close>

inductive client_path ::
    "Event glib \<Rightarrow> json_glib \<Rightarrow> guint \<Rightarrow> 'z ClientListener_scheme \<Rightarrow> main_input list \<Rightarrow>
     'z ClientListener_scheme \<Rightarrow> bool"
  for G J myid s0 where
  start: "client_path G J myid s0 [] s0"
| request: "client_path G J myid s0 h s \<Longrightarrow> by_client inp \<Longrightarrow> main_step G J myid inp s = Some s' \<Longrightarrow>
     (ctx_ok s \<Longrightarrow> ctx_ok s') \<Longrightarrow> client_path G J myid s0 (inp # h) s'"
| own: "client_path G J myid s0 h s \<Longrightarrow> guest_move s s' \<Longrightarrow> ls_clients s' = ls_clients s \<Longrightarrow>
     client_path G J myid s0 h s'"

definition client_moves ::
    "Event glib \<Rightarrow> json_glib \<Rightarrow> guint \<Rightarrow> 'z ClientListener_scheme \<Rightarrow> 'z ClientListener_scheme \<Rightarrow> bool" where
  "client_moves G J myid s s' \<longleftrightarrow> (\<exists>h. client_path G J myid s h s')"

text \<open>The requests never reach into the list of clients.\<close>

lemma more_clients: "MainCoroutine.more s' = MainCoroutine.more s \<Longrightarrow> ls_clients s' = ls_clients s"
  by (cases s, hypsubst, cases s', hypsubst, simp only: MainCoroutine.select_convs ClientListener.select_convs)

lemma main_step_clients:
  assumes "main_step G J myid inp s = Some s'"
  shows "ls_clients s' = ls_clients s"
proof (cases "sets_context inp")
  case True
  with assms show ?thesis by (cases inp) (auto simp: main_step_def qmp_set_yank_instances_def)
next
  case False
  from main_step_rest [OF assms this] have "MainCoroutine.more s' = MainCoroutine.more s"
    by (simp only: main_rest_def prod.inject)
  then show ?thesis by (rule more_clients)
qed

lemma client_path_clients: "client_path G J myid s h s' \<Longrightarrow> ls_clients s' = ls_clients s"
  by (induction rule: client_path.induct) (simp_all add: main_step_clients)

lemma moves_clients: "client_moves G J myid s s' \<Longrightarrow> ls_clients s' = ls_clients s"
  by (auto simp: client_moves_def dest: client_path_clients)

lemma guest_trans:
  assumes "guest_move s s1" and "guest_move s1 s2"
  shows "guest_move s s2"
proof -
  from assms obtain m m' where "s1 = MainCoroutine.more_update m (s\<lparr>ml_sources := ml_sources s1\<rparr>)"
    "s2 = MainCoroutine.more_update m' (s1\<lparr>ml_sources := ml_sources s2\<rparr>)" by (auto simp: guest_move_def)
  moreover have "MainCoroutine.more_update m' ((MainCoroutine.more_update m (s\<lparr>ml_sources := a\<rparr>))\<lparr>ml_sources := b\<rparr>) =
      MainCoroutine.more_update (\<lambda>x. m' (m x)) (s\<lparr>ml_sources := b\<rparr>)" for a b
    by (simp add: o_def)
  ultimately show ?thesis unfolding guest_move_def by metis
qed

lemma guest_refl [simp]: "guest_move s s"
  unfolding guest_move_def by (rule exI [of _ "\<lambda>m. m"]) simp

lemma client_path_append:
  "client_path G J myid s1 h2 s2 \<Longrightarrow> client_path G J myid s h1 s1 \<Longrightarrow> client_path G J myid s (h2 @ h1) s2"
  by (induction rule: client_path.induct) (auto intro: client_path.intros)

lemma client_path_reach:
  "client_path G J myid s h' s' \<Longrightarrow> main_reach G J myid s0 h s \<Longrightarrow>
     main_reach G J myid s0 (h' @ h) s' \<and> list_all by_client h'"
  by (induction rule: client_path.induct) (auto intro: main_reach.intros)

lemma guest_types: "guest_move s s' \<Longrightarrow> ctx_ok s' = ctx_ok s"
proof -
  assume "guest_move s s'"
  then obtain m where s': "s' = MainCoroutine.more_update m (s\<lparr>ml_sources := ml_sources s'\<rparr>)"
    by (auto simp: guest_move_def)
  have "ctx_ok (MainCoroutine.more_update m (s\<lparr>ml_sources := ss\<rparr>)) = ctx_ok s" for ss
    by (simp add: ctx_ok_def)
  with s' show ?thesis by metis
qed

lemma client_path_types: "client_path G J myid s h s' \<Longrightarrow> ctx_ok s \<Longrightarrow> ctx_ok s'"
  by (induction rule: client_path.induct) (auto simp: guest_types)

lemma moves_refl [intro, simp]: "client_moves G J myid s s"
  by (auto simp: client_moves_def intro: client_path.start)

lemma moves_trans [trans]:
  "client_moves G J myid s s1 \<Longrightarrow> client_moves G J myid s1 s2 \<Longrightarrow> client_moves G J myid s s2"
  by (auto simp: client_moves_def dest: client_path_append)

lemma moves_own: "guest_move s s' \<Longrightarrow> ls_clients s' = ls_clients s \<Longrightarrow> client_moves G J myid s s'"
  unfolding client_moves_def using client_path.own [OF client_path.start] by blast

lemma moves_request:
  "main_step G J myid inp s = Some s' \<Longrightarrow> by_client inp \<Longrightarrow> (ctx_ok s \<Longrightarrow> ctx_ok s') \<Longrightarrow> client_moves G J myid s s'"
  by (auto simp: client_moves_def intro: client_path.start client_path.request)

lemma moves_types: "client_moves G J myid s s' \<Longrightarrow> ctx_ok s \<Longrightarrow> ctx_ok s'"
  by (auto simp: client_moves_def dest: client_path_types)

text \<open>The calls of a client.\<close>

lemma rest_types: "main_rest s' = main_rest s \<Longrightarrow> ctx_ok s' = ctx_ok s"
  by (simp add: main_rest_def ctx_ok_def)

lemma moves_call:
  "main_step G J myid inp s = Some s' \<Longrightarrow> by_client inp \<Longrightarrow> \<not> sets_context inp \<Longrightarrow> client_moves G J myid s s'"
  by (rule moves_request) (auto dest: main_step_rest rest_types)

lemma moves_event:
  "colod_event_queue G EVENT_AUTOQUIT s = Some s' \<Longrightarrow> client_moves G J myid s s'"
  "colod_start_migration G s = Some (ret, s') \<Longrightarrow> client_moves G J myid s s'"
  "colod_qemu_failed G s = Some s' \<Longrightarrow> client_moves G J myid s s'"
  by (rule moves_call [where inp = Autoquit] moves_call [where inp = Start_migration]
      moves_call [where inp = Qemu_failed]; simp add: main_step_def colod_autoquit_def)+

lemma moves_execute: "colod_execute_end G command out s = Some (r, s') \<Longrightarrow> client_moves G J myid s s'"
  by (rule moves_call [where inp = "Other_exec command out"]) (simp_all add: main_step_def)

lemma moves_execute_nocheck: "colod_execute_nocheck_end G out s = Some (r, s') \<Longrightarrow> client_moves G J myid s s'"
  by (rule moves_call [where inp = "Other_exec_nocheck out"]) (simp_all add: main_step_def)

lemma moves_yank: "colod_yank_end G out s = Some (r, s') \<Longrightarrow> client_moves G J myid s s'"
  by (rule moves_call [where inp = "Other_yank out"]) (simp_all add: main_step_def)

lemma moves_health: "colod_check_health_end G ret s = Some (r, s') \<Longrightarrow> client_moves G J myid s s'"
  by (rule moves_call [where inp = "Health ret"]) (simp_all add: main_step_def)

lemma moves_enter: "client_moves G J myid s (call_enter G call s)"
proof (cases "call = L_yank")
  case False
  then show ?thesis
    by (intro moves_call [where inp = Other_exec_begin]) (simp_all add: main_step_def call_enter_def)
qed (simp add: call_enter_def)

text \<open>Changes of the client's own.\<close>

lemma guest_moves_intro:
  "s' = MainCoroutine.more_update (\<lambda>_. MainCoroutine.more s') (s\<lparr>ml_sources := ml_sources s'\<rparr>) \<Longrightarrow> guest_move s s'"
  by (auto simp: guest_move_def)

lemma guest_own [simp, intro]:
  fixes s :: "'z ClientListener_scheme"
  shows "guest_move s (s\<lparr>ls_store := store\<rparr>)" "guest_move s (s\<lparr>ls_clients := cs\<rparr>)"
    "guest_move s (s\<lparr>ls_socket := b\<rparr>)" "guest_move s (s\<lparr>ls_listen_source_id := i\<rparr>)"
    "guest_move s (s\<lparr>ml_sources := ss\<rparr>)"
  by (rule guest_moves_intro; cases s; simp)+

definition sources_only :: "'z MainContext_scheme \<Rightarrow> 'z MainContext_scheme \<Rightarrow> bool" where
  "sources_only s s' \<longleftrightarrow> (\<exists>ss. s' = s\<lparr>ml_sources := ss\<rparr>)"

lemma sources_only_update [simp]: "sources_only s (s\<lparr>ml_sources := ss\<rparr>)" "sources_only s s"
  by (auto simp: sources_only_def intro: exI [of _ "ml_sources s"])

lemma sources_only_trans: "sources_only s s1 \<Longrightarrow> sources_only s1 s2 \<Longrightarrow> sources_only s s2"
  by (auto simp: sources_only_def)

lemma sources_only_own:
  fixes s :: "'z ClientListener_scheme"
  shows "sources_only s s' \<Longrightarrow> client_moves G J myid s s'"
  by (auto simp: sources_only_def intro: moves_own)

lemma sources_only_steps [simp]:
  "sources_only s (remove_source i s)" "sources_only s (stop_timeout timeout tmo s)"
  "sources_only s (snd (add_source G co s))"
  by (simp_all add: remove_source_def stop_timeout_def add_source_eq Let_def)

lemma sources_only_add: "add_source G co s = (i, s') \<Longrightarrow> sources_only s s'"
  by (metis sources_only_steps(3) snd_conv)

lemma sources_only_io: "io_step G co timeout tmo ids r s s' \<Longrightarrow> sources_only s s'"
  by (auto simp: io_step_def dest!: sources_only_add split: co.splits)

lemma sources_only_resume:
  assumes "resume_step G co timeout ids pc cur r s s'"
  shows "sources_only s s'"
proof -
  obtain tmo i where ids: "ids pc = (tmo, i)" by fastforce
  let ?t = "if cur \<noteq> i then remove_source i s else s"
  have "io_step G co timeout tmo ids r ?t s' \<Longrightarrow> sources_only s s'"
    by (rule sources_only_trans [of _ ?t]) (simp_all add: sources_only_io)
  moreover have "sources_only s (stop_timeout timeout tmo (remove_source i s))"
    by (rule sources_only_trans [of _ "remove_source i s"]) simp_all
  ultimately show ?thesis
    using assms ids by (simp add: resume_step_def split: if_splits)
qed

text \<open>Reading and writing.\<close>

lemma start_timeout_sources: "start_timeout G co timeout s = (tmo, s') \<Longrightarrow> sources_only s s'"
  by (auto simp: start_timeout_def dest: sources_only_add split: if_splits)

lemma channel_moves:
  fixes s :: "'z ClientListener_scheme"
  shows "read_line_begin G co timeout io s = (r, io', s') \<Longrightarrow> client_moves H J myid s s'"
    and "read_line_resume G co timeout pc cur io s = (r, io', s') \<Longrightarrow> client_moves H J myid s s'"
    and "write_begin G co timeout buf io s = (r', out, io', s') \<Longrightarrow> client_moves H J myid s s'"
    and "write_resume G co timeout buf pc' cur io s = (r', out, io', s') \<Longrightarrow> client_moves H J myid s s'"
  by (auto simp: read_line_begin_def write_begin_def split: prod.splits
      intro!: sources_only_own
      dest!: start_timeout_sources read_loop_step write_loop_step read_resume_step write_resume_step
      dest: sources_only_io sources_only_resume sources_only_trans)

subsection \<open>A dispatch of a client\<close>

lemma handled_reply_Some: "handled_reply h = Some (t, s') \<longleftrightarrow> (\<exists>r. h = Some (r, s') \<and> t = K_reply r)"
  by (auto simp: handled_reply_def bind_eq_Some_conv)

lemma replies_Some: "replies reply s = Some (r, s') \<longleftrightarrow> reply = Some r \<and> s' = s"
  by (auto simp: replies_def bind_eq_Some_conv)

lemma moves_set_commands:
  assumes "set_commands setter J request s = Some (r, s')"
    and "\<And>c cs. commands_ok c \<Longrightarrow> holds_array cs \<Longrightarrow> commands_ok (snd (setter c cs))"
  shows "client_moves G J' myid s s'"
proof -
  from assms(1) obtain v where v: "get_commands request = Some v"
    by (auto simp: set_commands_def bind_eq_Some_conv)
  show ?thesis
  proof (cases v)
    case (Inl e)
    with assms(1) v show ?thesis by (simp add: set_commands_def replies_Some)
  next
    case (Inr cs)
    with v have "holds_array cs"
      by (auto simp: get_commands_def bind_eq_Some_conv split: if_splits)
    moreover have "s' = s\<lparr>cx_commands := snd (setter (cx_commands s) cs)\<rparr>"
      using assms(1) v Inr by (simp add: set_commands_def replies_Some)
    ultimately show ?thesis
      using assms(2) by (intro moves_request [where inp = "Set_commands (snd (setter (cx_commands s) cs))"])
        (auto simp: main_step_def ctx_ok_def)
  qed
qed

lemma moves_set_peer: "client_moves G J myid s (colod_set_peer peer s)"
  by (rule moves_call [where inp = "Set_peer peer"]) (simp_all add: main_step_def)

lemma moves_set_yank: "holds_array instances \<Longrightarrow> client_moves G J myid s (qmp_set_yank_instances instances s)"
  by (rule moves_request [where inp = "Set_yank_instances instances"])
    (simp_all add: main_step_def qmp_set_yank_instances_def ctx_ok_def)

lemma moves_handlers:
  fixes s :: "'z ClientListener_scheme"
  shows "handle_query_store J s = Some (r, s') \<Longrightarrow> client_moves G J' myid s s'"
    and "handle_set_store J request s = Some (r, s') \<Longrightarrow> client_moves G J' myid s s'"
    and "handle_quit J s = Some (r, s') \<Longrightarrow> client_moves G J' myid s s'"
    and "handle_autoquit G J s = Some (r, s') \<Longrightarrow> client_moves G J' myid s s'"
    and "handle_start_migration G J s = Some (r, s') \<Longrightarrow> client_moves G J' myid s s'"
    and "handle_set_yank J request s = Some (r, s') \<Longrightarrow> client_moves G J' myid s s'"
    and "handle_set_peer J request s = Some (r, s') \<Longrightarrow> client_moves G J' myid s s'"
    and "handle_query_peer J s = Some (r, s') \<Longrightarrow> client_moves G J' myid s s'"
    and "handle_clear_peer J s = Some (r, s') \<Longrightarrow> client_moves G J' myid s s'"
proof -
  show "handle_quit J s = Some (r, s') \<Longrightarrow> client_moves G J' myid s s'"
    by (rule moves_call [where inp = Quit_request]) (auto simp: handle_quit_def replies_Some main_step_def)
  show "handle_clear_peer J s = Some (r, s') \<Longrightarrow> client_moves G J' myid s s'"
    by (rule moves_call [where inp = Clear_peer]) (auto simp: handle_clear_peer_def replies_Some main_step_def)
qed (auto simp: handle_query_store_def handle_set_store_def handle_autoquit_def handle_start_migration_def
    colod_autoquit_def handle_query_peer_def handle_set_peer_def handle_set_yank_def replies_Some
    bind_eq_Some_conv intro: moves_own moves_set_peer moves_set_yank dest: moves_event split: if_splits)

lemma moves_command:
  fixes s :: "'z ClientListener_scheme"
  assumes "client_command G J command request s = Some (t, s')"
  shows "client_moves G J' myid s s'"
proof -
  have *: "\<forall>t s'. client_command G J command request s = Some (t, s') \<longrightarrow> client_moves G J' myid s s'"
    unfolding client_command_def
    by (intro if_both [where Q = "\<lambda>x. \<forall>t s'. x = Some (t, s') \<longrightarrow> client_moves G J' myid s s'"])
      (auto simp: handled_reply_Some replies_Some handle_set_migration_start_def
        handle_set_migration_switchover_def handle_set_primary_failover_def handle_set_secondary_failover_def
        dest: moves_handlers moves_set_commands [OF _ commands_ok_set(1)]
          moves_set_commands [OF _ commands_ok_set(2)] moves_set_commands [OF _ commands_ok_set(3)]
          moves_set_commands [OF _ commands_ok_set(4)])
  with assms show ?thesis by blast
qed

lemma moves_read:
  fixes s :: "'z ClientListener_scheme"
  assumes "client_read G J ret c s = Some (t, c', s')"
  shows "client_moves G J' myid s s'"
proof -
  have "client_request G J request s = Some (t, s') \<Longrightarrow> client_moves G J' myid s s'" for request
    by (auto simp: client_request_def bind_eq_Some_conv handled_reply_Some replies_Some
        dest: moves_command split: if_splits option.splits)
  with assms show ?thesis
    by (auto simp: client_read_def Let_def bind_eq_Some_conv split: if_splits sum.splits)
qed

lemma moves_parts:
  fixes s :: "'z ClientListener_scheme"
  shows "query_status_done G J ret c s = Some (t, c', s') \<Longrightarrow> client_moves G J' myid s s'"
    and "client_executed J result b c s = Some (t, c', s') \<Longrightarrow> client_moves G J' myid s s'"
    and "client_yanked J ret' c s = Some (t, c', s') \<Longrightarrow> client_moves G J' myid s s'"
    and "client_status_executed G J result c s = Some (t, c', s') \<Longrightarrow> client_moves G J' myid s s'"
    and "client_colo_executed G J r result c s = Some (t, c', s') \<Longrightarrow> client_moves G J' myid s s'"
    and "client_cleanup G result c s = Some (t, c', s') \<Longrightarrow> client_moves G J' myid s s'"
  by (auto simp: query_status_done_def client_executed_def client_cleanup_def client_yanked_def
      client_status_executed_def client_colo_executed_def bind_eq_Some_conv
      dest: moves_health moves_event split: sum.splits)

lemma moves_call_done:
  fixes s :: "'z ClientListener_scheme"
  shows "call_done G J call out c s = Some (t, c', s') \<Longrightarrow> client_moves G J' myid s s'"
  by (cases "(G, J, call, out, c, s)" rule: call_done.cases)
    (auto simp: bind_eq_Some_conv dest!: moves_parts [where J' = J' and myid = myid]
      dest: moves_execute [where J = J' and myid = myid] moves_execute_nocheck [where J = J' and myid = myid]
        moves_yank [where J = J' and myid = myid] intro: moves_trans)

lemma moves_broken:
  fixes s :: "'z ClientListener_scheme"
  shows "client_broken G e out c s = Some (t, c', s') \<Longrightarrow> client_moves G J' myid s s'"
  by (auto simp: client_broken_def bind_eq_Some_conv dest!: moves_parts [where J' = J' and myid = myid]
      dest: moves_execute [where J = J' and myid = myid] intro: moves_trans)

fun progress_client :: "'s client_progress \<Rightarrow> ColodClient" where
  "progress_client (C_go io outs t c s) = c"
| "progress_client (C_suspended c s) = c"
| "progress_client (C_returned c s) = c"

fun progress_daemon :: "'s client_progress \<Rightarrow> 's" where
  "progress_daemon (C_go io outs t c s) = s"
| "progress_daemon (C_suspended c s) = s"
| "progress_daemon (C_returned c s) = s"

lemma moves_suspend:
  fixes s :: "'z ClientListener_scheme"
  shows "client_moves G J myid s (progress_daemon (client_suspend G' i call c s))"
  by (auto simp: client_suspend_def add_source_eq Let_def intro: moves_own)

lemma moves_got_wrote:
  fixes s :: "'z ClientListener_scheme"
  shows "client_moves H J myid s (progress_daemon (client_got outs c (read_line_begin G co timeout io s)))"
    and "client_moves H J myid s (progress_daemon (client_got outs c (read_line_resume G co timeout pc cur io s)))"
    and "client_moves H J myid s (progress_daemon (client_wrote outs l c (write_begin G co timeout buf io s)))"
    and "client_moves H J myid s (progress_daemon (client_wrote outs l c (write_resume G co timeout buf pc' cur io s)))"
  by (auto simp: client_got_def client_wrote_def Let_def split: prod.splits co.splits dest: channel_moves)

lemma moves_answer:
  fixes s :: "'z ClientListener_scheme"
  assumes "(case outs of [] \<Rightarrow> Some (client_suspend G i call c (call_enter G call s))
      | out # outs' \<Rightarrow> if call_fits call out then client_go io outs' (call_done G J call out c (call_enter G call s))
          else Some (client_suspend G i call c (call_enter G call s))) = Some p"
  shows "client_moves G J' myid s (progress_daemon p)"
proof -
  have "client_moves G J' myid (call_enter G call s) (progress_daemon p)"
    using assms by (auto simp: client_go_def bind_eq_Some_conv moves_suspend dest: moves_call_done
        split: list.splits if_splits)
  with moves_enter show ?thesis by (rule moves_trans)
qed

lemma moves_micro:
  fixes s :: "'z ClientListener_scheme"
  assumes "client_micro G J i io outs t c s = Some p"
  shows "client_moves G J' myid s (progress_daemon p)"
proof (cases t)
  case (K_call call)
  with assms show ?thesis by (intro moves_answer) (simp add: client_micro_def Let_def)
next
  case (K_broken e)
  have "client_moves G J' myid (call_enter G L_cleanup s) (progress_daemon p)" if "cl_stopped_qemu c"
    using K_broken assms that
    by (auto simp: client_micro_def client_go_def Let_def bind_eq_Some_conv moves_suspend dest: moves_broken
        split: list.splits outcome.splits)
  with moves_enter moves_trans have "cl_stopped_qemu c \<Longrightarrow> client_moves G J' myid s (progress_daemon p)" by blast
  with K_broken assms show ?thesis by (cases "cl_stopped_qemu c") (auto simp: client_micro_def)
qed (use assms moves_got_wrote in \<open>auto simp: client_micro_def client_go_def Let_def bind_eq_Some_conv
      dest: moves_read split: if_splits sum.splits\<close>)

lemma moves_run:
  fixes s :: "'z ClientListener_scheme"
  shows "client_run G J i io outs t c s = Some (r, c', s') \<Longrightarrow> client_moves G J' myid s s'"
proof (induction G J i io outs t c s rule: client_run.induct)
  case (1 G J i io outs t c s)
  obtain p where p: "client_micro G J i io outs t c s = Some p"
    using "1.prems" by (cases "client_micro G J i io outs t c s") (auto simp: client_run.simps)
  note k = moves_micro [OF p, of J' myid]
  show ?case
  proof (cases p)
    case (C_go io' outs' t' c1 s1)
    with p "1.prems" have "client_run G J i io' outs' t' c1 s1 = Some (r, c', s')"
      by (subst (asm) client_run.simps) simp
    with "1.IH" [OF p C_go] k C_go show ?thesis by (auto intro: moves_trans)
  qed (use p "1.prems" k in \<open>auto simp: client_run.simps [of G J i io outs t c s]\<close>)
qed

lemma moves_resume:
  fixes s :: "'z ClientListener_scheme"
  assumes "client_resume G J i cur io outs c s = Some p"
  shows "client_moves G J' myid s (progress_daemon p)"
proof (cases "cl_pc c")
  case (C_call call src)
  show ?thesis
  proof (cases "cur = src")
    case True
    with assms C_call show ?thesis by (intro moves_answer) (simp add: client_resume_def Let_def)
  next
    case False
    with assms C_call show ?thesis by (auto simp: client_resume_def Let_def intro: moves_enter)
  qed
qed (use assms moves_got_wrote in \<open>auto simp: client_resume_def\<close>)

lemma moves_client_co:
  fixes s :: "'z ClientListener_scheme"
  assumes "client_co G J i cur io outs c s = Some (r, c', s')"
  shows "client_moves G J' myid s s'"
proof -
  obtain p where p: "client_resume G J i cur io outs c s = Some p"
    using assms by (auto simp: client_co_def bind_eq_Some_conv)
  from moves_resume [OF p] have "client_moves G J' myid s (progress_daemon p)" .
  with assms p moves_run show ?thesis
    by (cases p) (auto simp: client_co_def intro: moves_trans [OF _ moves_run])
qed

text \<open>What a dispatch does to the clients, and that the rest of it is the client's.\<close>

lemma dispatch_moves:
  fixes s :: "'z ClientListener_scheme"
  assumes "client_dispatch G J cur io outs s = Some s'"
  shows "s' = s \<or> (\<exists>i c r c1 s1. map_of (ls_clients s) i = Some c \<and>
    client_co G J i cur io outs c s = Some (r, c1, s1) \<and> guest_move s1 s' \<and>
    ls_clients s' = (if r then filter (\<lambda>x. fst x \<noteq> i) (ls_clients s) else client_put i c1 (ls_clients s)))"
proof (cases "\<exists>i. map_of (ml_sources s) cur = Some (S_client i)")
  case False
  with assms show ?thesis by (auto simp: client_dispatch_def split: option.splits source.splits)
next
  case True
  then obtain i where i: "map_of (ml_sources s) cur = Some (S_client i)" ..
  with assms obtain s2 where s2: "colod_client_co G J i cur io outs s = Some s2" and s': "s' = remove_source cur s2"
    by (auto simp: client_dispatch_def bind_eq_Some_conv)
  then obtain c r c1 s1 where c: "map_of (ls_clients s) i = Some c"
    and co: "client_co G J i cur io outs c s = Some (r, c1, s1)"
    and fin: "(if r then do {
         ss \<leftarrow> colod_assert_remove_one_source (S_client i) (ml_sources s1);
         Some (client_free i (s1\<lparr>ml_sources := ss\<rparr>)) }
       else Some (s1\<lparr>ls_clients := client_put i c1 (ls_clients s1)\<rparr>)) = Some s2"
    by (auto simp: colod_client_co_def bind_eq_Some_conv)
  have old: "ls_clients s1 = ls_clients s"
    by (rule moves_clients [OF moves_client_co [OF co, of undefined undefined]])
  have free: "guest_move s1 (client_free j (s1\<lparr>ml_sources := ss\<rparr>))" for j ss
    unfolding client_free_def by (rule guest_trans) (rule guest_own)+
  have "guest_move s1 s2"
    using fin free by (cases r) (auto simp: bind_eq_Some_conv)
  moreover have "guest_move s2 s'" unfolding s' remove_source_def by (rule guest_own)
  ultimately have "guest_move s1 s'" by (rule guest_trans)
  moreover have "ls_clients s' = ls_clients s2" by (simp add: s' remove_source_def)
  moreover have "ls_clients s2 =
      (if r then filter (\<lambda>x. fst x \<noteq> i) (ls_clients s) else client_put i c1 (ls_clients s))"
    using fin old by (cases r) (auto simp: bind_eq_Some_conv client_free_def)
  ultimately have "map_of (ls_clients s) i = Some c \<and> client_co G J i cur io outs c s = Some (r, c1, s1) \<and>
      guest_move s1 s' \<and>
      ls_clients s' = (if r then filter (\<lambda>x. fst x \<noteq> i) (ls_clients s) else client_put i c1 (ls_clients s))"
    using c co by simp
  then show ?thesis by blast
qed

text \<open>The listener.\<close>

lemma accept_guest:
  fixes s :: "'z ClientListener_scheme"
  shows "accept_loop G as s = (b, s') \<Longrightarrow> guest_move s s' \<and>
    snd ` set (ls_clients s') \<subseteq> insert new_client (snd ` set (ls_clients s))"
proof (induction G as s rule: accept_loop.induct)
  case (3 G as s)
  then show ?case by (auto intro: guest_trans [OF guest_own(4) guest_own(3)])
next
  case (4 G e as s)
  let ?s = "snd (client_new G e s)"
  from "4.prems" have IH: "guest_move ?s s' \<and>
      snd ` set (ls_clients s') \<subseteq> insert new_client (snd ` set (ls_clients ?s))"
    by (intro "4.IH") simp
  have "guest_move s ?s"
    by (cases e) (simp_all add: client_new_def Let_def add_source_eq guest_trans [OF guest_own(2) guest_own(5)])
  moreover have "snd ` set (ls_clients ?s) \<subseteq> insert new_client (snd ` set (ls_clients s))"
    by (cases e) (auto simp: client_new_def add_source_eq Let_def)
  ultimately show ?case using IH guest_trans by blast
qed auto

lemma new_client_guest:
  fixes s :: "'z ClientListener_scheme"
  shows "guest_move s (client_listener_new_client G cur as s)"
    and "snd ` set (ls_clients (client_listener_new_client G cur as s)) \<subseteq> insert new_client (snd ` set (ls_clients s))"
  using accept_guest [of G as s]
  by (auto simp: client_listener_new_client_def remove_source_def split: prod.splits
      intro: guest_trans [OF _ guest_own(5)])

lemma listener_guest:
  fixes s :: "'z ClientListener_scheme"
  shows "guest_move s (client_listener_new G s)" "guest_move s (client_listener_free s)"
  by (rule guest_moves_intro; cases s;
      simp add: client_listener_new_def client_listener_free_def remove_source_def add_source_eq Let_def)+

end
