(* ===== verification/Daemon.thy ===== *)
theory Daemon
  imports Client_System Qmp_Channel
begin

text \<open>
  \<^verbatim>\<open>daemon_mainloop\<close> of \<^verbatim>\<open>daemon.c\<close>: how the components are created, what the main
  loop does with them, the states the daemon with its clients can reach, and what they have in common with those of the main coroutine alone.
\<close>

subsection \<open>Creation\<close>

text \<open>
  What the components report when they are created: the errors of the two QMP channels, whether
  corosync has a file descriptor and the two calls of netlink. An error ends the process.
\<close>

record daemon_answers =
  da_channel_error :: "gerror option"
  da_yank_error :: "gerror option"
  da_cpg_fd :: bool
  da_netlink :: bool
  da_netlink_request :: bool

datatype 's daemon_result = Running 's | Exit_failure

definition daemon_mainloop_begin ::
    "Event glib \<Rightarrow> json_glib \<Rightarrow> daemon_answers \<Rightarrow> string option \<Rightarrow> guint \<Rightarrow> 'z ClientListener_scheme \<Rightarrow>
     'z ClientListener_scheme daemon_result abortable" where
  "daemon_mainloop_begin G J a monitor interval ctx = do {
     (qmp, s1) \<leftarrow> qmp_new G (da_channel_error a) (da_yank_error a) (cx_qmp_timeout_low ctx) ctx;
     (case qmp of
        Inl e \<Rightarrow> Some Exit_failure
      | Inr _ \<Rightarrow>
          (case cpg_new G (da_cpg_fd a) s1 of
             (Inl e, s2) \<Rightarrow> Some Exit_failure
           | (Inr _, s2) \<Rightarrow> do {
               commands \<leftarrow> qmp_commands_new J;
               (main_ok, s3) \<leftarrow> colod_main_new G (da_netlink a) (da_netlink_request a) monitor
                 (s2\<lparr>cx_commands := commands\<rparr>);
               (if \<not> main_ok then Some Exit_failure
                else do {
                  s4 \<leftarrow> colod_watchdog_new G interval (client_listener_new G s3);
                  Some (Running s4) }) })) }"

lemma daemon_begin_parts:
  assumes "daemon_mainloop_begin G J a monitor interval ctx = Some (Running s0)"
  shows "\<exists>s1 s2 commands s3.
    qmp_new G (da_channel_error a) (da_yank_error a) (cx_qmp_timeout_low ctx) ctx = Some (Inr (), s1) \<and>
    cpg_new G (da_cpg_fd a) s1 = (Inr (), s2) \<and> qmp_commands_new J = Some commands \<and>
    colod_main_new G (da_netlink a) (da_netlink_request a) monitor (s2\<lparr>cx_commands := commands\<rparr>) = Some (True, s3) \<and>
    colod_watchdog_new G interval (client_listener_new G s3) = Some s0"
proof -
  from assms obtain qmp s1 where 1: "qmp_new G (da_channel_error a) (da_yank_error a) (cx_qmp_timeout_low ctx) ctx =
      Some (qmp, s1)"
    by (auto simp: daemon_mainloop_begin_def bind_eq_Some_conv)
  obtain cpg s2 where 2: "cpg_new G (da_cpg_fd a) s1 = (cpg, s2)" by fastforce
  from assms 1 2 show ?thesis
    by (cases qmp; cases cpg) (auto simp: daemon_mainloop_begin_def bind_eq_Some_conv split: if_splits)
qed

text \<open>What the creation of the components leaves alone.\<close>

lemma qmp_new_rest:
  fixes s :: "'z MainCoroutine_scheme"
  assumes "qmp_new G e1 e2 timeout s = Some (Inr u, s')"
  shows "qmp_yank_instances s' = None \<and> cx_primary_startup s' = cx_primary_startup s"
  using assms
  by (auto simp: qmp_new_def qmp_handshake_coroutine_def qmp_event_coroutine_def qmp_set_lock_def
      qmp_set_chan_def bind_eq_Some_conv Let_def add_source_eq split: option.splits if_splits)

lemma cpg_new_rest:
  fixes s :: "'z MainCoroutine_scheme"
  assumes "cpg_new G b s = (Inr u, s')"
  shows "qmp_yank_instances s' = qmp_yank_instances s \<and> cx_primary_startup s' = cx_primary_startup s"
  using assms by (auto simp: cpg_new_def add_source_eq Let_def split: if_splits)

lemma yellow_new_rest:
  fixes s :: "'z MainCoroutine_scheme"
  assumes "yellow_coroutine_new G f n r monitor t1 t2 s = Some (True, s')"
  shows "cx_commands s' = cx_commands s \<and> qmp_yank_instances s' = qmp_yank_instances s \<and>
    cx_primary_startup s' = cx_primary_startup s"
  using assms
  by (auto simp: yellow_coroutine_new_def Let_def bind_eq_Some_conv split: if_splits)

lemma main_new_types:
  assumes "colod_main_new G n r monitor ctx = Some (True, s)"
  shows "ctx_ok s = ctx_ok ctx"
  using main_new_update [OF assms] by (auto simp: ctx_ok_def dest: yellow_new_rest)

lemma main_new_role:
  assumes "colod_main_new G n r monitor ctx = Some (True, s)"
  shows "cx_primary_startup s = cx_primary_startup ctx"
  using main_new_update [OF assms] by (auto dest: yellow_new_rest)

subsection \<open>The system\<close>

text \<open>
  What happens to the daemon: an input of the main coroutine's system, a dispatch of a client's
  source with what its socket and its QMP calls answer, a connection to the listener, and the
  release of the listener.
\<close>

datatype daemon_input =
    Main_input main_input
  | Client_input guint "io_answer list" "outcome list"
  | Listen_input guint "accept_answer list"
  | Close_listener

text \<open>Inputs of the main coroutine's system that only clients, or the creation, make.\<close>

fun internal :: "main_input \<Rightarrow> bool" where
  "internal (Other_exec_nocheck out) = True"
| "internal (Other_yank out) = True"
| "internal Start_migration = True"
| "internal Autoquit = True"
| "internal Qemu_failed = True"
| "internal (Set_peer peer) = True"
| "internal Clear_peer = True"
| "internal (Set_commands cmds) = True"
| "internal (Set_yank_instances instances) = True"
| "internal Quit_request = True"
| "internal (Start_watchdog interval) = True"
| "internal _ = False"

fun daemon_step ::
    "Event glib \<Rightarrow> json_glib \<Rightarrow> guint \<Rightarrow> daemon_input \<Rightarrow> 'z ClientListener_scheme \<Rightarrow>
     'z ClientListener_scheme abortable" where
  "daemon_step G J myid (Main_input inp) s = (if internal inp then Some s else main_step G J myid inp s)"
| "daemon_step G J myid (Client_input cur io outs) s = client_dispatch G J cur io outs s"
| "daemon_step G J myid (Listen_input cur as) s =
     Some (if attached cur S_listener s then client_listener_new_client G cur as s else s)"
| "daemon_step G J myid Close_listener s = Some (client_listener_free s)"

inductive daemon_reach ::
    "Event glib \<Rightarrow> json_glib \<Rightarrow> guint \<Rightarrow> 'z ClientListener_scheme \<Rightarrow> daemon_input list \<Rightarrow>
     'z ClientListener_scheme \<Rightarrow> bool"
  for G J myid s0 where
  start: "daemon_reach G J myid s0 [] s0"
| step: "daemon_reach G J myid s0 h s \<Longrightarrow> daemon_step G J myid inp s = Some s' \<Longrightarrow>
     daemon_reach G J myid s0 (inp # h) s'"

subsection \<open>A concrete daemon with clients\<close>

text \<open>
  The concrete daemon of the witnesses with its other components, and a parser that knows the
  lines of their runs.
\<close>

definition request_line :: "string \<Rightarrow> string" where
  "request_line command = ''{'' @ quoted ''exec-colod'' @ '': '' @ quoted command @ ''}'' @ nl"

definition set_commands_line :: string where
  "set_commands_line = ''{'exec-colod': 'set-migration-start', 'commands': [null]}'' @ nl"

definition daemon_json :: json_glib where
  "daemon_json = \<lparr>json_from_string = map_of
     ([(''[]'', JArray []), (reply_text ''{}'', JObject [(''return'', JObject [])]),
       (error_reply_text ''Unknown command'', JObject [(''error'', JString ''Unknown command'')]),
       (set_commands_line,
        JObject [(''exec-colod'', JString ''set-migration-start''), (''commands'', JArray [JNull])]),
       (wait_match Q_run_resume1, JObject [(''event'', JString ''RESUME'')])] @
      map (\<lambda>command. (request_line command, JObject [(''exec-colod'', JString command)]))
        [''stop'', ''cont'', ''quit'', ''autoquit'', ''clear-peer'', ''fence'']),
     json_to_string = (\<lambda>_. ''''), json_node_equal = (=)\<rparr>"

definition daemon_ctx :: "bool \<Rightarrow> ClientListener" where
  "daemon_ctx primary = MainCoroutine.extend (example_ctx primary) (ClientListener.fields False 0 [] None)"

definition daemon_ok :: daemon_answers where
  "daemon_ok = \<lparr>da_channel_error = None, da_yank_error = None, da_cpg_fd = True, da_netlink = True,
     da_netlink_request = True\<rparr>"

definition daemon_start :: "bool \<Rightarrow> ClientListener option" where
  "daemon_start primary =
     (case daemon_mainloop_begin ref_glib daemon_json daemon_ok None 1000 (daemon_ctx primary) of
        Some (Running s) \<Rightarrow> Some s | _ \<Rightarrow> None)"

fun daemon_run :: "daemon_input list \<Rightarrow> ClientListener \<Rightarrow> ClientListener option" where
  "daemon_run [] s = Some s"
| "daemon_run (i # is) s = do { s' \<leftarrow> daemon_step ref_glib daemon_json 1 i s; daemon_run is s' }"

lemma daemon_run_reach:
  "daemon_reach ref_glib daemon_json 1 s0 h s \<Longrightarrow> daemon_run is s = Some s' \<Longrightarrow>
     daemon_reach ref_glib daemon_json 1 s0 (rev is @ h) s'"
proof (induction "is" arbitrary: s h)
  case (Cons i "is")
  then obtain s1 where "daemon_step ref_glib daemon_json 1 i s = Some s1" "daemon_run is s1 = Some s'"
    by (auto simp: bind_eq_Some_conv)
  with Cons.IH daemon_reach.step [OF Cons.prems(1)] show ?case by fastforce
qed simp

lemma daemon_example:
  assumes "map_option f (Option.bind (daemon_start p) (daemon_run is)) = Some x"
  shows "\<exists>s0 s. daemon_mainloop_begin ref_glib daemon_json daemon_ok None 1000 (daemon_ctx p) = Some (Running s0) \<and>
    daemon_reach ref_glib daemon_json 1 s0 (rev is) s \<and> f s = x"
proof -
  obtain s0 s where s: "daemon_start p = Some s0" "daemon_run is s0 = Some s" "f s = x"
    using assms by (auto simp: bind_eq_Some_conv)
  from s(1) have "daemon_mainloop_begin ref_glib daemon_json daemon_ok None 1000 (daemon_ctx p) = Some (Running s0)"
    by (auto simp: daemon_start_def split: option.splits daemon_result.splits)
  with s(3) daemon_run_reach [OF daemon_reach.start s(2)] show ?thesis by auto
qed

text \<open>A client connects, and its second dispatch brings the request and takes the reply.\<close>

definition client_says :: "string \<Rightarrow> string \<Rightarrow> outcome list \<Rightarrow> daemon_input" where
  "client_says line reply outs = Client_input 7
     [Read_line Io_normal line, Write_chars Io_normal (length reply), Flush Io_normal,
      Read_line Io_again []] outs"

definition autoquit_example :: "daemon_input list" where
  "autoquit_example = [Main_input (Dispatch 7 []), Listen_input 8 [Accepted None, Would_block],
     client_says (request_line ''autoquit'') (reply_text ''{}'') []]"

definition commands_example :: "daemon_input list" where
  "commands_example = [Main_input (Dispatch 7 []), Listen_input 8 [Accepted None, Would_block],
     client_says set_commands_line (reply_text ''{}'') []]"

text \<open>The peer leaves, and the announcement of this secondary comes back to it.\<close>

definition takeover_example :: "daemon_input list" where
  "takeover_example = map Main_input [Dispatch 7 [Exec (Exec_ok False \<lparr>qr_json_root = JObject [], qr_line = []\<rparr>)],
     Qmp_event (JObject [(''event'', JString ''RESUME'')]), Dispatch 7 [], Cpg_left 1, Dispatch 7 [],
     Cpg_message 1 (htonl_bytes MESSAGE_FAILOVER), Dispatch 7 []]"

subsection \<open>Refinement of the main coroutine's system\<close>

text \<open>The inputs of a run that are not a client's.\<close>

fun outside :: "daemon_input \<Rightarrow> main_input list" where
  "outside (Main_input inp) = (if by_client inp \<or> internal inp then [] else [inp])"
| "outside _ = []"

definition outer_inputs :: "daemon_input list \<Rightarrow> main_input list" where
  "outer_inputs h = concat (map outside h)"

definition main_outer :: "main_input list \<Rightarrow> main_input list" where
  "main_outer h = filter (\<lambda>inp. \<not> by_client inp \<and> \<not> internal inp) h"

lemma main_outer_simps [simp]:
  "main_outer [] = []" "main_outer (h @ h') = main_outer h @ main_outer h'"
  "list_all by_client h \<Longrightarrow> main_outer h = []"
  by (auto simp: main_outer_def list_all_iff)

lemma reach_moves:
  assumes "main_reach G J myid m0 h s" and "client_moves G J myid s s'"
  shows "\<exists>h'. main_reach G J myid m0 h' s' \<and> main_outer h' = main_outer h"
proof -
  from assms(2) obtain h1 where "client_path G J myid s h1 s'" by (auto simp: client_moves_def)
  from client_path_reach [OF this assms(1)] show ?thesis by (intro exI [of _ "h1 @ h"]) simp
qed

lemma reach_guest:
  assumes "main_reach G J myid m0 h s" and "guest_move s s'"
  shows "\<exists>h'. main_reach G J myid m0 h' s' \<and> main_outer h' = main_outer h"
  using main_reach.guest [OF assms] by blast

lemma daemon_step_reach:
  assumes "main_reach G J myid m0 h s" and "daemon_step G J myid inp s = Some s'"
  shows "\<exists>h'. main_reach G J myid m0 h' s' \<and> main_outer h' = outside inp @ main_outer h"
proof (cases inp)
  case (Main_input i)
  show ?thesis
  proof (cases "internal i")
    case True
    with assms Main_input show ?thesis by auto
  next
    case False
    with assms Main_input have "main_reach G J myid m0 (i # h) s'" by (auto intro: main_reach.step)
    with False Main_input show ?thesis by (intro exI [of _ "i # h"]) (auto simp: main_outer_def)
  qed
next
  case (Client_input cur io outs)
  with assms(2) have "client_dispatch G J cur io outs s = Some s'" by simp
  from dispatch_moves [OF this] show ?thesis
  proof (elim disjE exE conjE)
    assume "s' = s"
    with assms(1) Client_input show ?thesis by auto
  next
    fix i c r c1 s1
    assume co: "client_co G J i cur io outs c s = Some (r, c1, s1)" and g: "guest_move s1 s'"
    from reach_moves [OF assms(1) moves_client_co [OF co]] obtain h1
      where "main_reach G J myid m0 h1 s1" "main_outer h1 = main_outer h" by blast
    with reach_guest [OF _ g] Client_input show ?thesis by fastforce
  qed
next
  case (Listen_input cur as)
  with assms(2) have "s' = s \<or> guest_move s s'" by (auto simp: new_client_guest(1))
  with Listen_input assms(1) reach_guest [OF assms(1)] show ?thesis by auto
next
  case Close_listener
  with assms(2) have "guest_move s s'" by (auto intro: listener_guest(2))
  with Close_listener reach_guest [OF assms(1)] show ?thesis by simp
qed

lemma daemon_started:
  assumes "daemon_mainloop_begin G J a monitor interval ctx = Some (Running s0)"
  obtains ctx' m0 h where "colod_main_new G (da_netlink a) (da_netlink_request a) monitor ctx' = Some (True, m0)"
    and "main_reach G J myid m0 h s0" and "main_outer h = []" and "cx_primary_startup m0 = cx_primary_startup ctx"
proof -
  from daemon_begin_parts [OF assms] obtain s1 s2 commands m0
    where qmp: "qmp_new G (da_channel_error a) (da_yank_error a) (cx_qmp_timeout_low ctx) ctx = Some (Inr (), s1)"
    and cpg: "cpg_new G (da_cpg_fd a) s1 = (Inr (), s2)"
    and main: "colod_main_new G (da_netlink a) (da_netlink_request a) monitor (s2\<lparr>cx_commands := commands\<rparr>) =
      Some (True, m0)"
    and wd: "colod_watchdog_new G interval (client_listener_new G m0) = Some s0"
    by blast
  have role: "cx_primary_startup m0 = cx_primary_startup ctx"
    using main_new_role [OF main] cpg_new_rest [OF cpg] qmp_new_rest [OF qmp] by simp
  obtain h where h: "main_reach G J myid m0 h (client_listener_new G m0)" "main_outer h = []"
    using reach_guest [OF main_reach.start listener_guest(1), of G J myid m0 G] by auto
  have "main_step G J myid (Start_watchdog interval) (client_listener_new G m0) = Some s0"
    using wd by (simp add: main_step_def)
  from main_reach.step [OF h(1) this] have "main_reach G J myid m0 (Start_watchdog interval # h) s0" .
  with main h(2) role that show thesis by (simp add: main_outer_def)
qed

lemma own_failover_outer:
  "own_failover myid inp \<Longrightarrow> \<not> by_client inp \<and> \<not> internal inp"
  by (cases inp) (auto simp: own_failover_def)

lemma outer_inputs_set: "inp \<in> set (outer_inputs h) \<Longrightarrow> Main_input inp \<in> set h"
proof -
  have "inp \<in> set (outside i) \<Longrightarrow> i = Main_input inp" for i by (cases i) (auto split: if_splits)
  then show "inp \<in> set (outer_inputs h) \<Longrightarrow> Main_input inp \<in> set h" by (auto simp: outer_inputs_def)
qed

text \<open>The reachable states of the daemon, as states of the main coroutine's system.\<close>

lemma daemon_reached:
  assumes "daemon_mainloop_begin G J a monitor interval ctx = Some (Running s0)"
    and "daemon_reach G J myid s0 h s"
  shows "\<exists>ctx' m0 h'. colod_main_new G (da_netlink a) (da_netlink_request a) monitor ctx' = Some (True, m0) \<and>
    main_reach G J myid m0 h' s \<and> main_outer h' = outer_inputs h \<and> cx_primary_startup m0 = cx_primary_startup ctx"
proof -
  obtain ctx' m0 h0 where m0: "colod_main_new G (da_netlink a) (da_netlink_request a) monitor ctx' = Some (True, m0)"
    "main_reach G J myid m0 h0 s0" "main_outer h0 = []" "cx_primary_startup m0 = cx_primary_startup ctx"
    using daemon_started [OF assms(1)] .
  from assms(2) have "\<exists>h'. main_reach G J myid m0 h' s \<and> main_outer h' = outer_inputs h"
  proof (induction rule: daemon_reach.induct)
    case start
    with m0 show ?case by (auto simp: outer_inputs_def)
  next
    case (step h s inp s')
    then obtain h1 where h1: "main_reach G J myid m0 h1 s" "main_outer h1 = outer_inputs h" by blast
    from daemon_step_reach [OF h1(1) step.hyps(2)] h1(2) show ?case by (simp add: outer_inputs_def)
  qed
  with m0(1,4) show ?thesis by blast
qed

text \<open>
  C7. The daemon with its clients refines the system of the main coroutine: whatever the clients
  request, in any interleaving, every state it reaches from its start is reached by that system
  from the creation of the main coroutine, with the same inputs from QEMU, corosync, the link and
  the timers in the same order; so what holds of all reachable states of that system holds of
  the daemon.
\<close>

theorem daemon_refines_main:
  assumes "daemon_mainloop_begin G J a monitor interval ctx = Some (Running s0)"
    and "daemon_reach G J myid s0 h s"
  shows "\<exists>ctx' m0 h'. colod_main_new G (da_netlink a) (da_netlink_request a) monitor ctx' = Some (True, m0) \<and>
    main_reach G J myid m0 h' s \<and> main_outer h' = outer_inputs h"
  using daemon_reached [OF assms] by blast

lemma daemon_refines_main_witness:
  "\<exists>s0 s. daemon_mainloop_begin ref_glib daemon_json daemon_ok None 1000 (daemon_ctx True) = Some (Running s0) \<and>
    daemon_reach ref_glib daemon_json 1 s0 (rev autoquit_example) s \<and> mc_trace s = [Queued EVENT_AUTOQUIT] \<and>
    (\<exists>ctx' m0 h'. colod_main_new ref_glib True True None ctx' = Some (True, m0) \<and>
      main_reach ref_glib daemon_json 1 m0 h' s \<and> main_outer h' = [Dispatch 7 []])"
proof -
  have "map_option mc_trace (Option.bind (daemon_start True) (daemon_run autoquit_example)) =
      Some [Queued EVENT_AUTOQUIT]"
    by code_simp
  from daemon_example [OF this] obtain s0 s where
    1: "daemon_mainloop_begin ref_glib daemon_json daemon_ok None 1000 (daemon_ctx True) = Some (Running s0)"
      "daemon_reach ref_glib daemon_json 1 s0 (rev autoquit_example) s" "mc_trace s = [Queued EVENT_AUTOQUIT]"
    by blast
  moreover have "outer_inputs (rev autoquit_example) = [Dispatch 7 []]"
    by (simp add: outer_inputs_def autoquit_example_def client_says_def)
  ultimately show ?thesis using daemon_refines_main [OF 1(1,2)] by (auto simp: daemon_ok_def)
qed

text \<open>
  C1. Whatever the clients request, and whatever else happens: a daemon that is in FAILOVER, or
  that is primary without having been started as primary, has received its own FAILOVER message
  from the process group. No client can make a node take over.
\<close>

theorem daemon_failover_needs_own_message:
  assumes "daemon_mainloop_begin G J a monitor interval ctx = Some (Running s0)"
    and "daemon_reach G J myid s0 h s" and "sequence_lawful G"
    and "mc_state s = STATE_FAILOVER \<or> mc_primary s \<and> \<not> cx_primary_startup ctx"
  shows "\<exists>inp. Main_input inp \<in> set h \<and> own_failover myid inp"
proof -
  from daemon_reached [OF assms(1,2)] obtain ctx' m0 h'
    where m0: "colod_main_new G (da_netlink a) (da_netlink_request a) monitor ctx' = Some (True, m0)"
      "main_reach G J myid m0 h' s" "main_outer h' = outer_inputs h" "cx_primary_startup m0 = cx_primary_startup ctx"
    by blast
  from takeover_needs_own_message [OF m0(1,2) assms(3)] m0(4) assms(4)
  obtain inp where "inp \<in> set h'" "own_failover myid inp" by auto
  moreover from this have "inp \<in> set (main_outer h')" by (auto simp: main_outer_def own_failover_outer)
  ultimately show ?thesis using m0(3) outer_inputs_set by fastforce
qed

lemma daemon_failover_needs_own_message_witness:
  "\<exists>s0 s. daemon_mainloop_begin ref_glib daemon_json daemon_ok None 1000 (daemon_ctx False) = Some (Running s0) \<and>
    daemon_reach ref_glib daemon_json 1 s0 (rev takeover_example) s \<and> mc_state s = STATE_FAILOVER \<and>
    (\<exists>inp. Main_input inp \<in> set (rev takeover_example) \<and> own_failover 1 inp)"
proof -
  have "map_option mc_state (Option.bind (daemon_start False) (daemon_run takeover_example)) = Some STATE_FAILOVER"
    by code_simp
  from daemon_example [OF this] obtain s0 s where
    1: "daemon_mainloop_begin ref_glib daemon_json daemon_ok None 1000 (daemon_ctx False) = Some (Running s0)"
      "daemon_reach ref_glib daemon_json 1 s0 (rev takeover_example) s" "mc_state s = STATE_FAILOVER"
    by blast
  with daemon_failover_needs_own_message [OF 1(1,2) ref_sequence_lawful] show ?thesis by blast
qed

subsection \<open>Types\<close>

lemma qmp_commands_new_ok:
  assumes "qmp_commands_new J = Some c" and "json_from_string J ''[]'' = Some (JArray [])"
  shows "commands_ok c"
  using assms by (auto simp: qmp_commands_new_def commands_ok_def c_nonnull_def bind_eq_Some_conv)

lemma daemon_begin_types:
  assumes "daemon_mainloop_begin G J a monitor interval ctx = Some (Running s0)"
    and "json_from_string J ''[]'' = Some (JArray [])"
  shows "ctx_ok s0"
proof -
  from daemon_begin_parts [OF assms(1)] obtain s1 s2 commands s3
    where qmp: "qmp_new G (da_channel_error a) (da_yank_error a) (cx_qmp_timeout_low ctx) ctx = Some (Inr (), s1)"
    and cpg: "cpg_new G (da_cpg_fd a) s1 = (Inr (), s2)"
    and commands: "qmp_commands_new J = Some commands"
    and main: "colod_main_new G (da_netlink a) (da_netlink_request a) monitor (s2\<lparr>cx_commands := commands\<rparr>) =
      Some (True, s3)"
    and wd: "colod_watchdog_new G interval (client_listener_new G s3) = Some s0"
    by blast
  have "qmp_yank_instances s2 = None"
    using cpg_new_rest [OF cpg] qmp_new_rest [OF qmp] by simp
  with qmp_commands_new_ok [OF commands assms(2)] have "ctx_ok (s2\<lparr>cx_commands := commands\<rparr>)"
    by (simp add: ctx_ok_def)
  with main_new_types [OF main] have "ctx_ok s3" by simp
  then have s4: "ctx_ok (client_listener_new G s3)" by (simp add: guest_types [OF listener_guest(1)])
  have "main_step G J 0 (Start_watchdog interval) (client_listener_new G s3) = Some s0"
    using wd by (simp add: main_step_def)
  from rest_types [OF main_step_rest [OF this]] s4 show ?thesis by simp
qed

text \<open>
  C32. Types of what the coroutines read: as long as the daemon runs, each of the four command
  lists is a JSON array, and so is the list that selects what is yanked once it is set, whatever
  the clients send; so \<open>colod_execute_array_co\<close> and \<open>pick_yank_instances\<close> never see anything else.
\<close>

theorem daemon_keeps_types:
  assumes "daemon_mainloop_begin G J a monitor interval ctx = Some (Running s0)"
    and "json_from_string J ''[]'' = Some (JArray [])"
    and "daemon_reach G J myid s0 h s"
  shows "commands_ok (cx_commands s) \<and>
    (case qmp_yank_instances s of None \<Rightarrow> True | Some instances \<Rightarrow> holds_array instances)"
proof -
  from assms(3) have "ctx_ok s"
  proof (induction rule: daemon_reach.induct)
    case start
    show ?case by (rule daemon_begin_types [OF assms(1,2)])
  next
    case (step h s inp s')
    show ?case
    proof (cases inp)
      case (Main_input i)
      have "sets_context i \<Longrightarrow> internal i" by (cases i) auto
      with step Main_input show ?thesis by (auto dest: main_step_rest rest_types split: if_splits)
    next
      case (Client_input cur io outs)
      with step.hyps(2) have "client_dispatch G J cur io outs s = Some s'" by simp
      from dispatch_moves [OF this] show ?thesis
        using step.IH moves_types [OF moves_client_co] guest_types by metis
    next
      case (Listen_input cur as)
      with step show ?thesis by (auto simp: guest_types [OF new_client_guest(1)])
    next
      case Close_listener
      with step show ?thesis by (auto simp: guest_types [OF listener_guest(2)])
    qed
  qed
  then show ?thesis by (simp add: ctx_ok_def)
qed

lemma daemon_keeps_types_witness:
  "\<exists>s0 s. daemon_mainloop_begin ref_glib daemon_json daemon_ok None 1000 (daemon_ctx True) = Some (Running s0) \<and>
    daemon_reach ref_glib daemon_json 1 s0 (rev commands_example) s \<and>
    migration_start (cx_commands s) = JArray [JNull] \<and> commands_ok (cx_commands s)"
proof -
  have "map_option (\<lambda>s. migration_start (cx_commands s))
      (Option.bind (daemon_start True) (daemon_run commands_example)) = Some (JArray [JNull])"
    by code_simp
  from daemon_example [OF this] obtain s0 s where
    1: "daemon_mainloop_begin ref_glib daemon_json daemon_ok None 1000 (daemon_ctx True) = Some (Running s0)"
      "daemon_reach ref_glib daemon_json 1 s0 (rev commands_example) s"
      "migration_start (cx_commands s) = JArray [JNull]"
    by blast
  moreover have "json_from_string daemon_json ''[]'' = Some (JArray [])" by (simp add: daemon_json_def)
  from daemon_keeps_types [OF 1(1) this 1(2)] have "commands_ok (cx_commands s)" by blast
  ultimately show ?thesis by blast
qed

end
