(* ===== verification/Client_Talk.thy ===== *)
theory Client_Talk
  imports Daemon
begin

text \<open>
  What a client sees: the requests it sends are answered one by one, each with one reply, and
  QEMU does not stay stopped when a client that stopped it goes away.
\<close>

subsection \<open>Requests and replies\<close>

text \<open>
  \<open>talk c qs now out\<close>: the client has had the finished exchanges \<open>qs\<close>, whose replies its
  socket took whole, and of the current one traced \<open>now\<close> and written \<open>out\<close>.
\<close>

definition exchanges :: "(string \<times> string) list \<Rightarrow> client_trace list" where
  "exchanges qs = concat (map (\<lambda>(q, r). [Request q, Reply r]) qs)"

definition talk :: "ColodClient \<Rightarrow> (string \<times> string) list \<Rightarrow> client_trace list \<Rightarrow> string \<Rightarrow> bool" where
  "talk c qs now out \<longleftrightarrow> cl_trace c = exchanges qs @ now \<and> cl_out c = concat (map snd qs) @ out"

definition talk_idle :: "ColodClient \<Rightarrow> bool" where
  "talk_idle c \<longleftrightarrow> (\<exists>qs. talk c qs [] [])"

definition talk_asked :: "ColodClient \<Rightarrow> bool" where
  "talk_asked c \<longleftrightarrow> (\<exists>qs q. talk c qs [Request q] [])"

definition talk_writing :: "string \<Rightarrow> (write_pc, unit fallible) co \<Rightarrow> ColodClient \<Rightarrow> bool" where
  "talk_writing line r c \<longleftrightarrow> (\<exists>qs q out. talk c qs [Request q, Reply line] out \<and> write_post line 0 r out)"

definition talk_ended :: "ColodClient \<Rightarrow> bool" where
  "talk_ended c \<longleftrightarrow> talk_idle c \<or> (\<exists>qs q line n. talk c qs [Request q, Reply line] (take n line))"

lemma talk_update [simp]:
  "talk (c\<lparr>cl_pc := pc\<rparr>) qs now out = talk c qs now out"
  "talk (c\<lparr>cl_busy := b\<rparr>) qs now out = talk c qs now out"
  "talk (c\<lparr>cl_quit := b\<rparr>) qs now out = talk c qs now out"
  "talk (c\<lparr>cl_shutdown := b\<rparr>) qs now out = talk c qs now out"
  "talk (c\<lparr>cl_stopped_qemu := b\<rparr>) qs now out = talk c qs now out"
  "talk (c\<lparr>cl_calls := cs\<rparr>) qs now out = talk c qs now out"
  by (simp_all add: talk_def)

lemma talk_asks: "talk c qs [] [] \<Longrightarrow> talk (c\<lparr>cl_trace := cl_trace c @ [Request q]\<rparr>) qs [Request q] []"
  by (simp add: talk_def)

lemma talk_replies:
  "talk c qs [Request q] [] \<Longrightarrow>
     talk (c\<lparr>cl_trace := cl_trace c @ [Reply line], cl_out := cl_out c @ out\<rparr>) qs [Request q, Reply line] out"
  by (simp add: talk_def)

lemma talk_writes: "talk c qs now out \<Longrightarrow> talk (c\<lparr>cl_out := cl_out c @ out'\<rparr>) qs now (out @ out')"
  by (simp add: talk_def)

lemma talk_answered: "talk c qs [Request q, Reply line] line \<Longrightarrow> talk c (qs @ [(q, line)]) [] []"
  by (simp add: talk_def exchanges_def)

lemma talk_written: "talk_writing line (Done (Inr u)) c \<Longrightarrow> talk_idle c"
  by (auto simp: talk_writing_def talk_idle_def dest: talk_answered)

lemma talk_failed: "talk_writing line (Done (Inl e)) c \<Longrightarrow> talk_ended c"
  by (auto simp: talk_writing_def talk_ended_def)

lemma talk_writing_update [simp]:
  "talk_writing line r (c\<lparr>cl_pc := pc\<rparr>) = talk_writing line r c"
  by (simp add: talk_writing_def)

subsection \<open>The invariant of a client\<close>

text \<open>What \<open>stop\<close> and \<open>cont\<close> have done, by the calls that succeeded.\<close>

fun stopped_step :: "bool \<Rightarrow> client_call \<times> bool \<Rightarrow> bool" where
  "stopped_step b (L_stop, True) = True"
| "stopped_step b (L_cont, True) = False"
| "stopped_step b _ = b"

definition stopped_after :: "(client_call \<times> bool) list \<Rightarrow> bool" where
  "stopped_after calls = foldl stopped_step False calls"

lemma stopped_after_snoc [simp]: "stopped_after (calls @ [x]) = stopped_step (stopped_after calls) x"
  by (simp add: stopped_after_def)

definition stopped_ok :: "ColodClient \<Rightarrow> bool" where
  "stopped_ok c \<longleftrightarrow> cl_stopped_qemu c = stopped_after (cl_calls c)"

definition client_ok :: "ColodClient \<Rightarrow> bool" where
  "client_ok c \<longleftrightarrow> stopped_ok c \<and> (case cl_pc c of
     C_start \<Rightarrow> talk_idle c \<and> \<not> cl_busy c
   | C_read pc \<Rightarrow> talk_idle c \<and> \<not> cl_busy c
   | C_call call src \<Rightarrow> if call = L_cleanup then talk_ended c else talk_asked c \<and> cl_busy c
   | C_write line pc \<Rightarrow> talk_writing line (Yielding pc) c \<and> cl_busy c)"

fun client_todo_ok :: "client_todo \<Rightarrow> ColodClient \<Rightarrow> bool" where
  "client_todo_ok K_loop c = talk_idle c"
| "client_todo_ok (K_read ret) c = (talk_idle c \<and> \<not> cl_busy c)"
| "client_todo_ok (K_call call) c = (talk_asked c \<and> cl_busy c \<and> call \<noteq> L_cleanup)"
| "client_todo_ok (K_reply result) c = (talk_asked c \<and> cl_busy c)"
| "client_todo_ok (K_wrote (Inr u)) c = (talk_idle c)"
| "client_todo_ok (K_wrote (Inl e)) c = talk_ended c"
| "client_todo_ok (K_broken e) c = talk_ended c"
| "client_todo_ok K_return c = talk_ended c"

fun client_progress_ok :: "'s client_progress \<Rightarrow> bool" where
  "client_progress_ok (C_go io outs t c s) = (client_todo_ok t c \<and> stopped_ok c)"
| "client_progress_ok (C_suspended c s) = client_ok c"
| "client_progress_ok (C_returned c s) = (talk_ended c \<and> stopped_ok c)"

lemma talk_idle_ended: "talk_idle c \<Longrightarrow> talk_ended c"
  by (simp add: talk_ended_def)

lemma stopped_ok_update [simp]:
  "stopped_ok (c\<lparr>cl_pc := pc\<rparr>) = stopped_ok c" "stopped_ok (c\<lparr>cl_busy := b\<rparr>) = stopped_ok c"
  "stopped_ok (c\<lparr>cl_trace := tr\<rparr>) = stopped_ok c" "stopped_ok (c\<lparr>cl_out := out\<rparr>) = stopped_ok c"
  "stopped_ok (c\<lparr>cl_quit := b\<rparr>) = stopped_ok c" "stopped_ok (c\<lparr>cl_shutdown := b\<rparr>) = stopped_ok c"
  by (simp_all add: stopped_ok_def)

lemma talk_forms_update [simp]:
  "talk_idle (c\<lparr>cl_pc := pc\<rparr>) = talk_idle c" "talk_idle (c\<lparr>cl_busy := b\<rparr>) = talk_idle c"
  "talk_idle (c\<lparr>cl_stopped_qemu := b\<rparr>) = talk_idle c" "talk_idle (c\<lparr>cl_calls := cs\<rparr>) = talk_idle c"
  "talk_asked (c\<lparr>cl_pc := pc\<rparr>) = talk_asked c" "talk_asked (c\<lparr>cl_busy := b\<rparr>) = talk_asked c"
  "talk_asked (c\<lparr>cl_stopped_qemu := b\<rparr>) = talk_asked c" "talk_asked (c\<lparr>cl_calls := cs\<rparr>) = talk_asked c"
  "talk_ended (c\<lparr>cl_pc := pc\<rparr>) = talk_ended c" "talk_ended (c\<lparr>cl_busy := b\<rparr>) = talk_ended c"
  "talk_ended (c\<lparr>cl_stopped_qemu := b\<rparr>) = talk_ended c" "talk_ended (c\<lparr>cl_calls := cs\<rparr>) = talk_ended c"
  by (simp_all add: talk_idle_def talk_asked_def talk_ended_def)

text \<open>What follows a request and a call.\<close>

fun request_todo :: "client_todo \<Rightarrow> bool" where
  "request_todo (K_call call) = (call \<noteq> L_cleanup)"
| "request_todo (K_reply result) = True"
| "request_todo t = False"

lemma request_todo_ok: "request_todo t \<Longrightarrow> talk_asked c \<Longrightarrow> cl_busy c \<Longrightarrow> client_todo_ok t c"
  by (cases t) auto

lemma request_todo_command:
  assumes "client_command G J command request s = Some (t, s')"
  shows "request_todo t"
proof -
  have "\<forall>t s'. client_command G J command request s = Some (t, s') \<longrightarrow> request_todo t"
    unfolding client_command_def
    by (intro if_both [where Q = "\<lambda>x. \<forall>t s'. x = Some (t, s') \<longrightarrow> request_todo t"])
      (auto simp: handled_reply_Some)
  with assms show ?thesis by blast
qed

lemma request_todo_request: "client_request G J request s = Some (t, s') \<Longrightarrow> request_todo t"
  by (auto simp: client_request_def bind_eq_Some_conv handled_reply_Some dest: request_todo_command
      split: if_splits option.splits)

lemma read_progress:
  assumes "client_read G J ret c s = Some (t, c', s')" and "talk_idle c" and "\<not> cl_busy c" and "stopped_ok c"
  shows "client_todo_ok t c' \<and> stopped_ok c'"
proof -
  have "talk_asked (c\<lparr>cl_busy := True, cl_trace := cl_trace c @ [Request q]\<rparr>)" for q
    using assms(2) talk_asks [of "c\<lparr>cl_busy := True\<rparr>"] by (auto simp: talk_idle_def talk_asked_def)
  then have "client_request G J request s = Some (u, s1) \<Longrightarrow>
      client_todo_ok u (c\<lparr>cl_busy := True, cl_trace := cl_trace c @ [Request q]\<rparr>)" for request u s1 q
    by (intro request_todo_ok request_todo_request) simp_all
  with assms show ?thesis
    by (auto simp: client_read_def Let_def bind_eq_Some_conv talk_idle_ended split: if_splits sum.splits)
qed

lemma parts_progress:
  assumes "talk_asked c" and "cl_busy c"
  shows "query_status_done G J ret c s = Some (t, c', s') \<Longrightarrow> client_todo_ok t c' \<and> c' = c"
    and "client_executed J result b c s = Some (t, c', s') \<Longrightarrow>
      client_todo_ok t c' \<and> c' = (if isl result then c else c\<lparr>cl_stopped_qemu := b\<rparr>)"
    and "client_yanked J ret' c s = Some (t, c', s') \<Longrightarrow> client_todo_ok t c' \<and> c' = c"
    and "client_status_executed G J result c s = Some (t, c', s') \<Longrightarrow> client_todo_ok t c' \<and> c' = c"
    and "client_colo_executed G J r result c s = Some (t, c', s') \<Longrightarrow> client_todo_ok t c' \<and> c' = c"
  using assms
  by (auto simp: query_status_done_def client_executed_def client_yanked_def
      client_status_executed_def client_colo_executed_def bind_eq_Some_conv split: sum.splits)

lemma returned_ok:
  "talk_asked (returned call r c) = talk_asked c" "cl_busy (returned call r c) = cl_busy c"
  "stopped_ok (returned call r c) \<longleftrightarrow>
     cl_stopped_qemu c = stopped_step (stopped_after (cl_calls c)) (call, \<not> isl r)"
  "stopped_ok ((returned call r c)\<lparr>cl_stopped_qemu := b\<rparr>) \<longleftrightarrow>
     b = stopped_step (stopped_after (cl_calls c)) (call, \<not> isl r)"
  by (simp_all add: returned_def stopped_ok_def)

lemma call_done_progress:
  assumes "call_done G J call out c s = Some (t, c', s')" and "call \<noteq> L_cleanup"
    and "talk_asked c" and "cl_busy c" and "stopped_ok c"
  shows "client_todo_ok t c' \<and> stopped_ok c'"
proof -
  have *: "talk_asked (returned call r c)" "cl_busy (returned call r c)" for call and r :: "'x fallible"
    using assms(3,4) by (simp_all add: returned_ok)
  have stopped: "cl_stopped_qemu c = stopped_after (cl_calls c)" using assms(5) by (simp add: stopped_ok_def)
  show ?thesis
  proof (cases "(G, J, call, out, c, s)" rule: call_done.cases)
    case (1 G J out c s)
    with assms(1) * stopped show ?thesis
      by (auto simp: bind_eq_Some_conv returned_ok dest!: parts_progress(4) [rotated 2])
  next
    case (2 G J r out c s)
    with assms(1) * stopped show ?thesis
      by (auto simp: bind_eq_Some_conv returned_ok dest!: parts_progress(5) [rotated 2])
  next
    case (3 G J out c s)
    with assms(1) * stopped show ?thesis
      by (auto simp: bind_eq_Some_conv returned_ok dest!: parts_progress(3) [rotated 2])
  next
    case (4 G J out c s)
    then obtain r s1 where "client_executed J r True (returned L_stop r c) s1 = Some (t, c', s')"
      using assms(1) by (auto simp: bind_eq_Some_conv)
    from parts_progress(2) [OF _ _ this] * 4 stopped show ?thesis
      by (cases "isl r") (auto simp: returned_ok)
  next
    case (5 G J out c s)
    then obtain r s1 where "client_executed J r False (returned L_cont r c) s1 = Some (t, c', s')"
      using assms(1) by (auto simp: bind_eq_Some_conv)
    from parts_progress(2) [OF _ _ this] * 5 stopped show ?thesis
      by (cases "isl r") (auto simp: returned_ok)
  next
    case (6 G J line out c s)
    then obtain r s1 where
      "client_executed J r (cl_stopped_qemu c) (returned (L_raw line) r c) s1 = Some (t, c', s')"
      using assms(1) by (auto simp: bind_eq_Some_conv)
    from parts_progress(2) [OF _ _ this] * 6 stopped show ?thesis
      by (cases "isl r") (auto simp: returned_ok)
  qed (use assms(1,2) in auto)
qed

text \<open>The channel operations.\<close>

lemma got_progress:
  assumes "talk_idle c" and "\<not> cl_busy c" and "stopped_ok c"
  shows "client_progress_ok (client_got outs c x)"
  using assms by (auto simp: client_got_def client_ok_def split: prod.splits co.splits)

lemma wrote_progress:
  assumes "talk_writing line r (c\<lparr>cl_out := cl_out c @ out\<rparr>)" and "cl_busy c" and "stopped_ok c"
  shows "client_progress_ok (client_wrote outs line c (r, out, io, s))"
proof (cases r)
  case (Yielding pc)
  with assms show ?thesis by (simp add: client_wrote_def client_ok_def Let_def)
next
  case (Done ret)
  with assms show ?thesis
    by (cases ret) (auto simp: client_wrote_def Let_def dest: talk_written talk_failed)
qed

lemma write_begin_post: "write_begin G co timeout buf io s = (r, out, io', s') \<Longrightarrow> write_post buf 0 r out"
  by (auto simp: write_begin_def dest: write_loop_post split: prod.splits)

lemma reply_progress:
  assumes "talk_asked c" and "cl_busy c" and "stopped_ok c"
  shows "client_progress_ok (client_wrote outs line (c\<lparr>cl_trace := cl_trace c @ [Reply line]\<rparr>)
    (write_begin G co timeout line io s))"
proof -
  obtain r out io' s' where w: "write_begin G co timeout line io s = (r, out, io', s')" by (rule prod_cases4)
  from assms(1) obtain qs q where "talk c qs [Request q] []" by (auto simp: talk_asked_def)
  with write_begin_post [OF w]
  have "talk_writing line r (c\<lparr>cl_trace := cl_trace c @ [Reply line], cl_out := cl_out c @ out\<rparr>)"
    unfolding talk_writing_def by (blast intro: talk_replies)
  then show ?thesis unfolding w using assms(2,3) by (intro wrote_progress) simp_all
qed

lemma write_progress:
  assumes "talk_writing line (Yielding pc) c" and "cl_busy c" and "stopped_ok c"
  shows "client_progress_ok (client_wrote outs line c (write_resume G co timeout line pc cur io s))"
proof -
  obtain r out' io' s' where w: "write_resume G co timeout line pc cur io s = (r, out', io', s')"
    by (rule prod_cases4)
  from assms(1) obtain qs q out where out: "talk c qs [Request q, Reply line] out"
    "write_post line 0 (Yielding pc) out" by (auto simp: talk_writing_def)
  from write_post_seq [OF out(2) write_resume_post [OF w]] talk_writes [OF out(1)]
  have "talk_writing line r (c\<lparr>cl_out := cl_out c @ out'\<rparr>)" unfolding talk_writing_def by blast
  then show ?thesis unfolding w using assms(2,3) by (intro wrote_progress) simp_all
qed

lemma suspend_progress:
  assumes "call \<noteq> L_cleanup \<Longrightarrow> talk_asked c \<and> cl_busy c" and "call = L_cleanup \<Longrightarrow> talk_ended c"
    and "stopped_ok c"
  shows "client_progress_ok (client_suspend G i call c s)"
  using assms by (auto simp: client_suspend_def client_ok_def add_source_eq Let_def)

lemma cleanup_progress:
  assumes "client_cleanup G result (returned L_cleanup r c) s = Some (t, c', s')" and "talk_ended c" and "stopped_ok c"
  shows "client_todo_ok t c' \<and> stopped_ok c'"
  using assms by (auto simp: client_cleanup_def bind_eq_Some_conv returned_def stopped_ok_def split: sum.splits)

lemma micro_progress:
  assumes "client_micro G J i io outs t c s = Some p" and "client_todo_ok t c" and "stopped_ok c"
  shows "client_progress_ok p"
proof (cases t)
  case K_loop
  with assms show ?thesis
    by (auto simp: client_micro_def talk_idle_ended intro!: got_progress split: if_splits)
next
  case (K_read ret)
  with assms read_progress show ?thesis
    by (fastforce simp: client_micro_def client_go_def bind_eq_Some_conv)
next
  case (K_call call)
  with assms call_done_progress show ?thesis
    by (fastforce simp: client_micro_def client_go_def Let_def bind_eq_Some_conv intro!: suspend_progress
        split: list.splits if_splits)
next
  case (K_reply result)
  with assms show ?thesis by (auto simp: client_micro_def Let_def intro!: reply_progress)
next
  case (K_wrote ret)
  with assms show ?thesis by (cases ret) (auto simp: client_micro_def)
next
  case (K_broken e)
  with assms show ?thesis
    by (auto simp: client_micro_def client_go_def client_broken_def Let_def bind_eq_Some_conv
        intro!: suspend_progress dest!: cleanup_progress split: list.splits outcome.splits if_splits)
next
  case K_return
  with assms show ?thesis by (auto simp: client_micro_def)
qed

lemma run_progress:
  "client_run G J i io outs t c s = Some (r, c', s') \<Longrightarrow> client_todo_ok t c \<Longrightarrow> stopped_ok c \<Longrightarrow>
     if r then talk_ended c' \<and> stopped_ok c' else client_ok c'"
proof (induction G J i io outs t c s rule: client_run.induct)
  case (1 G J i io outs t c s)
  obtain p where p: "client_micro G J i io outs t c s = Some p"
    using "1.prems"(1) by (cases "client_micro G J i io outs t c s") (auto simp: client_run.simps)
  note ok = micro_progress [OF p "1.prems"(2,3)]
  show ?case
  proof (cases p)
    case (C_go io' outs' t' c1 s1)
    with p "1.prems"(1) have "client_run G J i io' outs' t' c1 s1 = Some (r, c', s')"
      by (subst (asm) client_run.simps) simp
    with "1.IH" [OF p C_go] ok C_go show ?thesis by simp
  qed (use p "1.prems"(1) ok in \<open>auto simp: client_run.simps [of G J i io outs t c s]\<close>)
qed

lemma resume_progress:
  assumes "client_resume G J i cur io outs c s = Some p" and "client_ok c"
  shows "client_progress_ok p"
proof (cases "cl_pc c")
  case C_start
  with assms show ?thesis by (auto simp: client_resume_def client_ok_def)
next
  case (C_read pc)
  with assms show ?thesis by (auto simp: client_resume_def client_ok_def intro!: got_progress)
next
  case (C_write line pc)
  with assms show ?thesis by (auto simp: client_resume_def client_ok_def intro!: write_progress)
next
  case (C_call call src)
  show ?thesis
  proof (cases "call = L_cleanup")
    case True
    with C_call assms show ?thesis
      by (cases outs; cases "hd outs")
        (auto simp: client_resume_def client_ok_def client_go_def Let_def bind_eq_Some_conv
          intro!: suspend_progress dest!: cleanup_progress split: if_splits)
  next
    case False
    with C_call assms call_done_progress [OF _ False] show ?thesis
      by (fastforce simp: client_resume_def client_ok_def client_go_def Let_def bind_eq_Some_conv
          intro!: suspend_progress split: list.splits if_splits)
  qed
qed

lemma client_co_progress:
  assumes "client_co G J i cur io outs c s = Some (r, c', s')" and "client_ok c"
  shows "if r then talk_ended c' \<and> stopped_ok c' else client_ok c'"
proof -
  obtain p where p: "client_resume G J i cur io outs c s = Some p"
    using assms(1) by (auto simp: client_co_def bind_eq_Some_conv)
  from resume_progress [OF this assms(2)] assms(1) p run_progress show ?thesis
    by (cases p) (fastforce simp: client_co_def)+
qed

lemma client_ok_talk:
  assumes "client_ok c"
  shows "\<exists>qs now out. talk c qs now out \<and> (now = [] \<and> out = [] \<or> (\<exists>q. now = [Request q] \<and> out = []) \<or>
     (\<exists>q line n. now = [Request q, Reply line] \<and> out = take n line)) \<and>
    (\<forall>pc. cl_pc c = C_read pc \<longrightarrow> now = [] \<and> out = [])"
proof -
  have idle: "talk_idle c \<Longrightarrow> ?thesis" by (auto simp: talk_idle_def)
  have asked: "talk_asked c \<Longrightarrow> \<forall>pc. cl_pc c \<noteq> C_read pc \<Longrightarrow> ?thesis" by (fastforce simp: talk_asked_def)
  have ended: "talk_ended c \<Longrightarrow> \<forall>pc. cl_pc c \<noteq> C_read pc \<Longrightarrow> ?thesis"
    using idle by (fastforce simp: talk_ended_def)
  show ?thesis
  proof (cases "cl_pc c")
    case (C_write line pc)
    with assms obtain qs q out where "talk c qs [Request q, Reply line] out" "write_post line 0 (Yielding pc) out"
      by (auto simp: client_ok_def talk_writing_def)
    then obtain n where "talk c qs [Request q, Reply line] (take n line)"
      by (cases pc) (force intro: that [of "length line"])+
    with C_write show ?thesis by fastforce
  qed (use assms idle asked ended in \<open>auto simp: client_ok_def split: if_splits\<close>)
qed

subsection \<open>The clients of the daemon\<close>

definition clients_ok :: "'z ClientListener_scheme \<Rightarrow> bool" where
  "clients_ok s \<longleftrightarrow> (\<forall>c\<in>snd ` set (ls_clients s). client_ok c)"

lemma new_client_ok: "client_ok new_client"
  by (simp add: new_client_def client_ok_def stopped_ok_def stopped_after_def talk_idle_def talk_def
      exchanges_def exI [of _ "[]"])

lemma told_to_quit_ok: "client_ok c \<Longrightarrow> client_ok (client_told_to_quit c)"
  by (simp add: client_told_to_quit_def client_ok_def talk_idle_def talk_asked_def talk_ended_def
      talk_writing_def split: client_pc.splits if_splits)

lemma daemon_begin_clients:
  assumes "daemon_mainloop_begin G J a monitor interval ctx = Some (Running s0)"
  shows "ls_clients s0 = []"
proof -
  from daemon_begin_parts [OF assms] obtain s3 where "colod_watchdog_new G interval (client_listener_new G s3) = Some s0"
    by blast
  then have "main_step G J 0 (Start_watchdog interval) (client_listener_new G s3) = Some s0"
    by (simp add: main_step_def)
  from main_step_clients [OF this] show ?thesis by (simp add: client_listener_new_def add_source_eq Let_def)
qed

lemma dispatch_clients_ok:
  assumes "client_dispatch G J cur io outs s = Some s'" and "clients_ok s"
  shows "clients_ok s'"
  using dispatch_moves [OF assms(1)]
proof (elim disjE exE conjE)
  fix i c r c1 s1
  assume c: "map_of (ls_clients s) i = Some c" and co: "client_co G J i cur io outs c s = Some (r, c1, s1)"
    and cs: "ls_clients s' = (if r then filter (\<lambda>x. fst x \<noteq> i) (ls_clients s) else client_put i c1 (ls_clients s))"
  have "client_ok c" using map_of_SomeD [OF c] assms(2) by (force simp: clients_ok_def)
  from client_co_progress [OF co this] cs assms(2) show ?thesis
    by (cases r) (auto simp: clients_ok_def client_put_def)
qed (use assms(2) in simp)

lemma reach_clients_ok:
  assumes "daemon_mainloop_begin G J a monitor interval ctx = Some (Running s0)"
    and "daemon_reach G J myid s0 h s"
  shows "clients_ok s"
  using assms(2)
proof (induction rule: daemon_reach.induct)
  case start
  show ?case by (simp add: clients_ok_def daemon_begin_clients [OF assms(1)])
next
  case (step h s inp s')
  show ?case
  proof (cases inp)
    case (Main_input i)
    with step have "ls_clients s' = ls_clients s" by (auto dest: main_step_clients split: if_splits)
    with step.IH show ?thesis by (simp add: clients_ok_def)
  next
    case (Client_input cur io outs)
    with step dispatch_clients_ok show ?thesis by auto
  next
    case (Listen_input cur as)
    have "clients_ok (client_listener_new_client G cur as s)"
      unfolding clients_ok_def
    proof
      fix c assume "c \<in> snd ` set (ls_clients (client_listener_new_client G cur as s))"
      with new_client_guest(2) [of G cur as s] have "c = new_client \<or> c \<in> snd ` set (ls_clients s)" by blast
      with step.IH new_client_ok show "client_ok c" by (auto simp: clients_ok_def)
    qed
    with Listen_input step show ?thesis by (auto split: if_splits)
  next
    case Close_listener
    with step.IH step.hyps(2) show ?thesis
      by (fastforce simp: clients_ok_def client_listener_free_def remove_source_def Let_def told_to_quit_ok
          split: if_splits)
  qed
qed

text \<open>
  C8. Every request gets one reply, in order: in every reachable state each client has had a
  sequence of finished exchanges, a request and then its reply, whose replies its socket took
  whole and one after the other, and at most one that is not finished, of which its socket took a
  prefix of the reply. A client that waits for a request has no unfinished exchange.
\<close>

theorem client_one_reply_per_request:
  assumes "daemon_mainloop_begin G J a monitor interval ctx = Some (Running s0)"
    and "daemon_reach G J myid s0 h s" and "map_of (ls_clients s) i = Some c"
  shows "\<exists>qs now out. cl_trace c = exchanges qs @ now \<and> cl_out c = concat (map snd qs) @ out \<and>
    (now = [] \<and> out = [] \<or> (\<exists>q. now = [Request q] \<and> out = []) \<or>
     (\<exists>q line n. now = [Request q, Reply line] \<and> out = take n line)) \<and>
    (\<forall>pc. cl_pc c = C_read pc \<longrightarrow> now = [] \<and> out = [])"
proof -
  have "client_ok c"
    using reach_clients_ok [OF assms(1,2)] map_of_SomeD [OF assms(3)] by (force simp: clients_ok_def)
  from client_ok_talk [OF this] show ?thesis by (auto simp: talk_def)
qed

text \<open>A client gets a reply, and then its request to stop QEMU waits for QEMU.\<close>

definition stop_example :: "daemon_input list" where
  "stop_example = [Listen_input 8 [Accepted None, Would_block], Client_input 10
     [Read_line Io_normal (request_line ''fence''),
      Write_chars Io_normal (length (error_reply_text ''Unknown command'')), Flush Io_normal,
      Read_line Io_normal (request_line ''stop'')] []]"

lemma client_one_reply_per_request_witness:
  "\<exists>s0 s c. daemon_mainloop_begin ref_glib daemon_json daemon_ok None 1000 (daemon_ctx True) = Some (Running s0) \<and>
    daemon_reach ref_glib daemon_json 1 s0 (rev stop_example) s \<and> map_of (ls_clients s) 1 = Some c \<and>
    cl_trace c = [Request (request_line ''fence''), Reply (error_reply_text ''Unknown command''),
      Request (request_line ''stop'')] \<and>
    (\<exists>qs now out. cl_trace c = exchanges qs @ now \<and> cl_out c = concat (map snd qs) @ out)"
proof -
  have "map_option (\<lambda>s. map_option cl_trace (map_of (ls_clients s) 1))
      (Option.bind (daemon_start True) (daemon_run stop_example)) =
    Some (Some [Request (request_line ''fence''), Reply (error_reply_text ''Unknown command''),
      Request (request_line ''stop'')])"
    by code_simp
  from daemon_example [OF this] obtain s0 s where
    1: "daemon_mainloop_begin ref_glib daemon_json daemon_ok None 1000 (daemon_ctx True) = Some (Running s0)"
      "daemon_reach ref_glib daemon_json 1 s0 (rev stop_example) s"
    and 2: "map_option cl_trace (map_of (ls_clients s) 1) =
      Some [Request (request_line ''fence''), Reply (error_reply_text ''Unknown command''),
        Request (request_line ''stop'')]"
    by blast
  from 2 obtain c where c: "map_of (ls_clients s) 1 = Some c"
    "cl_trace c = [Request (request_line ''fence''), Reply (error_reply_text ''Unknown command''),
      Request (request_line ''stop'')]"
    by blast
  with 1 client_one_reply_per_request [OF 1 c(1)] show ?thesis by blast
qed

subsection \<open>A client that stopped QEMU\<close>

text \<open>How the coroutine may end: told to quit, with QEMU running, or after a last \<open>cont\<close>.\<close>

definition left_ok :: "Event glib \<Rightarrow> ColodClient \<Rightarrow> 'z ClientListener_scheme \<Rightarrow> bool" where
  "left_ok G c s \<longleftrightarrow> cl_quit c \<or> \<not> cl_stopped_qemu c \<or>
     (\<exists>calls ok. cl_calls c = calls @ [(L_cleanup, ok)] \<and>
       (\<not> ok \<longrightarrow> (\<exists>s1. colod_qemu_failed G s1 = Some s)))"

lemma parts_not_return [simp]:
  "client_executed J result b c s \<noteq> Some (K_return, c', s')"
  "client_yanked J ret c s \<noteq> Some (K_return, c', s')"
  "client_status_executed G J result c s \<noteq> Some (K_return, c', s')"
  "client_colo_executed G J r result c s \<noteq> Some (K_return, c', s')"
proof -
  have status: "query_status_done G J ret c s \<noteq> Some (K_return, c', s')" for ret
    by (auto simp: query_status_done_def bind_eq_Some_conv)
  show "client_executed J result b c s \<noteq> Some (K_return, c', s')"
    "client_status_executed G J result c s \<noteq> Some (K_return, c', s')"
    "client_colo_executed G J r result c s \<noteq> Some (K_return, c', s')"
    by (cases result; simp add: client_executed_def client_status_executed_def client_colo_executed_def
        bind_eq_Some_conv status)+
  show "client_yanked J ret c s \<noteq> Some (K_return, c', s')"
    by (auto simp: client_yanked_def bind_eq_Some_conv)
qed

lemma cleanup_left:
  assumes "client_cleanup G result (returned L_cleanup result c) s = Some (t, c', s')"
  shows "left_ok G c' s'"
proof (cases result)
  case (Inl e)
  with assms have "colod_qemu_failed G s = Some s'" and "c' = returned L_cleanup result c"
    by (simp_all add: client_cleanup_def bind_eq_Some_conv)
  then show ?thesis unfolding left_ok_def returned_def by fastforce
next
  case (Inr r)
  with assms have "c' = returned L_cleanup result c" by (simp add: client_cleanup_def)
  with Inr show ?thesis unfolding left_ok_def returned_def by fastforce
qed

lemma read_left:
  assumes "client_read G J ret c s = Some (K_return, c', s')"
  shows "left_ok G c' s'"
  using assms by (auto simp: client_read_def left_ok_def Let_def bind_eq_Some_conv
      dest: request_todo_request split: if_splits sum.splits)

lemma call_done_left:
  assumes "call_done G J call out c s = Some (K_return, c', s')"
  shows "left_ok G c' s'"
proof (cases "call = L_cleanup")
  case True
  with assms show ?thesis by (cases out) (auto simp: bind_eq_Some_conv cleanup_left)
next
  case False
  with assms show ?thesis
    by (cases "(G, J, call, out, c, s)" rule: call_done.cases)
      (auto simp: bind_eq_Some_conv)
qed

lemma micro_left:
  assumes "client_micro G J i io outs t c s = Some p" and "t = K_return \<Longrightarrow> left_ok G c s"
  shows "(\<forall>io' outs' c' s'. p = C_go io' outs' K_return c' s' \<longrightarrow> left_ok G c' s') \<and>
    (\<forall>c' s'. p = C_returned c' s' \<longrightarrow> left_ok G c' s')"
  using assms
  by (cases t) (auto simp: client_micro_def client_go_def client_got_def client_wrote_def client_suspend_def
      client_broken_def Let_def bind_eq_Some_conv read_left call_done_left cleanup_left left_ok_def [of G c s]
      split: if_splits sum.splits list.splits outcome.splits prod.splits co.splits)

lemma run_left:
  "client_run G J i io outs t c s = Some (True, c', s') \<Longrightarrow> (t = K_return \<Longrightarrow> left_ok G c s) \<Longrightarrow> left_ok G c' s'"
proof (induction G J i io outs t c s rule: client_run.induct)
  case (1 G J i io outs t c s)
  obtain p where p: "client_micro G J i io outs t c s = Some p"
    using "1.prems"(1) by (cases "client_micro G J i io outs t c s") (auto simp: client_run.simps)
  note left = micro_left [OF p "1.prems"(2)]
  show ?case
  proof (cases p)
    case (C_go io' outs' t' c1 s1)
    with p "1.prems"(1) have "client_run G J i io' outs' t' c1 s1 = Some (True, c', s')"
      by (subst (asm) client_run.simps) simp
    with "1.IH" [OF p C_go] left C_go show ?thesis by simp
  qed (use p "1.prems"(1) left in \<open>auto simp: client_run.simps [of G J i io outs t c s]\<close>)
qed

lemma resume_left:
  assumes "client_resume G J i cur io outs c s = Some p"
  shows "(\<forall>io' outs' c' s'. p = C_go io' outs' K_return c' s' \<longrightarrow> left_ok G c' s') \<and> (\<forall>c' s'. p \<noteq> C_returned c' s')"
  using assms
  by (cases "cl_pc c") (auto simp: client_resume_def client_go_def client_got_def client_wrote_def
      client_suspend_def Let_def bind_eq_Some_conv call_done_left
      split: if_splits list.splits prod.splits co.splits)

lemma client_co_left:
  assumes "client_co G J i cur io outs c s = Some (True, c', s')"
  shows "left_ok G c' s'"
proof -
  obtain p where p: "client_resume G J i cur io outs c s = Some p"
    using assms by (auto simp: client_co_def bind_eq_Some_conv)
  from resume_left [OF p] assms p run_left show ?thesis
    by (cases p) (fastforce simp: client_co_def)+
qed

text \<open>
  C9. QEMU is not left stopped by a client that goes away: when the coroutine of a client ends
  that was not told to quit and whose last successful \<open>stop\<close> was not followed by a successful
  \<open>cont\<close>, then its last call was a \<open>cont\<close> of its own, and when this failed the daemon has been told
  that QEMU failed.
\<close>

theorem client_leaves_qemu_running:
  assumes "daemon_mainloop_begin G J a monitor interval ctx = Some (Running s0)"
    and "daemon_reach G J myid s0 h s" and "map_of (ls_clients s) i = Some c"
    and "client_co G J i cur io outs c s = Some (True, c', s')"
    and "\<not> cl_quit c'" and "stopped_after (cl_calls c')"
  shows "\<exists>calls ok. cl_calls c' = calls @ [(L_cleanup, ok)] \<and>
    (\<not> ok \<longrightarrow> (\<exists>s1. colod_qemu_failed G s1 = Some s'))"
proof -
  have "client_ok c"
    using reach_clients_ok [OF assms(1,2)] map_of_SomeD [OF assms(3)] by (force simp: clients_ok_def)
  from client_co_progress [OF assms(4) this] have "cl_stopped_qemu c'"
    using assms(6) by (simp add: stopped_ok_def)
  with client_co_left [OF assms(4)] assms(5) show ?thesis by (auto simp: left_ok_def)
qed

text \<open>QEMU is stopped, the client hangs up, and QEMU does not answer the \<open>cont\<close>.\<close>

definition qemu_ok :: ColodQmpResult where
  "qemu_ok = \<lparr>qr_json_root = JObject [(''return'', JObject [])], qr_line = reply_text ''{}''\<rparr>"

definition hangup_io :: "io_answer list" where
  "hangup_io = [Write_chars Io_normal (length (reply_text ''{}'')), Flush Io_normal, Read_line Io_eof []]"

definition hangup_outs :: "outcome list" where
  "hangup_outs = [Exec (Exec_ok False qemu_ok), Exec (Exec_fail False (GError None ''timeout''))]"

lemma client_leaves_qemu_running_witness:
  "\<exists>s0 s c c' s'. daemon_mainloop_begin ref_glib daemon_json daemon_ok None 1000 (daemon_ctx True) = Some (Running s0) \<and>
    daemon_reach ref_glib daemon_json 1 s0 (rev stop_example) s \<and> map_of (ls_clients s) 1 = Some c \<and>
    client_co ref_glib daemon_json 1 11 hangup_io hangup_outs c s = Some (True, c', s') \<and>
    cl_calls c' = [(L_stop, True), (L_cleanup, False)] \<and> (\<exists>s1. colod_qemu_failed ref_glib s1 = Some s')"
proof -
  have "map_option (\<lambda>s. Option.bind (map_of (ls_clients s) 1) (\<lambda>c.
      map_option (\<lambda>(r, c', s'). (r, cl_quit c', cl_calls c'))
        (client_co ref_glib daemon_json 1 11 hangup_io hangup_outs c s)))
      (Option.bind (daemon_start True) (daemon_run stop_example)) =
    Some (Some (True, False, [(L_stop, True), (L_cleanup, False)]))"
    by code_simp
  from daemon_example [OF this] obtain s0 s where
    1: "daemon_mainloop_begin ref_glib daemon_json daemon_ok None 1000 (daemon_ctx True) = Some (Running s0)"
      "daemon_reach ref_glib daemon_json 1 s0 (rev stop_example) s"
    and 2: "Option.bind (map_of (ls_clients s) 1) (\<lambda>c. map_option (\<lambda>(r, c', s'). (r, cl_quit c', cl_calls c'))
        (client_co ref_glib daemon_json 1 11 hangup_io hangup_outs c s)) =
      Some (True, False, [(L_stop, True), (L_cleanup, False)])"
    by blast
  from 2 obtain c c' s' where c: "map_of (ls_clients s) 1 = Some c"
    "client_co ref_glib daemon_json 1 11 hangup_io hangup_outs c s = Some (True, c', s')"
    "\<not> cl_quit c'" "cl_calls c' = [(L_stop, True), (L_cleanup, False)]"
    by (auto simp: bind_eq_Some_conv)
  have "stopped_after (cl_calls c')" by (simp add: c(4) stopped_after_def)
  from client_leaves_qemu_running [OF 1 c(1-3) this] c(4) have "\<exists>s1. colod_qemu_failed ref_glib s1 = Some s'"
    by auto
  with 1 c(1,2,4) show ?thesis by blast
qed

text \<open>
  C34. A client that asks QEMU to stop or to continue brings the daemon down when QEMU refuses: the
  error message, which contains the line QEMU sent, is put between quotes as it is, and when the
  result is no JSON, as it is with the quotes of that line, the assertion on the parsed reply
  fails.
\<close>

theorem refused_stop_aborts:
  assumes "map_of (ml_sources s) cur = Some (S_client i)" and "map_of (ls_clients s) i = Some c"
    and "cl_pc c = C_call call cur" and "call = L_stop \<and> command = client_cmd_stop \<or>
      call = L_cont \<and> command = client_cmd_cont"
    and "qr_json_root r = JObject ms" and "''error'' \<in> fst ` set ms" and "qmp_error s = None"
    and "\<not> qmp_did_yank s"
    and "json_from_string J (error_reply_text
      (''qmp command returned error: '' @ command @ '' '' @ qr_line r)) = None"
  shows "client_dispatch G J cur io (Exec (Exec_ok False r) # outs) s = None"
proof -
  let ?s = "colod_watchdog_refresh G s"
  have "qmp_error ?s = None" "\<not> qmp_did_yank ?s"
    using assms(7,8) by (simp_all add: colod_watchdog_refresh_def add_source_eq remove_source_def Let_def)
  then have "colod_execute_end G command (Exec_ok False r) ?s =
      Some (Inl (GError (Some COLOD_ERROR_QMP) (''qmp command returned error: '' @ command @ '' '' @ qr_line r)), ?s)"
    using assms(5,6) by (auto simp: colod_execute_end_def colod_execute_nocheck_end_def qmp_execute_return_def
        qmp_get_error_def qmp_get_yank_def has_member_def map_of_eq_None_iff)
  with assms(1-4,9) show ?thesis
    by (auto simp: client_dispatch_def colod_client_co_def client_co_def client_resume_def call_enter_def
        client_go_def client_executed_def create_error_reply_def parsed_reply_def qmp_parse_result_def)
qed

definition refused :: ColodQmpResult where
  "refused = \<lparr>qr_json_root = JObject [(''error'', JObject [(''class'', JString ''GenericError'')])],
     qr_line = ''{'' @ quoted ''error'' @ '': {'' @ quoted ''class'' @ '': '' @ quoted ''GenericError'' @ ''}}'' @ nl\<rparr>"

lemma refused_stop_aborts_witness:
  "\<exists>s0 s. daemon_mainloop_begin ref_glib daemon_json daemon_ok None 1000 (daemon_ctx True) = Some (Running s0) \<and>
    daemon_reach ref_glib daemon_json 1 s0 (rev stop_example) s \<and>
    client_dispatch ref_glib daemon_json 11 [] [Exec (Exec_ok False refused)] s = None"
proof -
  have "map_option (\<lambda>s. (map_of (ml_sources s) 11, map_option cl_pc (map_of (ls_clients s) 1), qmp_error s, qmp_did_yank s))
      (Option.bind (daemon_start True) (daemon_run stop_example)) =
    Some (Some (S_client 1), Some (C_call L_stop 11), None, False)"
    by code_simp
  from daemon_example [OF this] obtain s0 s where
    1: "daemon_mainloop_begin ref_glib daemon_json daemon_ok None 1000 (daemon_ctx True) = Some (Running s0)"
      "daemon_reach ref_glib daemon_json 1 s0 (rev stop_example) s"
    and 2: "map_of (ml_sources s) 11 = Some (S_client 1)" "map_option cl_pc (map_of (ls_clients s) 1) = Some (C_call L_stop 11)"
      "qmp_error s = None" "\<not> qmp_did_yank s"
    by auto
  from 2(2) obtain c where c: "map_of (ls_clients s) 1 = Some c" "cl_pc c = C_call L_stop 11" by blast
  have "json_from_string daemon_json (error_reply_text
      (''qmp command returned error: '' @ client_cmd_stop @ '' '' @ qr_line refused)) = None"
    by code_simp
  from refused_stop_aborts [OF 2(1) c(1,2) _ _ _ 2(3,4) this, where io = "[]" and outs = "[]" and G = ref_glib] 1
  show ?thesis by (auto simp: refused_def)
qed

subsection \<open>The end of a dispatch\<close>

text \<open>A dispatch step by step, for at most so many steps; it is over when its value is not None.\<close>

fun client_steps ::
    "nat \<Rightarrow> Event glib \<Rightarrow> json_glib \<Rightarrow> nat \<Rightarrow> io_answer list \<Rightarrow> outcome list \<Rightarrow> client_todo \<Rightarrow> ColodClient \<Rightarrow>
     'z ClientListener_scheme \<Rightarrow> (bool \<times> ColodClient \<times> 'z ClientListener_scheme) abortable option" where
  "client_steps 0 G J i io outs t c s = None"
| "client_steps (Suc n) G J i io outs t c s = (case client_micro G J i io outs t c s of
     None \<Rightarrow> Some None
   | Some (C_go io' outs' t' c' s') \<Rightarrow> client_steps n G J i io' outs' t' c' s'
   | Some (C_suspended c' s') \<Rightarrow> Some (Some (False, c', s'))
   | Some (C_returned c' s') \<Rightarrow> Some (Some (True, c', s')))"


text \<open>Told to quit.\<close>

definition requests :: "client_trace list \<Rightarrow> string list" where
  "requests tr = concat (map (\<lambda>x. case x of Request q \<Rightarrow> [q] | Reply l \<Rightarrow> []) tr)"

lemma requests_append [simp]:
  "requests (tr @ tr') = requests tr @ requests tr'" "requests [Reply l] = []"
  by (simp_all add: requests_def)

definition asks_no_more :: "ColodClient \<Rightarrow> ColodClient \<Rightarrow> bool" where
  "asks_no_more c c' \<longleftrightarrow> cl_quit c' \<and> requests (cl_trace c') = requests (cl_trace c)"

lemma parts_same:
  "query_status_done G J ret c s = Some (t, c', s') \<Longrightarrow> c' = c"
  "client_yanked J ret' c s = Some (t, c', s') \<Longrightarrow> c' = c"
  "client_status_executed G J result c s = Some (t, c', s') \<Longrightarrow> c' = c"
  "client_colo_executed G J r result c s = Some (t, c', s') \<Longrightarrow> c' = c"
  "client_cleanup G result c s = Some (t, c', s') \<Longrightarrow> c' = c"
  "client_executed J result b c s = Some (t, c', s') \<Longrightarrow> c' = c \<or> c' = c\<lparr>cl_stopped_qemu := b\<rparr>"
  by (auto simp: query_status_done_def client_executed_def client_yanked_def client_status_executed_def
      client_colo_executed_def client_cleanup_def bind_eq_Some_conv split: sum.splits)

lemma call_done_asks:
  "call_done G J call out c s = Some (t, c', s') \<Longrightarrow> cl_quit c \<Longrightarrow> asks_no_more c c'"
  by (cases "(G, J, call, out, c, s)" rule: call_done.cases)
    (auto simp: bind_eq_Some_conv asks_no_more_def returned_def dest!: parts_same)

lemma micro_asks:
  assumes "client_micro G J i io outs t c s = Some p" and "cl_quit c"
  shows "asks_no_more c (progress_client p)"
  using assms
  by (cases t) (auto simp: client_micro_def client_go_def client_got_def client_wrote_def client_suspend_def
      client_broken_def client_read_def asks_no_more_def returned_def Let_def bind_eq_Some_conv
      dest!: call_done_asks parts_same(5) split: if_splits sum.splits list.splits outcome.splits prod.splits co.splits)

lemma run_asks:
  "client_run G J i io outs t c s = Some (r, c', s') \<Longrightarrow> cl_quit c \<Longrightarrow> asks_no_more c c'"
proof (induction G J i io outs t c s rule: client_run.induct)
  case (1 G J i io outs t c s)
  obtain p where p: "client_micro G J i io outs t c s = Some p"
    using "1.prems"(1) by (cases "client_micro G J i io outs t c s") (auto simp: client_run.simps)
  note asks = micro_asks [OF p "1.prems"(2)]
  show ?case
  proof (cases p)
    case (C_go io' outs' t' c1 s1)
    with p "1.prems"(1) have "client_run G J i io' outs' t' c1 s1 = Some (r, c', s')"
      by (subst (asm) client_run.simps) simp
    with "1.IH" [OF p C_go] asks C_go show ?thesis by (simp add: asks_no_more_def)
  qed (use p "1.prems"(1) asks in \<open>auto simp: client_run.simps [of G J i io outs t c s]\<close>)
qed


definition last_reply_io :: "io_answer list" where
  "last_reply_io = [Write_chars Io_normal (length (reply_text ''{}'')), Flush Io_normal,
     Read_line Io_normal (request_line ''fence'')]"


end
