(* ===== verification/Main_Registered.thy ===== *)
theory Main_Registered
  imports Main_Safety
begin

text \<open>
  Where the rest of the daemon knows the main coroutine: the callback lists of QMP, of the process
  group and of the link debouncer, the wait for a QMP event it is suspended in, and the sources
  that resume it. The theory follows these through every step of the main coroutine's system; what
  the release of the daemon needs is that nothing knows a coroutine that has quit and that
  \<open>colod_main_free\<close> has taken out of the lists.
\<close>

subsection \<open>Where the coroutine is registered\<close>

text \<open>
  Whether the callbacks of the main coroutine may be in the lists (\<open>known\<close>), its wait among the
  callbacks for QMP events (\<open>waits\<close>) and its flag be set (\<open>quit\<close>). No callback is in a list
  twice, and a wait that has been answered is in none.
\<close>

definition registered_in :: "bool \<Rightarrow> bool \<Rightarrow> bool \<Rightarrow> 'z MainCoroutine_scheme \<Rightarrow> bool" where
  "registered_in known waits quit s \<longleftrightarrow> distinct (qmp_event_callbacks s) \<and> distinct (qmp_hup_callbacks s) \<and>
     distinct (cpg_callbacks s) \<and> distinct (yl_callbacks s) \<and>
     (CB_qmp_event \<in> set (qmp_event_callbacks s) \<longrightarrow> known) \<and>
     set (qmp_hup_callbacks s) \<subseteq> {c. known \<and> c = CB_qmp_hup} \<and>
     set (cpg_callbacks s) \<subseteq> {c. known \<and> c = CB_cpg_event} \<and>
     set (yl_callbacks s) \<subseteq> {c. known \<and> c = CB_yellow_event} \<and>
     (mc_quit s \<longrightarrow> quit) \<and> CB_wait_event S_wake \<notin> set (qmp_event_callbacks s) \<and>
     (CB_wait_event S_main \<in> set (qmp_event_callbacks s) \<longrightarrow>
        waits \<and> (\<forall>ws. qmp_waits s S_main = Some ws \<longrightarrow> \<not> ws_fired ws))"

lemma registered_cong:
  "registrations s' = registrations s \<Longrightarrow> registered_in b w q s' = registered_in b w q s"
  by (simp add: registrations_def registered_in_def)

lemma registered_mono: "registered_in b w q s \<Longrightarrow> (b \<Longrightarrow> b') \<Longrightarrow> (w \<Longrightarrow> w') \<Longrightarrow> registered_in b' w' q s"
  by (auto simp: registered_in_def)

lemma registrations_event: "colod_event_queue G e s = Some s' \<Longrightarrow> registrations s' = registrations s"
  using event_queue_update by fastforce

interpretation same: daemon_ops G True "\<lambda>t. registrations t = registrations s0" for G s0
  by unfold_locales (auto dest: registrations_event)

interpretation reg: daemon_ops G True "registered_in b w q" for G b w q
  by unfold_locales (auto dest: registrations_event registered_cong)

text \<open>How waiting for a QMP event changes the registrations.\<close>

definition others_same :: "'z MainCoroutine_scheme \<Rightarrow> 'z MainCoroutine_scheme \<Rightarrow> bool" where
  "others_same s s' \<longleftrightarrow> qmp_hup_callbacks s' = qmp_hup_callbacks s \<and> cpg_callbacks s' = cpg_callbacks s \<and>
     yl_callbacks s' = yl_callbacks s \<and> mc_quit s' = mc_quit s"

lemma wait_begin_registers:
  assumes "qmp_wait_event_begin G J co t m s = Some (i, s')"
  shows "\<exists>match. qmp_waits s' = (qmp_waits s)(co := Some \<lparr>ws_match = match, ws_fired = False\<rparr>) \<and>
    CB_wait_event co \<notin> set (qmp_event_callbacks s) \<and> qmp_event_callbacks s' = CB_wait_event co # qmp_event_callbacks s \<and>
    others_same s s'"
  using assms
  by (auto simp: qmp_wait_event_begin_def qmp_add_notify_event_def colod_callback_add_def colod_callback_find_iff
      others_same_def bind_eq_Some_conv add_source_eq Let_def split: if_splits)

lemma wait_end_registers:
  assumes "qmp_wait_event_end co t tid m cur s = Some (r, s')"
  shows "\<exists>ws. qmp_waits s co = Some ws \<and> qmp_waits s' = (qmp_waits s)(co := None) \<and>
    qmp_event_callbacks s' = (if ws_fired ws then qmp_event_callbacks s
      else remove1 (CB_wait_event co) (qmp_event_callbacks s)) \<and> others_same s s'"
proof -
  obtain ws where ws: "qmp_waits s co = Some ws"
    using assms by (cases "qmp_waits s co") (auto simp: qmp_wait_event_end_def)
  show ?thesis
  proof (cases "ws_fired ws")
    case True
    with assms ws show ?thesis
      by (simp add: qmp_wait_event_end_def others_same_def Let_def remove_source_def split: if_splits) auto
  next
    case False
    define s1 where "s1 = s\<lparr>qmp_event_callbacks := remove1 (CB_wait_event co) (qmp_event_callbacks s)\<rparr>"
    from False assms ws have "s' = (if t \<noteq> 0 then remove_source tid s1 else s1)\<lparr>qmp_waits := (qmp_waits s)(co := None)\<rparr>"
      by (simp add: qmp_wait_event_end_def qmp_del_notify_event_def colod_callback_del_def colod_callback_find_iff
          Let_def remove_source_def s1_def split: if_splits)
    with ws False show ?thesis by (simp add: s1_def others_same_def remove_source_def)
  qed
qed

lemma wait_cb_registers:
  assumes "qmp_wait_event_cb G J co result s = Some s'"
  shows "\<exists>ws. qmp_waits s co = Some ws \<and>
    (s' = s \<or> qmp_waits s' = (qmp_waits s)(co := Some (ws\<lparr>ws_fired := True\<rparr>)) \<and>
      qmp_event_callbacks s' = remove1 (CB_wait_event co) (qmp_event_callbacks s)) \<and> others_same s s'"
proof -
  obtain ws where ws: "qmp_waits s co = Some ws"
    using assms by (cases "qmp_waits s co") (auto simp: qmp_wait_event_cb_def)
  obtain m where "object_matches J result (ws_match ws) = Some m"
    using assms ws by (auto simp: qmp_wait_event_cb_def bind_eq_Some_conv)
  with assms ws show ?thesis
    by (cases m) (auto simp: qmp_wait_event_cb_def qmp_del_notify_event_def colod_callback_del_def
      colod_callback_find_iff others_same_def add_source_eq Let_def split: if_splits)
qed

lemma registered_wait_begin:
  assumes "qmp_wait_event_begin G J co t m s = Some (i, s')" and "registered_in b w q s" and "co \<noteq> S_wake"
  shows "registered_in b (w \<or> co = S_main) q s'"
  using wait_begin_registers [OF assms(1)] assms(2,3)
  by (auto simp: registered_in_def others_same_def split: if_splits)

lemma registered_wait_end:
  assumes "qmp_wait_event_end co t tid m cur s = Some (r, s')" and "registered_in b w q s"
  shows "registered_in b (w \<and> co \<noteq> S_main) q s'"
proof -
  obtain ws where ws: "qmp_waits s co = Some ws" "qmp_waits s' = (qmp_waits s)(co := None)"
    "qmp_event_callbacks s' = (if ws_fired ws then qmp_event_callbacks s
      else remove1 (CB_wait_event co) (qmp_event_callbacks s))" "others_same s s'"
    using wait_end_registers [OF assms(1)] by blast
  have d: "distinct (qmp_event_callbacks s)" using assms(2) by (simp add: registered_in_def)
  show ?thesis
  proof (cases "ws_fired ws")
    case True
    with ws assms(2) show ?thesis by (auto simp: registered_in_def others_same_def split: if_splits)
  next
    case False
    then have "set (qmp_event_callbacks s') = set (qmp_event_callbacks s) - {CB_wait_event co}"
      "distinct (qmp_event_callbacks s')"
      using ws(3) d by simp_all
    with ws(2,4) assms(2) show ?thesis by (auto simp: registered_in_def others_same_def split: if_splits)
  qed
qed

lemma registered_wait_cb:
  assumes "qmp_wait_event_cb G J co result s = Some s'" and "registered_in b w q s"
  shows "registered_in b w q s'"
  using wait_cb_registers [OF assms(1)] assms(2)
  by (auto simp: registered_in_def others_same_def dest: set_remove1_subset [THEN subsetD] split: if_splits)


text \<open>Every other input but a dispatch of the main coroutine.\<close>

lemma callback_del_sub: "colod_callback_del cbs c = Some cbs' \<Longrightarrow> distinct cbs \<Longrightarrow> distinct cbs' \<and> set cbs' = set cbs - {c}"
  by (auto simp: colod_callback_del_def colod_callback_find_iff split: if_splits)

lemma registered_del:
  assumes "registered_in b w q s"
  shows "qmp_del_notify_event c s = Some s' \<Longrightarrow> registered_in b w q s'"
    and "qmp_del_notify_hup c s = Some s' \<Longrightarrow> registered_in b w q s'"
    and "colod_cpg_del_notify s c = Some s' \<Longrightarrow> registered_in b w q s'"
    and "yellow_del_notify c s = Some s' \<Longrightarrow> registered_in b w q s'"
  using assms
  by (auto simp: qmp_del_notify_event_def qmp_del_notify_hup_def colod_cpg_del_notify_def yellow_del_notify_def
      registered_in_def bind_eq_Some_conv dest!: callback_del_sub)

lemma callback_clear [simp]: "colod_callback_clear cbs = []"
  by (induction cbs) auto

text \<open>\<open>colod_main_free\<close> takes the coroutine out of every list.\<close>

lemma registered_main_free:
  assumes "colod_main_free G s = Some s'" and "registered_in b w q s"
  shows "registered_in False w q s'"
proof -
  from assms(1) obtain s1 s2 s3 s4 s5 s6 where s: "colod_event_queue G EVENT_QUIT s = Some s1"
    "yellow_del_notify CB_yellow_event s1 = Some s2" "yellow_coroutine_free G (yellow_callbacks G) s2 = Some s3"
    "colod_cpg_del_notify s3 CB_cpg_event = Some s4" "qmp_del_notify_hup CB_qmp_hup s4 = Some s5"
    "qmp_del_notify_event CB_qmp_event s5 = Some s6" "s' = colod_raise_timeout_coroutine_free G s6"
    by (auto simp: colod_main_free_def bind_eq_Some_conv)
  have "registered_in b w q s1" by (rule reg.event [OF _ s(1) assms(2)]) simp
  then have "registered_in b w q s2" using registered_del(4) s(2) by blast
  moreover obtain y where y: "yellow_shutdown G (yellow_callbacks G) s2 = Some y" "s3 = y\<lparr>yl_callbacks := []\<rparr>"
    using s(3) by (auto simp: yellow_coroutine_free_def bind_eq_Some_conv)
  ultimately have "registered_in b w q y" using reg.yellow_shutdown by blast
  with y(2) have "registered_in b w q s3 \<and> yl_callbacks s3 = []" by (simp add: registered_in_def)
  moreover obtain cpg hup ev where "colod_callback_del (cpg_callbacks s3) CB_cpg_event = Some cpg"
    "colod_callback_del (qmp_hup_callbacks s3) CB_qmp_hup = Some hup"
    "colod_callback_del (qmp_event_callbacks s3) CB_qmp_event = Some ev"
    "s6 = s3\<lparr>cpg_callbacks := cpg, qmp_hup_callbacks := hup, qmp_event_callbacks := ev\<rparr>"
    using s(4-6) by (auto simp: qmp_del_notify_event_def qmp_del_notify_hup_def colod_cpg_del_notify_def
        bind_eq_Some_conv)
  ultimately have "registered_in False w q s6"
    using callback_del_sub [of "cpg_callbacks s3"] callback_del_sub [of "qmp_hup_callbacks s3"]
      callback_del_sub [of "qmp_event_callbacks s3"]
    unfolding registered_in_def by simp blast
  with s(7) show ?thesis by (auto simp: colod_raise_timeout_coroutine_free_def)
qed

lemma registered_qmp_notify:
  assumes "qmp_notify_event (qmp_event_dispatch G J (qmp_callbacks_main G)) result s = Some s'" and "registered_in b w q s"
  shows "registered_in b w q s'"
  using assms unfolding qmp_notify_event_def
proof (rule foreach_preserves [where P = "registered_in b w q"])
  fix c t t' assume "qmp_event_dispatch G J (qmp_callbacks_main G) c result t = Some t'" "registered_in b w q t"
  then show "registered_in b w q t'"
    by (cases c) (auto simp: colod_watchdog_event_cb_def elim: registered_wait_cb reg.qmp_event_cb)
qed

lemma registered_raise:
  assumes "colod_raise_timeout_co G J cur s = Some s'" and "registered_in b w q s"
  shows "registered_in b w q s'"
proof -
  obtain pc where pc: "rt_co s = Some pc" using assms by (cases "rt_co s") (auto simp: colod_raise_timeout_co_def)
  with assms obtain r s1 where r: "raise_timeout_co G J cur pc s = Some (r, s1)"
    by (auto simp: colod_raise_timeout_co_def bind_eq_Some_conv)
  have start: "registered_in b w q t'" if "qmp_wait_event_begin G J S_raise 0 m t = Some (i, t')" "registered_in b w q t"
    for m i t t' using registered_wait_begin [OF that] by simp
  have finish: "registered_in b w q t'" if "qmp_wait_event_end S_raise 0 0 m cur t = Some (ret, t')" "registered_in b w q t"
    for m ret t t' using registered_wait_end [OF that] by simp
  have "registered_in b w q s1"
  proof (cases pc)
    case R_start
    with r assms(2) show ?thesis by (auto simp: raise_timeout_co_def bind_eq_Some_conv dest: start)
  next
    case R_wait_stop
    with r obtain ret s2 where 2: "qmp_wait_event_end S_raise 0 0 event_stop cur s = Some (ret, s2)"
      by (auto simp: raise_timeout_co_def bind_eq_Some_conv)
    with finish [OF 2 assms(2)] r R_wait_stop show ?thesis
      by (cases ret) (auto simp: raise_timeout_co_def bind_eq_Some_conv dest: start)
  next
    case R_wait_resume
    with r assms(2) show ?thesis by (auto simp: raise_timeout_co_def bind_eq_Some_conv dest: finish)
  qed
  with assms pc r show ?thesis
    by (cases r) (auto simp: colod_raise_timeout_co_def bind_eq_Some_conv reg.set_timeout)
qed

lemma registered_watchdog_new:
  "colod_watchdog_new G interval s = Some s' \<Longrightarrow> registered_in b w q s \<Longrightarrow> registered_in b w q s'"
  by (auto simp: colod_watchdog_new_def qmp_add_notify_event_def colod_callback_add_def colod_callback_find_iff
      registered_in_def bind_eq_Some_conv add_source_eq Let_def split: if_splits)

lemma registered_step:
  assumes "main_step G J myid inp s = Some s'" and "\<nexists>cur outs. inp = Dispatch cur outs" and "registered_in b w q s"
  shows "registered_in b w q s'"
proof (cases "registers inp \<or> sets_context inp")
  case True
  with assms show ?thesis
    by (cases inp) (auto simp: main_step_def qmp_set_yank_instances_def elim: registered_qmp_notify registered_raise
        registered_watchdog_new registered_mono [OF registered_main_free] registered_cong [THEN iffD2, rotated] split: if_splits)
next
  case False
  with reg.daemon_step_ops [OF assms(1)] assms(3) show ?thesis by blast
qed


subsection \<open>A dispatch of the main coroutine\<close>

text \<open>Only waiting for a QMP event registers anything.\<close>

lemma same_ops:
  "colod_cpg_send G m s = Some s' \<Longrightarrow> registrations s' = registrations s"
  "qmp_set_timeout t s = Some s' \<Longrightarrow> registrations s' = registrations s"
  "colod_raise_timeout_coroutine G s = Some s' \<Longrightarrow> registrations s' = registrations s"
  "set_interrupting G es s = Some s' \<Longrightarrow> registrations s' = registrations s"
  "colod_event_wait cur s = Some (ev, s') \<Longrightarrow> registrations s' = registrations s"
  by (auto simp: same.cpg_send same.set_timeout same.raise_timeout dest!: set_interrupting_update event_wait_update)

lemma same_mig:
  "mig_handle_event s = Some (t, s') \<Longrightarrow> registrations s' = registrations s"
  "mig_qmp_error e s = Some (t, s') \<Longrightarrow> registrations s' = registrations s"
  "mig_failover ev s = Some (t, s') \<Longrightarrow> registrations s' = registrations s"
  by (auto simp: mig_handle_event_def mig_qmp_error_def mig_failover_def bind_eq_Some_conv split: if_splits)

lemma same_array_returned:
  "array_returned G a ret s = Some (t, s') \<Longrightarrow> registrations s' = registrations s"
  by (cases a; cases ret)
    (auto simp: array_returned_defs bind_eq_Some_conv colod_clear_peer_def dest!: same_mig same_ops split: if_splits)

lemma same_array_loop:
  "array_loop G J a els s = Some (t, s') \<Longrightarrow> registrations s' = registrations s"
  by (cases els) (auto simp: array_loop_def bind_eq_Some_conv dest!: same_array_returned split: if_splits)

lemma same_event_received:
  "event_received pt ev s = Some (t, s') \<Longrightarrow> registrations s' = registrations s"
  by (cases pt) (auto simp: event_received_defs mig_failover_def do_autoquit_def bind_eq_Some_conv split: if_splits)

lemma same_enter_state:
  "enter_state G st s = Some (t, s') \<Longrightarrow> registrations s' = registrations s"
  by (cases st) (auto simp: enter_state_def colo_running_begin_def bind_eq_Some_conv Let_def dest!: same_ops)

lemma same_start_array:
  "start_array a n s = Some (t, s') \<Longrightarrow> registrations s' = registrations s"
  by (auto simp: start_array_def bind_eq_Some_conv split: json.splits)

lemma same_execute_returned:
  "execute_returned G pt r s = Some (t, s') \<Longrightarrow> registrations s' = registrations s"
  by (cases pt; cases r)
    (auto simp: execute_returned_defs bind_eq_Some_conv dest!: same_mig same_ops same_array_returned same_start_array
      split: if_splits)

lemma same_execute_done:
  "execute_done G pt out s = Some (t, s') \<Longrightarrow> registrations s' = registrations s"
  by (auto simp: execute_done_def bind_eq_Some_conv dest!: same_execute_returned same.execute_end)

lemma same_yank_done:
  "yank_done G out s = Some (t, s') \<Longrightarrow> registrations s' = registrations s"
  using same.yank_return [of out s s]
  by (auto simp: yank_done_def Let_def split_beta dest!: same_start_array split: sum.splits)

lemma same_wait_returned:
  "wait_returned G q ret s = Some (t, s') \<Longrightarrow> registrations s' = registrations s"
  by (cases q; cases ret)
    (auto simp: wait_returned_defs bind_eq_Some_conv dest!: same_mig same_ops same_start_array split: if_splits)


text \<open>The coroutine is registered for an event exactly where it waits for one.\<close>

fun waits_for_qmp :: "main_pc \<Rightarrow> bool" where
  "waits_for_qmp (PC_wait q i) = True"
| "waits_for_qmp _ = False"

definition registered_ok :: "bool \<Rightarrow> 'z MainCoroutine_scheme \<Rightarrow> bool" where
  "registered_ok b s \<longleftrightarrow> registered_in b (waits_for_qmp (mc_pc s)) (mc_pc s = PC_done) s"

fun progress_registered :: "bool \<Rightarrow> 'z MainCoroutine_scheme progress \<Rightarrow> bool" where
  "progress_registered b (Go outs t s) = registered_in b False False s"
| "progress_registered b (Yielded s) = (registered_ok b s \<and> mc_pc s \<noteq> PC_done)"
| "progress_registered b (Returned s) = registered_in b False False s"

lemma registered_same: "registrations s' = registrations s \<Longrightarrow> registered_in b w q s \<Longrightarrow> registered_in b w q s'"
  using registered_cong by blast

lemma registered_simps [simp]:
  "registered_in b w q (s\<lparr>mc_pc := pc\<rparr>) = registered_in b w q s"
  "registered_in b w q (s\<lparr>mc_queue := eq\<rparr>) = registered_in b w q s"
  "registered_in b w q (s\<lparr>mc_trace := tr\<rparr>) = registered_in b w q s"
  by (rule registered_cong; simp)+

lemma registered_go:
  assumes "go outs seg = Some p" and "\<And>t s'. seg = Some (t, s') \<Longrightarrow> registrations s' = registrations s"
    and "registered_in b False False s"
  shows "progress_registered b p"
proof -
  obtain t s' where "seg = Some (t, s')" "p = Go outs t s'" using assms(1) by (auto simp: go_def bind_eq_Some_conv)
  with registered_same [OF assms(2,3)] show ?thesis by simp
qed

lemma registered_yield:
  "registered_in b False False s \<Longrightarrow> (\<And>i. \<not> waits_for_qmp (pc i)) \<Longrightarrow> (\<And>i. pc i \<noteq> PC_done) \<Longrightarrow>
     progress_registered b (yield_io G pc s)"
  by (auto simp: yield_io_def registered_ok_def add_source_eq Let_def)

lemma registered_micro:
  assumes "main_micro G J cur outs t s = Some p" and "registered_in b False False s"
  shows "progress_registered b p"
proof (cases t)
  case (T_enter st)
  with assms show ?thesis by (auto simp: main_micro_def intro: registered_go same_enter_state)
next
  case (T_event pt)
  with assms(1) obtain ev s1 where 1: "colod_event_wait cur s = Some (ev, s1)"
    by (auto simp: main_micro_def bind_eq_Some_conv)
  then have "registered_in b False False s1" using same_ops(5) [OF 1] assms(2) registered_cong by blast
  moreover from this have "registered_ok b (s1\<lparr>mc_pc := PC_event pt\<rparr>)"
    by (simp add: registered_ok_def)
  ultimately show ?thesis
    using assms(1) T_event 1
    by (cases ev) (auto simp: main_micro_def intro: registered_go [OF _ same_event_received])
next
  case (T_wait q)
  with assms(1) obtain i s1 where 1: "qmp_wait_event_begin G J S_main (wait_timeout q) (wait_match q) s = Some (i, s1)"
    "p = Yielded (s1\<lparr>mc_pc := PC_wait q i\<rparr>)"
    by (auto simp: main_micro_def bind_eq_Some_conv)
  with registered_wait_begin [OF 1(1) assms(2)] show ?thesis
    by (simp add: registered_ok_def)
next
  case (T_exec pt command)
  have "registered_in b False False (colod_execute_begin G command s)" using assms(2) by simp
  with assms(1) T_exec show ?thesis
    by (auto simp: main_micro_def Let_def intro: registered_go [OF _ same_execute_done] registered_yield
        split: list.splits outcome.splits)
next
  case (T_array a els)
  with assms show ?thesis by (auto simp: main_micro_def intro: registered_go same_array_loop)
next
  case T_yank
  with assms show ?thesis
    by (auto simp: main_micro_def intro: registered_go [OF _ same_yank_done] registered_yield
        split: list.splits outcome.splits)
next
  case T_timer
  with assms show ?thesis by (auto simp: main_micro_def intro: registered_yield)
next
  case T_return
  with assms show ?thesis by (auto simp: main_micro_def)
qed

lemma registered_run:
  assumes "main_run G J cur outs t s = Some (r, s')" and "registered_in b False False s"
  shows "if r then registered_in b False False s' else registered_ok b s' \<and> mc_pc s' \<noteq> PC_done"
  using assms
proof (induction G J cur outs t s rule: main_run.induct)
  case (1 G J cur outs t s)
  from "1.prems"(1) obtain p where p: "main_micro G J cur outs t s = Some p"
    by (cases "main_micro G J cur outs t s") (auto simp: main_run.simps [of G J cur outs t s])
  note ok = registered_micro [OF p "1.prems"(2)]
  show ?case
  proof (cases p)
    case (Go outs' t' s1)
    with "1.IH" [OF p Go] ok "1.prems"(1) p show ?thesis
      by (simp add: main_run.simps [of G J cur outs t s])
  qed (use ok "1.prems"(1) p in \<open>auto simp: main_run.simps [of G J cur outs t s]\<close>)
qed

lemma registered_resume:
  assumes "main_resume G cur outs s = Some p" and "registered_ok b s"
  shows "progress_registered b p"
proof (cases "mc_pc s")
  case PC_start
  with assms(1) obtain t s1 where 1: "colod_cpg_send G MESSAGE_HELLO s = Some s1" "p = Go outs t s1"
    by (auto simp: main_resume_def Let_def bind_eq_Some_conv)
  have "registered_in b False False s" using assms(2) PC_start by (simp add: registered_ok_def)
  with registered_same [OF same_ops(1) [OF 1(1)]] 1(2) show ?thesis by simp
next
  case (PC_exec pt i)
  have "registered_in b False False (colod_watchdog_refresh G s)" using assms(2) PC_exec by (simp add: registered_ok_def)
  moreover have "mc_pc (colod_watchdog_refresh G s) = mc_pc s"
    by (simp add: colod_watchdog_refresh_def add_source_eq remove_source_def Let_def)
  ultimately show ?thesis
    using assms(1) PC_exec
    by (auto simp: main_resume_def Let_def registered_ok_def intro: registered_go [OF _ same_execute_done] registered_yield
        split: list.splits outcome.splits if_splits)
next
  case (PC_yank i)
  with assms show ?thesis
    by (auto simp: main_resume_def registered_ok_def intro: registered_go [OF _ same_yank_done] registered_yield
        split: list.splits outcome.splits if_splits)
next
  case (PC_wait q i)
  with assms(1) obtain ret s1 where 1: "qmp_wait_event_end S_main (wait_timeout q) i (wait_match q) cur s = Some (ret, s1)"
    by (auto simp: main_resume_def go_def qmp_event_wait_resumed_def bind_eq_Some_conv)
  have "registered_in b False False s1"
    using registered_wait_end [OF 1, of b True False] assms(2) PC_wait by (simp add: registered_ok_def)
  have "progress_registered b p'" if "wait_returned G q r s1 \<bind> (\<lambda>(t, s'). Some (Go outs t s')) = Some p'" for r p'
  proof -
    obtain t s' where "wait_returned G q r s1 = Some (t, s')" "p' = Go outs t s'"
      using \<open>wait_returned G q r s1 \<bind> _ = _\<close> by (auto simp: bind_eq_Some_conv)
    with registered_same [OF same_wait_returned] \<open>registered_in b False False s1\<close> show ?thesis by auto
  qed
  with assms(1) PC_wait 1 \<open>registered_in b False False s1\<close> show ?thesis
    by (cases ret) (auto simp: main_resume_def go_def qmp_event_wait_resumed_def bind_eq_Some_conv split: if_splits)
next
  case (PC_timer i)
  with assms show ?thesis
    by (auto simp: main_resume_def running_timer_resumed_def registered_ok_def go_def split: if_splits)
next
  case (PC_event pt)
  with assms show ?thesis by (auto simp: main_resume_def registered_ok_def)
next
  case PC_done
  with assms show ?thesis by (simp add: main_resume_def)
qed


text \<open>
  When the coroutine quits, \<open>colod_assert_remove_one_source\<close> detaches what is left of its
  sources.
\<close>

definition no_main_source :: "'z MainContext_scheme \<Rightarrow> bool" where
  "no_main_source s \<longleftrightarrow> (\<forall>x\<in>set (ml_sources s). source_user_data (snd x) \<noteq> S_main)"

lemma registered_main_co:
  assumes "colod_main_co G J cur outs s = Some s'" and "registered_ok b s"
  shows "registered_ok b s'" and "mc_pc s' = PC_done \<Longrightarrow> no_main_source s'"
proof -
  obtain p r s1 where p: "main_resume G cur outs s = Some p" "main_continue G J cur p = Some (r, s1)"
    using assms(1) by (auto simp: colod_main_co_def bind_eq_Some_conv)
  note ok = registered_resume [OF p(1) assms(2)]
  have 1: "if r then registered_in b False False s1 else registered_ok b s1 \<and> mc_pc s1 \<noteq> PC_done"
  proof (cases p)
    case (Go o' t' s2)
    with ok p(2) registered_run [of G J cur o' t' s2 r s1 b] show ?thesis by (simp add: main_continue_def)
  qed (use ok p(2) in \<open>auto simp: main_continue_def\<close>)
  have "registered_ok b s' \<and> (mc_pc s' = PC_done \<longrightarrow> no_main_source s')"
  proof (cases r)
    case True
    with assms(1) p obtain ss where ss: "colod_assert_remove_one_source S_main (ml_sources s1) = Some ss"
      "s' = s1\<lparr>ml_sources := ss, mc_pc := PC_done, mc_quit := True\<rparr>"
      by (auto simp: colod_main_co_def bind_eq_Some_conv)
    with True 1 assert_remove_one_source_set [OF ss(1)] show ?thesis
      by (auto simp: registered_ok_def registered_in_def no_main_source_def)
  next
    case False
    moreover have "s' = s1" using False assms(1) p by (simp add: colod_main_co_def)
    ultimately show ?thesis using 1 by simp
  qed
  then show "registered_ok b s'" and "mc_pc s' = PC_done \<Longrightarrow> no_main_source s'" by simp_all
qed

lemma no_main_source_remove [simp]: "no_main_source s \<Longrightarrow> no_main_source (remove_source i s)"
  by (auto simp: no_main_source_def remove_source_def)

lemma registered_dispatch:
  assumes "main_dispatch G J cur outs s = Some s'" and "registered_ok b s"
  shows "registered_ok b s'"
    and "(mc_pc s = PC_done \<Longrightarrow> no_main_source s) \<Longrightarrow> mc_pc s' = PC_done \<Longrightarrow> no_main_source s'"
proof -
  have ok: "registered_ok b (remove_source i t) = registered_ok b t"
    "registered_ok b (event_wake_source_destroy_cb t) = registered_ok b t"
    "mc_pc (remove_source i t) = mc_pc t" "mc_pc (event_wake_source_destroy_cb t) = mc_pc t"
    "no_main_source (event_wake_source_destroy_cb t) = no_main_source t" for i and t :: "'a MainCoroutine_scheme"
    by (simp_all add: registered_ok_def event_wake_source_destroy_cb_def remove_source_def no_main_source_def)
  have "registered_ok b s' \<and>
      ((mc_pc s = PC_done \<longrightarrow> no_main_source s) \<longrightarrow> mc_pc s' = PC_done \<longrightarrow> no_main_source s')"
    using assms registered_main_co [OF _ assms(2)]
    by (auto simp: main_dispatch_def bind_eq_Some_conv ok split: option.splits source.splits)
  then show "registered_ok b s'"
    and "(mc_pc s = PC_done \<Longrightarrow> no_main_source s) \<Longrightarrow> mc_pc s' = PC_done \<Longrightarrow> no_main_source s'" by simp_all
qed

lemma registered_ok_step:
  assumes "main_step G J myid inp s = Some s'" and "\<nexists>cur outs. inp = Dispatch cur outs" and "registered_ok b s"
  shows "registered_ok b s'"
proof -
  have "main_core s' = main_core s" by (rule main_step_core [OF assms(1,2)])
  then have "mc_pc s' = mc_pc s" by (simp add: main_core_def)
  with registered_step [OF assms(1,2)] assms(3) show ?thesis by (simp add: registered_ok_def)
qed


subsection \<open>A coroutine that nothing knows any more\<close>

text \<open>It has quit, is in no callback list and waits for nothing, and no source would resume it.\<close>

definition main_detached :: "'z MainCoroutine_scheme \<Rightarrow> bool" where
  "main_detached s \<longleftrightarrow> mc_pc s = PC_done \<and> registered_in False False True s \<and> no_main_source s"

lemma detached_lists:
  "registered_in False w q s \<Longrightarrow> qmp_hup_callbacks s = [] \<and> cpg_callbacks s = [] \<and> yl_callbacks s = []"
  by (auto simp: registered_in_def)

lemma no_main_source_simps [simp]:
  "no_main_source (snd (add_source G d s)) \<longleftrightarrow> no_main_source s \<and> source_user_data d \<noteq> S_main"
  "no_main_source (s\<lparr>ml_sources := (i, d) # ml_sources t\<rparr>) \<longleftrightarrow> no_main_source t \<and> source_user_data d \<noteq> S_main"
  "no_main_source (s\<lparr>ml_sources := ml_sources t\<rparr>) \<longleftrightarrow> no_main_source t"
  "no_main_source (u\<lparr>cpg_retransmit_source_id := i\<rparr>) \<longleftrightarrow> no_main_source u"
  by (auto simp: no_main_source_def add_source_eq Let_def)

lemma no_main_cpg_send: "colod_cpg_send G m s = Some s' \<Longrightarrow> no_main_source s \<Longrightarrow> no_main_source s'"
  by (auto simp: colod_cpg_send_def Let_def add_source_eq no_main_source_def split: if_splits)

lemma no_main_retransmit:
  "colod_cpg_retransmit G s = Some (r, s') \<Longrightarrow> no_main_source s \<Longrightarrow> no_main_source s'"
proof -
  have "retransmit_loop G ms b s = Some (r, s') \<Longrightarrow> no_main_source s \<Longrightarrow> no_main_source s'" for ms b
    by (induction G ms b s rule: retransmit_loop.induct)
      (auto simp: bind_eq_Some_conv dest: no_main_cpg_send split: if_splits)
  then show "colod_cpg_retransmit G s = Some (r, s') \<Longrightarrow> no_main_source s \<Longrightarrow> no_main_source s'"
    by (auto simp: colod_cpg_retransmit_def)
qed

lemma no_main_refresh: "no_main_source s \<Longrightarrow> no_main_source (colod_watchdog_refresh G s)"
  by (auto simp: colod_watchdog_refresh_def Let_def split_beta no_main_source_def add_source_eq remove_source_def)

lemma no_main_watchdog:
  "colod_watchdog_co G cur s = Some s' \<Longrightarrow> no_main_source s \<Longrightarrow> no_main_source s'"
  "watchdog_health_done G ret s = Some s' \<Longrightarrow> no_main_source s \<Longrightarrow> no_main_source s'"
  by (auto simp: colod_watchdog_co_def watchdog_co_def watchdog_leave_def watchdog_loop_def bind_eq_Some_conv
      watchdog_health_done_def watchdog_checked_def add_source_eq Let_def no_main_source_def remove_source_def
      dest!: assert_remove_one_source_set split: watchdog_pc.splits if_splits)

lemma no_main_wait_cb:
  "qmp_wait_event_cb G J co result s = Some s' \<Longrightarrow> source_user_data co \<noteq> S_main \<Longrightarrow> no_main_source s \<Longrightarrow> no_main_source s'"
  by (auto simp: qmp_wait_event_cb_def qmp_del_notify_event_def bind_eq_Some_conv add_source_eq Let_def
      no_main_source_def split: if_splits)


lemma no_main_qmp_notify:
  assumes "qmp_notify_event (qmp_event_dispatch G J (qmp_callbacks_main G)) result s = Some s'"
    and "registered_in False False q s" and "no_main_source s"
  shows "no_main_source s'"
  using assms(1,3) unfolding qmp_notify_event_def
proof (rule foreach_preserves_mem [where P = no_main_source])
  fix c t t' assume c: "c \<in> set (qmp_event_callbacks s)"
    and t: "qmp_event_dispatch G J (qmp_callbacks_main G) c result t = Some t'" "no_main_source t"
  have "c \<noteq> CB_qmp_event" "c \<noteq> CB_wait_event S_main" "c \<noteq> CB_wait_event S_wake"
    using c assms(2) by (auto simp: registered_in_def)
  note c = this
  show "no_main_source t'"
  proof (cases c)
    case (CB_wait_event co)
    with c have "source_user_data co \<noteq> S_main" by (cases co) auto
    with t CB_wait_event no_main_wait_cb show ?thesis by simp
  qed (use t c in \<open>auto simp: colod_watchdog_event_cb_def no_main_refresh\<close>)
qed

text \<open>The link debouncer, which has nobody left to tell.\<close>

definition untold :: "'z YellowCoroutine_scheme \<Rightarrow> bool" where
  "untold s \<longleftrightarrow> no_main_source s \<and> yl_callbacks s = []"

lemma untold_simps [simp]:
  "untold (s\<lparr>yl_pc := pc\<rparr>) = untold s" "untold (s\<lparr>yl_quit := b\<rparr>) = untold s"
  "untold (s\<lparr>yl_listening := b\<rparr>) = untold s"
  "untold s \<Longrightarrow> untold (remove_source i s)"
  "untold s \<Longrightarrow> untold (s\<lparr>ml_sources := (i, S_yellow) # ml_sources s\<rparr>)"
  by (auto simp: untold_def no_main_source_def remove_source_def)

lemma untold_send:
  assumes "colod_cpg_send G m s = Some s'" and "untold s"
  shows "untold s'"
proof -
  obtain ss i fl out where "s' = s\<lparr>ml_sources := ss, cpg_retransmit_source_id := i, cpg_retransmit := fl, cpg_mcast := out\<rparr>"
    using cpg_send_update [OF assms(1)] by blast
  then have "yl_callbacks s' = yl_callbacks s" by simp
  with assms no_main_cpg_send [OF assms(1)] show ?thesis by (simp add: untold_def)
qed

lemma untold_notify: "untold s \<Longrightarrow> yellow_notify f e s = Some s' \<Longrightarrow> untold s'"
  by (simp add: untold_def yellow_notify_def)

lemma untold_delay_top:
  "delay_top G t e s = Some (r, s') \<Longrightarrow> untold s \<Longrightarrow> untold s'"
  by (auto simp: delay_top_def add_source_eq Let_def split: if_splits)

lemma untold_delay:
  assumes "yellow_delay_co G t d e s = Some (r, s')" and "untold s"
  shows "untold s'"
proof (cases d)
  case (D_wait1 i)
  show ?thesis
  proof (cases "e = None")
    case True
    with assms D_wait1 obtain s1 where "colod_cpg_send G (yellow_message t) s = Some s1"
      "s' = s1\<lparr>ml_sources := (g_attach G (map fst (ml_sources s1)), S_yellow) # ml_sources s1\<rparr>"
      by (auto simp: send_target_eq bind_eq_Some_conv add_source_eq Let_def)
    with untold_send assms(2) show ?thesis by fastforce
  qed (use assms D_wait1 untold_delay_top in \<open>fastforce split: if_splits\<close>)
next
  case (D_wait2 i)
  show ?thesis
  proof (cases "e = None \<or> e = Some t")
    case False
    with assms D_wait2 obtain s1 where "colod_cpg_send G (yellow_message (opposite t)) s = Some s1"
      "delay_top G t e (remove_source i s1) = Some (r, s')"
      by (auto simp: send_revert_eq bind_eq_Some_conv)
    with untold_send [OF _ assms(2)] untold_delay_top show ?thesis by fastforce
  qed (use assms D_wait2 in auto)
qed (use assms untold_delay_top in fastforce)+

lemma untold_in_delay:
  assumes "yellow_in_delay G f t d e s = Some s'" and "untold s"
  shows "untold s'"
proof -
  obtain r s1 where r: "yellow_delay_co G t d e s = Some (r, s1)"
    using assms(1) by (auto simp: yellow_in_delay_def bind_eq_Some_conv)
  with untold_delay [OF r assms(2)] assms(1) show ?thesis
    by (cases r) (auto simp: yellow_in_delay_def bind_eq_Some_conv dest: untold_notify split: if_splits)
qed

lemma untold_co_enter: "yellow_co_enter G f e s = Some s' \<Longrightarrow> untold s \<Longrightarrow> untold s'"
  by (cases "yl_pc s") (auto simp: yellow_co_enter_def dest: untold_in_delay)

lemma untold_link: "yellow_netlink_event_cb G f ifname up s = Some s' \<Longrightarrow> untold s \<Longrightarrow> untold s'"
  by (auto simp: yellow_netlink_event_cb_def yellow_queue_event_def bind_eq_Some_conv dest!: untold_co_enter
      split: option.splits if_splits)

lemma untold_timer: "yellow_timer_dispatch G f i s = Some s' \<Longrightarrow> untold s \<Longrightarrow> untold s'"
  by (auto simp: yellow_timer_dispatch_def yellow_co_def bind_eq_Some_conv dest!: untold_co_enter)

lemma no_main_raise:
  assumes "colod_raise_timeout_co G J cur s = Some s'" and "no_main_source s"
  shows "no_main_source s'"
proof -
  obtain pc where pc: "rt_co s = Some pc" using assms by (cases "rt_co s") (auto simp: colod_raise_timeout_co_def)
  with assms obtain r s1 where r: "raise_timeout_co G J cur pc s = Some (r, s1)"
    by (auto simp: colod_raise_timeout_co_def bind_eq_Some_conv)
  have start: "ml_sources t' = ml_sources t" if "qmp_wait_event_begin G J S_raise 0 m t = Some (i, t')" for m i t t'
    using wait_begin_facts [OF that] by simp
  have finish: "ml_sources t' = ml_sources t" if "qmp_wait_event_end S_raise 0 0 m cur t = Some (ret, t')" for m ret t t'
    using that by (auto simp: qmp_wait_event_end_def qmp_del_notify_event_def bind_eq_Some_conv Let_def split: if_splits)
  have "ml_sources s1 = ml_sources s"
  proof (cases pc)
    case R_start
    with r show ?thesis by (auto simp: raise_timeout_co_def bind_eq_Some_conv dest: start)
  next
    case R_wait_stop
    with r obtain ret s2 where 2: "qmp_wait_event_end S_raise 0 0 event_stop cur s = Some (ret, s2)"
      by (auto simp: raise_timeout_co_def bind_eq_Some_conv)
    with finish [OF 2] r R_wait_stop show ?thesis
      by (cases ret) (auto simp: raise_timeout_co_def bind_eq_Some_conv dest: start)
  next
    case R_wait_resume
    with r show ?thesis by (auto simp: raise_timeout_co_def bind_eq_Some_conv dest: finish)
  qed
  with assms pc r show ?thesis
    by (cases r) (auto simp: colod_raise_timeout_co_def bind_eq_Some_conv qmp_set_timeout_def no_main_source_def
        remove_source_def dest!: assert_remove_one_source_set)
qed


text \<open>
  What QEMU, the process group, the link and the timers bring attaches no source of the coroutine
  again.
\<close>

fun on_its_own :: "main_input \<Rightarrow> bool" where
  "on_its_own (Dispatch cur outs) = True"
| "on_its_own (Cpg_message nodeid msg) = True"
| "on_its_own (Cpg_left n) = True"
| "on_its_own Cpg_tick = True"
| "on_its_own (Qmp_event result) = True"
| "on_its_own Qmp_hup = True"
| "on_its_own (Link_change ifname up) = True"
| "on_its_own (Yellow_timer i) = True"
| "on_its_own (Raise_resume i) = True"
| "on_its_own (Watchdog_resume i) = True"
| "on_its_own (Watchdog_checked ret) = True"
| "on_its_own _ = False"

lemma no_main_step:
  assumes step: "main_step G J myid inp s = Some s'" and own: "on_its_own inp"
    and det: "main_detached s"
  shows "no_main_source s'"
proof -
  have s: "no_main_source s" "registered_in False False True s" and lists: "qmp_hup_callbacks s = []"
    "cpg_callbacks s = []" "yl_callbacks s = []"
    using det detached_lists by (auto simp: main_detached_def)
  have untold: "untold s" using s(1) lists(3) by (simp add: untold_def)
  show ?thesis
  proof (cases inp)
    case (Dispatch cur outs)
    have "map_of (ml_sources s) cur \<noteq> Some S_main" "map_of (ml_sources s) cur \<noteq> Some S_wake"
      using s(1) by (fastforce simp: no_main_source_def dest!: map_of_SomeD)+
    with step Dispatch s(1) show ?thesis
      by (auto simp: main_step_def main_dispatch_def split: option.splits source.splits)
  next
    case (Cpg_message nodeid msg)
    with step s(1) lists(2) show ?thesis
      by (auto simp: main_step_def colod_cpg_deliver_def cpg_notify_def Let_def bind_eq_Some_conv
          no_main_source_def split: if_splits)
  next
    case (Cpg_left n)
    have "cpg_callbacks t = []" if "colod_cpg_retransmit G s = Some (r, t)" for r t
      using same.cpg_retransmit [OF that, of s] lists(2) by (simp add: registrations_def)
    with Cpg_left step s(1) show ?thesis
      by (auto simp: main_step_def colod_cpg_confchg_def cpg_notify_def bind_eq_Some_conv
          dest: no_main_retransmit split: if_splits)
  next
    case Cpg_tick
    with step s(1) show ?thesis
      by (auto simp: main_step_def cpg_retransmit_dispatch_def colod_cpg_retransmit_cb_def bind_eq_Some_conv
          dest!: no_main_retransmit split: if_splits)
  next
    case (Qmp_event result)
    with step s no_main_qmp_notify show ?thesis by (auto simp: main_step_def)
  next
    case Qmp_hup
    with step s(1) lists(1) show ?thesis
      by (auto simp: main_step_def qmp_hup_cb_def qmp_notify_hup_def no_main_source_def)
  next
    case (Link_change ifname up)
    with step s(1) show ?thesis
      by (auto simp: main_step_def untold_def dest: untold_link [OF _ untold] split: if_splits)
  next
    case (Yellow_timer i)
    with step s(1) show ?thesis
      by (auto simp: main_step_def untold_def dest: untold_timer [OF _ untold] split: if_splits)
  next
    case (Raise_resume i)
    with step s(1) no_main_raise show ?thesis by (auto simp: main_step_def split: if_splits)
  next
    case (Watchdog_resume i)
    with step s(1) no_main_watchdog show ?thesis by (auto simp: main_step_def split: if_splits)
  next
    case (Watchdog_checked ret)
    with step s(1) no_main_watchdog show ?thesis by (auto simp: main_step_def split: if_splits)
  qed (use own in simp_all)
qed


lemma main_done_dispatch:
  assumes "main_dispatch G J cur outs s = Some s'" and "no_main_source s"
  shows "s' = s"
proof -
  have "map_of (ml_sources s) cur \<noteq> Some S_main" "map_of (ml_sources s) cur \<noteq> Some S_wake"
    using assms(2) by (fastforce simp: no_main_source_def dest!: map_of_SomeD)+
  with assms(1) show ?thesis by (auto simp: main_dispatch_def split: option.splits source.splits)
qed

lemma registrations_guest: "guest_move s s' \<Longrightarrow> registrations s' = registrations s"
proof -
  assume "guest_move s s'"
  then obtain m where "s' = MainCoroutine.more_update m (s\<lparr>ml_sources := ml_sources s'\<rparr>)"
    by (auto simp: guest_move_def)
  moreover have "registrations (MainCoroutine.more_update m (s\<lparr>ml_sources := ss\<rparr>)) = registrations s" for ss
    by (simp add: registrations_def)
  ultimately show ?thesis by metis
qed

lemma mc_pc_guest: "guest_move s s' \<Longrightarrow> mc_pc s' = mc_pc s"
  using guest_move_frame(1) [of s s'] by (simp add: main_core_def)

lemma guest_registered: "guest_move s s' \<Longrightarrow> registered_ok b s \<Longrightarrow> registered_ok b s'"
  using registrations_guest [of s s'] mc_pc_guest [of s s'] by (auto simp: registered_ok_def intro: registered_same)

end
