(* ===== verification/Teardown.thy ===== *)
theory Teardown
  imports Daemon Main_Registered
begin

text \<open>
  The end of \<^verbatim>\<open>daemon_mainloop\<close> of \<^verbatim>\<open>daemon.c\<close>: the components are released one after the
  other, and several of them run the main loop until they have come to rest. The theory proves
  that nothing of the daemon's own refers to the main coroutine any more once it is freed, and
  shows three runs in which the order of the release goes wrong.
\<close>

subsection \<open>The release of the components\<close>

text \<open>
  The order in which \<open>daemon_mainloop\<close> releases the components after the main loop has ended.
  \<open>colod_main_free\<close> has two loops, the one of \<open>colod_raise_timeout_coroutine_free\<close> and its own.
\<close>

datatype component = Raise_coroutine | Main_coroutine | Process_group | Watchdog_coroutine | Client_listener
  | Command_lists | Qmp_state

definition release_order :: "component list" where
  "release_order = [Raise_coroutine, Main_coroutine, Process_group, Watchdog_coroutine, Client_listener,
     Command_lists, Qmp_state]"

text \<open>
  What releasing a component does up to its loop, and when its loop ends; a component without a
  loop is released at once. The list of the process group goes with it, those of the commands
  are JSON nodes.
\<close>

definition release_begin ::
    "Event glib \<Rightarrow> component \<Rightarrow> 'z ClientListener_scheme \<Rightarrow> 'z ClientListener_scheme abortable" where
  "release_begin G c s = (case c of
     Raise_coroutine \<Rightarrow> colod_main_free G s
   | Main_coroutine \<Rightarrow> Some s
   | Process_group \<Rightarrow> Some (cpg_free s)
   | Watchdog_coroutine \<Rightarrow> colo_watchdog_free G s
   | Client_listener \<Rightarrow> Some (client_listener_free s)
   | Command_lists \<Rightarrow> Some s
   | Qmp_state \<Rightarrow> Some (qmp_free s))"

definition released :: "component \<Rightarrow> 'z ClientListener_scheme \<Rightarrow> bool" where
  "released c s = (case c of
     Raise_coroutine \<Rightarrow> rt_co s = None
   | Main_coroutine \<Rightarrow> mc_quit s
   | Process_group \<Rightarrow> True
   | Watchdog_coroutine \<Rightarrow> wd_interval s = 0 \<or> wd_pc s = W_done
   | Client_listener \<Rightarrow> ls_clients s = []
   | Command_lists \<Rightarrow> True
   | Qmp_state \<Rightarrow> qmp_inflight s = 0)"

text \<open>
  An iteration of the main loop dispatches some sources, one after the other; only then the loop
  looks at its condition again.
\<close>

fun dispatched :: "daemon_input \<Rightarrow> bool" where
  "dispatched (Main_input inp) = (inp \<noteq> Teardown)"
| "dispatched Close_listener = False"
| "dispatched _ = True"

fun main_iteration ::
    "Event glib \<Rightarrow> json_glib \<Rightarrow> guint \<Rightarrow> daemon_input list \<Rightarrow> 'z ClientListener_scheme \<Rightarrow>
     'z ClientListener_scheme abortable" where
  "main_iteration G J myid [] s = Some s"
| "main_iteration G J myid (i # is) s = do { s' \<leftarrow> daemon_step G J myid i s; main_iteration G J myid is s' }"

text \<open>
  The states the release goes through, from the state \<open>s0\<close> in which the main loop has ended: the
  component being released with those still to come, and the inputs, the last first.
\<close>

inductive teardown_reach ::
    "Event glib \<Rightarrow> json_glib \<Rightarrow> guint \<Rightarrow> 'z ClientListener_scheme \<Rightarrow> component list \<Rightarrow> daemon_input list \<Rightarrow>
     'z ClientListener_scheme \<Rightarrow> bool"
  for G J myid s0 where
  start: "release_begin G Raise_coroutine s0 = Some s \<Longrightarrow> teardown_reach G J myid s0 release_order [] s"
| iterate: "teardown_reach G J myid s0 (c # cs) h s \<Longrightarrow> \<not> released c s \<Longrightarrow>
     list_all dispatched is \<Longrightarrow> main_iteration G J myid is s = Some s' \<Longrightarrow> teardown_reach G J myid s0 (c # cs) (rev is @ h) s'"
| release: "teardown_reach G J myid s0 (c # c' # cs) h s \<Longrightarrow> released c s \<Longrightarrow>
     release_begin G c' s = Some s' \<Longrightarrow> teardown_reach G J myid s0 (c' # cs) h s'"

subsection \<open>Releasing the main coroutine\<close>

lemma no_main_listen:
  fixes s :: "'z ClientListener_scheme"
  assumes "no_main_source s"
  shows "no_main_source (client_listener_new_client G cur as s)"
proof -
  have new: "no_main_source (snd (client_new G e t))" if "no_main_source t" for G :: "'e glib" and e and t :: "'z ClientListener_scheme"
    using that by (auto simp: client_new_def Let_def no_main_source_def add_source_eq split: option.splits)
  have closed: "no_main_source (t\<lparr>ls_listen_source_id := i, ls_socket := u\<rparr>) = no_main_source t"
    for i u and t :: "'z ClientListener_scheme" by (simp add: no_main_source_def)
  have "accept_loop G as s = (b, s') \<Longrightarrow> no_main_source s \<Longrightarrow> no_main_source s'" for b s'
    by (induction G as s rule: accept_loop.induct) (auto simp: new closed)
  with assms show ?thesis by (auto simp: client_listener_new_client_def split: prod.splits)
qed

text \<open>What the daemon does while it is released, apart from the requests of clients and health checks.\<close>

fun undisturbed :: "daemon_input \<Rightarrow> bool" where
  "undisturbed (Main_input inp) = (\<not> by_client inp)"
| "undisturbed (Client_input cur io outs) = False"
| "undisturbed (Listen_input cur as) = True"
| "undisturbed Close_listener = True"

definition releasing :: "'z MainCoroutine_scheme \<Rightarrow> bool" where
  "releasing s \<longleftrightarrow> registered_ok False s \<and> (mc_pc s = PC_done \<longrightarrow> no_main_source s)"

lemma detached_iff: "main_detached s \<longleftrightarrow> releasing s \<and> mc_pc s = PC_done"
  by (auto simp: main_detached_def releasing_def registered_ok_def)

lemma releasing_step:
  assumes "daemon_step G J myid inp s = Some s'" and "undisturbed inp" and "dispatched inp" and "releasing s"
  shows "releasing s'" and "mc_pc s = PC_done \<Longrightarrow> mc_pc s' = PC_done"
proof -
  have "releasing s' \<and> (mc_pc s = PC_done \<longrightarrow> mc_pc s' = PC_done)"
  proof (cases inp)
    case (Main_input i)
    show ?thesis
    proof (cases "internal i")
      case False
      with assms Main_input have step: "main_step G J myid i s = Some s'" and "\<not> by_client i" "i \<noteq> Teardown" by auto
      with False have "on_its_own i" by (cases i) auto
      note no_main = no_main_step [OF step this]
      show ?thesis
      proof (cases "\<exists>cur outs. i = Dispatch cur outs")
        case True
        then obtain cur outs where "main_dispatch G J cur outs s = Some s'" using step by (auto simp: main_step_def)
        moreover from this have "mc_pc s = PC_done \<Longrightarrow> s' = s"
          using main_done_dispatch assms(4) by (auto simp: releasing_def)
        ultimately show ?thesis
          using registered_dispatch [of G J cur outs s s' False] assms(4) by (auto simp: releasing_def)
      next
        case False
        have "main_core s' = main_core s" by (rule main_step_core [OF step False])
        then have "mc_pc s' = mc_pc s" by (simp add: main_core_def)
        with registered_ok_step [OF step False] no_main assms(4) detached_iff [of s] show ?thesis
          by (auto simp: releasing_def)
      qed
    qed (use assms Main_input in auto)
  next
    case (Listen_input cur as)
    with assms(1) have "guest_move s s'" "no_main_source s \<Longrightarrow> no_main_source s'"
      by (auto simp: new_client_guest(1) no_main_listen)
    with assms(4) guest_registered [of s s'] mc_pc_guest [of s s'] show ?thesis by (simp add: releasing_def)
  qed (use assms in auto)
  then show "releasing s'" and "mc_pc s = PC_done \<Longrightarrow> mc_pc s' = PC_done" by auto
qed


subsection \<open>The order of the release\<close>

lemma releasing_iteration:
  assumes "main_iteration G J myid is s = Some s'" and "list_all undisturbed is" and "list_all dispatched is"
    and "releasing s"
  shows "releasing s' \<and> (mc_pc s = PC_done \<longrightarrow> mc_pc s' = PC_done)"
  using assms
proof (induction "is" arbitrary: s)
  case (Cons i "is")
  then obtain s1 where 1: "daemon_step G J myid i s = Some s1" "main_iteration G J myid is s1 = Some s'"
    by (auto simp: bind_eq_Some_conv)
  with releasing_step [OF 1(1)] Cons.prems Cons.IH [OF 1(2)] show ?case by auto
qed simp

lemma registered_upd_sources [simp]:
  "registered_in b w q (s\<lparr>ml_sources := ss\<rparr>) = registered_in b w q s"
  "registered_ok b (s\<lparr>ml_sources := ss\<rparr>) = registered_ok b s"
  by (simp_all add: registered_in_def registered_ok_def)

lemma detached_release:
  assumes "release_begin G c s = Some s'" and "c \<noteq> Raise_coroutine" and "main_detached s"
  shows "main_detached s'"
proof -
  have reg: "registered_in False False True s" and src: "no_main_source s" and pc: "mc_pc s = PC_done"
    using assms(3) by (simp_all add: main_detached_def)
  show ?thesis
  proof (cases c)
    case Process_group
    with assms(1) have s': "s' = cpg_free s" by (simp add: release_begin_def)
    show ?thesis
      using reg src pc
      by (cases "cpg_retransmit_source_id s = 0")
        (simp_all add: s' cpg_free_def Let_def main_detached_def registered_in_def no_main_source_def remove_source_def)
  next
    case Watchdog_coroutine
    with assms(1) have free: "colo_watchdog_free G s = Some s'" by (simp add: release_begin_def)
    show ?thesis
    proof (cases "wd_interval s = 0")
      case False
      with free obtain s1 where s1: "qmp_del_notify_event CB_watchdog_event (s\<lparr>wd_quit := True\<rparr>) = Some s1"
        "s' = (if wd_timer_id s1 \<noteq> 0
          then snd (add_source G S_watchdog ((remove_source (wd_timer_id s1) s1)\<lparr>wd_timer_id := 0\<rparr>)) else s1)"
        by (auto simp: colo_watchdog_free_def bind_eq_Some_conv Let_def split_beta)
      have "registered_in False False True s1" using registered_del(1) [OF _ s1(1)] reg by simp
      moreover have "mc_pc s1 = mc_pc s" "ml_sources s1 = ml_sources s"
        using s1(1) by (auto simp: qmp_del_notify_event_def bind_eq_Some_conv)
      ultimately show ?thesis
        using s1(2) pc src
        by (auto simp: main_detached_def add_source_eq Let_def no_main_source_def remove_source_def)
    qed (use free assms(3) in \<open>simp add: colo_watchdog_free_def\<close>)
  next
    case Client_listener
    with assms(1) have s': "s' = client_listener_free s" by (simp add: release_begin_def)
    have "no_main_source s'"
      using src by (auto simp: s' client_listener_free_def Let_def no_main_source_def remove_source_def)
    with registrations_guest [OF listener_guest(2) [of s]] mc_pc_guest [OF listener_guest(2) [of s]] reg pc show ?thesis
      by (auto simp: s' main_detached_def intro: registered_same)
  next
    case Qmp_state
    with assms(1) have s': "s' = qmp_free s" by (simp add: release_begin_def)
    show ?thesis
      using reg src pc
      by (cases "qmp_hup_source_id s = 0")
        (simp_all add: s' qmp_free_def Let_def main_detached_def registered_in_def no_main_source_def remove_source_def)
  qed (use assms in \<open>auto simp: release_begin_def\<close>)
qed

lemma teardown_cases:
  assumes "teardown_reach G J myid s0 cs h s"
  shows "\<exists>n. cs = drop n release_order \<and> n < length release_order"
  using assms
proof (induction rule: teardown_reach.induct)
  case (start s)
  show ?case by (rule exI [of _ 0]) (simp add: release_order_def)
next
  case (release c c' cs h s s')
  then obtain n where "c # c' # cs = drop n release_order" by blast
  then have "c' # cs = drop (Suc n) release_order" "Suc n < length release_order"
    by (metis drop_Suc tl_drop list.sel(3), metis drop_all leI list.distinct(1) drop_Suc tl_drop list.sel(3))
  then show ?case by blast
qed simp

lemma teardown_next:
  assumes "teardown_reach G J myid s0 (c # c' # cs) h s"
  shows "c' \<noteq> Raise_coroutine" and "Main_coroutine \<in> set (c # c' # cs) \<Longrightarrow> Main_coroutine \<notin> set (c' # cs) \<Longrightarrow> c = Main_coroutine"
    and "Main_coroutine \<in> set (c' # cs) \<Longrightarrow> c' = Main_coroutine"
  using teardown_cases [OF assms]
  by (auto simp: release_order_def less_Suc_eq numeral_eq_Suc)

lemma teardown_releasing:
  assumes "teardown_reach G J myid s0 cs h s" and "list_all undisturbed h" and "registered_ok b s0" and "mc_pc s0 \<noteq> PC_done"
  shows "releasing s \<and> (Main_coroutine \<notin> set cs \<longrightarrow> mc_pc s = PC_done)"
  using assms
proof (induction rule: teardown_reach.induct)
  case (start s)
  then have free: "main_step G J 0 Teardown s0 = Some s" by (simp add: main_step_def release_begin_def)
  have "main_core s = main_core s0" by (rule main_step_core [OF free]) simp
  then have pc: "mc_pc s = mc_pc s0" by (simp add: main_core_def)
  have "registered_in False (waits_for_qmp (mc_pc s0)) False s"
    by (rule registered_main_free [of G s0 s b])
      (use start free in \<open>auto simp: main_step_def registered_ok_def\<close>)
  with pc start.prems(3) show ?case by (simp add: releasing_def registered_ok_def release_order_def)
next
  case (iterate c cs h s "is" s')
  then have "releasing s \<and> (Main_coroutine \<notin> set (c # cs) \<longrightarrow> mc_pc s = PC_done)" by simp
  with releasing_iteration [OF iterate.hyps(4)] iterate.prems(1) iterate.hyps(3) show ?case
    by (auto simp: list_all_iff)
next
  case (release c c' cs h s s')
  then have IH: "releasing s" "Main_coroutine \<notin> set (c # c' # cs) \<longrightarrow> mc_pc s = PC_done" by simp_all
  note nxt = teardown_next [OF release.hyps(1)]
  show ?case
  proof (cases "Main_coroutine \<in> set (c' # cs)")
    case True
    with nxt have "c' = Main_coroutine" by blast
    with release.hyps(3) IH True show ?thesis by (simp add: release_begin_def)
  next
    case False
    have "mc_pc s = PC_done"
    proof (cases "Main_coroutine \<in> set (c # c' # cs)")
      case True
      with nxt(2) False have "c = Main_coroutine" by blast
      with release.hyps(2) IH(1) show ?thesis
        by (auto simp: released_def releasing_def registered_ok_def registered_in_def)
    qed (use IH(2) in blast)
    with IH(1) have "main_detached s" by (simp add: detached_iff)
    with detached_release [OF release.hyps(3) nxt(1)] show ?thesis by (simp add: detached_iff)
  qed
qed


subsection \<open>From the start of the daemon\<close>

lemma registered_reach:
  "main_reach G J myid s0 h s \<Longrightarrow> registered_ok b s0 \<Longrightarrow> registered_ok b s"
proof (induction rule: main_reach.induct)
  case (step h s inp s')
  then show ?case
  proof (cases "\<exists>cur outs. inp = Dispatch cur outs")
    case True
    then obtain cur outs where "main_dispatch G J cur outs s = Some s'"
      using step.hyps(2) by (auto simp: main_step_def)
    with step registered_dispatch show ?thesis by blast
  qed (auto intro: registered_ok_step)
qed (auto intro: guest_registered)

lemma registered_daemon_reach:
  "daemon_reach G J myid s0 h s \<Longrightarrow> registered_ok b s0 \<Longrightarrow> registered_ok b s"
proof (induction rule: daemon_reach.induct)
  case (step h s inp s')
  from daemon_step_reach [OF main_reach.start step.hyps(2)] obtain h' where "main_reach G J myid s h' s'" by blast
  with registered_reach step show ?case by blast
qed

lemma registered_main_new:
  assumes new: "colod_main_new G n r monitor ctx = Some (True, s)" and "qmp_event_callbacks ctx = []"
    and "qmp_hup_callbacks ctx = []" and "cpg_callbacks ctx = []"
  shows "registered_ok True s"
proof -
  obtain ok s1 where 1: "yellow_coroutine_new G (yellow_callbacks G) n r monitor 500 1000 ctx = Some (ok, s1)"
    using new unfolding colod_main_new_def by (auto elim: bind_SomeE)
  then have "ok" using new by (auto simp: colod_main_new_def split: if_splits)
  with 1 have s1: "qmp_event_callbacks s1 = [] \<and> qmp_hup_callbacks s1 = [] \<and> cpg_callbacks s1 = [] \<and>
      yl_callbacks s1 = []"
    using assms(2-4) by (auto simp: yellow_coroutine_new_def Let_def bind_eq_Some_conv split: if_splits)
  then show ?thesis
    using new 1 \<open>ok\<close>
    by (auto simp: colod_main_new_def Let_def bind_eq_Some_conv qmp_add_notify_event_def qmp_add_notify_hup_def
        colod_cpg_add_notify_def yellow_add_notify_def colod_callback_add_def add_source_eq registered_ok_def
        registered_in_def)
qed

lemma daemon_begin_registered:
  assumes "daemon_mainloop_begin G J a monitor interval ctx = Some (Running s0)" and "cpg_callbacks ctx = []"
  shows "registered_ok True s0"
proof -
  from daemon_begin_parts [OF assms(1)] obtain s1 s2 commands s3
    where qmp: "qmp_new G (da_channel_error a) (da_yank_error a) (cx_qmp_timeout_low ctx) ctx = Some (Inr (), s1)"
    and cpg: "cpg_new G (da_cpg_fd a) s1 = (Inr (), s2)"
    and main: "colod_main_new G (da_netlink a) (da_netlink_request a) monitor (s2\<lparr>cx_commands := commands\<rparr>) =
      Some (True, s3)"
    and wd: "colod_watchdog_new G interval (client_listener_new G s3) = Some s0"
    by blast
  have "qmp_event_callbacks s1 = [] \<and> qmp_hup_callbacks s1 = [] \<and> cpg_callbacks s1 = cpg_callbacks ctx"
    using qmp by (auto simp: qmp_new_def qmp_handshake_coroutine_def qmp_event_coroutine_def qmp_set_lock_def
        qmp_set_chan_def bind_eq_Some_conv Let_def add_source_eq split: option.splits if_splits)
  moreover have "qmp_event_callbacks s2 = qmp_event_callbacks s1 \<and> qmp_hup_callbacks s2 = qmp_hup_callbacks s1 \<and>
      cpg_callbacks s2 = cpg_callbacks s1"
    using cpg by (auto simp: cpg_new_def add_source_eq Let_def split: if_splits)
  ultimately have "registered_ok True s3" using registered_main_new [OF main] assms(2) by simp
  then have 4: "registered_ok True (client_listener_new G s3)" by (rule guest_registered [OF listener_guest(1)])
  have "main_step G J 0 (Start_watchdog interval) (client_listener_new G s3) = Some s0"
    using wd by (simp add: main_step_def)
  from registered_ok_step [OF this _ 4] show ?thesis by simp
qed



subsection \<open>What can still go wrong\<close>

text \<open>Concrete releases: iterations of the main loop, and the step to the next component.\<close>

datatype release_step = Iterate "daemon_input list" | Release

fun teardown_run ::
    "release_step list \<Rightarrow> component list \<Rightarrow> ClientListener \<Rightarrow> (component list \<times> ClientListener) option" where
  "teardown_run [] cs s = Some (cs, s)"
| "teardown_run (Iterate is # steps) (c # cs) s =
     (if \<not> released c s \<and> list_all dispatched is
      then do { s' \<leftarrow> main_iteration ref_glib daemon_json 1 is s; teardown_run steps (c # cs) s' } else None)"
| "teardown_run (Release # steps) (c # c' # cs) s =
     (if released c s then do { s' \<leftarrow> release_begin ref_glib c' s; teardown_run steps (c' # cs) s' } else None)"
| "teardown_run (step # steps) cs s = None"

fun step_inputs :: "release_step \<Rightarrow> daemon_input list" where
  "step_inputs (Iterate is) = is"
| "step_inputs Release = []"

lemma teardown_run_reach:
  "teardown_run steps cs s = Some (cs', s') \<Longrightarrow> teardown_reach ref_glib daemon_json 1 s0 cs h s \<Longrightarrow>
     teardown_reach ref_glib daemon_json 1 s0 cs' (rev (concat (map step_inputs steps)) @ h) s'"
proof (induction steps cs s arbitrary: h rule: teardown_run.induct)
  case (2 "is" steps c cs s)
  then obtain s1 where 1: "\<not> released c s" "list_all dispatched is" "main_iteration ref_glib daemon_json 1 is s = Some s1"
    "teardown_run steps (c # cs) s1 = Some (cs', s')"
    by (auto simp: bind_eq_Some_conv split: if_splits)
  from "2.IH" [OF _ 1(3,4) teardown_reach.iterate [OF "2.prems"(2) 1(1-3)]] 1(1,2) show ?case by simp
next
  case (3 steps c c' cs s)
  then obtain s1 where 1: "released c s" "release_begin ref_glib c' s = Some s1" "teardown_run steps (c' # cs) s1 = Some (cs', s')"
    by (auto simp: bind_eq_Some_conv split: if_splits)
  from "3.IH" [OF 1(1,2,3) teardown_reach.release [OF "3.prems"(2) 1(1,2)]] show ?case by simp
qed auto

definition release_run ::
    "bool \<Rightarrow> daemon_input list \<Rightarrow> release_step list \<Rightarrow> (ClientListener \<times> component list \<times> ClientListener) option" where
  "release_run primary is steps = do {
     s0 \<leftarrow> daemon_start primary;
     s \<leftarrow> daemon_run is s0;
     t \<leftarrow> release_begin ref_glib Raise_coroutine s;
     (cs, t') \<leftarrow> teardown_run steps release_order t;
     Some (s, cs, t') }"

lemma release_example:
  assumes "map_option f (release_run p is steps) = Some x"
  shows "\<exists>s0 s cs t.
    daemon_mainloop_begin ref_glib daemon_json daemon_ok None 1000 (daemon_ctx p) = Some (Running s0) \<and>
    daemon_reach ref_glib daemon_json 1 s0 (rev is) s \<and>
    teardown_reach ref_glib daemon_json 1 s cs (rev (concat (map step_inputs steps))) t \<and> f (s, cs, t) = x"
proof -
  obtain s0 s t cs t' where r: "daemon_start p = Some s0" "daemon_run is s0 = Some s"
    "release_begin ref_glib Raise_coroutine s = Some t" "teardown_run steps release_order t = Some (cs, t')"
    "f (s, cs, t') = x"
    using assms by (auto simp: release_run_def bind_eq_Some_conv)
  have "daemon_mainloop_begin ref_glib daemon_json daemon_ok None 1000 (daemon_ctx p) = Some (Running s0)"
    using r(1) by (auto simp: daemon_start_def split: option.splits daemon_result.splits)
  moreover have "daemon_reach ref_glib daemon_json 1 s0 (rev is) s"
    using daemon_run_reach [OF daemon_reach.start r(2)] by simp
  moreover have "teardown_reach ref_glib daemon_json 1 s cs (rev (concat (map step_inputs steps))) t'"
    using teardown_run_reach [OF r(4) teardown_reach.start [OF r(3)]] by simp
  ultimately show ?thesis using r(5) by blast
qed

definition secondary_waits :: "daemon_input list" where
  "secondary_waits = [Main_input (Dispatch 7 [Exec (Exec_ok False \<lparr>qr_json_root = JObject [], qr_line = []\<rparr>)])]"

definition resumes :: daemon_input where
  "resumes = Main_input (Qmp_event (JObject [(''event'', JString ''RESUME'')]))"

definition main_runs :: "guint \<Rightarrow> daemon_input" where
  "main_runs i = Main_input (Dispatch i [])"


text \<open>
  A secondary that waits for RESUME when its release begins: the event that arrives in the loop of
  \<open>colod_main_free\<close> attaches a second source. The wake-up, attached first, finds the wait answered
  and runs the coroutine to its end, where two sources are left and the assertion aborts.
\<close>

lemma resume_aborts_release:
  "\<exists>s0 s t. daemon_mainloop_begin ref_glib daemon_json daemon_ok None 1000 (daemon_ctx False) = Some (Running s0) \<and>
    daemon_reach ref_glib daemon_json 1 s0 secondary_waits s \<and>
    teardown_reach ref_glib daemon_json 1 s (drop 1 release_order) [resumes] t \<and>
    map_of (ml_sources t) 7 = Some S_wake \<and> main_iteration ref_glib daemon_json 1 [main_runs 7] t = None"
proof -
  have "map_option (\<lambda>(s, cs, t). (cs, map_of (ml_sources t) 7, main_iteration ref_glib daemon_json 1 [main_runs 7] t = None))
      (release_run False secondary_waits [Release, Iterate [resumes]]) = Some (drop 1 release_order, Some S_wake, True)"
    by code_simp
  from release_example [OF this] show ?thesis
    by (auto simp: secondary_waits_def)
qed

text \<open>
  When the event has arrived before, the coroutine enters COLO and starts another raise-timeout
  coroutine, whose release is already over: it keeps a pointer into the freed main coroutine.
\<close>

lemma raise_coroutine_outlives_main:
  "\<exists>s0 s t. daemon_mainloop_begin ref_glib daemon_json daemon_ok None 1000 (daemon_ctx False) = Some (Running s0) \<and>
    daemon_reach ref_glib daemon_json 1 s0 (resumes # secondary_waits) s \<and>
    teardown_reach ref_glib daemon_json 1 s (drop 2 release_order) [main_runs 11, main_runs 7] t \<and>
    rt_co t = Some R_start \<and> sources_of S_raise (ml_sources t) \<noteq> []"
proof -
  have "map_option (\<lambda>(s, cs, t). (cs, rt_co t, sources_of S_raise (ml_sources t) = []))
      (release_run False (secondary_waits @ [resumes]) [Release, Iterate [main_runs 7, main_runs 11], Release]) =
      Some (drop 2 release_order, Some R_start, False)"
    by code_simp
  from release_example [OF this] show ?thesis
    by (auto simp: secondary_waits_def)
qed

text \<open>
  A client whose request arrives while the watchdog is released queues an event in the main
  coroutine, which has been freed, and attaches a source for it.
\<close>

lemma client_writes_released_main:
  "\<exists>s0 s t t' h. daemon_mainloop_begin ref_glib daemon_json daemon_ok None 1000 (daemon_ctx True) = Some (Running s0) \<and>
    daemon_reach ref_glib daemon_json 1 s0 h s \<and>
    teardown_reach ref_glib daemon_json 1 s (drop 3 release_order) [main_runs 11] t \<and>
    main_iteration ref_glib daemon_json 1 [last autoquit_example] t = Some t' \<and>
    mc_trace t' = mc_trace t @ [Queued EVENT_AUTOQUIT] \<and> sources_of S_wake (ml_sources t') \<noteq> []"
proof -
  have "map_option (\<lambda>(s, cs, t). (cs, map_option (\<lambda>t'. (mc_trace t' = mc_trace t @ [Queued EVENT_AUTOQUIT],
        sources_of S_wake (ml_sources t') = [])) (main_iteration ref_glib daemon_json 1 [last autoquit_example] t)))
      (release_run True (butlast autoquit_example) [Release, Iterate [main_runs 11], Release, Release]) =
      Some (drop 3 release_order, Some (True, False))"
    by code_simp
  from release_example [OF this] show ?thesis by auto
qed

end
