(* ===== verification/Posix.thy ===== *)
theory Posix
  imports Util
begin

text \<open>
  System calls, and the functions around them of \<^verbatim>\<open>util.c\<close> and \<^verbatim>\<open>qemu_util.c\<close>: connecting to
  a socket, whole reads and writes, the PID file and the way into the background.
\<close>

subsection \<open>System calls\<close>

text \<open>
  What the kernel answers is input: the \<open>n\<close>th call gets the \<open>n\<close>th answer, its result and a
  value, which is the error number when the call failed and otherwise what the call stores (the
  inode of a file, the second descriptor of a pipe). \<open>os_errno\<close> is the variable of the C library,
  set by failing calls only; \<open>os_fds\<close> are the open descriptors; \<open>os_input\<close> is what is still to be
  read from a descriptor; \<open>os_log\<close> is output, the calls in order.
\<close>

datatype os_call =
    Sys_open string | Sys_close int | Sys_write int string | Sys_read int string | Sys_socket
  | Sys_connect int string | Sys_bind int string | Sys_listen int | Sys_unlink string
  | Sys_getfl int | Sys_setfl int guint | Sys_fstat int | Sys_lock int | Sys_stat string
  | Sys_truncate int | Sys_getpid | Sys_pipe | Sys_fork | Sys_setsid | Sys_chdir string
  | Sys_open_max | Sys_dup int | Cpg_initialize | Cpg_join string

record os =
  os_answer :: "nat \<Rightarrow> int \<times> int"
  os_strerror :: "int \<Rightarrow> string"
  os_time :: nat
  os_errno :: int
  os_fds :: "int list"
  os_input :: "int \<Rightarrow> string"
  os_log :: "os_call list"

definition EINTR :: int where
  "EINTR = 4"

definition sys_answered :: "os_call \<Rightarrow> int \<Rightarrow> int \<Rightarrow> os \<Rightarrow> os" where
  "sys_answered call ret errno s = s\<lparr>os_time := Suc (os_time s),
     os_errno := (if ret < 0 then errno else os_errno s), os_log := os_log s @ [call]\<rparr>"

definition sys :: "os_call \<Rightarrow> os \<Rightarrow> int \<times> int \<times> os" where
  "sys call s = (case os_answer s (os_time s) of (r, value) \<Rightarrow>
     (let ret = max (-1) r in (ret, value, sys_answered call ret value s)))"

definition sys_new_fd :: "os_call \<Rightarrow> os \<Rightarrow> int \<times> os" where
  "sys_new_fd call s = (case sys call s of (ret, value, s1) \<Rightarrow>
     (ret, if ret < 0 then s1 else s1\<lparr>os_fds := ret # os_fds s1\<rparr>))"

definition sys_close :: "int \<Rightarrow> os \<Rightarrow> os" where
  "sys_close fd s = s\<lparr>os_fds := remove1 fd (os_fds s), os_log := os_log s @ [Sys_close fd]\<rparr>"

text \<open>
  A failing call returns -1. A write takes at most the bytes it is given, and a read gives at most
  what it is asked for and there is, so nothing at the end of the input.
\<close>

definition sys_write :: "int \<Rightarrow> string \<Rightarrow> os \<Rightarrow> int \<times> os" where
  "sys_write fd buf s = (case os_answer s (os_time s) of (ret, value) \<Rightarrow>
     (let n = max (-1) (min ret (int (length buf)))
      in (n, sys_answered (Sys_write fd (take (nat n) buf)) n value s)))"

definition sys_read :: "int \<Rightarrow> nat \<Rightarrow> os \<Rightarrow> int \<times> string \<times> os" where
  "sys_read fd len s = (case os_answer s (os_time s) of (ret, value) \<Rightarrow>
     (let n = max (-1) (min ret (int (min len (length (os_input s fd)))));
          bytes = take (nat n) (os_input s fd);
          s1 = sys_answered (Sys_read fd bytes) n value s
      in (n, bytes, s1\<lparr>os_input := (os_input s1)(fd := drop (nat n) (os_input s1 fd))\<rparr>)))"

definition os_error :: "string \<Rightarrow> os \<Rightarrow> gerror" where
  "os_error message s = GError (Some COLOD_ERROR_FATAL) (message @ os_strerror s (os_errno s))"

subsection \<open>Sockets\<close>

definition sun_path_size :: nat where
  "sun_path_size = 108"

definition colod_unix_connect :: "string option \<Rightarrow> os \<Rightarrow> (int fallible \<times> os) abortable" where
  "colod_unix_connect p s = do {
     path \<leftarrow> c_nonnull p;
     Some (if length path \<ge> sun_path_size then (Inl (GError (Some COLOD_ERROR_FATAL) ''Unix path too long''), s)
       else case sys_new_fd Sys_socket s of (fd, s1) \<Rightarrow>
         if fd < 0 then (Inl (os_error ''Failed to create socket: '' s1), s1)
         else case sys (Sys_connect fd path) s1 of (ret, _, s2) \<Rightarrow>
           if ret < 0 then (Inl (os_error ''Failed to connect socket: '' s2), sys_close fd s2)
           else (Inr fd, s2)) }"

definition O_NONBLOCK :: guint where
  "O_NONBLOCK = 0x800"

definition colod_fd_set_blocking :: "int \<Rightarrow> bool \<Rightarrow> os \<Rightarrow> unit fallible \<times> os" where
  "colod_fd_set_blocking fd blocking s = (case sys (Sys_getfl fd) s of (ret, _, s1) \<Rightarrow>
     if ret < 0 then (Inl (os_error ''Failed to get file flags: '' s1), s1)
     else let flags = (if blocking then and (of_int ret) (not O_NONBLOCK) else or (of_int ret) O_NONBLOCK)
       in case sys (Sys_setfl fd flags) s1 of (ret, _, s2) \<Rightarrow>
         if ret < 0 then (Inl (os_error ''Failed to set file flags: '' s2), s2)
         else (Inr (), s2))"

subsection \<open>Whole reads and writes\<close>

text \<open>\<open>None\<close> means that the loop does not return.\<close>

partial_function (option) write_full_loop :: "int \<Rightarrow> string \<Rightarrow> nat \<Rightarrow> os \<Rightarrow> (nat \<times> os) option" where
  "write_full_loop fd buf written s =
     (if buf = [] then Some (written, s)
      else case sys_write fd buf s of (ret, s1) \<Rightarrow>
        if ret < 0
        then (if os_errno s1 = EINTR then write_full_loop fd buf written s1 else Some (written, s1))
        else write_full_loop fd (drop (nat ret) buf) (written + nat ret) s1)"

definition colod_write_full :: "int \<Rightarrow> string \<Rightarrow> os \<Rightarrow> (nat \<times> os) option" where
  "colod_write_full fd buf s = write_full_loop fd buf 0 s"

text \<open>The bytes that were read, whose number the function returns.\<close>

partial_function (option) read_full_loop :: "int \<Rightarrow> nat \<Rightarrow> string \<Rightarrow> os \<Rightarrow> (string \<times> os) option" where
  "read_full_loop fd len buf s =
     (if len = 0 then Some (buf, s)
      else case sys_read fd len s of (ret, bytes, s1) \<Rightarrow>
        if ret \<le> 0
        then (if os_errno s1 = EINTR then read_full_loop fd len buf s1 else Some (buf, s1))
        else read_full_loop fd (len - nat ret) (buf @ bytes) s1)"

definition colod_read_full :: "int \<Rightarrow> nat \<Rightarrow> os \<Rightarrow> (string \<times> os) option" where
  "colod_read_full fd len s = read_full_loop fd len [] s"

subsection \<open>The PID file\<close>

function decimal :: "nat \<Rightarrow> string" where
  "decimal n = (if n < 10 then [char_of (48 + n)] else decimal (n div 10) @ [char_of (48 + n mod 10)])"
  by pat_completeness auto
termination
  by (relation "measure (\<lambda>n. n)") auto

declare decimal.simps [simp del]

partial_function (option) lock_pidfile :: "string \<Rightarrow> os \<Rightarrow> (int fallible \<times> os) option" where
  "lock_pidfile path s = (case sys_new_fd (Sys_open path) s of (fd, s1) \<Rightarrow>
     if fd = -1 then Some (Inl (os_error ''Failed to open pid file: '' s1), s1)
     else case sys (Sys_fstat fd) s1 of (ret, b, s2) \<Rightarrow>
       if ret < 0 then Some (Inl (os_error ''Cannot stat file: '' s2), sys_close fd s2)
       else case sys (Sys_lock fd) s2 of (ret, _, s3) \<Rightarrow>
         if ret \<noteq> 0 then Some (Inl (os_error ''Cannot lock pid file: '' s3), sys_close fd s3)
         else case sys (Sys_stat path) s3 of (ret, a, s4) \<Rightarrow>
           if ret < 0 then lock_pidfile path (sys_close fd s4)
           else if a = b then Some (Inr fd, s4)
           else lock_pidfile path (sys_close fd s4))"

definition pid_line :: "int \<Rightarrow> string" where
  "pid_line pid = take 31 ((if pid < 0 then ''-'' else []) @ decimal (nat (abs pid)) @ [CHR 0x0A])"

declare write_full_loop.simps [code] read_full_loop.simps [code] lock_pidfile.simps [code]

definition unlink_close :: "string \<Rightarrow> int \<Rightarrow> os \<Rightarrow> os" where
  "unlink_close path fd s = sys_close fd (snd (snd (sys (Sys_unlink path) s)))"

definition colod_write_pidfile :: "string \<Rightarrow> os \<Rightarrow> (unit fallible \<times> os) option" where
  "colod_write_pidfile path s = do {
     (locked, s1) \<leftarrow> lock_pidfile path s;
     (case locked of
        Inl e \<Rightarrow> Some (Inl e, s1)
      | Inr fd \<Rightarrow>
          (case sys (Sys_truncate fd) s1 of (ret, _, s2) \<Rightarrow>
             if ret < 0
             then Some (Inl (os_error ''Failed to truncate pid file: '' s2), unlink_close path fd s2)
             else case sys Sys_getpid s2 of (pid, _, s3) \<Rightarrow> do {
               (n, s4) \<leftarrow> colod_write_full fd (pid_line pid) s3;
               Some (if n \<noteq> length (pid_line pid)
                 then (Inl (os_error ''Failed to write pid file: '' s4), unlink_close path fd s4)
                 else (Inr (), s4)) })) }"

subsection \<open>Into the background\<close>

text \<open>A process goes on or exits, successfully or not.\<close>

datatype 'a process = Goes_on 'a os | Exits bool os

definition close_all_but :: "int \<Rightarrow> int \<Rightarrow> os \<Rightarrow> os" where
  "close_all_but highest keep s = fold (\<lambda>fd s. if fd = keep then s else sys_close fd s) (rev [0..highest]) s"

definition daemonize_parent :: "int \<Rightarrow> int \<Rightarrow> os \<Rightarrow> int process option" where
  "daemonize_parent fd0 fd1 s = do {
     (status, s1) \<leftarrow> colod_read_full fd0 1 (sys_close fd1 s);
     Some (Exits (status = [CHR 0x00]) s1) }"

text \<open>After the second fork, in the process that stays.\<close>

definition daemonize_child :: "int \<Rightarrow> os \<Rightarrow> int process" where
  "daemonize_child fd1 s = (case sys (Sys_chdir ''/'') s of (ret, _, s1) \<Rightarrow>
     if ret < 0 then Exits False s1
     else case sys Sys_open_max s1 of (highest, _, s2) \<Rightarrow> Goes_on fd1 (close_all_but highest fd1 s2))"

definition os_daemonize :: "os \<Rightarrow> int process option" where
  "os_daemonize s = (case sys Sys_pipe s of (fd0, fd1, s1) \<Rightarrow>
     if fd0 < 0 then Some (Exits False s1)
     else let s2 = s1\<lparr>os_fds := fd0 # fd1 # os_fds s1\<rparr> in
     case sys Sys_fork s2 of (pid, _, s3) \<Rightarrow>
       if pid > 0 then daemonize_parent fd0 fd1 s3
       else if pid < 0 then Some (Exits False s3)
       else case sys Sys_setsid (sys_close fd0 s3) of (ret, _, s4) \<Rightarrow>
         if ret < 0 then Some (Exits False s4)
         else case sys Sys_fork s4 of (pid, _, s5) \<Rightarrow>
           if pid > 0 then Some (Exits True s5)
           else if pid < 0 then Some (Exits False s5)
           else Some (daemonize_child fd1 s5))"

definition os_daemonize_post_init :: "int \<Rightarrow> os \<Rightarrow> (unit fallible \<times> os) option" where
  "os_daemonize_post_init pipe s = do {
     (len, s1) \<leftarrow> colod_write_full pipe [CHR 0x00] s;
     Some (if len \<noteq> 1 then (Inl (os_error ''Failed to signal success: '' s1), sys_close pipe s1)
       else (Inr (), sys_close pipe s1)) }"

text \<open>A concrete system, given its answers.\<close>

definition os_example :: "(nat \<Rightarrow> int \<times> int) \<Rightarrow> os" where
  "os_example answer = \<lparr>os_answer = answer, os_strerror = (\<lambda>e. ''error''), os_time = 0, os_errno = 0, os_fds = [],
     os_input = (\<lambda>fd. []), os_log = []\<rparr>"

subsection \<open>What is written\<close>

definition wrote :: "int \<Rightarrow> os_call list \<Rightarrow> string" where
  "wrote fd log = concat (map (\<lambda>call. case call of Sys_write f bytes \<Rightarrow> if f = fd then bytes else [] | _ \<Rightarrow> []) log)"

lemma wrote_append [simp]:
  "wrote fd (log @ log') = wrote fd log @ wrote fd log'"
  "wrote fd [Sys_write fd bytes] = bytes"
  by (simp_all add: wrote_def)

lemma wrote_chunks [simp]: "wrote fd (map (Sys_write fd) chunks) = concat chunks"
  by (simp add: wrote_def o_def)

lemma sys_write_fields:
  assumes "sys_write fd buf s = (ret, s1)"
  shows "os_fds s1 = os_fds s" and "os_answer s1 = os_answer s" and "os_time s1 = Suc (os_time s)"
    and "ret \<le> int (length buf)" and "os_log s1 = os_log s @ [Sys_write fd (take (nat ret) buf)]"
    and "ret = max (-1) (min (fst (os_answer s (os_time s))) (int (length buf)))"
    and "ret < 0 \<longrightarrow> os_errno s1 = snd (os_answer s (os_time s))"
  using assms by (auto simp: sys_write_def sys_answered_def Let_def split: prod.splits)

text \<open>The calls of the loop write a prefix of the buffer, chunk by chunk.\<close>

lemma write_full_loop_result:
  assumes "write_full_loop fd buf n s = Some y"
  shows "\<exists>k\<le>length buf. \<exists>chunks. fst y = n + k \<and> os_log (snd y) = os_log s @ map (Sys_write fd) chunks \<and>
    concat chunks = take k buf \<and> os_fds (snd y) = os_fds s \<and> (k < length buf \<longrightarrow> os_errno (snd y) \<noteq> EINTR)"
proof (induction rule: write_full_loop.raw_induct [OF _ assms])
  case (1 loop fd buf n s y)
  show ?case
  proof (cases "buf = []")
    case True
    with 1(2) show ?thesis by (auto intro: exI [of _ "[]"])
  next
    case False
    obtain ret s1 where w: "sys_write fd buf s = (ret, s1)" by fastforce
    note fields = sys_write_fields [OF w]
    show ?thesis
    proof (cases "loop fd (drop (nat ret) buf) (n + nat ret) s1 = Some y")
      case True
      from 1(1) [OF this] obtain k chunks where k: "k \<le> length buf - nat ret" "fst y = n + nat ret + k"
        "os_log (snd y) = os_log s1 @ map (Sys_write fd) chunks" "concat chunks = take k (drop (nat ret) buf)"
        "os_fds (snd y) = os_fds s1" "k < length buf - nat ret \<longrightarrow> os_errno (snd y) \<noteq> EINTR"
        by auto
      have "nat ret \<le> length buf" using fields(4) by linarith
      with k fields(1,5) show ?thesis
        by (intro exI [of _ "nat ret + k"] conjI exI [of _ "take (nat ret) buf # chunks"]) (auto simp: take_add)
    next
      case stopped: False
      with 1(2) False w have "ret < 0" "os_errno s1 \<noteq> EINTR" "y = (n, s1)" by (auto split: if_splits)
      with fields(1,5) show ?thesis by (intro exI [of _ 0] conjI exI [of _ "[[]]"]) auto
    qed
  qed
qed

lemma write_full_loop_post:
  assumes "write_full_loop fd buf n s = Some (n', s')"
  obtains k chunks where "k \<le> length buf" "n' = n + k" "os_log s' = os_log s @ map (Sys_write fd) chunks"
    "concat chunks = take k buf" "os_fds s' = os_fds s" "k < length buf \<longrightarrow> os_errno s' \<noteq> EINTR"
  using write_full_loop_result [OF assms] by auto

text \<open>The kernel takes bytes again and again, and no call fails but for an interruption.\<close>

definition accepting :: "os \<Rightarrow> bool" where
  "accepting s \<longleftrightarrow> (\<forall>m\<ge>os_time s. \<exists>k\<ge>m. 0 < fst (os_answer s k) \<and> (\<forall>j. m \<le> j \<and> j < k \<longrightarrow> os_answer s j = (-1, EINTR)))"

lemma accepting_step:
  "accepting s \<Longrightarrow> os_answer s1 = os_answer s \<Longrightarrow> os_time s1 = Suc (os_time s) \<Longrightarrow> accepting s1"
  by (simp add: accepting_def)

lemma write_full_loop_returns:
  assumes "accepting s"
  shows "write_full_loop fd buf n s \<noteq> None \<and> (\<forall>n' s'. write_full_loop fd buf n s = Some (n', s') \<longrightarrow> n' = n + length buf)"
  using assms
proof (induction "length buf" arbitrary: buf n s rule: less_induct)
  case less
  from less.prems obtain k where "k \<ge> os_time s" "0 < fst (os_answer s k)"
    "\<forall>j. os_time s \<le> j \<and> j < k \<longrightarrow> os_answer s j = (-1, EINTR)"
    by (auto simp: accepting_def)
  then show ?case using less.prems
  proof (induction "k - os_time s" arbitrary: s)
    case 0
    obtain ret s1 where w: "sys_write fd buf s = (ret, s1)" by fastforce
    note fields = sys_write_fields [OF w]
    show ?case
    proof (cases "buf = []")
      case False
      have ret: "0 < ret" using 0 False fields(6) by (auto simp: min_def)
      with False have "length (drop (nat ret) buf) < length buf" by simp
      from less.hyps [OF this accepting_step [OF 0(5) fields(2,3)], of "n + nat ret"] ret False w fields(4)
      show ?thesis by (subst write_full_loop.simps) (auto simp: write_full_loop.simps [of fd buf n s])
    qed (simp add: write_full_loop.simps)
  next
    case (Suc d)
    obtain ret s1 where w: "sys_write fd buf s = (ret, s1)" by fastforce
    note fields = sys_write_fields [OF w]
    show ?case
    proof (cases "buf = []")
      case False
      have now: "os_answer s (os_time s) = (-1, EINTR)" using Suc by simp
      with fields(6,7) have "ret < 0" "os_errno s1 = EINTR" by auto
      moreover have "write_full_loop fd buf n s1 \<noteq> None \<and>
          (\<forall>n' s'. write_full_loop fd buf n s1 = Some (n', s') \<longrightarrow> n' = n + length buf)"
        using Suc.hyps(2) Suc.prems fields(2,3) by (intro Suc.hyps(1)) (auto simp: accepting_step)
      ultimately show ?thesis using False w by (subst (1 2) write_full_loop.simps) simp
    qed (simp add: write_full_loop.simps)
  qed
qed

text \<open>
  C38. A buffer is written whole: as long as the kernel takes some bytes after finitely many
  interruptions each time, \<open>colod_write_full\<close> returns, reports the length of the buffer, and the
  descriptor got exactly its bytes, in order and none twice.
\<close>

theorem write_full_complete:
  assumes "accepting s"
  shows "\<exists>s'. colod_write_full fd buf s = Some (length buf, s') \<and>
    wrote fd (os_log s') = wrote fd (os_log s) @ buf \<and> os_fds s' = os_fds s"
proof -
  from write_full_loop_returns [OF assms, of fd buf 0] obtain s' where
    s': "write_full_loop fd buf 0 s = Some (length buf, s')" by auto
  then show ?thesis
  proof (rule write_full_loop_post)
    fix k chunks
    assume "length buf = 0 + k" "os_log s' = os_log s @ map (Sys_write fd) chunks"
      "concat chunks = take k buf" "os_fds s' = os_fds s"
    with s' show ?thesis by (simp add: colod_write_full_def)
  qed
qed

lemma write_full_complete_witness:
  "\<exists>s'. colod_write_full 3 ''abcde'' (os_example (\<lambda>n. if even n then (-1, EINTR) else (2, 0))) = Some (5, s') \<and>
    wrote 3 (os_log s') = ''abcde''"
proof -
  let ?s = "os_example (\<lambda>n. if even n then (-1, EINTR) else (2, 0))"
  have "accepting ?s"
    unfolding accepting_def
  proof (intro allI impI)
    fix m
    let ?k = "if odd m then m else Suc m"
    show "\<exists>k\<ge>m. 0 < fst (os_answer ?s k) \<and> (\<forall>j. m \<le> j \<and> j < k \<longrightarrow> os_answer ?s j = (-1, EINTR))"
      by (intro exI [of _ ?k]) (auto simp: os_example_def less_Suc_eq)
  qed
  from write_full_complete [OF this, of 3 "''abcde''"] show ?thesis by (auto simp: os_example_def wrote_def)
qed

subsection \<open>Interrupted reads\<close>

text \<open>At the end of the input, with the error number of an interruption left over.\<close>

definition stuck :: "int \<Rightarrow> nat \<Rightarrow> os \<Rightarrow> bool" where
  "stuck fd len s \<longleftrightarrow> os_errno s = EINTR \<and> length (os_input s fd) < len \<and> (\<forall>n\<ge>os_time s. 0 \<le> fst (os_answer s n))"

lemma stuck_read:
  assumes "stuck fd len s" and "sys_read fd len s = (ret, bytes, s1)"
  shows "0 \<le> ret \<and> stuck fd (len - nat ret) s1"
  using assms by (auto simp: stuck_def sys_read_def sys_answered_def Let_def min_def max_def split: prod.splits if_splits)

lemma read_full_loop_stuck:
  assumes "read_full_loop fd len buf s = Some y"
  shows "\<not> stuck fd len s"
proof (induction rule: read_full_loop.raw_induct [OF _ assms])
  case (1 loop fd len buf s y)
  show ?case
  proof
    assume stuck: "stuck fd len s"
    obtain ret bytes s1 where r: "sys_read fd len s = (ret, bytes, s1)" by (rule prod_cases3)
    from stuck_read [OF stuck r] have later: "0 \<le> ret" "stuck fd (len - nat ret) s1" by auto
    from stuck have "0 < len" by (auto simp: stuck_def)
    moreover from later(2) have "os_errno s1 = EINTR" by (simp add: stuck_def)
    ultimately show False using 1 r later by (auto split: if_splits)
  qed
qed

text \<open>
  C39. The end of the file is taken for an interruption: after a read was interrupted, \<^verbatim>\<open>errno\<close> keeps
  its value when the next one reports the end of the file, and the loop never ends. The process that
  waits for the daemon in the background to start hangs when the daemon dies.
\<close>

theorem interrupted_parent_hangs:
  assumes "os_answer s (os_time s) = (-1, EINTR)" and "os_input s fd0 = []"
    and "\<And>n. os_time s < n \<Longrightarrow> 0 \<le> fst (os_answer s n)"
  shows "daemonize_parent fd0 fd1 s = None"
proof -
  let ?s = "sys_close fd1 s"
  obtain ret bytes s1 where r: "sys_read fd0 1 ?s = (ret, bytes, s1)" by (rule prod_cases3)
  from r assms have "ret = -1" "os_errno s1 = EINTR" "stuck fd0 1 s1"
    by (auto simp: sys_read_def sys_close_def sys_answered_def stuck_def EINTR_def Let_def split: prod.splits)
  then have "read_full_loop fd0 1 [] ?s = read_full_loop fd0 1 [] s1" using r by (subst read_full_loop.simps) simp
  also have "\<dots> = None"
    using read_full_loop_stuck [of fd0 1 "[]" s1] \<open>stuck fd0 1 s1\<close> by (cases "read_full_loop fd0 1 [] s1") auto
  finally show ?thesis by (simp add: daemonize_parent_def colod_read_full_def)
qed

lemma interrupted_parent_hangs_witness:
  "daemonize_parent 3 4 (os_example (\<lambda>n. if n = 0 then (-1, EINTR) else (0, 0))) = None"
  by (rule interrupted_parent_hangs) (simp_all add: os_example_def)

subsection \<open>Descriptors\<close>

text \<open>
  What a function that opens a descriptor does to the open ones: an error closes all it opened, a
  success leaves exactly the one it returns.
\<close>

definition opens :: "int list \<Rightarrow> int fallible \<times> os \<Rightarrow> bool" where
  "opens fds x \<longleftrightarrow> (case x of (Inl e, s) \<Rightarrow> os_fds s = fds | (Inr fd, s) \<Rightarrow> os_fds s = fd # fds)"

lemma opens_simps [simp]:
  "opens fds (Inl e, s) = (os_fds s = fds)" "opens fds (Inr fd, s) = (os_fds s = fd # fds)"
  by (simp_all add: opens_def)

lemma sys_fds: "sys call s = (ret, value, s1) \<Longrightarrow> os_fds s1 = os_fds s"
  by (auto simp: sys_def sys_answered_def Let_def split: prod.splits)

lemma sys_new_fd_fds:
  "sys_new_fd call s = (ret, s1) \<Longrightarrow> os_fds s1 = (if ret < 0 then os_fds s else ret # os_fds s) \<and> -1 \<le> ret"
  by (auto simp: sys_new_fd_def sys_def sys_answered_def Let_def split: prod.splits if_splits)

lemma sys_close_fds [simp]: "os_fds (sys_close fd s) = remove1 fd (os_fds s)"
  by (simp add: sys_close_def)

lemma connect_opens:
  assumes "colod_unix_connect p s = Some y"
  shows "opens (os_fds s) y"
proof -
  from assms obtain path where p: "p = Some path" by (cases p) (auto simp: colod_unix_connect_def)
  obtain fd s1 where s1: "sys_new_fd Sys_socket s = (fd, s1)" by fastforce
  obtain ret v s2 where s2: "sys (Sys_connect fd path) s1 = (ret, v, s2)" by (rule prod_cases3)
  from assms p s1 s2 sys_new_fd_fds [OF s1] sys_fds [OF s2] show ?thesis
    by (auto simp: colod_unix_connect_def split: if_splits)
qed

lemma set_blocking_fds: "colod_fd_set_blocking fd b s = (r, s1) \<Longrightarrow> os_fds s1 = os_fds s"
  by (auto simp: colod_fd_set_blocking_def Let_def dest!: sys_fds split: prod.splits if_splits)

lemma lock_pidfile_opens:
  assumes "lock_pidfile path s = Some y"
  shows "opens (os_fds s) y"
proof (induction rule: lock_pidfile.raw_induct [OF _ assms])
  case (1 loop path s y)
  obtain fd s1 where s1: "sys_new_fd (Sys_open path) s = (fd, s1)" by fastforce
  obtain r2 b s2 where s2: "sys (Sys_fstat fd) s1 = (r2, b, s2)" by (rule prod_cases3)
  obtain r3 v3 s3 where s3: "sys (Sys_lock fd) s2 = (r3, v3, s3)" by (rule prod_cases3)
  obtain r4 a s4 where s4: "sys (Sys_stat path) s3 = (r4, a, s4)" by (rule prod_cases3)
  note fds = sys_new_fd_fds [OF s1] sys_fds [OF s2] sys_fds [OF s3] sys_fds [OF s4]
  show ?case
  proof (cases "fd = -1")
    case True
    with 1(2) s1 fds(1) show ?thesis by auto
  next
    case False
    with fds(1) have open_fd: "os_fds s1 = fd # os_fds s" by auto
    from 1(1) [of path "sys_close fd s4" y] 1(2) False s1 s2 s3 s4 fds open_fd
    show ?thesis by (auto split: if_splits)
  qed
qed

text \<open>The PID file stays open, and with it its lock, when it was written.\<close>

lemma write_pidfile_fds:
  assumes "colod_write_pidfile path s = Some (r, s')"
  shows "case r of Inl e \<Rightarrow> os_fds s' = os_fds s | Inr u \<Rightarrow> \<exists>fd. os_fds s' = fd # os_fds s"
proof -
  from assms obtain locked s1 where l: "lock_pidfile path s = Some (locked, s1)"
    by (auto simp: colod_write_pidfile_def bind_eq_Some_conv)
  note opens = lock_pidfile_opens [OF l]
  show ?thesis
  proof (cases locked)
    case (Inl e)
    with assms l opens show ?thesis by (auto simp: colod_write_pidfile_def)
  next
    case (Inr fd)
    obtain r2 v2 s2 where s2: "sys (Sys_truncate fd) s1 = (r2, v2, s2)" by (rule prod_cases3)
    obtain pid v3 s3 where s3: "sys Sys_getpid s2 = (pid, v3, s3)" by (rule prod_cases3)
    have unlink: "os_fds (unlink_close path fd t) = remove1 fd (os_fds t)" for t
      unfolding unlink_close_def by (metis prod.exhaust_sel sys_close_fds sys_fds)
    have "os_fds s3 = fd # os_fds s" "os_fds s2 = fd # os_fds s"
      using Inr opens sys_fds [OF s2] sys_fds [OF s3] by auto
    with assms l Inr s2 s3 unlink show ?thesis
      by (auto simp: colod_write_pidfile_def colod_write_full_def bind_eq_Some_conv
          elim!: write_full_loop_post split: if_splits)
  qed
qed

end
