(* ===== verification/Startup.thy ===== *)
theory Startup
  imports Posix Cpg_Group
begin

text \<open>
  The start of the daemon, \<^verbatim>\<open>daemon_main\<close> of \<^verbatim>\<open>daemon.c\<close> up to its main loop: the options, the way
  into the background, the sockets and the process group, and the report to the process that waits.
\<close>

subsection \<open>Options\<close>

text \<open>The parameters of \<^verbatim>\<open>ColodContext\<close>; a string that is not given is NULL.\<close>

record ColodOptions =
  op_node_name :: "string option"
  op_instance_name :: "string option"
  op_base_dir :: "string option"
  op_qmp_path :: "string option"
  op_qmp_yank_path :: "string option"
  op_monitor_interface :: "string option"
  op_daemonize :: bool
  op_qmp_timeout_low :: guint
  op_qmp_timeout_high :: guint
  op_watchdog_interval :: guint
  op_do_trace :: bool
  op_primary_startup :: bool

definition no_options :: ColodOptions where
  "no_options = \<lparr>op_node_name = None, op_instance_name = None, op_base_dir = None, op_qmp_path = None,
     op_qmp_yank_path = None, op_monitor_interface = None, op_daemonize = False, op_qmp_timeout_low = 0,
     op_qmp_timeout_high = 0, op_watchdog_interval = 0, op_do_trace = False, op_primary_startup = False\<rparr>"

text \<open>\<open>parse\<close> is GLib's parser, which fills the fields in and may report an error.\<close>

type_synonym option_parser = "ColodOptions \<Rightarrow> gerror option \<times> ColodOptions"

definition daemon_parse_options :: "option_parser \<Rightarrow> ColodOptions \<Rightarrow> unit fallible \<times> ColodOptions" where
  "daemon_parse_options parse ctx =
     (case parse (ctx\<lparr>op_qmp_timeout_low := 600, op_qmp_timeout_high := 10000\<rparr>) of
        (Some e, ctx1) \<Rightarrow> (Inl e, ctx1)
      | (None, ctx1) \<Rightarrow>
          if op_node_name ctx1 = None \<or> op_instance_name ctx1 = None \<or> op_base_dir ctx1 = None \<or>
             op_qmp_path ctx1 = None
          then (Inl (GError (Some COLOD_ERROR_FATAL) (''--instance_name, --node_name, '' @
            ''--base_directory and --qmp_path need to be given.'')), ctx1)
          else (Inr (), ctx1))"

subsection \<open>Sockets\<close>

text \<open>The rest of \<open>daemon_open_mngmt\<close> once there is a socket: an error closes it.\<close>

definition prepare_mngmt :: "int \<Rightarrow> string \<Rightarrow> os \<Rightarrow> int fallible \<times> os" where
  "prepare_mngmt sockfd path s = (case sys (Sys_unlink path) s of (_, _, s1) \<Rightarrow>
     case sys (Sys_bind sockfd path) s1 of (ret, _, s2) \<Rightarrow>
       if ret < 0 then (Inl (os_error ''Failed to bind management socket: '' s2), sys_close sockfd s2)
       else case sys (Sys_listen sockfd) s2 of (ret, _, s3) \<Rightarrow>
         if ret < 0 then (Inl (os_error ''Failed to listen management socket: '' s3), sys_close sockfd s3)
         else case colod_fd_set_blocking sockfd False s3 of
             (Inl e, s4) \<Rightarrow> (Inl e, sys_close sockfd s4)
           | (Inr _, s4) \<Rightarrow> (Inr sockfd, s4))"

definition daemon_open_mngmt :: "ColodOptions \<Rightarrow> os \<Rightarrow> (int fallible \<times> os) abortable" where
  "daemon_open_mngmt ctx s = do {
     base_dir \<leftarrow> c_nonnull (op_base_dir ctx);
     let path = base_dir @ ''/colod.sock'';
     Some (if length path \<ge> sun_path_size
       then (Inl (GError (Some COLOD_ERROR_FATAL) ''Management unix path too long''), s)
       else case sys_new_fd Sys_socket s of (sockfd, s1) \<Rightarrow>
         if sockfd < 0 then (Inl (os_error ''Failed to create management socket: '' s1), s1)
         else prepare_mngmt sockfd path s1) }"

definition daemon_open_qmp :: "ColodOptions \<Rightarrow> os \<Rightarrow> ((int \<times> int) fallible \<times> os) abortable" where
  "daemon_open_qmp ctx s = do {
     (qmp, s1) \<leftarrow> colod_unix_connect (op_qmp_path ctx) s;
     (case qmp of
        Inl e \<Rightarrow> Some (Inl e, s1)
      | Inr qmp_fd \<Rightarrow> do {
          (yank, s2) \<leftarrow> colod_unix_connect (op_qmp_yank_path ctx) s1;
          Some (case yank of
             Inl e \<Rightarrow> (Inl e, sys_close qmp_fd s2)
           | Inr yank_fd \<Rightarrow> (Inr (qmp_fd, yank_fd), s2)) }) }"

text \<open>The calls of corosync answer 1, which is \<^verbatim>\<open>CS_OK\<close>, when they succeed.\<close>

definition daemon_open_cpg :: "string \<Rightarrow> os \<Rightarrow> Cpg fallible \<times> os" where
  "daemon_open_cpg name s =
     (if length name + 1 \<ge> 128 then (colod_open_cpg 128 False False name, s)
      else case sys Cpg_initialize s of (ret, _, s1) \<Rightarrow>
        if ret \<noteq> 1 then (colod_open_cpg 128 False False name, s1)
        else case sys (Cpg_join name) s1 of (ret, _, s2) \<Rightarrow> (colod_open_cpg 128 True (ret = 1) name, s2))"

subsection \<open>Into the background\<close>

text \<open>After \<open>os_daemonize\<close>, in the process that stays: the log, the trace and the PID file.\<close>

definition daemonize_files :: "ColodOptions \<Rightarrow> int \<Rightarrow> os \<Rightarrow> int process option" where
  "daemonize_files ctx pipefd s = do {
     base_dir \<leftarrow> c_nonnull (op_base_dir ctx);
     (case sys_new_fd (Sys_open (base_dir @ ''/colod.log'')) s of (logfd, s1) \<Rightarrow>
        if logfd < 0 then Some (Exits False s1)
        else case sys_new_fd (Sys_dup 0) s1 of (dup1, s2) \<Rightarrow>
          case sys_new_fd (Sys_dup 0) s2 of (dup2, s3) \<Rightarrow> do {
            c_assert (logfd = 0 \<and> dup1 = 1 \<and> dup2 = 2);
            let s4 = (if op_do_trace ctx then snd (sys_new_fd (Sys_open (base_dir @ ''/trace.log'')) s3) else s3);
            (ret, s5) \<leftarrow> colod_write_pidfile (base_dir @ ''/colod.pid'') s4;
            Some (case ret of Inl e \<Rightarrow> Exits False s5 | Inr _ \<Rightarrow> Goes_on pipefd s5) }) }"

definition daemonize :: "ColodOptions \<Rightarrow> os \<Rightarrow> int process option" where
  "daemonize ctx s = do {
     p \<leftarrow> os_daemonize s;
     (case p of
        Exits b s1 \<Rightarrow> Some (Exits b s1)
      | Goes_on pipefd s1 \<Rightarrow> daemonize_files ctx pipefd s1) }"

subsection \<open>The start\<close>

text \<open>What the main loop is entered with.\<close>

record started =
  st_ctx :: ColodOptions
  st_qmp_fd :: int
  st_qmp_yank_fd :: int
  st_mngmt_listen_fd :: int
  st_cpg :: Cpg

text \<open>The sockets and the process group, in their order.\<close>

definition daemon_connect :: "ColodOptions \<Rightarrow> os \<Rightarrow> started process option" where
  "daemon_connect ctx s = do {
     (qmp, s1) \<leftarrow> daemon_open_qmp ctx s;
     (case qmp of
        Inl e \<Rightarrow> Some (Exits False s1)
      | Inr (qmp_fd, yank_fd) \<Rightarrow> do {
          (mngmt, s2) \<leftarrow> daemon_open_mngmt ctx s1;
          (case mngmt of
             Inl e \<Rightarrow> Some (Exits False s2)
           | Inr mngmt_fd \<Rightarrow> do {
               name \<leftarrow> c_nonnull (op_instance_name ctx);
               Some (case daemon_open_cpg name s2 of
                  (Inl e, s3) \<Rightarrow> Exits False s3
                | (Inr cpg, s3) \<Rightarrow> Goes_on \<lparr>st_ctx = ctx, st_qmp_fd = qmp_fd, st_qmp_yank_fd = yank_fd,
                    st_mngmt_listen_fd = mngmt_fd, st_cpg = cpg\<rparr> s3) }) }) }"

definition daemon_report :: "int \<Rightarrow> started \<Rightarrow> os \<Rightarrow> started process option" where
  "daemon_report pipefd st s =
     (if op_daemonize (st_ctx st) then do {
        (ret, s1) \<leftarrow> os_daemonize_post_init pipefd s;
        Some (case ret of Inl e \<Rightarrow> Exits False s1 | Inr _ \<Rightarrow> Goes_on st s1) }
      else Some (Goes_on st s))"

definition daemon_main :: "option_parser \<Rightarrow> os \<Rightarrow> started process option" where
  "daemon_main parse s = (case daemon_parse_options parse no_options of
     (Inl e, ctx) \<Rightarrow> Some (Exits False s)
   | (Inr _, ctx) \<Rightarrow> do {
       p \<leftarrow> (if op_daemonize ctx then daemonize ctx s else Some (Goes_on 0 s));
       (case p of
          Exits b s1 \<Rightarrow> Some (Exits b s1)
        | Goes_on pipefd s1 \<Rightarrow> do {
            q \<leftarrow> daemon_connect ctx s1;
            (case q of
               Exits b s2 \<Rightarrow> Some (Exits b s2)
             | Goes_on st s2 \<Rightarrow> daemon_report pipefd st s2) }) })"

subsection \<open>Descriptors\<close>

lemma prepare_mngmt_opens:
  assumes "os_fds s = fd # fds"
  shows "opens fds (prepare_mngmt fd path s)"
proof -
  obtain r1 v1 s1 where s1: "sys (Sys_unlink path) s = (r1, v1, s1)" by (rule prod_cases3)
  obtain r2 v2 s2 where s2: "sys (Sys_bind fd path) s1 = (r2, v2, s2)" by (rule prod_cases3)
  obtain r3 v3 s3 where s3: "sys (Sys_listen fd) s2 = (r3, v3, s3)" by (rule prod_cases3)
  obtain r4 s4 where s4: "colod_fd_set_blocking fd False s3 = (r4, s4)" by fastforce
  from assms sys_fds [OF s1] sys_fds [OF s2] sys_fds [OF s3] set_blocking_fds [OF s4] show ?thesis
    by (cases r4) (auto simp: prepare_mngmt_def s1 s2 s3 s4)
qed

lemma open_mngmt_opens:
  assumes "daemon_open_mngmt ctx s = Some y"
  shows "opens (os_fds s) y"
proof -
  from assms obtain base_dir where b: "op_base_dir ctx = Some base_dir"
    by (cases "op_base_dir ctx") (auto simp: daemon_open_mngmt_def)
  obtain fd s1 where s1: "sys_new_fd Sys_socket s = (fd, s1)" by fastforce
  from sys_new_fd_fds [OF s1] prepare_mngmt_opens [of s1 fd "os_fds s"] assms b s1 show ?thesis
    by (auto simp: daemon_open_mngmt_def Let_def split: if_splits)
qed

lemma open_qmp_fds:
  assumes "daemon_open_qmp ctx s = Some (r, s')"
  shows "os_fds s' = (case r of Inl e \<Rightarrow> os_fds s | Inr (qmp_fd, yank_fd) \<Rightarrow> yank_fd # qmp_fd # os_fds s)"
proof -
  from assms obtain qmp s1 where q: "colod_unix_connect (op_qmp_path ctx) s = Some (qmp, s1)"
    by (auto simp: daemon_open_qmp_def bind_eq_Some_conv)
  note q_opens = connect_opens [OF q]
  show ?thesis
  proof (cases qmp)
    case (Inl e)
    with assms q q_opens show ?thesis by (auto simp: daemon_open_qmp_def)
  next
    case (Inr qmp_fd)
    with assms q obtain yank s2 where y: "colod_unix_connect (op_qmp_yank_path ctx) s1 = Some (yank, s2)"
      by (auto simp: daemon_open_qmp_def bind_eq_Some_conv)
    from connect_opens [OF y] assms q q_opens Inr y show ?thesis
      by (cases yank) (auto simp: daemon_open_qmp_def)
  qed
qed

text \<open>
  C37. The start leaks no descriptor: when opening the QMP sockets, the management socket or the
  PID file fails, at whichever call, every descriptor it had opened is closed again; when it
  succeeds exactly the ones it returns have been added, for the PID file the one that holds the
  lock.
\<close>

theorem start_leaks_no_descriptor:
  "(\<forall>r s'. daemon_open_qmp ctx s = Some (r, s') \<longrightarrow>
      os_fds s' = (case r of Inl e \<Rightarrow> os_fds s | Inr (qmp_fd, yank_fd) \<Rightarrow> yank_fd # qmp_fd # os_fds s)) \<and>
   (\<forall>r s'. daemon_open_mngmt ctx s = Some (r, s') \<longrightarrow>
      os_fds s' = (case r of Inl e \<Rightarrow> os_fds s | Inr fd \<Rightarrow> fd # os_fds s)) \<and>
   (\<forall>r s'. colod_write_pidfile path s = Some (r, s') \<longrightarrow>
      (case r of Inl e \<Rightarrow> os_fds s' = os_fds s | Inr u \<Rightarrow> \<exists>fd. os_fds s' = fd # os_fds s))"
  using open_qmp_fds open_mngmt_opens write_pidfile_fds by (fastforce simp: opens_def split: sum.splits)

text \<open>Concrete options, and a system with a list of answers.\<close>

definition example_options :: "bool \<Rightarrow> string option \<Rightarrow> option_parser" where
  "example_options background yank ctx = (None, ctx\<lparr>op_node_name := Some ''a'', op_instance_name := Some ''colo'',
     op_base_dir := Some ''/run'', op_qmp_path := Some ''/qmp'', op_qmp_yank_path := yank,
     op_daemonize := background\<rparr>)"

definition answered :: "(int \<times> int) list \<Rightarrow> os" where
  "answered as = os_example (\<lambda>n. if n < length as then as ! n else (0, 0))"

lemma start_leaks_no_descriptor_witness:
  "\<exists>e s'. daemon_open_qmp (snd (example_options False (Some ''/yank'') no_options))
      (answered [(6, 0), (0, 0), (7, 0), (-1, 111)]) = Some (Inl e, s') \<and> os_fds s' = []"
proof -
  let ?ctx = "snd (example_options False (Some ''/yank'') no_options)"
  let ?s = "answered [(6, 0), (0, 0), (7, 0), (-1, 111)]"
  have "map_option (\<lambda>(r, s'). isl r) (daemon_open_qmp ?ctx ?s) = Some True" by code_simp
  then obtain r s' where "daemon_open_qmp ?ctx ?s = Some (r, s')" "isl r" by auto
  then obtain e where run: "daemon_open_qmp ?ctx ?s = Some (Inl e, s')" by (cases r) auto
  with start_leaks_no_descriptor [of ?ctx ?s] have "os_fds s' = os_fds ?s" by fastforce
  with run show ?thesis by (simp add: answered_def os_example_def)
qed

subsection \<open>The report\<close>

text \<open>\<open>logs P s s'\<close>: from \<open>s\<close> to \<open>s'\<close> there were only calls of which \<open>P\<close> holds.\<close>

definition logs :: "(os_call \<Rightarrow> bool) \<Rightarrow> os \<Rightarrow> os \<Rightarrow> bool" where
  "logs P s s' \<longleftrightarrow> (\<exists>log. os_log s' = os_log s @ log \<and> list_all P log)"

lemma logs_refl [simp]: "logs P s s"
  by (simp add: logs_def)

lemma logs_trans: "logs P s s1 \<Longrightarrow> logs P s1 s2 \<Longrightarrow> logs P s s2"
  by (fastforce simp: logs_def)

lemma logs_fds [simp]: "logs P s (s1\<lparr>os_fds := fds\<rparr>) = logs P s s1"
  by (simp add: logs_def)

lemma logs_mono: "logs P s s' \<Longrightarrow> set (os_log s) \<subseteq> set (os_log s')"
  by (auto simp: logs_def)

text \<open>A call that does not write the byte that reports success.\<close>

fun quiet :: "os_call \<Rightarrow> bool" where
  "quiet (Sys_write fd bytes) = (CHR 0x00 \<notin> set bytes)"
| "quiet _ = True"

lemma sys_logs: "sys call s = (ret, value, s1) \<Longrightarrow> P call \<Longrightarrow> logs P s s1"
  by (auto simp: logs_def sys_def sys_answered_def Let_def split: prod.splits)

lemma sys_logged: "sys call s = (ret, value, s1) \<Longrightarrow> call \<in> set (os_log s1)"
  by (auto simp: sys_def sys_answered_def Let_def split: prod.splits)

lemma sys_new_fd_logs: "sys_new_fd call s = (ret, s1) \<Longrightarrow> P call \<Longrightarrow> logs P s s1"
  by (auto simp: sys_new_fd_def logs_def sys_def sys_answered_def Let_def split: prod.splits if_splits)

lemma sys_close_logs [simp]: "logs quiet s1 s \<Longrightarrow> logs quiet s1 (sys_close fd s)"
  by (fastforce simp: logs_def sys_close_def)

lemma sys_read_logs: "sys_read fd len s = (ret, bytes, s1) \<Longrightarrow> logs quiet s s1"
  by (auto simp: logs_def sys_read_def sys_answered_def Let_def split: prod.splits)

lemma read_full_logs:
  assumes "read_full_loop fd len buf s = Some y"
  shows "logs quiet s (snd y)"
proof (induction rule: read_full_loop.raw_induct [OF _ assms])
  case (1 loop fd len buf s y)
  obtain ret bytes s1 where r: "sys_read fd len s = (ret, bytes, s1)" by (rule prod_cases3)
  from 1(2) r sys_read_logs [OF r] show ?case by (auto intro: logs_trans dest!: 1(1) split: if_splits)
qed

lemma write_full_logs:
  assumes "write_full_loop fd buf n s = Some (n', s')" and "CHR 0x00 \<notin> set buf"
  shows "logs quiet s s'"
  using assms(1)
proof (rule write_full_loop_post)
  fix k chunks
  assume log: "os_log s' = os_log s @ map (Sys_write fd) chunks" and "concat chunks = take k buf"
  then have "set (concat chunks) \<subseteq> set buf" by (simp only: set_take_subset)
  with assms(2) log show ?thesis by (auto simp: logs_def list_all_iff)
qed

lemma decimal_no_nul: "CHR 0x00 \<notin> set (decimal n)"
proof (induction n rule: decimal.induct)
  case (1 n)
  have digit: "char_of (48 + m) \<noteq> CHR 0x00" if "m < 10" for m :: nat
  proof
    assume "char_of (48 + m) = CHR 0x00"
    then have "of_char (char_of (48 + m) :: char) = (0 :: nat)" by (simp only:) simp
    with that show False by simp
  qed
  from 1 digit show ?case by (simp add: decimal.simps [of n] digit [symmetric])
qed

lemma pid_line_no_nul: "CHR 0x00 \<notin> set (pid_line pid)"
  using decimal_no_nul by (auto simp: pid_line_def dest: in_set_takeD)

lemma connect_logs: "colod_unix_connect p s = Some (r, s') \<Longrightarrow> logs quiet s s'"
proof -
  assume c: "colod_unix_connect p s = Some (r, s')"
  then obtain path where p: "p = Some path" by (cases p) (auto simp: colod_unix_connect_def)
  obtain fd s1 where s1: "sys_new_fd Sys_socket s = (fd, s1)" by fastforce
  obtain ret v s2 where s2: "sys (Sys_connect fd path) s1 = (ret, v, s2)" by (rule prod_cases3)
  have "logs quiet s s1" "logs quiet s1 s2" using sys_new_fd_logs [OF s1] sys_logs [OF s2] by simp_all
  with c p s1 s2 show ?thesis by (auto simp: colod_unix_connect_def intro: logs_trans split: if_splits)
qed

lemma set_blocking_logs: "colod_fd_set_blocking fd b s = (r, s') \<Longrightarrow> logs quiet s s'"
proof -
  assume b: "colod_fd_set_blocking fd b s = (r, s')"
  obtain ret v s1 where s1: "sys (Sys_getfl fd) s = (ret, v, s1)" by (rule prod_cases3)
  have "logs quiet s s1" using sys_logs [OF s1] by simp
  moreover have "sys (Sys_setfl fd flags) s1 = (r2, v2, s2) \<Longrightarrow> logs quiet s1 s2" for flags r2 v2 s2
    by (drule sys_logs) simp_all
  ultimately show ?thesis using b s1
    by (auto simp: colod_fd_set_blocking_def Let_def intro: logs_trans split: prod.splits if_splits)
qed

lemma connect_connects:
  assumes "colod_unix_connect p s = Some (Inr fd, s')"
  shows "\<exists>path. p = Some path \<and> Sys_connect fd path \<in> set (os_log s')"
proof -
  from assms obtain path where p: "p = Some path" by (cases p) (auto simp: colod_unix_connect_def)
  obtain fd' s1 where s1: "sys_new_fd Sys_socket s = (fd', s1)" by fastforce
  obtain ret v s2 where s2: "sys (Sys_connect fd' path) s1 = (ret, v, s2)" by (rule prod_cases3)
  from assms p s1 s2 sys_logged [OF s2] show ?thesis by (auto simp: colod_unix_connect_def split: if_splits)
qed

lemma open_qmp_logs:
  assumes "daemon_open_qmp ctx s = Some (r, s')"
  shows "logs quiet s s' \<and> (\<forall>qmp_fd yank_fd. r = Inr (qmp_fd, yank_fd) \<longrightarrow> (\<exists>path yank_path.
    op_qmp_path ctx = Some path \<and> op_qmp_yank_path ctx = Some yank_path \<and>
    Sys_connect qmp_fd path \<in> set (os_log s') \<and> Sys_connect yank_fd yank_path \<in> set (os_log s')))"
proof -
  from assms obtain qmp s1 where q: "colod_unix_connect (op_qmp_path ctx) s = Some (qmp, s1)"
    by (auto simp: daemon_open_qmp_def bind_eq_Some_conv)
  note q_logs = connect_logs [OF q]
  show ?thesis
  proof (cases qmp)
    case (Inl e)
    with assms q q_logs show ?thesis by (auto simp: daemon_open_qmp_def)
  next
    case (Inr qmp_fd)
    with assms q obtain yank s2 where y: "colod_unix_connect (op_qmp_yank_path ctx) s1 = Some (yank, s2)"
      by (auto simp: daemon_open_qmp_def bind_eq_Some_conv)
    note y_logs = connect_logs [OF y]
    from connect_connects [OF q [unfolded Inr]] obtain path
      where "op_qmp_path ctx = Some path" "Sys_connect qmp_fd path \<in> set (os_log s2)"
      using logs_mono [OF y_logs] by blast
    with assms q Inr y connect_connects [of "op_qmp_yank_path ctx" s1 _ s2] logs_trans [OF q_logs y_logs]
    show ?thesis by (cases yank) (auto simp: daemon_open_qmp_def)
  qed
qed

lemma prepare_mngmt_logs:
  "prepare_mngmt fd path s = (r, s') \<Longrightarrow> logs quiet s s' \<and> (\<forall>u. r = Inr u \<longrightarrow> u = fd \<and> Sys_listen fd \<in> set (os_log s'))"
proof -
  assume p: "prepare_mngmt fd path s = (r, s')"
  obtain r1 v1 s1 where s1: "sys (Sys_unlink path) s = (r1, v1, s1)" by (rule prod_cases3)
  obtain r2 v2 s2 where s2: "sys (Sys_bind fd path) s1 = (r2, v2, s2)" by (rule prod_cases3)
  obtain r3 v3 s3 where s3: "sys (Sys_listen fd) s2 = (r3, v3, s3)" by (rule prod_cases3)
  obtain r4 s4 where s4: "colod_fd_set_blocking fd False s3 = (r4, s4)" by fastforce
  have "logs quiet s s1" "logs quiet s1 s2" "logs quiet s2 s3" "logs quiet s3 s4"
    using sys_logs [OF s1] sys_logs [OF s2] sys_logs [OF s3] set_blocking_logs [OF s4] by simp_all
  then have "logs quiet s s2" "logs quiet s s3" "logs quiet s s4" by (blast intro: logs_trans)+
  moreover have "Sys_listen fd \<in> set (os_log s3)" by (rule sys_logged [OF s3])
  then have "Sys_listen fd \<in> set (os_log s4)" using logs_mono [OF \<open>logs quiet s3 s4\<close>] by blast
  ultimately show ?thesis using p by (auto simp: prepare_mngmt_def s1 s2 s3 s4 split: if_splits sum.splits)
qed

lemma open_mngmt_logs:
  assumes "daemon_open_mngmt ctx s = Some (r, s')"
  shows "logs quiet s s' \<and> (\<forall>fd. r = Inr fd \<longrightarrow> Sys_listen fd \<in> set (os_log s'))"
proof -
  from assms obtain base_dir where b: "op_base_dir ctx = Some base_dir"
    by (cases "op_base_dir ctx") (auto simp: daemon_open_mngmt_def)
  obtain fd s1 where s1: "sys_new_fd Sys_socket s = (fd, s1)" by fastforce
  have "logs quiet s s1" using sys_new_fd_logs [OF s1] by simp
  with assms b s1 show ?thesis
    by (auto simp: daemon_open_mngmt_def Let_def dest!: prepare_mngmt_logs intro: logs_trans split: if_splits)
qed

lemma open_cpg_logs:
  assumes "daemon_open_cpg name s = (r, s')"
  shows "logs quiet s s' \<and> (\<forall>cpg. r = Inr cpg \<longrightarrow> Cpg_join name \<in> set (os_log s'))"
proof -
  obtain r1 v1 s1 where s1: "sys Cpg_initialize s = (r1, v1, s1)" by (rule prod_cases3)
  obtain r2 v2 s2 where s2: "sys (Cpg_join name) s1 = (r2, v2, s2)" by (rule prod_cases3)
  have "logs quiet s s1" "logs quiet s1 s2" using sys_logs [OF s1] sys_logs [OF s2] by simp_all
  moreover have "Cpg_join name \<in> set (os_log s2)" by (rule sys_logged [OF s2])
  ultimately show ?thesis using assms
    by (auto simp: daemon_open_cpg_def colod_open_cpg_def s1 s2 intro: logs_trans split: if_splits)
qed

lemma lock_pidfile_logs:
  assumes "lock_pidfile path s = Some y"
  shows "logs quiet s (snd y)"
proof (induction rule: lock_pidfile.raw_induct [OF _ assms])
  case (1 loop path s y)
  obtain fd s1 where s1: "sys_new_fd (Sys_open path) s = (fd, s1)" by fastforce
  obtain r2 b s2 where s2: "sys (Sys_fstat fd) s1 = (r2, b, s2)" by (rule prod_cases3)
  obtain r3 v3 s3 where s3: "sys (Sys_lock fd) s2 = (r3, v3, s3)" by (rule prod_cases3)
  obtain r4 a s4 where s4: "sys (Sys_stat path) s3 = (r4, a, s4)" by (rule prod_cases3)
  have "logs quiet s s1" "logs quiet s1 s2" "logs quiet s2 s3" "logs quiet s3 s4"
    using sys_new_fd_logs [OF s1] sys_logs [OF s2] sys_logs [OF s3] sys_logs [OF s4] by simp_all
  then have l: "logs quiet s s1" "logs quiet s s2" "logs quiet s s3" "logs quiet s s4"
    by (blast intro: logs_trans)+
  have again: "loop path (sys_close fd s4) = Some y \<Longrightarrow> logs quiet s (snd y)"
    by (rule logs_trans [OF sys_close_logs [OF l(4)] 1(1)])
  from 1(2) s1 s2 s3 s4 l again show ?case by (auto split: if_splits)
qed

lemma write_pidfile_logs:
  assumes "colod_write_pidfile path s = Some (r, s')"
  shows "logs quiet s s'"
proof -
  from assms obtain locked s1 where l: "lock_pidfile path s = Some (locked, s1)"
    by (auto simp: colod_write_pidfile_def bind_eq_Some_conv)
  have l1: "logs quiet s s1" using lock_pidfile_logs [OF l] by simp
  show ?thesis
  proof (cases locked)
    case (Inl e)
    with assms l l1 show ?thesis by (auto simp: colod_write_pidfile_def)
  next
    case (Inr fd)
    obtain r2 v2 s2 where s2: "sys (Sys_truncate fd) s1 = (r2, v2, s2)" by (rule prod_cases3)
    obtain pid v3 s3 where s3: "sys Sys_getpid s2 = (pid, v3, s3)" by (rule prod_cases3)
    have "logs quiet s1 s2" "logs quiet s2 s3" using sys_logs [OF s2] sys_logs [OF s3] by simp_all
    with l1 have l2: "logs quiet s s2" "logs quiet s s3" by (blast intro: logs_trans)+
    have written: "logs quiet s s4" if "colod_write_full fd (pid_line pid) s3 = Some (n, s4)" for n s4
      using that write_full_logs [of fd "pid_line pid" 0 s3 n s4] pid_line_no_nul l2(2)
      by (auto simp: colod_write_full_def intro: logs_trans)
    have unlink: "logs quiet s (unlink_close path fd t)" if "logs quiet s t" for t
    proof -
      obtain r v t1 where t1: "sys (Sys_unlink path) t = (r, v, t1)" by (rule prod_cases3)
      with that sys_logs [OF t1] show ?thesis by (simp add: unlink_close_def logs_trans)
    qed
    from assms l Inr s2 s3 l2 written unlink show ?thesis
      by (auto simp: colod_write_pidfile_def bind_eq_Some_conv split: if_splits)
  qed
qed

fun process_os :: "'a process \<Rightarrow> os" where
  "process_os (Goes_on x s) = s"
| "process_os (Exits b s) = s"

lemma close_all_logs: "logs quiet s1 s \<Longrightarrow> logs quiet s1 (close_all_but highest keep s)"
proof -
  have "logs quiet s1 s \<Longrightarrow> logs quiet s1 (fold (\<lambda>fd s. if fd = keep then s else sys_close fd s) fds s)" for fds
    by (induction fds arbitrary: s) auto
  then show "logs quiet s1 s \<Longrightarrow> logs quiet s1 (close_all_but highest keep s)" by (simp add: close_all_but_def)
qed

lemma daemonize_parent_logs:
  assumes "daemonize_parent fd0 fd1 s = Some p"
  shows "logs quiet s (process_os p)"
proof -
  from assms obtain y where y: "read_full_loop fd0 1 [] (sys_close fd1 s) = Some y" "process_os p = snd y"
    by (auto simp: daemonize_parent_def colod_read_full_def bind_eq_Some_conv)
  have "logs quiet s (sys_close fd1 s)" by simp
  with read_full_logs [OF y(1)] y(2) show ?thesis by (metis logs_trans)
qed

lemma daemonize_child_logs: "logs quiet s0 s \<Longrightarrow> logs quiet s0 (process_os (daemonize_child fd1 s))"
proof -
  assume l: "logs quiet s0 s"
  obtain r1 v1 s1 where s1: "sys (Sys_chdir ''/'') s = (r1, v1, s1)" by (rule prod_cases3)
  obtain r2 v2 s2 where s2: "sys Sys_open_max s1 = (r2, v2, s2)" by (rule prod_cases3)
  have "logs quiet s s1" "logs quiet s1 s2" using sys_logs [OF s1] sys_logs [OF s2] by simp_all
  with l have "logs quiet s0 s1" "logs quiet s0 s2" by (blast intro: logs_trans)+
  then show ?thesis by (simp add: daemonize_child_def s1 s2 close_all_logs)
qed

lemma os_daemonize_logs:
  assumes "os_daemonize s = Some p"
  shows "logs quiet s (process_os p)"
proof -
  obtain fd0 fd1 s1 where s1: "sys Sys_pipe s = (fd0, fd1, s1)" by (rule prod_cases3)
  let ?s2 = "s1\<lparr>os_fds := fd0 # fd1 # os_fds s1\<rparr>"
  obtain pid v3 s3 where s3: "sys Sys_fork ?s2 = (pid, v3, s3)" by (rule prod_cases3)
  obtain r4 v4 s4 where s4: "sys Sys_setsid (sys_close fd0 s3) = (r4, v4, s4)" by (rule prod_cases3)
  obtain pid5 v5 s5 where s5: "sys Sys_fork s4 = (pid5, v5, s5)" by (rule prod_cases3)
  have "logs quiet s ?s2" "logs quiet ?s2 s3" "logs quiet s3 (sys_close fd0 s3)"
    "logs quiet (sys_close fd0 s3) s4" "logs quiet s4 s5"
    using sys_logs [OF s1] sys_logs [OF s3] sys_logs [OF s4] sys_logs [OF s5] by simp_all
  then have l: "logs quiet s s1" "logs quiet s s3" "logs quiet s s4" "logs quiet s s5"
    by (simp, blast intro: logs_trans, blast intro: logs_trans, blast intro: logs_trans)
  have parent: "daemonize_parent fd0 fd1 s3 = Some p \<Longrightarrow> logs quiet s (process_os p)"
    by (rule logs_trans [OF l(2) daemonize_parent_logs])
  from assms l parent daemonize_child_logs [OF l(4)] s1 s3 s4 s5 show ?thesis
    by (auto simp: os_daemonize_def Let_def split: if_splits)
qed

lemma daemonize_files_logs:
  assumes "daemonize_files ctx pipefd s = Some p"
  shows "logs quiet s (process_os p) \<and> (\<forall>fd s'. p = Goes_on fd s' \<longrightarrow> fd = pipefd)"
proof -
  from assms obtain base_dir where b: "op_base_dir ctx = Some base_dir"
    by (cases "op_base_dir ctx") (auto simp: daemonize_files_def)
  obtain logfd s1 where s1: "sys_new_fd (Sys_open (base_dir @ ''/colod.log'')) s = (logfd, s1)" by fastforce
  obtain d1 s2 where s2: "sys_new_fd (Sys_dup 0) s1 = (d1, s2)" by fastforce
  obtain d2 s3 where s3: "sys_new_fd (Sys_dup 0) s2 = (d2, s3)" by fastforce
  obtain t s4 where s4: "sys_new_fd (Sys_open (base_dir @ ''/trace.log'')) s3 = (t, s4)" by fastforce
  let ?s4 = "if op_do_trace ctx then s4 else s3"
  have "logs quiet s s1" "logs quiet s1 s2" "logs quiet s2 s3" "logs quiet s3 ?s4"
    using sys_new_fd_logs [OF s1] sys_new_fd_logs [OF s2] sys_new_fd_logs [OF s3] sys_new_fd_logs [OF s4] by simp_all
  then have l: "logs quiet s s1" "logs quiet s ?s4" by (simp, blast intro: logs_trans)
  show ?thesis
  proof (cases "logfd < 0")
    case True
    with assms b s1 l show ?thesis by (auto simp: daemonize_files_def)
  next
    case False
    with assms b s1 s2 s3 s4 obtain ret s5 where w: "colod_write_pidfile (base_dir @ ''/colod.pid'') ?s4 = Some (ret, s5)"
      and p: "p = (case ret of Inl e \<Rightarrow> Exits False s5 | Inr _ \<Rightarrow> Goes_on pipefd s5)"
      by (cases "op_do_trace ctx") (auto simp: daemonize_files_def Let_def bind_eq_Some_conv)
    with logs_trans [OF l(2) write_pidfile_logs [OF w]] show ?thesis by (auto split: sum.splits)
  qed
qed

lemma daemonize_logs:
  assumes "daemonize ctx s = Some p"
  shows "logs quiet s (process_os p)"
proof -
  from assms obtain q where q: "os_daemonize s = Some q" by (auto simp: daemonize_def bind_eq_Some_conv)
  from os_daemonize_logs [OF q] assms q show ?thesis
    by (cases q) (auto simp: daemonize_def dest!: daemonize_files_logs intro: logs_trans)
qed

text \<open>What has been set up when the main loop is entered.\<close>

definition set_up :: "started \<Rightarrow> os_call list \<Rightarrow> bool" where
  "set_up st log \<longleftrightarrow> (\<exists>path yank_path name.
     op_qmp_path (st_ctx st) = Some path \<and> Sys_connect (st_qmp_fd st) path \<in> set log \<and>
     op_qmp_yank_path (st_ctx st) = Some yank_path \<and> Sys_connect (st_qmp_yank_fd st) yank_path \<in> set log \<and>
     Sys_listen (st_mngmt_listen_fd st) \<in> set log \<and>
     op_instance_name (st_ctx st) = Some name \<and> Cpg_join name \<in> set log)"

lemma daemon_connect_logs:
  assumes "daemon_connect ctx s = Some p"
  shows "logs quiet s (process_os p) \<and>
    (\<forall>st s'. p = Goes_on st s' \<longrightarrow> st_ctx st = ctx \<and> set_up st (os_log s'))"
proof -
  from assms obtain qmp s1 where q: "daemon_open_qmp ctx s = Some (qmp, s1)"
    by (auto simp: daemon_connect_def bind_eq_Some_conv)
  note ql = open_qmp_logs [OF q]
  show ?thesis
  proof (cases qmp)
    case (Inl e)
    with assms q ql show ?thesis by (auto simp: daemon_connect_def)
  next
    case (Inr fds)
    obtain qmp_fd yank_fd where fds: "fds = (qmp_fd, yank_fd)" by fastforce
    from assms q Inr fds obtain mngmt s2 where m: "daemon_open_mngmt ctx s1 = Some (mngmt, s2)"
      by (auto simp: daemon_connect_def bind_eq_Some_conv)
    note ml = open_mngmt_logs [OF m]
    have l2: "logs quiet s s2" using ql ml by (blast intro: logs_trans)
    show ?thesis
    proof (cases mngmt)
      case (Inl e)
      with assms q Inr fds m l2 show ?thesis by (auto simp: daemon_connect_def)
    next
      case (Inr mngmt_fd)
      with assms q \<open>qmp = Inr fds\<close> fds m obtain name where n: "op_instance_name ctx = Some name"
        by (cases "op_instance_name ctx") (auto simp: daemon_connect_def)
      obtain cpg s3 where c: "daemon_open_cpg name s2 = (cpg, s3)" by fastforce
      note cl = open_cpg_logs [OF c]
      have "logs quiet s s3" using l2 cl by (blast intro: logs_trans)
      moreover have "set (os_log s1) \<subseteq> set (os_log s2)" "set (os_log s2) \<subseteq> set (os_log s3)"
        using ml cl logs_mono by blast+
      ultimately show ?thesis using assms q \<open>qmp = Inr fds\<close> fds m Inr n c ql ml cl
        by (cases cpg) (auto simp: daemon_connect_def set_up_def subset_iff)
    qed
  qed
qed

lemma daemon_report_logs:
  assumes "daemon_report pipefd st s = Some p" and "op_daemonize (st_ctx st)"
  shows "case p of Goes_on st' s' \<Rightarrow> st' = st \<and> (\<exists>after. os_log s' = os_log s @ after \<and> wrote pipefd after = [CHR 0x00])
    | Exits b s' \<Rightarrow> \<not> b \<and> logs quiet s s'"
proof -
  from assms obtain n s1 where w: "write_full_loop pipefd [CHR 0x00] 0 s = Some (n, s1)"
    by (auto simp: daemon_report_def os_daemonize_post_init_def colod_write_full_def bind_eq_Some_conv)
  then show ?thesis
  proof (rule write_full_loop_post)
    fix k chunks
    assume k: "k \<le> length [CHR 0x00]" "n = 0 + k" "os_log s1 = os_log s @ map (Sys_write pipefd) chunks"
      "concat chunks = take k [CHR 0x00]"
    have log: "os_log (sys_close pipefd s1) = os_log s @ map (Sys_write pipefd) chunks @ [Sys_close pipefd]"
      using k(3) by (simp add: sys_close_def)
    show ?thesis
    proof (cases "k = 1")
      case True
      then have "wrote pipefd (map (Sys_write pipefd) chunks @ [Sys_close pipefd]) = [CHR 0x00]"
        using k(4) by (simp only: wrote_append wrote_chunks) (simp add: wrote_def)
      with True log assms w k(2) show ?thesis
        by (auto simp: daemon_report_def os_daemonize_post_init_def colod_write_full_def)
    next
      case False
      with k(1,4) have "concat chunks = []" by (cases k) auto
      then have "logs quiet s (sys_close pipefd s1)" using log by (auto simp: logs_def list_all_iff)
      with False assms w k(2) show ?thesis
        by (auto simp: daemon_report_def os_daemonize_post_init_def colod_write_full_def)
    qed
  qed
qed


text \<open>A start in the background with every call answered as hoped for.\<close>

definition start_answers :: "(int \<times> int) list" where
  "start_answers = [(3, 4), (0, 0), (0, 0), (0, 0), (0, 0), (10, 0), (0, 0), (1, 0), (2, 0),
     (5, 0), (0, 7), (0, 0), (0, 7), (0, 0), (42, 0), (3, 0),
     (6, 0), (0, 0), (7, 0), (0, 0), (8, 0), (0, 0), (0, 0), (0, 0), (2, 0), (0, 0), (1, 0), (1, 0), (1, 0)]"


text \<open>
  The path of the second QMP socket is used like the first one but not required: without it the
  start dereferences NULL as soon as the first is connected.
\<close>

lemma missing_yank_path_aborts:
  assumes "daemon_parse_options parse no_options = (Inr (), ctx)" and "op_qmp_yank_path ctx = None"
    and "\<not> op_daemonize ctx" and "colod_unix_connect (op_qmp_path ctx) s = Some (Inr fd, s1)"
  shows "daemon_main parse s = None"
proof -
  have "colod_unix_connect None t = None" for t by (simp add: colod_unix_connect_def)
  with assms show ?thesis by (simp add: daemon_main_def daemon_connect_def daemon_open_qmp_def)
qed

lemma missing_yank_path_example:
  "daemon_main (example_options False None) (answered [(3, 0), (0, 0)]) = None"
  by code_simp

end
