(* ===== verification/Netlink.thy ===== *)
theory Netlink
  imports Yellow
begin

text \<open>
  \<^verbatim>\<open>netlink.c\<close>: the socket that reports changes of network links, and how they reach the link
  debouncer. What the netlink library answers and the messages it delivers are inputs.
\<close>

subsection \<open>State and operations\<close>

text \<open>
  A message of the kernel: a link with its index and flags, or anything else. The state extends
  that of the debouncer, whose callback is the one the daemon registers.
\<close>

datatype nl_message = RTM_NEWLINK guint guint | Other_message

record ColodNetlink = YellowCoroutine +
  nl_source_id :: guint
  nl_callbacks :: "callback callbacks"

type_synonym 's netlink_callback = "callback \<Rightarrow> string \<Rightarrow> bool \<Rightarrow> 's \<Rightarrow> 's abortable"

definition netlink_add_notify :: "callback \<Rightarrow> 'z ColodNetlink_scheme \<Rightarrow> 'z ColodNetlink_scheme abortable" where
  "netlink_add_notify func this = do {
     cbs \<leftarrow> colod_callback_add (nl_callbacks this) func;
     Some (this\<lparr>nl_callbacks := cbs\<rparr>) }"

definition netlink_del_notify :: "callback \<Rightarrow> 'z ColodNetlink_scheme \<Rightarrow> 'z ColodNetlink_scheme abortable" where
  "netlink_del_notify func this = do {
     cbs \<leftarrow> colod_callback_del (nl_callbacks this) func;
     Some (this\<lparr>nl_callbacks := cbs\<rparr>) }"

definition netlink_notify ::
    "'z ColodNetlink_scheme netlink_callback \<Rightarrow> string \<Rightarrow> bool \<Rightarrow> 'z ColodNetlink_scheme \<Rightarrow>
     'z ColodNetlink_scheme abortable" where
  "netlink_notify f ifname up this =
     qlist_foreach_safe nl_callbacks (\<lambda>c. f c ifname up) (nl_callbacks this) this"

definition IFF_RUNNING :: guint where
  "IFF_RUNNING = 0x40"

text \<open>
  \<open>if_indextoname\<close> gives the name of a link, or nothing when there is none of that index any more;
  the buffer is empty then.
\<close>

definition netlink_message ::
    "(guint \<Rightarrow> string option) \<Rightarrow> 'z ColodNetlink_scheme netlink_callback \<Rightarrow> nl_message \<Rightarrow>
     'z ColodNetlink_scheme \<Rightarrow> 'z ColodNetlink_scheme abortable" where
  "netlink_message if_indextoname f msg this = (case msg of
     RTM_NEWLINK index flags \<Rightarrow>
       netlink_notify f (case if_indextoname index of Some name \<Rightarrow> name | None \<Rightarrow> []) (and flags IFF_RUNNING \<noteq> 0) this
   | Other_message \<Rightarrow> Some this)"

text \<open>\<^verbatim>\<open>nl_recvmsgs_default\<close> delivers the messages in order and then reports \<open>ret\<close>.\<close>

fun nl_recvmsgs ::
    "(guint \<Rightarrow> string option) \<Rightarrow> 'z ColodNetlink_scheme netlink_callback \<Rightarrow> nl_message list \<Rightarrow>
     'z ColodNetlink_scheme \<Rightarrow> 'z ColodNetlink_scheme abortable" where
  "nl_recvmsgs if_indextoname f [] this = Some this"
| "nl_recvmsgs if_indextoname f (m # ms) this = do {
     this1 \<leftarrow> netlink_message if_indextoname f m this;
     nl_recvmsgs if_indextoname f ms this1 }"

text \<open>The result says whether the source stays attached.\<close>

definition netlink_io_watch ::
    "(guint \<Rightarrow> string option) \<Rightarrow> 'z ColodNetlink_scheme netlink_callback \<Rightarrow> nl_message list \<Rightarrow> int \<Rightarrow>
     'z ColodNetlink_scheme \<Rightarrow> (bool \<times> 'z ColodNetlink_scheme) abortable" where
  "netlink_io_watch if_indextoname f ms ret this = do {
     this1 \<leftarrow> nl_recvmsgs if_indextoname f ms this;
     Some (if ret < 0 then (False, this1\<lparr>nl_source_id := 0\<rparr>) else (True, this1)) }"

text \<open>Building and sending the request for the state of all links.\<close>

definition netlink_request_status :: "bool \<Rightarrow> int \<Rightarrow> int \<Rightarrow> unit fallible abortable" where
  "netlink_request_status allocated appended sent = do {
     c_assert allocated;
     Some (if appended < 0 then Inl (GError (Some COLOD_ERROR_FATAL) ''Failed to build netlink message'')
       else if sent < 0 then Inl (GError (Some COLOD_ERROR_FATAL) ''Failed to send netlink message'')
       else Inr ()) }"

text \<open>The calls of \<open>netlink_new\<close> in their order, each with its result; the last field is the callback's.\<close>

record netlink_answers =
  na_allocated :: bool
  na_connect :: int
  na_membership :: int
  na_nonblocking :: int
  na_callback :: int

definition netlink_new ::
    "'e glib \<Rightarrow> source \<Rightarrow> netlink_answers \<Rightarrow> 'z ColodNetlink_scheme \<Rightarrow>
     (unit fallible \<times> 'z ColodNetlink_scheme) abortable" where
  "netlink_new G func a ctx = do {
     c_assert (na_allocated a);
     Some (if na_connect a < 0
       then (Inl (GError (Some COLOD_ERROR_FATAL) ''Failed to connect netlink socket''), ctx)
       else if na_membership a < 0
       then (Inl (GError (Some COLOD_ERROR_FATAL) ''Failed to join netlink mcast membership''), ctx)
       else if na_nonblocking a < 0
       then (Inl (GError (Some COLOD_ERROR_FATAL) ''Failed to set netlink socket nonblocking''), ctx)
       else if na_callback a < 0
       then (Inl (GError (Some COLOD_ERROR_FATAL) ''Failed to set netlink callback''), ctx)
       else let (i, this) = add_source G func (ctx\<lparr>nl_callbacks := []\<rparr>)
         in (Inr (), this\<lparr>nl_source_id := i\<rparr>)) }"

definition netlink_free :: "'z ColodNetlink_scheme \<Rightarrow> 'z ColodNetlink_scheme" where
  "netlink_free this =
     (let this1 = this\<lparr>nl_callbacks := colod_callback_clear (nl_callbacks this)\<rparr>
      in if nl_source_id this1 \<noteq> 0 then remove_source (nl_source_id this1) this1 else this1)"

subsection \<open>The debouncer behind the socket\<close>

text \<open>What connects the two: the monitored interface, and the debouncer's callback with netlink.\<close>

definition wired :: "string \<Rightarrow> 'z ColodNetlink_scheme \<Rightarrow> bool" where
  "wired ifname s \<longleftrightarrow> yl_monitor_interface s = Some ifname \<and> yl_listening s \<and> nl_callbacks s = [CB_netlink_event]"

lemma wired_update [simp]:
  "wired ifname (s\<lparr>ml_sources := ss\<rparr>) = wired ifname s" "wired ifname (s\<lparr>yl_pc := pc\<rparr>) = wired ifname s"
  "wired ifname (s\<lparr>cpg_retransmit := fl\<rparr>) = wired ifname s" "wired ifname (s\<lparr>cpg_mcast := ms\<rparr>) = wired ifname s"
  "wired ifname (s\<lparr>cpg_retransmit_source_id := i\<rparr>) = wired ifname s" "wired ifname (s\<lparr>yl_quit := b\<rparr>) = wired ifname s"
  "wired ifname (remove_source i s) = wired ifname s"
  by (simp_all add: wired_def remove_source_def)

lemma wired_send: "colod_cpg_send G m s = Some s' \<Longrightarrow> wired ifname s' = wired ifname s"
  by (cases "cpg_retransmit_source_id s = 0") (auto simp: colod_cpg_send_def add_source_eq Let_def)

lemma wired_delay:
  "yellow_delay_co G t d e s = Some (r, s') \<Longrightarrow> wired ifname s' = wired ifname s"
  by (cases d) (auto simp: delay_top_def yellow_send_target_message_def yellow_send_revert_message_def
      add_source_eq Let_def bind_eq_Some_conv dest!: wired_send split: if_splits)

text \<open>Clients of the debouncer that leave the wiring alone.\<close>

definition leaves_wired :: "'z ColodNetlink_scheme yellow_callback \<Rightarrow> bool" where
  "leaves_wired f \<longleftrightarrow> (\<forall>c e s s' ifname. f c e s = Some s' \<longrightarrow> wired ifname s' = wired ifname s)"

lemma wired_foreach:
  assumes "leaves_wired f" and "qlist_foreach_safe head (\<lambda>c. f c e) cs s = Some s'"
  shows "wired ifname s' = wired ifname s"
  using assms(2)
proof (induction head "\<lambda>c. f c e" cs s rule: qlist_foreach_safe.induct)
  case (2 head c cs s)
  then obtain s1 where s1: "f c e s = Some s1" by (auto simp: Let_def bind_eq_Some_conv)
  with 2 assms(1) show ?case by (auto simp: leaves_wired_def Let_def)
qed simp

lemma wired_enter:
  assumes "leaves_wired f" and "yellow_co_enter G f e s = Some s'"
  shows "wired ifname s' = wired ifname s"
proof -
  have delay: "wired ifname s' = wired ifname s" if "yellow_in_delay G f t d e s = Some s'" for t d
  proof -
    from that obtain r s1 where r: "yellow_delay_co G t d e s = Some (r, s1)"
      by (auto simp: yellow_in_delay_def bind_eq_Some_conv)
    with wired_delay [OF r] wired_foreach [OF assms(1)] that show ?thesis
      by (cases r) (auto simp: yellow_in_delay_def yellow_notify_def bind_eq_Some_conv split: if_splits)
  qed
  with assms(2) show ?thesis by (auto simp: yellow_co_enter_def split: yellow_pc.splits)
qed

lemma wired_event_cb:
  assumes "leaves_wired f" and "yellow_netlink_event_cb G f name up s = Some s'"
  shows "wired ifname s' = wired ifname s"
  using assms(2) by (auto simp: yellow_netlink_event_cb_def yellow_queue_event_def bind_eq_Some_conv
      dest!: wired_enter [OF assms(1)] split: option.splits if_splits)

text \<open>The link events of the monitored interface among the messages.\<close>

fun link_input :: "(guint \<Rightarrow> string option) \<Rightarrow> string \<Rightarrow> nl_message \<Rightarrow> yellow_input list" where
  "link_input if_indextoname ifname (RTM_NEWLINK index flags) =
     (if (case if_indextoname index of Some name \<Rightarrow> name | None \<Rightarrow> []) = ifname
      then [Link (and flags IFF_RUNNING \<noteq> 0)] else [])"
| "link_input if_indextoname ifname Other_message = []"

definition link_inputs :: "(guint \<Rightarrow> string option) \<Rightarrow> string \<Rightarrow> nl_message list \<Rightarrow> yellow_input list" where
  "link_inputs if_indextoname ifname ms = concat (map (link_input if_indextoname ifname) ms)"

text \<open>What netlink calls: the debouncer's callback.\<close>

definition debouncer_callback ::
    "'e glib \<Rightarrow> 'z ColodNetlink_scheme yellow_callback \<Rightarrow> 'z ColodNetlink_scheme netlink_callback" where
  "debouncer_callback G f c ifname up this = (if c = CB_netlink_event
     then yellow_netlink_event_cb G f ifname up this else Some this)"

lemma yellow_run_Nil [simp]: "yellow_run G f ifname [] = Some"
  by (rule ext) simp

lemma yellow_run_append:
  "yellow_run G f ifname (is @ js) s = Option.bind (yellow_run G f ifname is s) (yellow_run G f ifname js)"
  by (induction "is" arbitrary: s) (auto intro!: Option.bind_cong)

lemma message_step:
  assumes "wired ifname s"
  shows "netlink_message idx (debouncer_callback G f) m s = yellow_run G f ifname (link_input idx ifname m) s"
proof (cases m)
  case (RTM_NEWLINK index flags)
  let ?name = "case idx index of Some name \<Rightarrow> name | None \<Rightarrow> []"
  have "netlink_message idx (debouncer_callback G f) m s =
      yellow_netlink_event_cb G f ?name (and flags IFF_RUNNING \<noteq> 0) s"
    using assms RTM_NEWLINK
    by (cases "yellow_netlink_event_cb G f ?name (and flags IFF_RUNNING \<noteq> 0) s")
      (auto simp: netlink_message_def netlink_notify_def wired_def debouncer_callback_def Let_def)
  with assms RTM_NEWLINK show ?thesis
    by (auto simp: wired_def yellow_input_step_def yellow_netlink_event_cb_def bind_eq_Some_conv)
qed (simp add: netlink_message_def)

text \<open>
  C40. The debouncer sees exactly the changes of the monitored link: whatever messages the kernel
  sends, handling them is running the debouncer on the states of the links with that name, in
  order, each up when the link is running; so what was shown of the debouncer's inputs holds of
  the messages.
\<close>

theorem netlink_drives_debouncer:
  assumes "wired ifname this" and "leaves_wired f"
  shows "nl_recvmsgs idx (debouncer_callback G f) ms this = yellow_run G f ifname (link_inputs idx ifname ms) this"
  using assms(1)
proof (induction ms arbitrary: this)
  case Nil
  show ?case by (simp add: link_inputs_def)
next
  case (Cons m ms)
  have keep: "wired ifname s1" if "yellow_run G f ifname (link_input idx ifname m) this = Some s1" for s1
  proof (cases m)
    case (RTM_NEWLINK index flags)
    with that Cons.prems show ?thesis
      by (auto simp: yellow_input_step_def bind_eq_Some_conv wired_event_cb [OF assms(2)] split: if_splits)
  qed (use that Cons.prems in simp)
  show ?case
    using message_step [OF Cons.prems, of idx G f m] Cons.IH keep
    by (auto simp: link_inputs_def yellow_run_append intro!: Option.bind_cong)
qed

definition netlink_start :: ColodNetlink where
  "netlink_start = YellowCoroutine.extend (YellowCoroutine.truncate yellow_start)
     (ColodNetlink.fields 3 [CB_netlink_event])"

definition link_names :: "guint \<Rightarrow> string option" where
  "link_names i = (if i = 2 then Some ''eth0'' else if i = 3 then Some ''eth1'' else None)"

definition link_messages :: "nl_message list" where
  "link_messages = [RTM_NEWLINK 2 0x1003, Other_message, RTM_NEWLINK 3 0x1043, RTM_NEWLINK 2 0x1043]"

lemma netlink_drives_debouncer_witness:
  "nl_recvmsgs link_names (debouncer_callback (ref_glib :: nat glib) (\<lambda>c e s. Some s)) link_messages netlink_start =
     yellow_run (ref_glib :: nat glib) (\<lambda>c e s. Some s) ''eth0'' [Link False, Link True] netlink_start"
proof -
  have "wired ''eth0'' netlink_start"
    by (simp add: wired_def netlink_start_def yellow_start_def YellowCoroutine.defs ColodNetlink.defs)
  moreover have "leaves_wired (\<lambda>c e s :: ColodNetlink. Some s)" by (simp add: leaves_wired_def)
  moreover have "link_inputs link_names ''eth0'' link_messages = [Link False, Link True]" by code_simp
  ultimately show ?thesis
    using netlink_drives_debouncer [of "''eth0''" netlink_start "\<lambda>c e s. Some s" link_names "ref_glib :: nat glib" link_messages]
    by simp
qed

end
