(* ===== verification/Co_Stack.thy ===== *)
theory Co_Stack
  imports Channel_Io
begin

text \<open>
  \<^verbatim>\<open>coroutine.h\<close> and \<^verbatim>\<open>coroutine_stack.h\<close>: the machinery under every coroutine of the daemon.
  A coroutine function is a C function whose body is a \<^verbatim>\<open>switch\<close> on a line number kept in its
  frame; \<open>co_yield\<close> stores the line and returns to the main loop through all callers, and the
  next \<open>co_enter\<close> calls the functions again, each of which jumps to where it was. The other
  theories have suspension points and the structured calls of \<open>co_recurse\<close> instead. Here the
  stack of frames is shown to implement them.
\<close>

subsection \<open>The stack of a coroutine\<close>

text \<open>
  \<open>'d\<close> is what the data of a frame can hold, \<open>'v\<close> the values coroutine functions return and
  yield. \<open>fr_line\<close> is 0 in a frame that is not in use. \<open>frame\<close> is an index, or \<open>None\<close> when NULL.
\<close>

record 'd CoroutineFrame =
  fr_data :: 'd
  fr_line :: nat

record ('d, 'v) Coroutine =
  co_quit :: bool
  co_yield :: bool
  co_yield_value :: 'v
  co_frame :: "nat option"
  co_stack :: "'d CoroutineFrame list"

definition COROUTINE_STACK_SIZE :: nat where
  "COROUTINE_STACK_SIZE = 16"

text \<open>A coroutine as \<^verbatim>\<open>g_new0\<close> leaves it; \<open>d\<close> and \<open>v\<close> are what zero bytes mean.\<close>

definition co_new :: "'d \<Rightarrow> 'v \<Rightarrow> ('d, 'v) Coroutine" where
  "co_new d v = \<lparr>co_quit = False, co_yield = False, co_yield_value = v, co_frame = None,
     co_stack = replicate COROUTINE_STACK_SIZE \<lparr>fr_data = d, fr_line = 0\<rparr>\<rparr>"

subsection \<open>Coroutine functions\<close>

text \<open>
  A program gives each coroutine function \<open>'f\<close>, an argument that steers its calls being part of
  \<open>'f\<close>, the code that runs from a label of its switch to the next \<open>co_yield\<close>, \<open>co_recurse\<close> or
  return. At the label of a \<open>co_recurse\<close> the code gets the value the call returned. It gives the new
  data of the frame, or \<open>None\<close> if it did not write any. Label 0 is \<open>co_begin\<close>. \<open>pg_callee\<close> is the function that the \<open>co_recurse\<close> at a label calls; \<open>None\<close> is the
  label of a \<open>co_yield\<close>.

  A function without a switch calls another one in its own frame (\<open>pg_through\<close>), does something
  before each time it is entered and something with the value in the end. One that only sets
  \<open>yield\<close> and returns is entered from its start again: it yields at label 0.
\<close>

datatype 'v co_action = Co_yield nat 'v | Co_recurse nat | Co_return 'v

record ('f, 'd, 'v, 'i, 's) co_program =
  pg_code :: "'f \<Rightarrow> nat \<Rightarrow> 'v \<Rightarrow> 'd \<Rightarrow> 'i \<Rightarrow> 's \<Rightarrow> ('v co_action \<times> 'd option \<times> 'i \<times> 's) abortable"
  pg_callee :: "'f \<Rightarrow> nat \<Rightarrow> 'f option"
  pg_through :: "'f \<Rightarrow> 'f option"
  pg_before :: "'f \<Rightarrow> 'i \<Rightarrow> 's \<Rightarrow> ('i \<times> 's) abortable"
  pg_after :: "'f \<Rightarrow> 'v \<Rightarrow> 'i \<Rightarrow> 's \<Rightarrow> ('v \<times> 'i \<times> 's) abortable"

text \<open>Where a function is: at its \<^verbatim>\<open>switch\<close>, running from a label, or in the loop of a \<open>co_recurse\<close>.\<close>

datatype 'v co_mode = At_switch | From_label nat 'v | In_recurse nat

subsection \<open>The machine\<close>

definition frame_at :: "('d, 'v) Coroutine \<Rightarrow> nat \<Rightarrow> 'd CoroutineFrame abortable" where
  "frame_at co i = (if i < length (co_stack co) then Some (co_stack co ! i) else None)"

definition set_line :: "nat \<Rightarrow> nat \<Rightarrow> ('d, 'v) Coroutine \<Rightarrow> ('d, 'v) Coroutine abortable" where
  "set_line i line co = do {
     fr \<leftarrow> frame_at co i;
     Some (co\<lparr>co_stack := (co_stack co)[i := fr\<lparr>fr_line := line\<rparr>]\<rparr>) }"

definition set_data :: "nat \<Rightarrow> 'd \<Rightarrow> ('d, 'v) Coroutine \<Rightarrow> ('d, 'v) Coroutine abortable" where
  "set_data i d co = do {
     fr \<leftarrow> frame_at co i;
     Some (co\<lparr>co_stack := (co_stack co)[i := fr\<lparr>fr_data := d\<rparr>]\<rparr>) }"

text \<open>
  The call of a coroutine function. What a yielding function returns is of no use to its callers;
  \<open>nil\<close> stands for it. \<open>None\<close> is the death of the process, or \<open>n\<close> steps are not enough.
\<close>

fun co_code ::
    "nat \<Rightarrow> ('f, 'd, 'v, 'i, 's) co_program \<Rightarrow> 'v \<Rightarrow> 'f \<Rightarrow> 'v co_mode \<Rightarrow> ('d, 'v) Coroutine \<Rightarrow> 'i \<Rightarrow> 's \<Rightarrow>
     ('v \<times> ('d, 'v) Coroutine \<times> 'i \<times> 's) option" where
  "co_code 0 P nil f m co io s = None"
| "co_code (Suc n) P nil f At_switch co io s = (case pg_through P f of
     Some g \<Rightarrow> do {
       (io1, s1) \<leftarrow> pg_before P f io s;
       (v, co1, io2, s2) \<leftarrow> co_code n P nil g At_switch co io1 s1;
       if co_yield co1 then Some (nil, co1, io2, s2)
       else do { (v1, io3, s3) \<leftarrow> pg_after P f v io2 s2; Some (v1, co1, io3, s3) } }
   | None \<Rightarrow> do {
       i \<leftarrow> c_nonnull (co_frame co);
       fr \<leftarrow> frame_at co i;
       (case pg_callee P f (fr_line fr) of
          Some g \<Rightarrow> co_code n P nil f (In_recurse (fr_line fr)) co io s
        | None \<Rightarrow> co_code n P nil f (From_label (fr_line fr) nil) co io s) })"
| "co_code (Suc n) P nil f (From_label line v) co io s = do {
     i \<leftarrow> c_nonnull (co_frame co);
     fr \<leftarrow> frame_at co i;
     (act, d, io1, s1) \<leftarrow> pg_code P f line v (fr_data fr) io s;
     co1 \<leftarrow> (case d of None \<Rightarrow> Some co | Some d1 \<Rightarrow> set_data i d1 co);
     (case act of
        Co_yield line' v' \<Rightarrow> do {
          co2 \<leftarrow> set_line i line' (co1\<lparr>co_yield := True, co_yield_value := v'\<rparr>);
          Some (nil, co2, io1, s1) }
      | Co_recurse line' \<Rightarrow> co_code n P nil f (In_recurse line') co1 io1 s1
      | Co_return v' \<Rightarrow> Some (v', co1, io1, s1)) }"
| "co_code (Suc n) P nil f (In_recurse line) co io s = do {
     i \<leftarrow> c_nonnull (co_frame co);
     c_assert (i + 1 < COROUTINE_STACK_SIZE);
     g \<leftarrow> pg_callee P f line;
     (v, co1, io1, s1) \<leftarrow> co_code n P nil g At_switch (co\<lparr>co_frame := Some (i + 1)\<rparr>) io s;
     j \<leftarrow> c_nonnull (co_frame co1);
     let co2 = co1\<lparr>co_frame := Some (j - 1)\<rparr>;
     if co_yield co2 then do {
       co3 \<leftarrow> set_line (j - 1) line co2;
       Some (nil, co3, io1, s1) }
     else do {
       co3 \<leftarrow> set_line j 0 co2;
       co_code n P nil f (From_label line v) co3 io1 s1 } }"

text \<open>
  \<open>co_enter\<close>, the macro of the callbacks that resume a coroutine.
\<close>

definition co_enter ::
    "nat \<Rightarrow> ('f, 'd, 'v, 'i, 's) co_program \<Rightarrow> 'v \<Rightarrow> 'f \<Rightarrow> ('d, 'v) Coroutine \<Rightarrow> 'i \<Rightarrow> 's \<Rightarrow>
     ('v \<times> ('d, 'v) Coroutine \<times> 'i \<times> 's) option" where
  "co_enter n P nil f co io s = do {
     let co1 = (if co_frame co = None then co\<lparr>co_frame := Some 0\<rparr> else co);
     let co2 = co1\<lparr>co_yield := False\<rparr>;
     c_assert (\<not> co_quit co2);
     c_assert (co_frame co2 = Some 0);
     (v, co3, io1, s1) \<leftarrow> co_code n P nil f At_switch co2 io s;
     c_assert (co_frame co3 = Some 0);
     if co_yield co3 then Some (v, co3, io1, s1)
     else do {
       co4 \<leftarrow> set_line 0 0 co3;
       Some (v, co4\<lparr>co_quit := True\<rparr>, io1, s1) } }"

subsection \<open>Structured calls\<close>

text \<open>
  The meaning the other theories give to coroutine functions. A suspended function is at a
  point: the labels of the functions it is called through, the outermost first, with their
  data. A function that has not begun is at \<open>[]\<close>. There is no stack, and no limit on the depth.
\<close>

type_synonym 'd co_point = "(nat \<times> 'd) list"

datatype ('d, 'v) point_mode =
    At_point "'d co_point" | At_label nat 'v 'd | In_call nat 'd "'d co_point"

fun co_resume ::
    "nat \<Rightarrow> ('f, 'd, 'v, 'i, 's) co_program \<Rightarrow> 'v \<Rightarrow> 'd \<Rightarrow> 'f \<Rightarrow> ('d, 'v) point_mode \<Rightarrow> 'i \<Rightarrow> 's \<Rightarrow>
     (('d co_point \<times> 'v, 'v) co \<times> 'i \<times> 's) option" where
  "co_resume 0 P nil fresh f m io s = None"
| "co_resume (Suc n) P nil fresh f (At_point p) io s = (case pg_through P f of
     Some g \<Rightarrow> do {
       (io1, s1) \<leftarrow> pg_before P f io s;
       co_recurse (co_resume n P nil fresh g (At_point p) io1 s1) (\<lambda>p. p)
         (\<lambda>v io2 s2. do { (v1, io3, s3) \<leftarrow> pg_after P f v io2 s2; Some (Done v1, io3, s3) }) }
   | None \<Rightarrow> (case p of
       [] \<Rightarrow> co_resume n P nil fresh f (At_label 0 nil fresh) io s
     | (line, d) # inner \<Rightarrow> (case pg_callee P f line of
         Some g \<Rightarrow> co_resume n P nil fresh f (In_call line d inner) io s
       | None \<Rightarrow> co_resume n P nil fresh f (At_label line nil d) io s)))"
| "co_resume (Suc n) P nil fresh f (At_label line v d) io s = do {
     (act, w, io1, s1) \<leftarrow> pg_code P f line v d io s;
     let d1 = (case w of None \<Rightarrow> d | Some d1 \<Rightarrow> d1);
     (case act of
        Co_yield line' v' \<Rightarrow>
          Some (Yielding (if line' = 0 then [] else [(line', d1)], v'), io1, s1)
      | Co_recurse line' \<Rightarrow> co_resume n P nil fresh f (In_call line' d1 []) io1 s1
      | Co_return v' \<Rightarrow> Some (Done v', io1, s1)) }"
| "co_resume (Suc n) P nil fresh f (In_call line d inner) io s = do {
     g \<leftarrow> pg_callee P f line;
     co_recurse (co_resume n P nil fresh g (At_point inner) io s) (\<lambda>(p, v). ((line, d) # p, v))
       (\<lambda>v io1 s1. co_resume n P nil fresh f (At_label line v d) io1 s1) }"

subsection \<open>The stack implements structured calls\<close>

text \<open>
  What the programs of the daemon fulfil: a label of a switch is not 0 unless the function yields
  from its start, and calls are made at the labels of calls; a function does not read the data of
  its frame before it has written it, \<open>blank f line\<close> being the labels it may be at by then; and no
  call can be nested deeper than the stack: \<open>rank f\<close> bounds the frames above the one of \<open>f\<close>.
\<close>

definition well_labelled :: "('f, 'd, 'v, 'i, 's) co_program \<Rightarrow> bool" where
  "well_labelled P \<longleftrightarrow> (\<forall>f. pg_callee P f 0 = None) \<and>
     (\<forall>f line v d io s act d1 io1 s1. pg_code P f line v d io s = Some (act, d1, io1, s1) \<longrightarrow>
        (\<forall>line' v'. act = Co_yield line' v' \<longrightarrow> pg_callee P f line' = None) \<and>
        (\<forall>line'. act = Co_recurse line' \<longrightarrow> pg_callee P f line' \<noteq> None))"

definition begins_fresh :: "('f, 'd, 'v, 'i, 's) co_program \<Rightarrow> ('f \<Rightarrow> nat \<Rightarrow> bool) \<Rightarrow> bool" where
  "begins_fresh P blank \<longleftrightarrow> (\<forall>f. blank f 0) \<and>
     (\<forall>f line v d d'. blank f line \<longrightarrow> pg_code P f line v d = pg_code P f line v d') \<and>
     (\<forall>f line v d io s act io1 s1. blank f line \<longrightarrow> pg_code P f line v d io s = Some (act, None, io1, s1) \<longrightarrow>
        (\<forall>line' v'. act = Co_yield line' v' \<longrightarrow> blank f line') \<and>
        (\<forall>line'. act = Co_recurse line' \<longrightarrow> blank f line'))"

definition fits_stack :: "('f, 'd, 'v, 'i, 's) co_program \<Rightarrow> ('f \<Rightarrow> nat) \<Rightarrow> bool" where
  "fits_stack P rank \<longleftrightarrow> (\<forall>f line g. pg_callee P f line = Some g \<longrightarrow> rank g < rank f) \<and>
     (\<forall>f g. pg_through P f = Some g \<longrightarrow> rank g \<le> rank f)"

text \<open>The frames from the one of a function upwards, and the point it is at.\<close>

abbreviation unused :: "'d CoroutineFrame list \<Rightarrow> bool" where
  "unused frs \<equiv> \<forall>fr\<in>set frs. fr_line fr = 0"

inductive stands_at ::
    "('f, 'd, 'v, 'i, 's) co_program \<Rightarrow> ('f \<Rightarrow> nat \<Rightarrow> bool) \<Rightarrow> 'f \<Rightarrow> 'd CoroutineFrame list \<Rightarrow> 'd co_point \<Rightarrow> bool"
    for P blank where
  begins: "unused frs \<Longrightarrow> stands_at P blank f frs []"
| yields: "pg_through P f = None \<Longrightarrow> pg_callee P f (fr_line fr) = None \<Longrightarrow> fr_line fr \<noteq> 0 \<Longrightarrow> unused frs \<Longrightarrow>
    blank f (fr_line fr) \<or> fr_data fr = d \<Longrightarrow> stands_at P blank f (fr # frs) [(fr_line fr, d)]"
| calls: "pg_through P f = None \<Longrightarrow> pg_callee P f (fr_line fr) = Some g \<Longrightarrow>
    blank f (fr_line fr) \<or> fr_data fr = d \<Longrightarrow> stands_at P blank g frs p \<Longrightarrow>
    stands_at P blank f (fr # frs) ((fr_line fr, d) # p)"
| through: "pg_through P f = Some g \<Longrightarrow> stands_at P blank g frs p \<Longrightarrow> stands_at P blank f frs p"

definition in_frame :: "nat \<Rightarrow> ('d, 'v) Coroutine \<Rightarrow> bool" where
  "in_frame i co \<longleftrightarrow> length (co_stack co) = COROUTINE_STACK_SIZE \<and> co_frame co = Some i \<and>
     i < COROUTINE_STACK_SIZE"

text \<open>What a call leaves alone: the frames of its callers.\<close>

definition keeps_below :: "nat \<Rightarrow> ('d, 'v) Coroutine \<Rightarrow> ('d, 'v) Coroutine \<Rightarrow> bool" where
  "keeps_below i co co' \<longleftrightarrow> in_frame i co' \<and> co_quit co' = co_quit co \<and>
     take i (co_stack co') = take i (co_stack co)"

definition agrees ::
    "('f, 'd, 'v, 'i, 's) co_program \<Rightarrow> ('f \<Rightarrow> nat \<Rightarrow> bool) \<Rightarrow> 'v \<Rightarrow> 'f \<Rightarrow> nat \<Rightarrow> ('d, 'v) Coroutine \<Rightarrow>
     (('d co_point \<times> 'v, 'v) co \<times> 'i \<times> 's) option \<Rightarrow> ('v \<times> ('d, 'v) Coroutine \<times> 'i \<times> 's) option \<Rightarrow> bool" where
  "agrees P blank nil f i co r m \<longleftrightarrow> (case r of
     None \<Rightarrow> m = None
   | Some (Yielding (p, v), io, s) \<Rightarrow> (\<exists>co'. m = Some (nil, co', io, s) \<and> co_yield co' \<and> co_yield_value co' = v \<and>
       keeps_below i co co' \<and> stands_at P blank f (drop i (co_stack co')) p)
   | Some (Done v, io, s) \<Rightarrow> (\<exists>co'. m = Some (v, co', io, s) \<and> \<not> co_yield co' \<and>
       keeps_below i co co' \<and> unused (drop (Suc i) (co_stack co'))))"

fun in_mode ::
    "('f, 'd, 'v, 'i, 's) co_program \<Rightarrow> ('f \<Rightarrow> nat \<Rightarrow> bool) \<Rightarrow> 'f \<Rightarrow> nat \<Rightarrow> ('d, 'v) Coroutine \<Rightarrow> ('d, 'v) point_mode \<Rightarrow> bool" where
  "in_mode P blank f i co (At_point p) \<longleftrightarrow> stands_at P blank f (drop i (co_stack co)) p"
| "in_mode P blank f i co (At_label line v d) \<longleftrightarrow> (blank f line \<or> fr_data (co_stack co ! i) = d) \<and>
     unused (drop (Suc i) (co_stack co)) \<and> pg_through P f = None"
| "in_mode P blank f i co (In_call line d inner) \<longleftrightarrow> (blank f line \<or> fr_data (co_stack co ! i) = d) \<and>
     pg_through P f = None \<and>
     (\<forall>g. pg_callee P f line = Some g \<longrightarrow> stands_at P blank g (drop (Suc i) (co_stack co)) inner)"

fun mode_of :: "('d, 'v) point_mode \<Rightarrow> 'v co_mode" where
  "mode_of (At_point p) = At_switch"
| "mode_of (At_label line v d) = From_label line v"
| "mode_of (In_call line d inner) = In_recurse line"

lemma frame_at_in_frame: "in_frame i co \<Longrightarrow> frame_at co i = Some (co_stack co ! i)"
  by (simp add: in_frame_def frame_at_def)

lemma drop_frame: "in_frame i co \<Longrightarrow> drop i (co_stack co) = co_stack co ! i # drop (Suc i) (co_stack co)"
  by (simp add: in_frame_def Cons_nth_drop_Suc)

definition simulates ::
    "('f, 'd, 'v, 'i, 's) co_program \<Rightarrow> ('f \<Rightarrow> nat \<Rightarrow> bool) \<Rightarrow> ('f \<Rightarrow> nat) \<Rightarrow> 'v \<Rightarrow> 'd \<Rightarrow> nat \<Rightarrow> bool" where
  "simulates P blank rank nil fresh n \<longleftrightarrow> (\<forall>f i co m io s. in_frame i co \<longrightarrow> \<not> co_yield co \<longrightarrow>
     i + rank f < COROUTINE_STACK_SIZE \<longrightarrow> in_mode P blank f i co m \<longrightarrow>
     agrees P blank nil f i co (co_resume n P nil fresh f m io s) (co_code n P nil f (mode_of m) co io s))"

lemma simulatesD:
  assumes "simulates P blank rank nil fresh n" and "in_frame i co" and "\<not> co_yield co"
    and "i + rank f < COROUTINE_STACK_SIZE" and "in_mode P blank f i co m"
  shows "agrees P blank nil f i co (co_resume n P nil fresh f m io s) (co_code n P nil f (mode_of m) co io s)"
  using assms by (simp add: simulates_def)

lemma agrees_cases:
  assumes "agrees P blank nil f i co r m"
  obtains (none) "r = None" "m = None"
  | (yielded) p v io s co' where "r = Some (Yielding (p, v), io, s)" "m = Some (nil, co', io, s)"
      "co_yield co'" "co_yield_value co' = v" "keeps_below i co co'" "stands_at P blank f (drop i (co_stack co')) p"
  | (returned) v io s co' where "r = Some (Done v, io, s)" "m = Some (v, co', io, s)" "\<not> co_yield co'"
      "keeps_below i co co'" "unused (drop (Suc i) (co_stack co'))"
proof (cases r)
  case None
  with assms none show ?thesis by (simp add: agrees_def)
next
  case (Some x)
  obtain c io s where x: "x = (c, io, s)" by (metis prod_cases3)
  show ?thesis
  proof (cases c)
    case (Yielding pv)
    with assms Some x yielded show ?thesis by (cases pv) (auto simp: agrees_def)
  next
    case (Done v)
    with assms Some x returned show ?thesis by (auto simp: agrees_def)
  qed
qed

lemma agrees_caller:
  assumes "agrees P blank nil f i co1 r m" and "co_quit co1 = co_quit co" and "take i (co_stack co1) = take i (co_stack co)"
  shows "agrees P blank nil f i co r m"
proof -
  have eq: "keeps_below i co1 = keeps_below i co" using assms(2,3) by (simp add: keeps_below_def fun_eq_iff)
  show ?thesis using assms(1) unfolding agrees_def eq .
qed

lemma switch_simulation:
  assumes P: "well_labelled P" "fits_stack P rank" "simulates P blank rank nil fresh n" "begins_fresh P blank"
    and co: "in_frame i co" "\<not> co_yield co" "i + rank f < COROUTINE_STACK_SIZE"
    and p: "stands_at P blank f (drop i (co_stack co)) p"
  shows "agrees P blank nil f i co (co_resume (Suc n) P nil fresh f (At_point p) io s)
    (co_code (Suc n) P nil f At_switch co io s)"
proof (cases "pg_through P f")
  case None
  note fr = frame_at_in_frame [OF co(1)] drop_frame [OF co(1)]
  have frame: "co_frame co = Some i" using co(1) by (simp add: in_frame_def)
  have no0: "pg_callee P f 0 = None" using P(1) by (simp add: well_labelled_def)
  have blank0: "blank f 0" using P(4) by (simp add: begins_fresh_def)
  have IH: "in_mode P blank f i co m \<Longrightarrow> agrees P blank nil f i co (co_resume n P nil fresh f m io s)
      (co_code n P nil f (mode_of m) co io s)" for m
    by (rule simulatesD [OF P(3) co])
  from p have "stands_at P blank f (co_stack co ! i # drop (Suc i) (co_stack co)) p" by (simp only: fr)
  then show ?thesis
  proof (cases rule: stands_at.cases)
    case begins
    with None no0 IH [of "At_label 0 nil fresh"] blank0 show ?thesis by (simp add: frame fr)
  next
    case (yields d)
    with None IH [of "At_label (fr_line (co_stack co ! i)) nil d"]
    show ?thesis by (simp add: frame fr)
  next
    case (calls g d inner)
    with None IH [of "In_call (fr_line (co_stack co ! i)) d inner"]
    show ?thesis by (simp add: frame fr)
  next
    case (through g)
    with None show ?thesis by simp
  qed
next
  case (Some g)
  have rank: "i + rank g < COROUTINE_STACK_SIZE" using P(2) Some co(3) by (fastforce simp: fits_stack_def)
  have at_g: "stands_at P blank g (drop i (co_stack co)) p"
    using p Some by (cases rule: stands_at.cases) (auto intro: stands_at.begins)
  show ?thesis
  proof (cases "pg_before P f io s")
    case None
    with Some show ?thesis by (simp add: agrees_def)
  next
    case before: (Some x)
    obtain io1 s1 where x: "x = (io1, s1)" by fastforce
    have "agrees P blank nil g i co (co_resume n P nil fresh g (At_point p) io1 s1) (co_code n P nil g At_switch co io1 s1)"
      using simulatesD [OF P(3) co(1,2) rank, of "At_point p"] at_g by simp
    then show ?thesis
    proof (cases rule: agrees_cases)
      case none
      with Some before x show ?thesis by (simp add: agrees_def co_recurse_def)
    next
      case (yielded p' v io2 s2 co')
      with Some before x show ?thesis by (auto simp: agrees_def co_recurse_def intro: stands_at.through)
    next
      case (returned v io2 s2 co')
      with Some before x show ?thesis
        by (cases "pg_after P f v io2 s2") (auto simp: agrees_def co_recurse_def)
    qed
  qed
qed

text \<open>The data a segment leaves in its frame.\<close>

definition new_data :: "'d \<Rightarrow> 'd option \<Rightarrow> 'd" where
  "new_data d w = (case w of None \<Rightarrow> d | Some d1 \<Rightarrow> d1)"

lemma written_data:
  assumes "begins_fresh P blank" and "pg_code P f line v d io s = Some (act, w, io1, s1)"
    and "blank f line \<or> e = d" and "act = Co_yield line' v' \<or> act = Co_recurse line'"
  shows "blank f line' \<or> new_data e w = new_data d w"
proof (cases w)
  case None
  have "blank f line'" if "blank f line"
    using assms(1) [unfolded begins_fresh_def, THEN conjunct2, THEN conjunct2, rule_format, OF that]
      assms(2,4) None by blast
  with assms(3) None show ?thesis by (auto simp: new_data_def)
qed (simp add: new_data_def)

lemma label_simulation:
  assumes P: "well_labelled P" "begins_fresh P blank" "simulates P blank rank nil fresh n"
    and co: "in_frame i co" "\<not> co_yield co" "i + rank f < COROUTINE_STACK_SIZE"
    and m: "in_mode P blank f i co (At_label line v d)"
  shows "agrees P blank nil f i co (co_resume (Suc n) P nil fresh f (At_label line v d) io s)
    (co_code (Suc n) P nil f (From_label line v) co io s)"
proof -
  note fr = frame_at_in_frame [OF co(1)]
  let ?e = "fr_data (co_stack co ! i)"
  have frame: "co_frame co = Some i" using co(1) by (simp add: in_frame_def)
  have code: "pg_code P f line v ?e io s = pg_code P f line v d io s"
    using m P(2) unfolding begins_fresh_def by (metis in_mode.simps(2))
  show ?thesis
  proof (cases "pg_code P f line v d io s")
    case None
    then show ?thesis by (simp add: agrees_def frame fr code)
  next
    case (Some x)
    obtain act w io1 s1 where x: "x = (act, w, io1, s1)" by (metis prod_cases4)
    define co1 where "co1 = co\<lparr>co_stack := (co_stack co)[i := (co_stack co ! i)\<lparr>fr_data := new_data ?e w\<rparr>]\<rparr>"
    have set: "(case w of None \<Rightarrow> Some co | Some d1 \<Rightarrow> set_data i d1 co) = Some co1"
      by (simp add: set_data_def fr co1_def new_data_def split: option.split)
    have co1: "in_frame i co1" "\<not> co_yield co1" "co_quit co1 = co_quit co" "take i (co_stack co1) = take i (co_stack co)"
      "drop (Suc i) (co_stack co1) = drop (Suc i) (co_stack co)" "fr_data (co_stack co1 ! i) = new_data ?e w"
      "i < length (co_stack co)"
      using co by (simp_all add: co1_def in_frame_def)
    have unused: "unused (drop (Suc i) (co_stack co))" and no: "pg_through P f = None" using m by simp_all
    have labels: "act = Co_yield line' v' \<Longrightarrow> pg_callee P f line' = None" "act = Co_recurse line' \<Longrightarrow> \<exists>g. pg_callee P f line' = Some g"
      for line' v' using P(1) Some x unfolding well_labelled_def by blast+
    have data: "act = Co_yield line' v' \<or> act = Co_recurse line' \<Longrightarrow> blank f line' \<or> new_data ?e w = new_data d w" for line' v'
      using written_data [OF P(2), of f line v d io s act w io1 s1 ?e] Some x m by simp
    show ?thesis
    proof (cases act)
      case (Co_yield line' v')
      let ?fr = "(co_stack co ! i)\<lparr>fr_data := new_data ?e w, fr_line := line'\<rparr>"
      let ?co = "co\<lparr>co_stack := (co_stack co)[i := ?fr], co_yield := True, co_yield_value := v'\<rparr>"
      have set2: "set_line i line' (co1\<lparr>co_yield := True, co_yield_value := v'\<rparr>) = Some ?co"
        using co1(7) by (simp add: set_line_def frame_at_def co1_def)
      have drop: "drop i (co_stack ?co) = ?fr # drop (Suc i) (co_stack co)"
        using co1(7) by (simp add: drop_update_cancel upd_conv_take_nth_drop)
      have "stands_at P blank f (drop i (co_stack ?co)) (if line' = 0 then [] else [(line', new_data d w)])"
        using labels(1) [OF Co_yield] data Co_yield no unused
          stands_at.yields [of P f ?fr "drop (Suc i) (co_stack co)" blank "new_data d w"]
        unfolding drop by (auto intro!: stands_at.begins)
      then show ?thesis
        using Some x Co_yield co
        by (simp add: agrees_def frame fr code set set2 keeps_below_def in_frame_def new_data_def [symmetric])
    next
      case (Co_recurse line')
      then obtain g where g: "pg_callee P f line' = Some g" using labels by blast
      have "agrees P blank nil f i co1 (co_resume n P nil fresh f (In_call line' (new_data d w) []) io1 s1)
          (co_code n P nil f (In_recurse line') co1 io1 s1)"
        using simulatesD [OF P(3) co1(1,2) co(3), of "In_call line' (new_data d w) []"] co1 unused no g data Co_recurse
        by (simp add: stands_at.begins)
      from agrees_caller [OF this co1(3,4)]
      have "agrees P blank nil f i co (co_resume n P nil fresh f (In_call line' (new_data d w) []) io1 s1)
          (co_code n P nil f (In_recurse line') co1 io1 s1)" .
      then show ?thesis using Some x Co_recurse by (simp add: frame fr code set new_data_def [symmetric])
    next
      case (Co_return v')
      then show ?thesis using Some x co1 unused by (simp add: agrees_def frame fr code set keeps_below_def)
    qed
  qed
qed

lemma keeps_caller:
  assumes "keeps_below (i + 1) (co\<lparr>co_frame := Some (i + 1)\<rparr>) co1"
  shows "co_stack co1 ! i = co_stack co ! i" and "take i (co_stack co1) = take i (co_stack co)"
    and "co_quit co1 = co_quit co" and "co_frame co1 = Some (i + 1)"
    and "length (co_stack co1) = COROUTINE_STACK_SIZE" and "i + 1 < COROUTINE_STACK_SIZE"
proof -
  have eq: "take (i + 1) (co_stack co1) = take (i + 1) (co_stack co)" using assms by (simp add: keeps_below_def)
  from arg_cong [OF eq, of "\<lambda>xs. xs ! i"] show "co_stack co1 ! i = co_stack co ! i" by simp
  from arg_cong [OF eq, of "take i"] show "take i (co_stack co1) = take i (co_stack co)" by simp
qed (use assms in \<open>simp_all add: keeps_below_def in_frame_def\<close>)

lemma recurse_simulation:
  assumes P: "well_labelled P" "fits_stack P rank" "simulates P blank rank nil fresh n"
    and co: "in_frame i co" "\<not> co_yield co" "i + rank f < COROUTINE_STACK_SIZE"
    and m: "in_mode P blank f i co (In_call line d inner)"
  shows "agrees P blank nil f i co (co_resume (Suc n) P nil fresh f (In_call line d inner) io s)
    (co_code (Suc n) P nil f (In_recurse line) co io s)"
proof (cases "pg_callee P f line")
  case None
  then show ?thesis by (simp add: agrees_def bind_eq_None_conv)
next
  case (Some g)
  have frame: "co_frame co = Some i" using co(1) by (simp add: in_frame_def)
  let ?co = "co\<lparr>co_frame := Some (i + 1)\<rparr>"
  have rank: "i + 1 + rank g < COROUTINE_STACK_SIZE"
    using P(2) Some co(3) by (fastforce simp: fits_stack_def)
  have co': "in_frame (i + 1) ?co" "\<not> co_yield ?co" using co rank by (auto simp: in_frame_def)
  have "agrees P blank nil g (i + 1) ?co (co_resume n P nil fresh g (At_point inner) io s)
      (co_code n P nil g At_switch ?co io s)"
    using simulatesD [OF P(3) co' rank, of "At_point inner"] m Some by simp
  then show ?thesis
  proof (cases rule: agrees_cases)
    case none
    with Some show ?thesis by (simp add: agrees_def co_recurse_def frame bind_eq_None_conv)
  next
    case (yielded p v io1 s1 co1)
    note kept = keeps_caller [OF yielded(5)]
    let ?fr = "(co_stack co1 ! i)\<lparr>fr_line := line\<rparr>"
    let ?co1 = "co1\<lparr>co_frame := Some i, co_stack := (co_stack co1)[i := ?fr]\<rparr>"
    have drop: "drop i (co_stack ?co1) = ?fr # drop (Suc i) (co_stack co1)"
      using kept(5,6) by (simp add: upd_conv_take_nth_drop)
    have "stands_at P blank f (drop i (co_stack ?co1)) ((line, d) # p)"
      using stands_at.calls [of P f ?fr g blank d "drop (Suc i) (co_stack co1)" p] yielded(6) Some m kept(1)
      unfolding drop by simp
    then show ?thesis
      using Some yielded kept
      by (simp add: agrees_def co_recurse_def frame set_line_def frame_at_def keeps_below_def in_frame_def)
  next
    case (returned v io1 s1 co1)
    note kept = keeps_caller [OF returned(4)]
    let ?co1 = "co1\<lparr>co_frame := Some i, co_stack := (co_stack co1)[i + 1 := (co_stack co1 ! (i + 1))\<lparr>fr_line := 0\<rparr>]\<rparr>"
    have set: "set_line (i + 1) 0 (co1\<lparr>co_frame := Some i\<rparr>) = Some ?co1"
      using kept(5,6) by (simp add: set_line_def frame_at_def)
    have "drop (Suc i) (co_stack ?co1) = (co_stack co1 ! (i + 1))\<lparr>fr_line := 0\<rparr> # drop (Suc (Suc i)) (co_stack co1)"
      using kept(5,6) by (simp add: upd_conv_take_nth_drop)
    then have unused: "unused (drop (Suc i) (co_stack ?co1))" using returned(5) by simp
    have co1: "in_frame i ?co1" "\<not> co_yield ?co1" using kept returned(3) by (simp_all add: in_frame_def)
    have "in_mode P blank f i ?co1 (At_label line v d)" using m kept(1) unused by simp
    from agrees_caller [OF simulatesD [OF P(3) co1 co(3) this]]
    have "agrees P blank nil f i co (co_resume n P nil fresh f (At_label line v d) io1 s1)
        (co_code n P nil f (From_label line v) ?co1 io1 s1)"
      using kept by simp
    then show ?thesis
      using Some returned kept set by (simp add: co_recurse_def frame)
  qed
qed

lemma simulates_all:
  assumes "well_labelled P" "begins_fresh P blank" "fits_stack P rank"
  shows "simulates P blank rank nil fresh n"
proof (induction n)
  case 0
  then show ?case by (simp add: simulates_def agrees_def)
next
  case (Suc n)
  show ?case
    unfolding simulates_def
  proof (intro allI impI)
    fix f i co m io s
    assume co: "in_frame i co" "\<not> co_yield co" "i + rank f < COROUTINE_STACK_SIZE" and m: "in_mode P blank f i co m"
    show "agrees P blank nil f i co (co_resume (Suc n) P nil fresh f m io s) (co_code (Suc n) P nil f (mode_of m) co io s)"
    proof (cases m)
      case (At_point p)
      with switch_simulation [OF assms(1,3) Suc assms(2) co] m show ?thesis by simp
    next
      case (At_label line v d)
      with label_simulation [OF assms(1,2) Suc co] m show ?thesis by simp
    next
      case (In_call line d inner)
      with recurse_simulation [OF assms(1,3) Suc co] m show ?thesis by simp
    qed
  qed
qed

subsection \<open>Sessions\<close>

text \<open>
  What happens to a coroutine from its creation on: it is resumed again and again, and before each
  time the rest of the program changes \<open>io\<close> and \<open>s\<close>. A session gives what each \<open>co_enter\<close> made
  known: the value yielded or the one returned.
\<close>

fun co_session ::
    "nat \<Rightarrow> ('f, 'd, 'v, 'i, 's) co_program \<Rightarrow> 'v \<Rightarrow> 'f \<Rightarrow> ('i \<Rightarrow> 's \<Rightarrow> 'i \<times> 's) list \<Rightarrow>
     ('d, 'v) Coroutine \<Rightarrow> 'i \<Rightarrow> 's \<Rightarrow> (('v, 'v) co list \<times> 'i \<times> 's) option" where
  "co_session n P nil f [] co io s = Some ([], io, s)"
| "co_session n P nil f (env # envs) co io s = do {
     let (io1, s1) = env io s;
     (v, co1, io2, s2) \<leftarrow> co_enter n P nil f co io1 s1;
     (outs, io3, s3) \<leftarrow> co_session n P nil f envs co1 io2 s2;
     Some ((if co_yield co1 then Yielding (co_yield_value co1) else Done v) # outs, io3, s3) }"

text \<open>With structured calls, a function that has returned is at \<open>None\<close>.\<close>

fun point_session ::
    "nat \<Rightarrow> ('f, 'd, 'v, 'i, 's) co_program \<Rightarrow> 'v \<Rightarrow> 'd \<Rightarrow> 'f \<Rightarrow> ('i \<Rightarrow> 's \<Rightarrow> 'i \<times> 's) list \<Rightarrow>
     'd co_point option \<Rightarrow> 'i \<Rightarrow> 's \<Rightarrow> (('v, 'v) co list \<times> 'i \<times> 's) option" where
  "point_session n P nil fresh f [] p io s = Some ([], io, s)"
| "point_session n P nil fresh f (env # envs) p io s = do {
     let (io1, s1) = env io s;
     p1 \<leftarrow> p;
     (r, io2, s2) \<leftarrow> co_resume n P nil fresh f (At_point p1) io1 s1;
     (outs, io3, s3) \<leftarrow> point_session n P nil fresh f envs
       (case r of Yielding (p2, v) \<Rightarrow> Some p2 | Done v \<Rightarrow> None) io2 s2;
     Some ((case r of Yielding (p2, v) \<Rightarrow> Yielding v | Done v \<Rightarrow> Done v) # outs, io3, s3) }"

text \<open>Between two calls of \<open>co_enter\<close>.\<close>

definition at_rest ::
    "('f, 'd, 'v, 'i, 's) co_program \<Rightarrow> ('f \<Rightarrow> nat \<Rightarrow> bool) \<Rightarrow> 'f \<Rightarrow> ('d, 'v) Coroutine \<Rightarrow> 'd co_point option \<Rightarrow> bool" where
  "at_rest P blank f co p \<longleftrightarrow> length (co_stack co) = COROUTINE_STACK_SIZE \<and>
     (case p of None \<Rightarrow> co_quit co
      | Some p \<Rightarrow> \<not> co_quit co \<and> (co_frame co = None \<or> co_frame co = Some 0) \<and> stands_at P blank f (co_stack co) p)"

lemma co_new_at_rest: "at_rest P blank f (co_new d v) (Some [])"
  by (auto simp: at_rest_def co_new_def intro: stands_at.begins)

lemma co_enter_finished: "co_quit co \<Longrightarrow> co_enter n P nil f co io s = None"
  by (simp add: co_enter_def bind_eq_None_conv)

lemma co_enter_simulation:
  fixes P :: "('f, 'd, 'v, 'i, 's) co_program" and fresh :: 'd
  assumes P: "well_labelled P" "begins_fresh P blank" "fits_stack P rank" "rank f < COROUTINE_STACK_SIZE"
    and co: "at_rest P blank f co (Some p)"
  shows "case co_resume n P nil fresh f (At_point p) io s of
      None \<Rightarrow> co_enter n P nil f co io s = None
    | Some (Yielding (p', v), io', s') \<Rightarrow> \<exists>co'. co_enter n P nil f co io s = Some (nil, co', io', s') \<and>
        co_yield co' \<and> co_yield_value co' = v \<and> at_rest P blank f co' (Some p')
    | Some (Done v, io', s') \<Rightarrow> \<exists>co'. co_enter n P nil f co io s = Some (v, co', io', s') \<and>
        \<not> co_yield co' \<and> at_rest P blank f co' None"
proof -
  let ?co = "co\<lparr>co_frame := Some 0, co_yield := False\<rparr>"
  have frame: "in_frame 0 ?co" "\<not> co_yield ?co" and quit: "\<not> co_quit co" "co_frame co \<noteq> None \<Longrightarrow> co_frame co = Some 0"
    and start: "(if co_frame co = None then co\<lparr>co_frame := Some 0\<rparr> else co)\<lparr>co_yield := False\<rparr> = ?co"
    using co by (auto simp: at_rest_def in_frame_def COROUTINE_STACK_SIZE_def)
  have "agrees P blank nil f 0 ?co (co_resume n P nil fresh f (At_point p) io s) (co_code n P nil f At_switch ?co io s)"
    using simulatesD [OF simulates_all [OF P(1-3)] frame, of f "At_point p"] P(4) co by (simp add: at_rest_def)
  then show ?thesis
  proof (cases rule: agrees_cases)
    case none
    then show ?thesis by (simp add: co_enter_def start quit)
  next
    case (yielded p' v io' s' co')
    then show ?thesis using quit by (simp add: co_enter_def start keeps_below_def in_frame_def at_rest_def)
  next
    case (returned v io' s' co')
    then show ?thesis
      using quit by (simp add: co_enter_def start keeps_below_def in_frame_def at_rest_def set_line_def frame_at_def)
  qed
qed

lemma co_session_at_rest:
  fixes P :: "('f, 'd, 'v, 'i, 's) co_program" and fresh :: 'd
  assumes P: "well_labelled P" "begins_fresh P blank" "fits_stack P rank" "rank f < COROUTINE_STACK_SIZE"
    and "at_rest P blank f co p"
  shows "co_session n P nil f envs co io s = point_session n P nil fresh f envs p io s"
  using assms(5)
proof (induction envs arbitrary: co p io s)
  case Nil
  then show ?case by simp
next
  case (Cons env envs)
  obtain io1 s1 where env: "env io s = (io1, s1)" by fastforce
  show ?case
  proof (cases p)
    case None
    with Cons.prems show ?thesis by (simp add: env at_rest_def co_enter_finished)
  next
    case (Some p1)
    note sim = co_enter_simulation [OF P, of co p1 n nil io1 s1 fresh]
    show ?thesis
    proof (cases "co_resume n P nil fresh f (At_point p1) io1 s1")
      case None
      with sim Cons.prems Some show ?thesis by (simp add: env)
    next
      case r: (Some x)
      obtain c io2 s2 where x: "x = (c, io2, s2)" by (metis prod_cases3)
      show ?thesis
      proof (cases c)
        case (Yielding pv)
        with sim Cons Some r x show ?thesis by (cases pv) (auto simp: env)
      next
        case (Done v)
        with sim Cons Some r x show ?thesis by (auto simp: env)
      qed
    qed
  qed
qed

text \<open>
  C13. From its creation on, resuming a coroutine through its frames is resuming it by structured
  calls: for any program whose calls fit the stack and whose functions write the data of their
  frame before they read it, any number of resumptions yields and returns the same values, leaves
  the same state, and aborts when the other does.
\<close>

theorem coroutine_stack_refines_calls:
  fixes P :: "('f, 'd, 'v, 'i, 's) co_program" and fresh d :: 'd
  assumes "well_labelled P" and "begins_fresh P blank" and "fits_stack P rank" and "rank f < COROUTINE_STACK_SIZE"
  shows "co_session n P nil f envs (co_new d v) io s = point_session n P nil fresh f envs (Some []) io s"
  by (rule co_session_at_rest [OF assms co_new_at_rest])

end
