(* ===== verification/Co_Calls.thy ===== *)
theory Co_Calls
  imports Co_Stack
begin

text \<open>
  The calls of coroutine functions in the whole daemon, file by file: which frames a coroutine can
  have at the same time. \<^verbatim>\<open>qmp_read_line_co\<close> and \<^verbatim>\<open>__qmp_execute_co\<close> call each other through
  \<^verbatim>\<open>qmp_yank_co\<close>; what ends this is their argument \<open>yank\<close>, so it is part of the function here.
\<close>

datatype co_function =
    F_channel_read_line_timeout | F_channel_write_timeout
  | F_qmp_read_line bool | F_qmp_execute0 bool | F_qmp_execute_nocheck | F_qmp_yank
  | F_qmp_handshake_readable | F_qmp_wait_event | F_qmp_event
  | F_event_wait | F_qmp_event_wait | F_colod_yank | F_execute_nocheck | F_execute | F_execute_array
  | F_query_status | F_check_health | F_stop | F_failover | F_failover_sync | F_secondary_startup
  | F_secondary_wait | F_colo_running | F_primary_wait | F_primary_start_migration | F_main
  | F_channel_read_line | F_handle_query_status | F_handle_yank | F_handle_stop | F_handle_cont | F_client
  | F_watchdog | F_raise_timeout | F_yellow_delay | F_yellow

subsection \<open>The \<open>co_recurse\<close> of each function, with its line\<close>

fun qmp_read_line_calls :: "bool \<Rightarrow> (nat \<times> co_function) list" where
  "qmp_read_line_calls False = [(185, F_channel_read_line_timeout)]"
| "qmp_read_line_calls True =
     [(185, F_channel_read_line_timeout), (195, F_qmp_yank), (202, F_qmp_read_line False)]"

definition qmp_execute0_calls :: "bool \<Rightarrow> (nat \<times> co_function) list" where
  "qmp_execute0_calls yank = [(259, F_channel_write_timeout), (271, F_qmp_read_line yank)]"

definition qmp_yank_calls :: "(nat \<times> co_function) list" where
  "qmp_yank_calls = [(360, F_qmp_execute0 False), (381, F_qmp_execute0 False)]"

definition qmp_handshake_calls :: "(nat \<times> co_function) list" where
  "qmp_handshake_calls = [(442, F_qmp_read_line False), (454, F_qmp_execute0 False)]"

definition qmp_event_calls :: "(nat \<times> co_function) list" where
  "qmp_event_calls = [(614, F_qmp_read_line False)]"

definition qmp_event_wait_calls :: "(nat \<times> co_function) list" where
  "qmp_event_wait_calls = [(243, F_qmp_wait_event)]"

definition execute_array_calls :: "(nat \<times> co_function) list" where
  "execute_array_calls = [(383, F_execute)]"

definition query_status_calls :: "(nat \<times> co_function) list" where
  "query_status_calls = [(424, F_execute), (430, F_execute)]"

definition failover_calls :: "(nat \<times> co_function) list" where
  "failover_calls = [(565, F_qmp_yank), (578, F_execute_array)]"

definition failover_sync_calls :: "(nat \<times> co_function) list" where
  "failover_sync_calls = [(604, F_event_wait)]"

definition secondary_wait_calls :: "(nat \<times> co_function) list" where
  "secondary_wait_calls = [(661, F_qmp_event_wait), (669, F_event_wait)]"

definition colo_running_calls :: "(nat \<times> co_function) list" where
  "colo_running_calls = [(705, F_qmp_event_wait), (714, F_qmp_event_wait), (742, F_event_wait)]"

definition primary_wait_calls :: "(nat \<times> co_function) list" where
  "primary_wait_calls = [(765, F_event_wait)]"

definition primary_start_migration_calls :: "(nat \<times> co_function) list" where
  "primary_start_migration_calls =
     [(802, F_execute), (815, F_execute_array), (826, F_qmp_event_wait), (834, F_execute_array),
      (847, F_execute), (860, F_qmp_event_wait), (890, F_event_wait), (898, F_execute)]"

definition main_calls :: "(nat \<times> co_function) list" where
  "main_calls =
     [(966, F_secondary_startup), (969, F_secondary_wait), (972, F_colo_running), (980, F_primary_wait),
      (982, F_primary_start_migration), (986, F_colo_running), (988, F_failover_sync), (990, F_failover),
      (1006, F_stop), (1014, F_event_wait), (1037, F_event_wait)]"

definition query_status_request_calls :: "(nat \<times> co_function) list" where
  "query_status_request_calls = [(80, F_check_health)]"

definition client_calls :: "(nat \<times> co_function) list" where
  "client_calls =
     [(406, F_channel_read_line), (431, F_handle_query_status), (457, F_handle_yank), (459, F_handle_stop),
      (461, F_handle_cont), (473, F_execute_nocheck), (487, F_channel_write_timeout), (509, F_execute)]"

definition watchdog_calls :: "(nat \<times> co_function) list" where
  "watchdog_calls = [(79, F_check_health)]"

definition raise_timeout_calls :: "(nat \<times> co_function) list" where
  "raise_timeout_calls = [(26, F_qmp_wait_event), (32, F_qmp_wait_event)]"

definition yellow_calls :: "(nat \<times> co_function) list" where
  "yellow_calls = [(122, F_yellow_delay), (129, F_yellow_delay)]"

fun co_calls :: "co_function \<Rightarrow> (nat \<times> co_function) list" where
  "co_calls (F_qmp_read_line y) = qmp_read_line_calls y"
| "co_calls (F_qmp_execute0 y) = qmp_execute0_calls y"
| "co_calls F_qmp_yank = qmp_yank_calls"
| "co_calls F_qmp_handshake_readable = qmp_handshake_calls"
| "co_calls F_qmp_event = qmp_event_calls"
| "co_calls F_qmp_event_wait = qmp_event_wait_calls"
| "co_calls F_execute_array = execute_array_calls"
| "co_calls F_query_status = query_status_calls"
| "co_calls F_failover = failover_calls"
| "co_calls F_failover_sync = failover_sync_calls"
| "co_calls F_secondary_wait = secondary_wait_calls"
| "co_calls F_colo_running = colo_running_calls"
| "co_calls F_primary_wait = primary_wait_calls"
| "co_calls F_primary_start_migration = primary_start_migration_calls"
| "co_calls F_main = main_calls"
| "co_calls F_handle_query_status = query_status_request_calls"
| "co_calls F_client = client_calls"
| "co_calls F_watchdog = watchdog_calls"
| "co_calls F_raise_timeout = raise_timeout_calls"
| "co_calls F_yellow = yellow_calls"
| "co_calls _ = []"

text \<open>The functions without a switch of their own, and what they call in their frame.\<close>

fun co_through :: "co_function \<Rightarrow> co_function option" where
  "co_through F_channel_read_line = Some F_channel_read_line_timeout"
| "co_through F_qmp_execute_nocheck = Some (F_qmp_execute0 True)"
| "co_through F_colod_yank = Some F_qmp_yank"
| "co_through F_execute_nocheck = Some F_qmp_execute_nocheck"
| "co_through F_execute = Some F_execute_nocheck"
| "co_through F_check_health = Some F_query_status"
| "co_through F_stop = Some F_execute"
| "co_through F_secondary_startup = Some F_execute"
| "co_through F_handle_yank = Some F_colod_yank"
| "co_through F_handle_stop = Some F_execute"
| "co_through F_handle_cont = Some F_execute"
| "co_through _ = None"

text \<open>\<open>in_frames f k g\<close>: when \<open>f\<close> is in some frame, \<open>g\<close> may be called in the \<open>k\<close>-th one above.\<close>

inductive in_frames :: "co_function \<Rightarrow> nat \<Rightarrow> co_function \<Rightarrow> bool" where
  own: "in_frames f 0 f"
| call: "in_frames f k g \<Longrightarrow> (line, h) \<in> set (co_calls g) \<Longrightarrow> in_frames f (Suc k) h"
| through: "in_frames f k g \<Longrightarrow> co_through g = Some h \<Longrightarrow> in_frames f k h"

text \<open>How many frames a function needs above its own.\<close>

fun frames_above :: "co_function \<Rightarrow> nat" where
  "frames_above (F_qmp_read_line y) = (if y then 4 else 1)"
| "frames_above (F_qmp_execute0 y) = (if y then 5 else 2)"
| "frames_above F_qmp_execute_nocheck = 5"
| "frames_above F_qmp_yank = 3"
| "frames_above F_colod_yank = 3"
| "frames_above F_handle_yank = 3"
| "frames_above F_qmp_handshake_readable = 3"
| "frames_above F_qmp_event = 2"
| "frames_above F_qmp_event_wait = 1"
| "frames_above F_execute_nocheck = 5"
| "frames_above F_execute = 5"
| "frames_above F_stop = 5"
| "frames_above F_secondary_startup = 5"
| "frames_above F_handle_stop = 5"
| "frames_above F_handle_cont = 5"
| "frames_above F_execute_array = 6"
| "frames_above F_query_status = 6"
| "frames_above F_check_health = 6"
| "frames_above F_failover = 7"
| "frames_above F_failover_sync = 1"
| "frames_above F_secondary_wait = 2"
| "frames_above F_colo_running = 2"
| "frames_above F_primary_wait = 1"
| "frames_above F_primary_start_migration = 7"
| "frames_above F_main = 8"
| "frames_above F_handle_query_status = 7"
| "frames_above F_client = 8"
| "frames_above F_watchdog = 7"
| "frames_above F_raise_timeout = 1"
| "frames_above F_yellow = 1"
| "frames_above _ = 0"

lemmas calls_defs = qmp_execute0_calls_def qmp_yank_calls_def qmp_handshake_calls_def qmp_event_calls_def
  qmp_event_wait_calls_def execute_array_calls_def query_status_calls_def failover_calls_def
  failover_sync_calls_def secondary_wait_calls_def colo_running_calls_def primary_wait_calls_def
  primary_start_migration_calls_def main_calls_def query_status_request_calls_def client_calls_def
  watchdog_calls_def raise_timeout_calls_def yellow_calls_def

lemma frames_above_call: "(line, h) \<in> set (co_calls g) \<Longrightarrow> frames_above h < frames_above g"
proof (cases g)
  case (F_qmp_read_line y)
  then show "(line, h) \<in> set (co_calls g) \<Longrightarrow> ?thesis" by (cases y) auto
qed (auto simp: calls_defs)

lemma frames_above_through: "co_through g = Some h \<Longrightarrow> frames_above h \<le> frames_above g"
  by (cases g) auto

lemma frames_above_max: "frames_above f \<le> 8"
  by (cases f) auto

lemma in_frames_above: "in_frames f k g \<Longrightarrow> k + frames_above g \<le> frames_above f"
proof (induction rule: in_frames.induct)
  case (call f k g line h)
  then show ?case using frames_above_call [of line h g] by simp
next
  case (through f k g h)
  then show ?case using frames_above_through [of g h] by simp
qed simp

text \<open>A label names one call.\<close>

lemma co_calls_labels: "distinct (map fst (co_calls f)) \<and> 0 \<notin> set (map fst (co_calls f))"
proof (cases f)
  case (F_qmp_read_line y)
  then show ?thesis by (cases y) auto
qed (auto simp: calls_defs)

text \<open>
  So every program with these calls has its coroutines refine structured calls.
\<close>

lemma daemon_fits_stack:
  assumes "\<And>f. pg_callee P f = map_of (co_calls f)" and "pg_through P = co_through"
  shows "fits_stack P frames_above"
  using assms frames_above_call frames_above_through by (auto simp: fits_stack_def dest: map_of_SomeD)

text \<open>The deepest case: a command of a migration times out and the sockets of QEMU are yanked.\<close>

lemma in_frames_step:
  "in_frames f k g \<Longrightarrow> (line, h) \<in> set (co_calls g) \<Longrightarrow> l = Suc k \<Longrightarrow> in_frames f l h"
  by (auto intro: in_frames.call)

lemma main_reaches_8: "in_frames F_main 8 F_channel_read_line_timeout"
proof -
  have "in_frames F_main 1 F_primary_start_migration"
    by (rule in_frames_step [OF in_frames.own, where line = 982]) (simp_all add: calls_defs)
  then have "in_frames F_main 2 F_execute_array"
    by (rule in_frames_step [where line = 815]) (simp_all add: calls_defs)
  then have "in_frames F_main 3 F_execute"
    by (rule in_frames_step [where line = 383]) (simp_all add: calls_defs)
  then have "in_frames F_main 3 F_execute_nocheck" by (rule in_frames.through) simp
  then have "in_frames F_main 3 F_qmp_execute_nocheck" by (rule in_frames.through) simp
  then have "in_frames F_main 3 (F_qmp_execute0 True)" by (rule in_frames.through) simp
  then have "in_frames F_main 4 (F_qmp_read_line True)"
    by (rule in_frames_step [where line = 271]) (simp_all add: calls_defs)
  then have "in_frames F_main 5 F_qmp_yank"
    by (rule in_frames_step [where line = 195]) (simp_all add: calls_defs)
  then have "in_frames F_main 6 (F_qmp_execute0 False)"
    by (rule in_frames_step [where line = 360]) (simp_all add: calls_defs)
  then have "in_frames F_main 7 (F_qmp_read_line False)"
    by (rule in_frames_step [where line = 271]) (simp_all add: calls_defs)
  then show ?thesis
    by (rule in_frames_step [where line = 185]) (simp_all add: calls_defs)
qed

text \<open>
  C20. The assertion of co_recurse never fails: no coroutine of the daemon has more than 9 of its 16
  frames in use, though the functions that talk QMP and yank its sockets call each other.
\<close>

theorem coroutine_stack_suffices:
  assumes "in_frames f k g"
  shows "k + 1 \<le> 9 \<and> k < COROUTINE_STACK_SIZE"
  using in_frames_above [OF assms] frames_above_max [of f] by (simp add: COROUTINE_STACK_SIZE_def)

theorem coroutine_stack_suffices_witness: "(8::nat) + 1 \<le> 9 \<and> 8 < COROUTINE_STACK_SIZE"
  by (rule coroutine_stack_suffices [OF main_reaches_8])

end
