(* ===== verification/Yellow_Stack.thy ===== *)
theory Yellow_Stack
  imports Co_Stack Yellow
begin

text \<open>
  The two coroutine functions of \<^verbatim>\<open>yellow_coroutine.c\<close> as code between the labels of a switch, run
  on the stack of frames of \<open>Co_Stack\<close>, and that this is the state machine of \<open>Yellow\<close>.
\<close>

subsection \<open>The code\<close>

text \<open>
  The labels are the lines of the \<open>co_yield\<close> and \<open>co_recurse\<close>. The frame of \<open>_yellow_delay_co\<close> holds
  \<open>source_id\<close>; the target is an argument of each call, the event an argument of \<open>co_enter\<close>.
\<close>

datatype yellow_function = Yellow_co | Yellow_delay_co ColodEvent

type_synonym 's yellow_code = "(int co_action \<times> guint option \<times> ColodEvent option \<times> 's) abortable"

definition delay_loop ::
    "'e glib \<Rightarrow> ColodEvent \<Rightarrow> ColodEvent option \<Rightarrow> 'z YellowCoroutine_scheme \<Rightarrow>
     'z YellowCoroutine_scheme yellow_code" where
  "delay_loop G target event s = do {
     c_assert (event \<noteq> None);
     if event = Some EVENT_QUIT then Some (Co_return (-1), None, event, s)
     else if event \<noteq> Some target then Some (Co_yield 77 0, None, event, s)
     else let (i, s1) = add_source G S_yellow s in Some (Co_yield 83 0, Some i, event, s1) }"

definition yellow_delay_code ::
    "'e glib \<Rightarrow> ColodEvent \<Rightarrow> nat \<Rightarrow> guint \<Rightarrow> ColodEvent option \<Rightarrow> 'z YellowCoroutine_scheme \<Rightarrow>
     'z YellowCoroutine_scheme yellow_code" where
  "yellow_delay_code G target line source_id event s =
     (if line = 0 \<or> line = 77 then delay_loop G target event s
      else if line = 83 \<or> line = 86 then
        (if event = Some target then Some (Co_yield 86 0, None, event, s)
         else if event \<noteq> None then delay_loop G target event (remove_source source_id s)
         else do {
           s1 \<leftarrow> yellow_send_target_message G target s;
           let (i, s2) = add_source G S_yellow s1 in Some (Co_yield 96 0, Some i, event, s2) })
      else if line = 96 \<or> line = 99 then
        (if event = Some target then Some (Co_yield 99 0, None, event, s)
         else if event \<noteq> None then do {
           s1 \<leftarrow> yellow_send_revert_message G target s;
           delay_loop G target event (remove_source source_id s1) }
         else Some (Co_return 0, None, event, s))
      else None)"

definition yellow_co_code ::
    "'z YellowCoroutine_scheme yellow_callback \<Rightarrow> nat \<Rightarrow> int \<Rightarrow> ColodEvent option \<Rightarrow>
     'z YellowCoroutine_scheme \<Rightarrow> 'z YellowCoroutine_scheme yellow_code" where
  "yellow_co_code f line ret event s =
     (if line = 0 \<or> line = 134 then Some (Co_recurse 122, None, event, s)
      else if line = 122 then
        (if ret < 0 then Some (Co_return 0, None, event, s)
         else do { s1 \<leftarrow> yellow_notify f EVENT_YELLOW s; Some (Co_yield 127 0, None, event, s1) })
      else if line = 127 then Some (Co_recurse 129, None, event, s)
      else if line = 129 then
        (if ret < 0 then Some (Co_return 0, None, event, s)
         else do { s1 \<leftarrow> yellow_notify f EVENT_UNYELLOW s; Some (Co_yield 134 0, None, event, s1) })
      else None)"

definition yellow_callee :: "yellow_function \<Rightarrow> nat \<Rightarrow> yellow_function option" where
  "yellow_callee fn line =
     (if fn = Yellow_co \<and> line = 122 then Some (Yellow_delay_co EVENT_YELLOW)
      else if fn = Yellow_co \<and> line = 129 then Some (Yellow_delay_co EVENT_UNYELLOW) else None)"

definition yellow_program ::
    "'e glib \<Rightarrow> 'z YellowCoroutine_scheme yellow_callback \<Rightarrow>
     (yellow_function, guint, int, ColodEvent option, 'z YellowCoroutine_scheme) co_program" where
  "yellow_program G f = \<lparr>
     pg_code = (\<lambda>fn line ret d event s. case fn of
        Yellow_co \<Rightarrow> yellow_co_code f line ret event s
      | Yellow_delay_co target \<Rightarrow> yellow_delay_code G target line d event s),
     pg_callee = yellow_callee,
     pg_through = (\<lambda>fn. None),
     pg_before = (\<lambda>fn event s. Some (event, s)),
     pg_after = (\<lambda>fn ret event s. Some (ret, event, s))\<rparr>"

subsection \<open>It fits the machine\<close>

fun yellow_blank :: "yellow_function \<Rightarrow> nat \<Rightarrow> bool" where
  "yellow_blank Yellow_co line \<longleftrightarrow> True"
| "yellow_blank (Yellow_delay_co target) line \<longleftrightarrow> line = 0 \<or> line = 77"

fun yellow_rank :: "yellow_function \<Rightarrow> nat" where
  "yellow_rank Yellow_co = 1"
| "yellow_rank (Yellow_delay_co target) = 0"

lemma delay_loop_result:
  "delay_loop G target event s = Some (act, w, io1, s1) \<Longrightarrow>
   act = Co_return (-1) \<or> act = Co_yield 77 0 \<or> (act = Co_yield 83 0 \<and> w \<noteq> None)"
  by (auto simp: delay_loop_def case_prod_unfold Let_def split: if_splits)

lemma yellow_delay_code_result:
  "yellow_delay_code G target line d event s = Some (act, w, io1, s1) \<Longrightarrow>
   (\<exists>r. act = Co_return r) \<or> act = Co_yield 77 0 \<or>
   (\<exists>l. act = Co_yield l 0 \<and> l \<in> {83, 86, 96, 99} \<and> (w \<noteq> None \<or> line \<noteq> 0 \<and> line \<noteq> 77))"
  by (auto simp: yellow_delay_code_def bind_eq_Some_conv case_prod_unfold Let_def split: if_splits dest!: delay_loop_result)

lemma yellow_co_code_result:
  "yellow_co_code f line ret event s = Some (act, w, io1, s1) \<Longrightarrow>
   act = Co_return 0 \<or> act = Co_yield 127 0 \<or> act = Co_yield 134 0 \<or> act = Co_recurse 122 \<or> act = Co_recurse 129"
  by (auto simp: yellow_co_code_def bind_eq_Some_conv split: if_splits)

lemma yellow_program_ok:
  "well_labelled (yellow_program G f)" "begins_fresh (yellow_program G f) yellow_blank"
  "fits_stack (yellow_program G f) yellow_rank"
proof -
  show "well_labelled (yellow_program G f)"
    by (auto simp: well_labelled_def yellow_program_def yellow_callee_def split: yellow_function.splits
        dest!: yellow_delay_code_result yellow_co_code_result)
  show "fits_stack (yellow_program G f) yellow_rank"
    by (auto simp: fits_stack_def yellow_program_def yellow_callee_def split: if_splits)
  show "begins_fresh (yellow_program G f) yellow_blank"
    unfolding begins_fresh_def
  proof (intro conjI)
    show "\<forall>fn. yellow_blank fn 0" by (auto intro: yellow_blank.elims(3))
    show "\<forall>fn line v d d'. yellow_blank fn line \<longrightarrow>
        pg_code (yellow_program G f) fn line v d = pg_code (yellow_program G f) fn line v d'"
      by (auto simp: yellow_program_def yellow_delay_code_def fun_eq_iff split: yellow_function.splits)
    show "\<forall>fn line v d io s act io1 s1. yellow_blank fn line \<longrightarrow>
        pg_code (yellow_program G f) fn line v d io s = Some (act, None, io1, s1) \<longrightarrow>
        (\<forall>line' v'. act = Co_yield line' v' \<longrightarrow> yellow_blank fn line') \<and>
        (\<forall>line'. act = Co_recurse line' \<longrightarrow> yellow_blank fn line')"
      by (auto simp: yellow_program_def split: yellow_function.splits dest!: yellow_delay_code_result)
  qed
qed

subsection \<open>It is the state machine\<close>

text \<open>The point of the two functions for a program counter of \<open>Yellow\<close>.\<close>

fun delay_line :: "ColodEvent \<Rightarrow> nat" where
  "delay_line EVENT_YELLOW = 122"
| "delay_line _ = 129"

fun notified_line :: "ColodEvent \<Rightarrow> nat" where
  "notified_line EVENT_YELLOW = 127"
| "notified_line _ = 134"

inductive yellow_at :: "yellow_pc \<Rightarrow> guint co_point option \<Rightarrow> bool" where
  at_begin: "yellow_at (Y_delay EVENT_YELLOW D_begin) (Some [])"
| at_ignored: "t = EVENT_YELLOW \<or> t = EVENT_UNYELLOW \<Longrightarrow>
    yellow_at (Y_delay t D_ignored) (Some [(delay_line t, d), (77, i)])"
| at_wait1: "t = EVENT_YELLOW \<or> t = EVENT_UNYELLOW \<Longrightarrow> line = 83 \<or> line = 86 \<Longrightarrow>
    yellow_at (Y_delay t (D_wait1 i)) (Some [(delay_line t, d), (line, i)])"
| at_wait2: "t = EVENT_YELLOW \<or> t = EVENT_UNYELLOW \<Longrightarrow> line = 96 \<or> line = 99 \<Longrightarrow>
    yellow_at (Y_delay t (D_wait2 i)) (Some [(delay_line t, d), (line, i)])"
| at_notified: "t = EVENT_YELLOW \<or> t = EVENT_UNYELLOW \<Longrightarrow> yellow_at (Y_notified t) (Some [(notified_line t, d)])"
| at_done: "yellow_at Y_done None"

text \<open>
  What a \<open>co_enter\<close> comes to: the state, but for the program counter, and the point it is at then.
\<close>

definition same_step ::
    "yellow_pc \<Rightarrow> 'z YellowCoroutine_scheme option \<Rightarrow> ColodEvent option \<Rightarrow>
     ((guint co_point \<times> int, int) co \<times> ColodEvent option \<times> 'z YellowCoroutine_scheme) option \<Rightarrow> bool" where
  "same_step pc model event r \<longleftrightarrow> (case model of
     None \<Rightarrow> r = None
   | Some s1 \<Rightarrow> (\<exists>c s'. r = Some (c, event, s') \<and> s1 = s'\<lparr>yl_pc := yl_pc s1\<rparr> \<and>
       (case c of Yielding (p, v) \<Rightarrow> yellow_at (yl_pc s1) (Some p) | Done v \<Rightarrow> yellow_at (yl_pc s1) None)))"

fun delay_at :: "delay_pc \<Rightarrow> guint co_point \<Rightarrow> bool" where
  "delay_at D_begin p \<longleftrightarrow> p = []"
| "delay_at D_ignored p \<longleftrightarrow> (\<exists>i. p = [(77, i)])"
| "delay_at (D_wait1 i) p \<longleftrightarrow> p = [(83, i)] \<or> p = [(86, i)]"
| "delay_at (D_wait2 i) p \<longleftrightarrow> p = [(96, i)] \<or> p = [(99, i)]"

definition same_delay ::
    "(delay_result \<times> 'z YellowCoroutine_scheme) option \<Rightarrow> ColodEvent option \<Rightarrow>
     ((guint co_point \<times> int, int) co \<times> ColodEvent option \<times> 'z YellowCoroutine_scheme) option \<Rightarrow> bool" where
  "same_delay model event r \<longleftrightarrow> (case model of
     None \<Rightarrow> r = None
   | Some (Delay_return v, s1) \<Rightarrow> r = Some (Done v, event, s1)
   | Some (Delay_yield d, s1) \<Rightarrow> d \<noteq> D_begin \<and>
       (\<exists>p v. r = Some (Yielding (p, v), event, s1) \<and> delay_at d p))"

lemma delay_code_model:
  assumes "delay_at d [(line, i)] \<or> (d = D_begin \<and> line = 0)"
  shows "same_delay (yellow_delay_co G t d event s) event
    (co_resume (Suc n) (yellow_program G f) 0 fresh (Yellow_delay_co t) (At_label line v i) event s)"
  using assms
  by (cases d; cases "yellow_send_target_message G t s"; cases "yellow_send_revert_message G t s")
    (auto simp: yellow_program_def yellow_delay_code_def delay_top_def delay_loop_def same_delay_def
      case_prod_unfold Let_def c_assert_def)

lemma delay_model:
  assumes "delay_at d p"
  shows "same_delay (yellow_delay_co G t d event s) event
    (co_resume (n + 2) (yellow_program G f) 0 fresh (Yellow_delay_co t) (At_point p) event s)"
proof -
  have "co_resume (Suc m) (yellow_program G f) 0 fresh (Yellow_delay_co t) (At_point p) event s =
      co_resume m (yellow_program G f) 0 fresh (Yellow_delay_co t)
        (case p of [] \<Rightarrow> At_label 0 0 fresh | (line, i) # inner \<Rightarrow> At_label line 0 i) event s" for m
    by (auto simp: yellow_program_def yellow_callee_def split: list.split)
  from this [of "Suc n"] have "co_resume (n + 2) (yellow_program G f) 0 fresh (Yellow_delay_co t) (At_point p) event s =
      co_resume (Suc n) (yellow_program G f) 0 fresh (Yellow_delay_co t)
        (case p of [] \<Rightarrow> At_label 0 0 fresh | (line, i) # inner \<Rightarrow> At_label line 0 i) event s"
    by (simp only: numeral_2_eq_2 add_Suc_right add_0_right)
  moreover have "case p of [] \<Rightarrow> d = D_begin | (line, i) # inner \<Rightarrow> delay_at d [(line, i)]"
    using assms by (cases d) auto
  ultimately show ?thesis
    by (cases p) (auto simp only: list.case prod.case intro: delay_code_model)
qed

lemma yellow_in_call:
  assumes "t = EVENT_YELLOW \<or> t = EVENT_UNYELLOW"
  shows "co_resume (Suc m) (yellow_program G f) 0 fresh Yellow_co (In_call (delay_line t) x inner) event s =
    co_recurse (co_resume m (yellow_program G f) 0 fresh (Yellow_delay_co t) (At_point inner) event s)
      (\<lambda>(p, v). ((delay_line t, x) # p, v))
      (\<lambda>v io1 s1. co_resume m (yellow_program G f) 0 fresh Yellow_co (At_label (delay_line t) v x) io1 s1)"
  using assms by (auto simp: yellow_program_def yellow_callee_def)

lemma yellow_notified:
  assumes "t = EVENT_YELLOW \<or> t = EVENT_UNYELLOW"
  shows "co_resume (Suc m) (yellow_program G f) 0 fresh Yellow_co (At_label (delay_line t) v x) event s =
    (if v < 0 then Some (Done 0, event, s)
     else map_option (\<lambda>s1. (Yielding ([(notified_line t, x)], 0), event, s1)) (yellow_notify f t s))"
  using assms by (cases "yellow_notify f t s") (auto simp: yellow_program_def yellow_co_code_def)

declare co_resume.simps [simp del]

lemma in_delay_model:
  assumes t: "t = EVENT_YELLOW \<or> t = EVENT_UNYELLOW" and d: "delay_at d inner"
  shows "same_step (yl_pc s) (yellow_in_delay G f t d event s) event
    (co_resume (Suc (n + 2)) (yellow_program G f) 0 fresh Yellow_co (In_call (delay_line t) x inner) event s)"
proof -
  let ?P = "yellow_program G f"
  note resume = yellow_in_call [OF t] and notified = yellow_notified [OF t, of "Suc n"]
  have n: "n + 2 = Suc (Suc n)" by simp
  note delay = delay_model [OF d, of G t event s n f fresh, unfolded n]
  show ?thesis
  proof (cases "yellow_delay_co G t d event s")
    case None
    with delay show ?thesis by (simp add: resume n same_delay_def same_step_def yellow_in_delay_def co_recurse_def)
  next
    case (Some rs)
    obtain r s1 where rs: "rs = (r, s1)" by fastforce
    show ?thesis
    proof (cases r)
      case (Delay_yield d')
      with delay Some rs obtain p v where "d' \<noteq> D_begin" "delay_at d' p"
        "co_resume (Suc (Suc n)) ?P 0 fresh (Yellow_delay_co t) (At_point inner) event s = Some (Yielding (p, v), event, s1)"
        by (auto simp: same_delay_def)
      moreover from this t have "yellow_at (Y_delay t d') (Some ((delay_line t, x) # p))"
        by (cases d') (auto intro: yellow_at.intros)
      ultimately show ?thesis
        using Some rs Delay_yield by (simp add: resume n same_step_def yellow_in_delay_def co_recurse_def)
    next
      case (Delay_return v)
      with delay Some rs have
        "co_resume (Suc (Suc n)) ?P 0 fresh (Yellow_delay_co t) (At_point inner) event s = Some (Done v, event, s1)"
        by (simp add: same_delay_def)
      with Some rs Delay_return show ?thesis
        by (cases "v < 0"; cases "yellow_notify f t s1")
          (simp_all add: resume n notified same_step_def yellow_in_delay_def co_recurse_def at_done at_notified [OF t])
    qed
  qed
qed

text \<open>From the beginning of a \<open>co_enter\<close>.\<close>

lemma yellow_at_delay:
  assumes "t = EVENT_YELLOW \<or> t = EVENT_UNYELLOW"
  shows "co_resume (Suc m) (yellow_program G f) 0 fresh Yellow_co (At_point ((delay_line t, x) # inner)) event s =
    co_resume m (yellow_program G f) 0 fresh Yellow_co (In_call (delay_line t) x inner) event s"
  using assms by (auto simp: co_resume.simps yellow_program_def yellow_callee_def)

lemma yellow_at_start:
  "co_resume (Suc (Suc m)) (yellow_program G f) 0 fresh Yellow_co (At_point []) event s =
   co_resume m (yellow_program G f) 0 fresh Yellow_co (In_call (delay_line EVENT_YELLOW) fresh []) event s"
  by (simp add: co_resume.simps yellow_program_def yellow_co_code_def)

lemma yellow_at_notified:
  assumes "t = EVENT_YELLOW \<or> t = EVENT_UNYELLOW"
  shows "co_resume (Suc (Suc m)) (yellow_program G f) 0 fresh Yellow_co (At_point [(notified_line t, x)]) event s =
    co_resume m (yellow_program G f) 0 fresh Yellow_co (In_call (delay_line (opposite t)) x []) event s"
  using assms by (auto simp: co_resume.simps yellow_program_def yellow_co_code_def yellow_callee_def)

text \<open>More steps do not change what a call comes to.\<close>

lemma yellow_resume_model:
  assumes "yellow_at (yl_pc s) (Some p)"
  shows "same_step (yl_pc s) (yellow_co_enter G f event s) event
    (co_resume (Suc (Suc (Suc (n + 2)))) (yellow_program G f) 0 fresh Yellow_co (At_point p) event s)"
  using assms
proof (cases rule: yellow_at.cases)
  case at_begin
  then show ?thesis using in_delay_model [of EVENT_YELLOW D_begin "[]" s G f event n fresh fresh]
    by (simp add: yellow_co_enter_def yellow_at_start)
next
  case (at_ignored t d i)
  then show ?thesis using in_delay_model [of t D_ignored "[(77, i)]" s G f event "n + 1" fresh d]
    by (simp add: yellow_co_enter_def yellow_at_delay)
next
  case (at_wait1 t line i d)
  then show ?thesis using in_delay_model [of t "D_wait1 i" "[(line, i)]" s G f event "n + 1" fresh d]
    by (simp add: yellow_co_enter_def yellow_at_delay)
next
  case (at_wait2 t line i d)
  then show ?thesis using in_delay_model [of t "D_wait2 i" "[(line, i)]" s G f event "n + 1" fresh d]
    by (simp add: yellow_co_enter_def yellow_at_delay)
next
  case (at_notified t d)
  then show ?thesis using in_delay_model [of "opposite t" D_begin "[]" s G f event n fresh d]
    by (auto simp: yellow_co_enter_def yellow_at_notified)
qed

text \<open>
  The frames of the coroutine for a program counter.
\<close>

definition on_stack ::
    "'e glib \<Rightarrow> 'z YellowCoroutine_scheme yellow_callback \<Rightarrow> yellow_pc \<Rightarrow> (guint, int) Coroutine \<Rightarrow> bool" where
  "on_stack G f pc co \<longleftrightarrow> (\<exists>p. yellow_at pc p \<and> at_rest (yellow_program G f) yellow_blank Yellow_co co p)"

lemma yellow_new_on_stack: "on_stack G f (Y_delay EVENT_YELLOW D_begin) (co_new 0 0)"
  unfolding on_stack_def by (rule exI conjI at_begin co_new_at_rest)+

text \<open>
  C15. The state machine the debouncer is modelled as is its two C functions run on the stack of
  frames: one co_enter has the same effect as one step of the machine, aborts when it does and
  returns after at most 5 steps, and the frames stand at the new program counter.
\<close>

theorem yellow_runs_on_the_stack:
  assumes "on_stack G f (yl_pc s) co" and "5 \<le> n"
  shows "case yellow_co_enter G f event s of
      None \<Rightarrow> co_enter n (yellow_program G f) 0 Yellow_co co event s = None
    | Some s1 \<Rightarrow> \<exists>v co' s'. co_enter n (yellow_program G f) 0 Yellow_co co event s = Some (v, co', event, s') \<and>
        s1 = s'\<lparr>yl_pc := yl_pc s1\<rparr> \<and> on_stack G f (yl_pc s1) co'"
proof -
  let ?P = "yellow_program G f"
  obtain p where p: "yellow_at (yl_pc s) p" "at_rest ?P yellow_blank Yellow_co co p"
    using assms(1) by (auto simp: on_stack_def)
  show ?thesis
  proof (cases p)
    case None
    with p have "yl_pc s = Y_done" "co_quit co" by (auto simp: at_rest_def elim: yellow_at.cases)
    then show ?thesis by (simp add: yellow_co_enter_def co_enter_finished)
  next
    case (Some p1)
    obtain k where "n = k + 5" using assms(2) by (metis le_Suc_ex add.commute)
    then have n: "n = Suc (Suc (Suc (k + 2)))" by simp
    have step: "same_step (yl_pc s) (yellow_co_enter G f event s) event
        (co_resume n ?P 0 fresh Yellow_co (At_point p1) event s)" for fresh
      using yellow_resume_model [of s p1 G f event k fresh] p Some by (simp add: n)
    have rank: "yellow_rank Yellow_co < COROUTINE_STACK_SIZE" by (simp add: COROUTINE_STACK_SIZE_def)
    note enter = co_enter_simulation [where P = ?P and nil = 0 and io = event and s = s and fresh = 0 and n = n, OF yellow_program_ok rank p(2) [unfolded Some]]
    show ?thesis
    proof (cases "yellow_co_enter G f event s")
      case None
      with step [of 0] enter p Some show ?thesis by (simp add: same_step_def)
    next
      case model: (Some s1)
      with step [of 0] obtain c s' where c: "co_resume n ?P 0 0 Yellow_co (At_point p1) event s = Some (c, event, s')"
        "s1 = s'\<lparr>yl_pc := yl_pc s1\<rparr>"
        "case c of Yielding (p, v) \<Rightarrow> yellow_at (yl_pc s1) (Some p) | Done v \<Rightarrow> yellow_at (yl_pc s1) None"
        by (auto simp: same_step_def)
      show ?thesis
      proof (cases c)
        case (Yielding pv)
        with enter c p Some model show ?thesis by (cases pv) (auto simp: on_stack_def)
      next
        case (Done v)
        with enter c p Some model show ?thesis by (auto simp: on_stack_def)
      qed
    qed
  qed
qed

theorem yellow_runs_on_the_stack_witness:
  "\<exists>v co' s' i. co_enter 5 (yellow_program (ref_glib :: nat glib) log_notification) 0 Yellow_co (co_new 0 0)
      (Some EVENT_YELLOW) yellow_start = Some (v, co', Some EVENT_YELLOW, s') \<and>
    on_stack (ref_glib :: nat glib) log_notification (Y_delay EVENT_YELLOW (D_wait1 i)) co' \<and>
    ml_sources s' = [(i, S_yellow)]"
proof -
  let ?G = "ref_glib :: nat glib"
  have start: "on_stack ?G log_notification (yl_pc yellow_start) (co_new 0 0)"
    using yellow_new_on_stack [of ?G log_notification] by (simp add: yellow_start_def)
  obtain i s1 where add: "add_source ?G S_yellow yellow_start = (i, s1)" by fastforce
  then have src: "ml_sources s1 = [(i, S_yellow)]" by (auto simp: add_source_def g_source_add_def yellow_start_def Let_def split: prod.splits)
  have "yellow_co_enter ?G log_notification (Some EVENT_YELLOW) yellow_start =
      Some (s1\<lparr>yl_pc := Y_delay EVENT_YELLOW (D_wait1 i)\<rparr>)"
    using add by (simp add: yellow_co_enter_def yellow_in_delay_def delay_top_def yellow_start_def)
  with yellow_runs_on_the_stack [OF start order_refl, of "Some EVENT_YELLOW"] obtain v co' s' where
    e: "co_enter 5 (yellow_program ?G log_notification) 0 Yellow_co (co_new 0 0) (Some EVENT_YELLOW) yellow_start =
        Some (v, co', Some EVENT_YELLOW, s')"
      "s1\<lparr>yl_pc := Y_delay EVENT_YELLOW (D_wait1 i)\<rparr> = s'\<lparr>yl_pc := Y_delay EVENT_YELLOW (D_wait1 i)\<rparr>"
      "on_stack ?G log_notification (Y_delay EVENT_YELLOW (D_wait1 i)) co'"
    by auto
  from arg_cong [OF e(2), of ml_sources] src have "ml_sources s' = [(i, S_yellow)]" by simp
  with e(1,3) show ?thesis by blast
qed

theorem coroutine_stack_refines_calls_witness:
  "co_session 9 (yellow_program (ref_glib :: nat glib) log_notification) 0 Yellow_co
     [\<lambda>event s. (Some EVENT_YELLOW, s), \<lambda>event s. (None, s)] (co_new 0 0) None yellow_start =
   point_session 9 (yellow_program (ref_glib :: nat glib) log_notification) 0 7 Yellow_co
     [\<lambda>event s. (Some EVENT_YELLOW, s), \<lambda>event s. (None, s)] (Some []) None yellow_start"
  by (rule coroutine_stack_refines_calls [OF yellow_program_ok]) (simp add: COROUTINE_STACK_SIZE_def)

end
