(* ===== verification/Qlist.thy ===== *)
theory Qlist
  imports Util
begin

text \<open>
  The list macros of \<^verbatim>\<open>queue.h\<close> on pointers, and the callback lists of \<^verbatim>\<open>util.c\<close> over them:
  doubly linked lists whose elements point to the next one and to the place that points to them.
  The other theories have HOL lists and the loop \<open>qlist_foreach_safe\<close> over them; here it is shown
  that the pointers implement them, and that no freed element is touched.
\<close>

subsection \<open>Memory\<close>

text \<open>
  Heads and elements are numbered. A place that holds the pointer to an element is the field of a
  head or the next field of an element; \<open>q_live\<close> are the elements that are allocated. Access to
  another one, and to what a NULL pointer points to, is \<open>None\<close>. \<open>q_content\<close> is what else is in an
  element: of a \<^verbatim>\<open>ColodCallback\<close> the function and its data.
\<close>

datatype location = First_of nat | Next_of nat

record 'c qheap =
  q_first :: "nat \<Rightarrow> nat option"
  q_next :: "nat \<Rightarrow> nat option"
  q_prev :: "nat \<Rightarrow> location option"
  q_live :: "nat list"
  q_content :: "nat \<Rightarrow> 'c"

definition live :: "('c, 'z) qheap_scheme \<Rightarrow> nat \<Rightarrow> bool" where
  "live s elm \<longleftrightarrow> elm \<in> set (q_live s)"

definition get_next :: "nat \<Rightarrow> ('c, 'z) qheap_scheme \<Rightarrow> nat option abortable" where
  "get_next elm s = (if live s elm then Some (q_next s elm) else None)"

definition get_prev :: "nat \<Rightarrow> ('c, 'z) qheap_scheme \<Rightarrow> location option abortable" where
  "get_prev elm s = (if live s elm then Some (q_prev s elm) else None)"

definition get_content :: "nat \<Rightarrow> ('c, 'z) qheap_scheme \<Rightarrow> 'c abortable" where
  "get_content elm s = (if live s elm then Some (q_content s elm) else None)"

definition set_next :: "nat \<Rightarrow> nat option \<Rightarrow> ('c, 'z) qheap_scheme \<Rightarrow> ('c, 'z) qheap_scheme abortable" where
  "set_next elm p s = (if live s elm then Some (s\<lparr>q_next := (q_next s)(elm := p)\<rparr>) else None)"

definition set_prev :: "nat \<Rightarrow> location option \<Rightarrow> ('c, 'z) qheap_scheme \<Rightarrow> ('c, 'z) qheap_scheme abortable" where
  "set_prev elm p s = (if live s elm then Some (s\<lparr>q_prev := (q_prev s)(elm := p)\<rparr>) else None)"

lemma live_update [simp]:
  "live (s\<lparr>q_first := f\<rparr>) = live s" "live (s\<lparr>q_next := n\<rparr>) = live s" "live (s\<lparr>q_prev := p\<rparr>) = live s"
  by (simp_all add: live_def fun_eq_iff)

fun read_location :: "location \<Rightarrow> ('c, 'z) qheap_scheme \<Rightarrow> nat option" where
  "read_location (First_of head) s = q_first s head"
| "read_location (Next_of elm) s = q_next s elm"

fun write_location :: "location \<Rightarrow> nat option \<Rightarrow> ('c, 'z) qheap_scheme \<Rightarrow> ('c, 'z) qheap_scheme abortable" where
  "write_location (First_of head) p s = Some (s\<lparr>q_first := (q_first s)(head := p)\<rparr>)"
| "write_location (Next_of elm) p s = set_next elm p s"

subsection \<open>The macros\<close>

definition QLIST_INIT :: "nat \<Rightarrow> ('c, 'z) qheap_scheme \<Rightarrow> ('c, 'z) qheap_scheme" where
  "QLIST_INIT head s = s\<lparr>q_first := (q_first s)(head := None)\<rparr>"

definition QLIST_EMPTY :: "nat \<Rightarrow> ('c, 'z) qheap_scheme \<Rightarrow> bool" where
  "QLIST_EMPTY head s \<longleftrightarrow> q_first s head = None"

definition QLIST_FIRST :: "nat \<Rightarrow> ('c, 'z) qheap_scheme \<Rightarrow> nat option" where
  "QLIST_FIRST head s = q_first s head"

definition QLIST_INSERT_HEAD :: "nat \<Rightarrow> nat \<Rightarrow> ('c, 'z) qheap_scheme \<Rightarrow> ('c, 'z) qheap_scheme abortable" where
  "QLIST_INSERT_HEAD head elm s = do {
     s1 \<leftarrow> set_next elm (q_first s head) s;
     s2 \<leftarrow> (case q_first s1 head of
        None \<Rightarrow> Some s1
      | Some first \<Rightarrow> set_prev first (Some (Next_of elm)) s1);
     set_prev elm (Some (First_of head)) (s2\<lparr>q_first := (q_first s2)(head := Some elm)\<rparr>) }"

definition QLIST_REMOVE :: "nat \<Rightarrow> ('c, 'z) qheap_scheme \<Rightarrow> ('c, 'z) qheap_scheme abortable" where
  "QLIST_REMOVE elm s = do {
     next_elm \<leftarrow> get_next elm s;
     prev \<leftarrow> get_prev elm s;
     s1 \<leftarrow> (case next_elm of None \<Rightarrow> Some s | Some n \<Rightarrow> set_prev n prev s);
     loc \<leftarrow> c_nonnull prev;
     s2 \<leftarrow> write_location loc next_elm s1;
     s3 \<leftarrow> set_next elm None s2;
     set_prev elm None s3 }"

text \<open>\<open>g_free\<close> of an element.\<close>

definition free_elm :: "nat \<Rightarrow> ('c, 'z) qheap_scheme \<Rightarrow> ('c, 'z) qheap_scheme abortable" where
  "free_elm elm s = (if live s elm then Some (s\<lparr>q_live := removeAll elm (q_live s)\<rparr>) else None)"

partial_function (option) foreach_loop ::
    "(nat \<Rightarrow> ('c, 'z) qheap_scheme \<Rightarrow> ('c, 'z) qheap_scheme abortable) \<Rightarrow> nat option \<Rightarrow> ('c, 'z) qheap_scheme \<Rightarrow>
     ('c, 'z) qheap_scheme option" where
  "foreach_loop body var s = (case var of
     None \<Rightarrow> Some s
   | Some elm \<Rightarrow> do {
       s1 \<leftarrow> body elm s;
       next_elm \<leftarrow> get_next elm s1;
       foreach_loop body next_elm s1 })"

definition QLIST_FOREACH ::
    "(nat \<Rightarrow> ('c, 'z) qheap_scheme \<Rightarrow> ('c, 'z) qheap_scheme abortable) \<Rightarrow> nat \<Rightarrow> ('c, 'z) qheap_scheme \<Rightarrow> ('c, 'z) qheap_scheme option" where
  "QLIST_FOREACH body head s = foreach_loop body (q_first s head) s"

partial_function (option) foreach_safe_loop ::
    "(nat \<Rightarrow> ('c, 'z) qheap_scheme \<Rightarrow> ('c, 'z) qheap_scheme abortable) \<Rightarrow> nat option \<Rightarrow> ('c, 'z) qheap_scheme \<Rightarrow>
     ('c, 'z) qheap_scheme option" where
  "foreach_safe_loop body var s = (case var of
     None \<Rightarrow> Some s
   | Some elm \<Rightarrow> do {
       next_var \<leftarrow> get_next elm s;
       s1 \<leftarrow> body elm s;
       foreach_safe_loop body next_var s1 })"

definition QLIST_FOREACH_SAFE ::
    "(nat \<Rightarrow> ('c, 'z) qheap_scheme \<Rightarrow> ('c, 'z) qheap_scheme abortable) \<Rightarrow> nat \<Rightarrow> ('c, 'z) qheap_scheme \<Rightarrow> ('c, 'z) qheap_scheme option" where
  "QLIST_FOREACH_SAFE body head s = foreach_safe_loop body (q_first s head) s"

declare foreach_loop.simps [code] foreach_safe_loop.simps [code]

subsection \<open>The list a head stands for\<close>

fun segment :: "('c, 'z) qheap_scheme \<Rightarrow> location \<Rightarrow> nat list \<Rightarrow> bool" where
  "segment s loc [] = True"
| "segment s loc (x # xs) = (read_location loc s = Some x \<and> live s x \<and> q_prev s x = Some loc \<and>
     segment s (Next_of x) xs)"

definition end_of :: "location \<Rightarrow> nat list \<Rightarrow> location" where
  "end_of loc xs = (if xs = [] then loc else Next_of (last xs))"

definition is_list :: "('c, 'z) qheap_scheme \<Rightarrow> nat \<Rightarrow> nat list \<Rightarrow> bool" where
  "is_list s head xs \<longleftrightarrow> distinct xs \<and> segment s (First_of head) xs \<and>
     read_location (end_of (First_of head) xs) s = None"

lemma end_of_simps [simp]:
  "end_of loc [] = loc" "end_of loc (x # xs) = end_of (Next_of x) xs"
  "end_of loc (xs @ ys) = end_of (end_of loc xs) ys"
  by (auto simp: end_of_def)

lemma last_notin_butlast: "distinct xs \<Longrightarrow> last xs \<notin> set (butlast xs)"
  by (induction xs) auto

lemma segment_append [simp]: "segment s loc (xs @ ys) \<longleftrightarrow> segment s loc xs \<and> segment s (end_of loc xs) ys"
  by (induction xs arbitrary: loc) (auto simp: end_of_def)

lemma segment_live: "segment s loc xs \<Longrightarrow> x \<in> set xs \<Longrightarrow> live s x"
  by (induction xs arbitrary: loc) auto

text \<open>Memory that agrees on the elements agrees on the segment.\<close>

lemma segment_cong:
  assumes "xs \<noteq> [] \<Longrightarrow> read_location loc s' = read_location loc s"
    and "\<And>x. x \<in> set xs \<Longrightarrow> live s' x = live s x \<and> q_prev s' x = q_prev s x"
    and "\<And>x. x \<in> set (butlast xs) \<Longrightarrow> q_next s' x = q_next s x"
  shows "segment s' loc xs = segment s loc xs"
  using assms
proof (induction xs arbitrary: loc)
  case (Cons x xs)
  have "segment s' (Next_of x) xs = segment s (Next_of x) xs"
  proof (intro Cons.IH)
    show "q_next s' y = q_next s y" if "y \<in> set (butlast xs)" for y
      using that Cons.prems(3) [of y] by (cases xs) auto
  qed (use Cons.prems in auto)
  with Cons.prems show ?case by auto
qed simp

lemma is_list_Nil [simp]: "is_list s head [] \<longleftrightarrow> QLIST_EMPTY head s"
  by (simp add: is_list_def QLIST_EMPTY_def)

lemma is_list_first: "is_list s head xs \<Longrightarrow> QLIST_FIRST head s = (case xs of [] \<Rightarrow> None | x # _ \<Rightarrow> Some x)"
  by (auto simp: is_list_def QLIST_FIRST_def split: list.splits)

text \<open>Lists that do not touch what changes.\<close>

lemma is_list_frame:
  assumes "is_list s head xs" and "q_first s' head = q_first s head"
    and "\<And>x. x \<in> set xs \<Longrightarrow> live s' x = live s x \<and> q_prev s' x = q_prev s x \<and> q_next s' x = q_next s x"
  shows "is_list s' head xs"
proof -
  have "segment s' (First_of head) xs = segment s (First_of head) xs"
    using assms(2,3) by (intro segment_cong) (auto dest: in_set_butlastD)
  moreover have "read_location (end_of (First_of head) xs) s' = read_location (end_of (First_of head) xs) s"
    using assms(2,3) by (simp add: end_of_def)
  ultimately show ?thesis using assms(1) by (simp add: is_list_def)
qed

lemma is_list_unique: "is_list s head xs \<Longrightarrow> is_list s head ys \<Longrightarrow> xs = ys"
proof -
  have "segment s loc xs \<Longrightarrow> segment s loc ys \<Longrightarrow> read_location (end_of loc xs) s = None \<Longrightarrow>
      read_location (end_of loc ys) s = None \<Longrightarrow> xs = ys" for loc
  proof (induction xs arbitrary: loc ys)
    case Nil
    then show ?case by (cases ys) auto
  next
    case (Cons x xs)
    then show ?case by (cases ys) auto
  qed
  then show "is_list s head xs \<Longrightarrow> is_list s head ys \<Longrightarrow> xs = ys" unfolding is_list_def by blast
qed

text \<open>
  Inserting at the head and removing; lists under other heads stay as they are.
\<close>

definition other_lists_kept :: "nat \<Rightarrow> nat set \<Rightarrow> ('c, 'z) qheap_scheme \<Rightarrow> ('c, 'z) qheap_scheme \<Rightarrow> bool" where
  "other_lists_kept head elms s s' \<longleftrightarrow> (\<forall>head' ys. head' \<noteq> head \<longrightarrow> is_list s head' ys \<longrightarrow> set ys \<inter> elms = {} \<longrightarrow>
     is_list s' head' ys)"

lemma other_lists_keptI:
  assumes "\<And>head'. head' \<noteq> head \<Longrightarrow> q_first s' head' = q_first s head'"
    and "\<And>x. x \<notin> elms \<Longrightarrow> live s' x = live s x \<and> q_prev s' x = q_prev s x \<and> q_next s' x = q_next s x"
  shows "other_lists_kept head elms s s'"
  unfolding other_lists_kept_def
proof (intro allI impI)
  fix head' ys
  assume "head' \<noteq> head" "is_list s head' ys" "set ys \<inter> elms = {}"
  with assms show "is_list s' head' ys" by (intro is_list_frame [of s head' ys s']) auto
qed

lemma insert_head_list:
  assumes "is_list s head xs" and "live s elm" and "elm \<notin> set xs"
  shows "\<exists>s'. QLIST_INSERT_HEAD head elm s = Some s' \<and> is_list s' head (elm # xs) \<and> q_live s' = q_live s \<and>
    q_content s' = q_content s \<and> qheap.more s' = qheap.more s \<and> other_lists_kept head (set (elm # xs)) s s'"
proof (cases xs)
  case Nil
  let ?s = "s\<lparr>q_next := (q_next s)(elm := None), q_prev := (q_prev s)(elm := Some (First_of head)),
    q_first := (q_first s)(head := Some elm)\<rparr>"
  have "q_first s head = None" using assms(1) Nil by (simp add: QLIST_EMPTY_def)
  then have "QLIST_INSERT_HEAD head elm s = Some ?s"
    using assms(2) by (simp add: QLIST_INSERT_HEAD_def set_next_def set_prev_def)
  moreover have "is_list ?s head [elm]" using assms(2) by (simp add: is_list_def)
  moreover have "other_lists_kept head (set [elm]) s ?s" by (intro other_lists_keptI) auto
  ultimately show ?thesis using Nil by auto
next
  case (Cons x zs)
  let ?s = "s\<lparr>q_next := (q_next s)(elm := Some x), q_prev := (q_prev s)(x := Some (Next_of elm), elm := Some (First_of head)),
    q_first := (q_first s)(head := Some elm)\<rparr>"
  have x: "q_first s head = Some x" "live s x" "elm \<noteq> x"
    using assms Cons by (auto simp: is_list_def)
  have "segment ?s (Next_of x) zs = segment s (Next_of x) zs"
    using assms Cons by (intro segment_cong) (auto simp: is_list_def dest: in_set_butlastD)
  moreover have "read_location (end_of (Next_of x) zs) ?s = read_location (end_of (Next_of x) zs) s"
    using assms Cons by (auto simp: end_of_def)
  ultimately have "is_list ?s head (elm # xs)"
    using assms Cons x by (auto simp: is_list_def)
  moreover have "QLIST_INSERT_HEAD head elm s = Some ?s"
    using assms(2) x by (simp add: QLIST_INSERT_HEAD_def set_next_def set_prev_def)
  moreover have "other_lists_kept head (set (elm # xs)) s ?s"
    using Cons by (intro other_lists_keptI) auto
  ultimately show ?thesis by auto
qed

text \<open>Writing to a place that a list occupies.\<close>

fun put :: "location \<Rightarrow> nat option \<Rightarrow> ('c, 'z) qheap_scheme \<Rightarrow> ('c, 'z) qheap_scheme" where
  "put (First_of head) p s = s\<lparr>q_first := (q_first s)(head := p)\<rparr>"
| "put (Next_of elm) p s = s\<lparr>q_next := (q_next s)(elm := p)\<rparr>"

lemma put_simps [simp]:
  "q_live (put loc p s) = q_live s" "q_content (put loc p s) = q_content s" "q_prev (put loc p s) = q_prev s"
  "qheap.more (put loc p s) = qheap.more s"
  "q_next (put loc p s) = (case loc of First_of h \<Rightarrow> q_next s | Next_of e \<Rightarrow> (q_next s)(e := p))"
  "q_first (put loc p s) = (case loc of First_of h \<Rightarrow> (q_first s)(h := p) | Next_of e \<Rightarrow> q_first s)"
  "live (put loc p s) x = live s x"
  by (cases loc; simp add: live_def)+

definition unlink :: "nat \<Rightarrow> ('c, 'z) qheap_scheme \<Rightarrow> ('c, 'z) qheap_scheme" where
  "unlink elm s = (let prev = (case q_next s elm of None \<Rightarrow> q_prev s | Some n \<Rightarrow> (q_prev s)(n := q_prev s elm));
     s1 = put (the (q_prev s elm)) (q_next s elm) s
   in s1\<lparr>q_prev := prev(elm := None), q_next := (q_next s1)(elm := None)\<rparr>)"

lemma unlink_fields:
  "q_live (unlink elm s) = q_live s" "q_content (unlink elm s) = q_content s" "qheap.more (unlink elm s) = qheap.more s"
  "live (unlink elm s) = live s"
  by (simp_all add: unlink_def Let_def live_def fun_eq_iff)

lemma remove_unlinks:
  assumes "is_list s head (ys @ elm # zs)"
  shows "QLIST_REMOVE elm s = Some (unlink elm s)"
proof -
  let ?loc = "end_of (First_of head) ys"
  have elm: "live s elm" "q_prev s elm = Some ?loc" using assms by (auto simp: is_list_def)
  have nxt: "case q_next s elm of None \<Rightarrow> True | Some n \<Rightarrow> live s n \<and> n \<noteq> elm"
    using assms by (cases zs) (auto simp: is_list_def)
  have loc: "case ?loc of First_of h \<Rightarrow> True | Next_of y \<Rightarrow> live s y"
    using assms segment_live [of s "First_of head" ys "last ys"] by (auto simp: is_list_def end_of_def)
  show ?thesis
    using elm nxt loc
    by (cases "q_next s elm"; cases ?loc)
      (simp_all add: QLIST_REMOVE_def get_next_def get_prev_def set_prev_def set_next_def unlink_def Let_def
        fun_upd_twist)
qed

lemma remove_list:
  assumes "is_list s head (ys @ elm # zs)"
  shows "is_list (unlink elm s) head (ys @ zs)"
    and "other_lists_kept head (set (ys @ elm # zs)) s (unlink elm s)"
proof -
  let ?s = "unlink elm s" and ?loc = "end_of (First_of head) ys"
  have dist: "distinct (ys @ elm # zs)" and elm: "q_prev s elm = Some ?loc"
    and ys: "segment s (First_of head) ys" and zs: "segment s (Next_of elm) zs"
    and fin: "read_location (end_of (Next_of elm) zs) s = None"
    using assms by (auto simp: is_list_def)
  have nxt: "q_next s elm = (case zs of [] \<Rightarrow> None | z # _ \<Rightarrow> Some z)" using zs fin by (cases zs) auto
  have loc: "?loc = (if ys = [] then First_of head else Next_of (last ys))" by (simp add: end_of_def)
  have ends: "ys \<noteq> [] \<Longrightarrow> last ys \<notin> set zs" using dist by (cases ys rule: rev_cases) auto
  have "segment ?s (First_of head) ys = segment s (First_of head) ys"
    using dist by (intro segment_cong)
      (auto simp: unlink_def Let_def elm nxt loc live_def last_notin_butlast dest: in_set_butlastD split: list.split)
  moreover have "segment ?s ?loc zs \<and> read_location (end_of ?loc zs) ?s = None"
  proof (cases zs)
    case Nil
    then show ?thesis by (auto simp: unlink_def Let_def elm nxt loc)
  next
    case (Cons z zs')
    have "segment ?s (Next_of z) zs' = segment s (Next_of z) zs'"
      using dist ends Cons by (intro segment_cong)
        (auto simp: unlink_def Let_def elm nxt loc live_def dest: in_set_butlastD)
    moreover have "live s z" using zs Cons by simp
    moreover have "read_location (end_of (Next_of z) zs') ?s = read_location (end_of (Next_of z) zs') s"
      using dist ends Cons by (cases zs' rule: rev_cases) (auto simp: unlink_def Let_def elm nxt loc)
    ultimately show ?thesis
      using dist zs fin Cons by (auto simp: unlink_def Let_def elm nxt loc live_def)
  qed
  ultimately show "is_list ?s head (ys @ zs)" using dist ys by (simp add: is_list_def)
  show "other_lists_kept head (set (ys @ elm # zs)) s ?s"
    by (intro other_lists_keptI) (auto simp: unlink_def Let_def elm nxt loc live_def split: list.split)
qed

subsection \<open>Callback lists\<close>

text \<open>
  \<^verbatim>\<open>g_new0\<close> asks the allocator for the number of an element that is not in use. Which one it gets
  is up to the allocator.
\<close>

definition malloc_lawful :: "(nat list \<Rightarrow> nat) \<Rightarrow> bool" where
  "malloc_lawful A \<longleftrightarrow> (\<forall>used. A used \<notin> set used)"

definition new_elm :: "(nat list \<Rightarrow> nat) \<Rightarrow> 'c \<Rightarrow> ('c, 'z) qheap_scheme \<Rightarrow> nat \<times> ('c, 'z) qheap_scheme" where
  "new_elm A c s = (let elm = A (q_live s) in
     (elm, s\<lparr>q_live := elm # q_live s, q_next := (q_next s)(elm := None), q_prev := (q_prev s)(elm := None),
             q_content := (q_content s)(elm := c)\<rparr>))"

partial_function (option) find_loop ::
    "'c \<Rightarrow> nat option \<Rightarrow> ('c, 'z) qheap_scheme \<Rightarrow> nat option option" where
  "find_loop c var s = (case var of
     None \<Rightarrow> Some None
   | Some entry \<Rightarrow> do {
       c' \<leftarrow> get_content entry s;
       if c' = c then Some (Some entry)
       else do { next_entry \<leftarrow> get_next entry s; find_loop c next_entry s } })"

definition heap_callback_find :: "nat \<Rightarrow> 'c \<Rightarrow> ('c, 'z) qheap_scheme \<Rightarrow> nat option option" where
  "heap_callback_find head c s = find_loop c (q_first s head) s"

definition heap_callback_add ::
    "(nat list \<Rightarrow> nat) \<Rightarrow> nat \<Rightarrow> 'c \<Rightarrow> ('c, 'z) qheap_scheme \<Rightarrow> ('c, 'z) qheap_scheme option" where
  "heap_callback_add A head c s = do {
     found \<leftarrow> heap_callback_find head c s;
     c_assert (found = None);
     let (cb, s1) = new_elm A c s;
     QLIST_INSERT_HEAD head cb s1 }"

definition heap_callback_del :: "nat \<Rightarrow> 'c \<Rightarrow> ('c, 'z) qheap_scheme \<Rightarrow> ('c, 'z) qheap_scheme option" where
  "heap_callback_del head c s = do {
     found \<leftarrow> heap_callback_find head c s;
     cb \<leftarrow> c_nonnull found;
     s1 \<leftarrow> QLIST_REMOVE cb s;
     free_elm cb s1 }"

partial_function (option) heap_callback_clear ::
    "nat \<Rightarrow> ('c, 'z) qheap_scheme \<Rightarrow> ('c, 'z) qheap_scheme option" where
  "heap_callback_clear head s =
     (if QLIST_EMPTY head s then Some s
      else do {
        cb \<leftarrow> c_nonnull (QLIST_FIRST head s);
        s1 \<leftarrow> QLIST_REMOVE cb s;
        s2 \<leftarrow> free_elm cb s1;
        heap_callback_clear head s2 })"

declare find_loop.simps [code] heap_callback_clear.simps [code]

subsection \<open>They implement the lists of \<open>Util\<close>\<close>

text \<open>The elements under a head, found by following the pointers, and what is in them.\<close>

fun walk :: "nat \<Rightarrow> nat option \<Rightarrow> ('c, 'z) qheap_scheme \<Rightarrow> nat list" where
  "walk 0 var s = []"
| "walk (Suc n) None s = []"
| "walk (Suc n) (Some elm) s = elm # walk n (q_next s elm) s"

definition elements :: "nat \<Rightarrow> ('c, 'z) qheap_scheme \<Rightarrow> nat list" where
  "elements head s = walk (length (q_live s)) (q_first s head) s"

definition registered :: "nat \<Rightarrow> ('c, 'z) qheap_scheme \<Rightarrow> 'c callbacks" where
  "registered head s = map (q_content s) (elements head s)"

definition callbacks_ok :: "nat \<Rightarrow> ('c, 'z) qheap_scheme \<Rightarrow> bool" where
  "callbacks_ok head s \<longleftrightarrow> is_list s head (elements head s) \<and> distinct (registered head s)"

lemma walk_segment:
  "segment s loc xs \<Longrightarrow> read_location (end_of loc xs) s = None \<Longrightarrow> length xs \<le> n \<Longrightarrow>
   walk n (read_location loc s) s = xs"
proof (induction xs arbitrary: loc n)
  case Nil
  then show ?case by (cases n) auto
next
  case (Cons x xs)
  then obtain m where n: "n = Suc m" by (cases n) auto
  have "walk m (read_location (Next_of x) s) s = xs" using Cons.prems n by (intro Cons.IH) auto
  with Cons.prems n show ?case by simp
qed

lemma elements_eq: "is_list s head xs \<Longrightarrow> elements head s = xs"
proof -
  assume l: "is_list s head xs"
  have "set xs \<subseteq> set (q_live s)" using l segment_live [of s "First_of head" xs] by (auto simp: is_list_def live_def)
  then have "length xs \<le> length (q_live s)"
    using l card_mono [of "set (q_live s)" "set xs"] card_length [of "q_live s"]
    by (simp add: is_list_def distinct_card)
  then show ?thesis using l walk_segment [of s "First_of head" xs] by (simp add: elements_def is_list_def)
qed

lemma registered_eq: "is_list s head xs \<Longrightarrow> registered head s = map (q_content s) xs"
  by (simp add: registered_def elements_eq)

lemma is_list_live: "is_list s head xs \<Longrightarrow> x \<in> set xs \<Longrightarrow> live s x"
  using segment_live [of s "First_of head" xs] by (simp add: is_list_def)

lemma is_list_next:
  assumes "is_list s head (ys @ x # zs)"
  shows "get_next x s = Some (case zs of [] \<Rightarrow> None | z # _ \<Rightarrow> Some z)"
proof -
  have "q_next s x = (case zs of [] \<Rightarrow> None | z # _ \<Rightarrow> Some z)"
    using assms by (cases zs) (auto simp: is_list_def)
  then show ?thesis using is_list_live [OF assms, of x] by (simp add: get_next_def)
qed

lemma find_loop_eq:
  assumes "is_list s head (ys @ zs)"
  shows "find_loop c (case zs of [] \<Rightarrow> None | z # _ \<Rightarrow> Some z) s = Some (find (\<lambda>e. q_content s e = c) zs)"
  using assms
proof (induction zs arbitrary: ys)
  case Nil
  then show ?case by (simp add: find_loop.simps)
next
  case (Cons z zs)
  have "live s z" using Cons.prems is_list_live [of s head "ys @ z # zs" z] by simp
  moreover have "find_loop c (case zs of [] \<Rightarrow> None | z # _ \<Rightarrow> Some z) s = Some (find (\<lambda>e. q_content s e = c) zs)"
    using Cons.IH [of "ys @ [z]"] Cons.prems by simp
  ultimately show ?case
    using is_list_next [OF Cons.prems] by (simp add: find_loop.simps [of c "Some z"] get_content_def)
qed

lemma heap_find_eq:
  "is_list s head xs \<Longrightarrow> heap_callback_find head c s = Some (find (\<lambda>e. q_content s e = c) xs)"
  using find_loop_eq [of s head "[]" xs c] is_list_first [of s head xs]
  by (simp add: heap_callback_find_def QLIST_FIRST_def)

lemma heap_add_new:
  assumes "malloc_lawful A" and "is_list s head xs" and "c \<notin> q_content s ` set xs"
  shows "\<exists>s' elm. heap_callback_add A head c s = Some s' \<and> is_list s' head (elm # xs) \<and>
    map (q_content s') (elm # xs) = c # map (q_content s) xs"
proof -
  define elm where "elm = A (q_live s)"
  have "\<not> live s elm" using assms(1) by (simp add: malloc_lawful_def elm_def live_def)
  then have elm: "elm \<notin> set xs" using is_list_live [OF assms(2)] by blast
  obtain s1 where s1: "new_elm A c s = (elm, s1)" by (simp add: new_elm_def elm_def Let_def)
  then have fields: "q_content s1 = (q_content s)(elm := c)" "live s1 elm" "q_first s1 = q_first s"
    "\<And>x. x \<noteq> elm \<Longrightarrow> live s1 x = live s x \<and> q_prev s1 x = q_prev s x \<and> q_next s1 x = q_next s x"
    by (auto simp: new_elm_def elm_def Let_def live_def)
  have "is_list s1 head xs"
    by (rule is_list_frame [OF assms(2)]) (use fields elm in \<open>metis\<close>)+
  from insert_head_list [OF this fields(2) elm] obtain s' where
    "QLIST_INSERT_HEAD head elm s1 = Some s'" "is_list s' head (elm # xs)" "q_content s' = q_content s1" by blast
  moreover have "heap_callback_find head c s = Some None"
    using heap_find_eq [OF assms(2), of c] assms(3) by (auto simp: find_None_iff)
  ultimately show ?thesis
    using s1 fields elm by (auto simp: heap_callback_add_def intro!: exI [of _ s'] exI [of _ elm])
qed

lemma heap_unlink_free:
  assumes "is_list s head (ys @ elm # zs)"
  shows "\<exists>s'. QLIST_REMOVE elm s = Some (unlink elm s) \<and> free_elm elm (unlink elm s) = Some s' \<and>
    is_list s' head (ys @ zs) \<and> q_content s' = q_content s \<and> q_live s' = removeAll elm (q_live s)"
proof -
  let ?s = "unlink elm s"
  have "live s elm" using is_list_live [OF assms] by simp
  then have free: "free_elm elm ?s = Some (?s\<lparr>q_live := removeAll elm (q_live s)\<rparr>)"
    by (simp add: free_elm_def unlink_fields)
  have "elm \<notin> set (ys @ zs)" using assms by (auto simp: is_list_def)
  then have "is_list (?s\<lparr>q_live := removeAll elm (q_live s)\<rparr>) head (ys @ zs)"
    by (intro is_list_frame [OF remove_list(1) [OF assms]]) (auto simp: live_def unlink_fields)
  then show ?thesis using free remove_unlinks [OF assms] by (simp add: unlink_fields)
qed

lemma heap_del_exact:
  assumes "is_list s head xs" and "distinct (map (q_content s) xs)" and "c \<in> q_content s ` set xs"
  obtains s' ys elm zs where "xs = ys @ elm # zs" and "q_content s elm = c" and "c \<notin> q_content s ` set ys"
    and "heap_callback_del head c s = Some s'" and "is_list s' head (ys @ zs)" and "q_content s' = q_content s"
proof -
  from assms(3) obtain elm where elm: "elm \<in> set xs" "q_content s elm = c" by auto
  then obtain ys zs where xs: "xs = ys @ elm # zs" by (meson split_list)
  have before: "c \<notin> q_content s ` set ys" using assms(2) elm xs by (auto simp: image_iff)
  then have "find (\<lambda>e. q_content s e = c) xs = Some elm" unfolding xs
    using elm(2) by (induction ys) auto
  with heap_find_eq [OF assms(1), of c] have find: "heap_callback_find head c s = Some (Some elm)" by simp
  obtain s' where s': "QLIST_REMOVE elm s = Some (unlink elm s)" "free_elm elm (unlink elm s) = Some s'"
    "is_list s' head (ys @ zs)" "q_content s' = q_content s"
    using heap_unlink_free [of s head ys elm zs] assms(1) xs by blast
  then have "heap_callback_del head c s = Some s'" using find by (simp add: heap_callback_del_def)
  from that [OF xs elm(2) before this s'(3,4)] show thesis .
qed

lemma heap_del_registered:
  assumes "is_list s head xs" and "distinct (map (q_content s) xs)" and "c \<in> q_content s ` set xs"
  shows "\<exists>s' ys. heap_callback_del head c s = Some s' \<and> is_list s' head ys \<and>
    map (q_content s') ys = remove1 c (map (q_content s) xs)"
proof -
  from heap_del_exact [OF assms] obtain s' ys elm zs where d: "xs = ys @ elm # zs" "q_content s elm = c"
    "c \<notin> q_content s ` set ys" "heap_callback_del head c s = Some s'" "is_list s' head (ys @ zs)"
    "q_content s' = q_content s" .
  then have "map (q_content s') (ys @ zs) = remove1 c (map (q_content s) xs)" by (simp add: remove1_append)
  with d(4,5) show ?thesis by blast
qed

lemma heap_clear_list:
  assumes "is_list s head xs"
  shows "\<exists>s'. heap_callback_clear head s = Some s' \<and> is_list s' head []"
  using assms
proof (induction xs arbitrary: s)
  case Nil
  then show ?case by (simp add: heap_callback_clear.simps)
next
  case (Cons x xs)
  obtain s1 where s1: "QLIST_REMOVE x s = Some (unlink x s)" "free_elm x (unlink x s) = Some s1" "is_list s1 head xs"
    using heap_unlink_free [of s head "[]" x xs] Cons.prems by auto
  have "QLIST_FIRST head s = Some x" using is_list_first [OF Cons.prems] by simp
  with s1 Cons.IH [OF s1(3)] show ?case
    by (auto simp: heap_callback_clear.simps [of head s] QLIST_EMPTY_def QLIST_FIRST_def)
qed

text \<open>
  So they are a registry in the sense of \<open>Util\<close>, for every lawful allocator.
\<close>

locale heap_registry =
  fixes A :: "nat list \<Rightarrow> nat" and head :: nat
  assumes lawful: "malloc_lawful A"
begin

lemma add_registers:
  assumes "callbacks_ok head (s :: ('c, 'z) qheap_scheme)" and "c \<notin> set (registered head s)"
  shows "\<exists>s'. heap_callback_add A head c s = Some s' \<and> callbacks_ok head s' \<and>
    registered head s' = c # registered head s"
proof -
  from assms(1) have l: "is_list s head (elements head s)" "distinct (registered head s)"
    by (simp_all add: callbacks_ok_def)
  obtain s' elm where s': "heap_callback_add A head c s = Some s'" "is_list s' head (elm # elements head s)"
    "map (q_content s') (elm # elements head s) = c # registered head s"
    using heap_add_new [OF lawful l(1), of c] assms(2) by (auto simp: registered_def)
  then show ?thesis using assms(2) l(2) elements_eq [OF s'(2)] registered_eq [OF s'(2)]
    by (auto simp: callbacks_ok_def)
qed

lemma del_unregisters:
  assumes "callbacks_ok head (s :: ('c, 'z) qheap_scheme)" and "c \<in> set (registered head s)"
  shows "\<exists>s'. heap_callback_del head c s = Some s' \<and> callbacks_ok head s' \<and>
    registered head s' = remove1 c (registered head s)"
proof -
  from assms(1) have l: "is_list s head (elements head s)" "distinct (registered head s)"
    by (simp_all add: callbacks_ok_def)
  obtain s' ys where s': "heap_callback_del head c s = Some s'" "is_list s' head ys"
    "map (q_content s') ys = remove1 c (registered head s)"
    using heap_del_registered [OF l(1), of c] l(2) assms(2) by (auto simp: registered_def)
  then show ?thesis using l(2) elements_eq [OF s'(2)] registered_eq [OF s'(2)]
    by (auto simp: callbacks_ok_def distinct_remove1)
qed

lemma find_registered:
  assumes "callbacks_ok head (s :: ('c, 'z) qheap_scheme)"
  shows "\<exists>r. heap_callback_find head c s = Some r \<and> (r = None \<longleftrightarrow> c \<notin> set (registered head s))"
  using heap_find_eq [of s head "elements head s" c] assms
  by (auto simp: callbacks_ok_def registered_def find_None_iff)

end

sublocale heap_registry \<subseteq> callback_registry "\<lambda>s c. heap_callback_add A head c (s :: ('c, 'z) qheap_scheme)"
  "\<lambda>s c. heap_callback_del head c s" "registered head" "callbacks_ok head"
proof unfold_locales
  fix s :: "('c, 'z) qheap_scheme" and c
  assume ok: "callbacks_ok head s"
  show "distinct (registered head s)" using ok by (simp add: callbacks_ok_def)
  show "\<exists>h'. heap_callback_add A head c s = Some h' \<and> callbacks_ok head h' \<and> registered head h' = c # registered head s"
    if "c \<notin> set (registered head s)" using add_registers [OF ok that] .
  show "heap_callback_add A head c s = None" if "c \<in> set (registered head s)"
    using find_registered [OF ok, of c] that by (auto simp: heap_callback_add_def bind_eq_None_conv)
  show "\<exists>h'. heap_callback_del head c s = Some h' \<and> callbacks_ok head h' \<and>
      registered head h' = remove1 c (registered head s)"
    if "c \<in> set (registered head s)" using del_unregisters [OF ok that] .
  show "heap_callback_del head c s = None" if "c \<notin> set (registered head s)"
    using find_registered [OF ok, of c] that by (auto simp: heap_callback_del_def)
qed

text \<open>An allocator: the number after the greatest in use.\<close>

definition next_number :: "nat list \<Rightarrow> nat" where
  "next_number used = Suc (foldr max used 0)"

lemma next_number_lawful: "malloc_lawful next_number"
proof -
  have "x \<in> set used \<Longrightarrow> x \<le> foldr max used 0" for x and used :: "nat list"
    by (induction used) (auto simp: le_max_iff_disj)
  then show ?thesis by (fastforce simp: malloc_lawful_def next_number_def)
qed

interpretation heap_cb: heap_registry next_number head for head
  by unfold_locales (rule next_number_lawful)

text \<open>What the components do with a list of callbacks.\<close>

datatype 'c callback_op = Op_add 'c | Op_del 'c | Op_clear

fun list_op :: "'c callback_op \<Rightarrow> 'c callbacks \<Rightarrow> 'c callbacks abortable" where
  "list_op (Op_add c) cbs = colod_callback_add cbs c"
| "list_op (Op_del c) cbs = colod_callback_del cbs c"
| "list_op Op_clear cbs = Some (colod_callback_clear cbs)"

fun heap_op ::
    "(nat list \<Rightarrow> nat) \<Rightarrow> nat \<Rightarrow> 'c callback_op \<Rightarrow> ('c, 'z) qheap_scheme \<Rightarrow> ('c, 'z) qheap_scheme option" where
  "heap_op A head (Op_add c) s = heap_callback_add A head c s"
| "heap_op A head (Op_del c) s = heap_callback_del head c s"
| "heap_op A head Op_clear s = heap_callback_clear head s"

fun list_ops :: "'c callback_op list \<Rightarrow> 'c callbacks \<Rightarrow> 'c callbacks abortable" where
  "list_ops [] cbs = Some cbs"
| "list_ops (x # xs) cbs = do { cbs1 \<leftarrow> list_op x cbs; list_ops xs cbs1 }"

fun heap_ops ::
    "(nat list \<Rightarrow> nat) \<Rightarrow> nat \<Rightarrow> 'c callback_op list \<Rightarrow> ('c, 'z) qheap_scheme \<Rightarrow> ('c, 'z) qheap_scheme option" where
  "heap_ops A head [] s = Some s"
| "heap_ops A head (x # xs) s = do { s1 \<leftarrow> heap_op A head x s; heap_ops A head xs s1 }"

context heap_registry
begin

lemma op_refines:
  assumes ok: "callbacks_ok head (s :: ('c, 'z) qheap_scheme)"
  shows "map_option (registered head) (heap_op A head x s) = list_op x (registered head s) \<and>
    (\<forall>s'. heap_op A head x s = Some s' \<longrightarrow> callbacks_ok head s')"
proof (cases x)
  case (Op_add c)
  show ?thesis
  proof (cases "c \<in> set (registered head s)")
    case True
    with add_twice [OF ok True] Op_add True show ?thesis by (simp add: colod_callback_add_def colod_callback_find_iff)
  next
    case False
    with add_new [OF ok False] Op_add False show ?thesis by (auto simp: colod_callback_add_def colod_callback_find_iff)
  qed
next
  case (Op_del c)
  show ?thesis
  proof (cases "c \<in> set (registered head s)")
    case True
    with del_registered [OF ok True] Op_del True show ?thesis by (auto simp: colod_callback_del_def colod_callback_find_iff)
  next
    case False
    with del_missing [OF ok False] Op_del False show ?thesis by (simp add: colod_callback_del_def colod_callback_find_iff)
  qed
next
  case Op_clear
  from ok obtain s' where s': "heap_callback_clear head s = Some s'" "is_list s' head []"
    using heap_clear_list [of s head "elements head s"] by (auto simp: callbacks_ok_def)
  have "colod_callback_clear cbs = []" for cbs :: "'c callbacks" by (induction cbs) auto
  with Op_clear s'(1) elements_eq [OF s'(2)] registered_eq [OF s'(2)] s'(2) show ?thesis
    by (simp add: callbacks_ok_def)
qed

lemma ops_refine:
  assumes "callbacks_ok head (s :: ('c, 'z) qheap_scheme)"
  shows "map_option (registered head) (heap_ops A head xs s) = list_ops xs (registered head s)"
  using assms
proof (induction xs arbitrary: s)
  case Nil
  then show ?case by simp
next
  case (Cons x xs)
  show ?case
  proof (cases "heap_op A head x s")
    case None
    with op_refines [OF Cons.prems, of x] show ?thesis by auto
  next
    case (Some s1)
    with op_refines [OF Cons.prems, of x] have "callbacks_ok head s1" "list_op x (registered head s) = Some (registered head s1)"
      by auto
    with Cons.IH [of s1] Some show ?thesis by simp
  qed
qed

end

text \<open>
  C17. A callback list on pointers does what the list of the other theories does, whatever element the
  allocator picks: any sequence of registrations and removals starting from QLIST_INIT aborts when
  it does there and leaves the same callbacks registered, and no pointer to a freed element is
  followed.
\<close>

theorem callback_lists_on_pointers:
  assumes "malloc_lawful A"
  shows "map_option (registered head) (heap_ops A head xs (QLIST_INIT head s)) = list_ops xs []"
proof -
  have "is_list (QLIST_INIT head s) head []" by (simp add: QLIST_INIT_def QLIST_EMPTY_def)
  from elements_eq [OF this] registered_eq [OF this] this
  have "callbacks_ok head (QLIST_INIT head s)" "registered head (QLIST_INIT head s) = []"
    by (simp_all add: callbacks_ok_def)
  with heap_registry.ops_refine [OF heap_registry.intro [OF assms]] show ?thesis by metis
qed

definition empty_heap :: "nat qheap" where
  "empty_heap = \<lparr>q_first = \<lambda>_. None, q_next = \<lambda>_. None, q_prev = \<lambda>_. None, q_live = [], q_content = \<lambda>_. 0\<rparr>"

theorem callback_lists_on_pointers_witness:
  "map_option (registered 0) (heap_ops next_number 0 [Op_add 7, Op_add 8, Op_add 9, Op_del 8] (QLIST_INIT 0 empty_heap)) =
   Some [9, 7]"
  unfolding callback_lists_on_pointers [OF next_number_lawful]
  by (simp add: colod_callback_add_def colod_callback_del_def colod_callback_find_iff)

subsection \<open>Loops over callbacks\<close>

text \<open>
  A callback may remove entries, its own included, and register new ones, but not one that was
  registered when it was called: that would be the same callback in another element.
\<close>

definition survivors :: "nat \<Rightarrow> ('c, 'z) qheap_scheme \<Rightarrow> ('c, 'z) qheap_scheme \<Rightarrow> nat list \<Rightarrow> (nat \<Rightarrow> bool) \<Rightarrow> bool" where
  "survivors head s s' ys K \<longleftrightarrow> elements head s' = ys @ filter K (elements head s) \<and>
     (\<forall>x\<in>set (elements head s). K x \<longrightarrow> q_content s' x = q_content s x) \<and>
     q_content s' ` set ys \<inter> set (registered head s) = {}"

definition callback_behaves :: "nat \<Rightarrow> ('c \<Rightarrow> ('c, 'z) qheap_scheme \<Rightarrow> ('c, 'z) qheap_scheme abortable) \<Rightarrow> bool" where
  "callback_behaves head f \<longleftrightarrow> (\<forall>c s s'. callbacks_ok head s \<longrightarrow> c \<in> set (registered head s) \<longrightarrow> f c s = Some s' \<longrightarrow>
     callbacks_ok head s' \<and> (\<exists>ys K. survivors head s s' ys K))"

definition call_entry ::
    "('c \<Rightarrow> ('c, 'z) qheap_scheme \<Rightarrow> ('c, 'z) qheap_scheme abortable) \<Rightarrow> nat \<Rightarrow> ('c, 'z) qheap_scheme \<Rightarrow>
     ('c, 'z) qheap_scheme abortable" where
  "call_entry f entry s = do { c \<leftarrow> get_content entry s; f c s }"

lemma survivor_iff:
  assumes "survivors head s s' ys K" and "callbacks_ok head s" and "x \<in> set (elements head s)"
  shows "q_content s x \<in> set (registered head s') \<longleftrightarrow> K x"
proof
  assume "K x"
  with assms(1,3) show "q_content s x \<in> set (registered head s')"
    unfolding survivors_def registered_def by (auto intro!: rev_image_eqI [of x])
next
  assume "q_content s x \<in> set (registered head s')"
  then obtain y where y: "y \<in> set (elements head s')" "q_content s' y = q_content s x" by (auto simp: registered_def)
  have "q_content s x \<in> set (registered head s)" using assms(3) by (simp add: registered_def)
  with y assms(1) have "y \<in> set (elements head s)" "K y" "q_content s' y = q_content s y"
    unfolding survivors_def by auto
  moreover have "inj_on (q_content s) (set (elements head s))"
    using assms(2) by (simp add: callbacks_ok_def registered_def distinct_map)
  ultimately show "K x" using y(2) assms(3) by (auto dest: inj_onD)
qed

abbreviation first_of :: "nat list \<Rightarrow> nat option" where
  "first_of zs \<equiv> (case zs of [] \<Rightarrow> None | z # _ \<Rightarrow> Some z)"

lemma survivors_after:
  assumes surv: "survivors head s s1 ys K" and ok: "callbacks_ok head s"
    and e: "elements head s = pre @ z # n # zs" and n: "q_content s n \<in> set (registered head s1)"
  shows "elements head s1 = (ys @ filter K (pre @ [z])) @ n # filter K zs"
    and "q_content s1 n = q_content s n"
    and "filter (\<lambda>d. d \<in> set (registered head s1)) (map (q_content s) zs) = map (q_content s1) (filter K zs)"
proof -
  note iff = survivor_iff [OF surv ok]
  have "K n" using iff [of n] e n by simp
  then show "elements head s1 = (ys @ filter K (pre @ [z])) @ n # filter K zs" "q_content s1 n = q_content s n"
    using surv e by (auto simp: survivors_def)
  have "filter (\<lambda>x. q_content s x \<in> set (registered head s1)) zs = filter K zs"
    using iff e by (intro filter_cong) auto
  moreover have "map (q_content s) (filter K zs) = map (q_content s1) (filter K zs)"
    using surv e by (auto simp: survivors_def)
  ultimately show "filter (\<lambda>d. d \<in> set (registered head s1)) (map (q_content s) zs) = map (q_content s1) (filter K zs)"
    by (simp add: filter_map o_def)
qed

lemma foreach_safe_loop_refines:
  fixes f :: "'c \<Rightarrow> ('c, 'z) qheap_scheme \<Rightarrow> ('c, 'z) qheap_scheme abortable"
  assumes "callback_behaves head f"
    and "qlist_foreach_safe (registered head) f cs s = Some s'" and "callbacks_ok head s"
    and "elements head s = pre @ zs"
    and "case cs of [] \<Rightarrow> zs = [] | c # cs' \<Rightarrow> \<exists>z zs'. zs = z # zs' \<and> c = q_content s z \<and>
      filter (\<lambda>d. d \<in> set (registered head s)) cs' = map (q_content s) zs'"
  shows "foreach_safe_loop (call_entry f) (first_of zs) s = Some s'"
  using assms
proof (induction "registered head :: ('c, 'z) qheap_scheme \<Rightarrow> _" f cs s arbitrary: pre zs rule: qlist_foreach_safe.induct)
  case (1 f s)
  then show ?case by (simp add: foreach_safe_loop.simps)
next
  case (2 f c cs s)
  from 2(6) obtain z zs' where zs: "zs = z # zs'" "c = q_content s z"
    and cs: "filter (\<lambda>d. d \<in> set (registered head s)) cs = map (q_content s) zs'" by auto
  have e: "elements head s = pre @ z # zs'" and l: "is_list s head (pre @ z # zs')"
    using 2(4,5) zs by (auto simp: callbacks_ok_def)
  have c: "c \<in> set (registered head s)" using zs e by (simp add: registered_def)
  from 2(3) cs obtain s1 where s1: "f c s = Some s1"
      "map (q_content s) zs' = [] \<or> hd (map (q_content s) zs') \<in> set (registered head s1)"
      "qlist_foreach_safe (registered head) f (map (q_content s) zs') s1 = Some s'"
    by (auto simp: Let_def bind_eq_Some_conv)
  from 2(2) [unfolded callback_behaves_def, rule_format, OF 2(4) c s1(1)] obtain ys K where
    ok1: "callbacks_ok head s1" and surv: "survivors head s s1 ys K" by blast
  have "foreach_safe_loop (call_entry f) (first_of zs') s1 = Some s'"
  proof (cases zs')
    case Nil
    with s1(3) show ?thesis by (simp add: foreach_safe_loop.simps)
  next
    case (Cons n zs'')
    note after = survivors_after [OF surv 2(4) e [unfolded Cons]]
    have n: "q_content s n \<in> set (registered head s1)" using s1(2) Cons by simp
    note IH = 2(1) [OF refl s1(1), of "()", OF _ 2(2) _ ok1 after(1) [OF n]]
    have "foreach_safe_loop (call_entry f) (first_of (n # filter K zs'')) s1 = Some s'"
    proof (rule IH)
      show "c_assert (filter (\<lambda>d. d \<in> set (registered head s)) cs = [] \<or>
          hd (filter (\<lambda>d. d \<in> set (registered head s)) cs) \<in> set (registered head s1)) = Some ()"
        using cs n Cons by simp
      show "qlist_foreach_safe (registered head) f (filter (\<lambda>d. d \<in> set (registered head s)) cs) s1 = Some s'"
        using s1(3) cs by (simp only:)
    qed (use cs Cons after [OF n] in \<open>simp del: qlist_foreach_safe.simps\<close>)
    then show ?thesis using Cons by simp
  qed
  moreover have "call_entry f z s = Some s1" "get_next z s = Some (first_of zs')"
    using s1(1) zs is_list_live [OF l, of z] is_list_next [OF l] by (simp_all add: call_entry_def get_content_def)
  ultimately show ?case using zs by (simp add: foreach_safe_loop.simps [of _ "Some z"])
qed


text \<open>A callback that removes itself, as the one of \<^verbatim>\<open>qmp_wait_event_co\<close> does.\<close>

lemma del_behaves: "callback_behaves head (heap_callback_del head)"
  unfolding callback_behaves_def
proof (intro allI impI)
  fix c and s s' :: "('c, 'z) qheap_scheme"
  assume ok: "callbacks_ok head s" and c: "c \<in> set (registered head s)" and del: "heap_callback_del head c s = Some s'"
  from ok have l: "is_list s head (elements head s)" "distinct (map (q_content s) (elements head s))"
    by (simp_all add: callbacks_ok_def registered_def)
  have "c \<in> q_content s ` set (elements head s)" using c by (simp add: registered_def)
  from heap_del_exact [OF l this] obtain s1 ys elm zs where d: "elements head s = ys @ elm # zs"
    "heap_callback_del head c s = Some s1" "is_list s1 head (ys @ zs)" "q_content s1 = q_content s" .
  with del have s1: "s1 = s'" by simp
  note d = d(1) d(3,4) [unfolded s1]
  have "distinct (ys @ elm # zs)" using l(1) d(1) by (simp add: is_list_def)
  then have "filter (\<lambda>x. x \<noteq> elm) ys = ys" "filter (\<lambda>x. x \<noteq> elm) zs = zs" by (auto simp: filter_id_conv)
  then have "ys @ zs = filter (\<lambda>x. x \<noteq> elm) (elements head s)" using d(1) by simp
  then have "survivors head s s' [] (\<lambda>x. x \<noteq> elm)"
    using elements_eq [OF d(2)] d(3) by (simp add: survivors_def)
  moreover have "callbacks_ok head s'"
    using elements_eq [OF d(2)] d l(2) by (auto simp: callbacks_ok_def registered_def)
  ultimately show "callbacks_ok head s' \<and> (\<exists>ys K. survivors head s s' ys K)" by blast
qed

text \<open>The loop that is not safe follows the entry it has freed.\<close>

definition two_callbacks :: "nat qheap" where
  "two_callbacks = the (heap_ops next_number 0 [Op_add 7, Op_add 8] (QLIST_INIT 0 empty_heap))"

lemma foreach_follows_freed_entry: "QLIST_FOREACH (call_entry (heap_callback_del 0)) 0 two_callbacks = None"
  by code_simp


end
