(* ===== verification/Event_Queue_Test.thy ===== *)
theory Event_Queue_Test
  imports Event_Queue
begin

text \<open>
  \<^verbatim>\<open>test_eventqueue.c\<close> run on the model of \<^verbatim>\<open>eventqueue.c\<close>, for every lawful \<^verbatim>\<open>GSequence\<close>: a
  failed assertion is \<open>None\<close>. The tests release their queues, so \<open>eventqueue_free\<close> is here too.
\<close>

subsection \<open>Releasing a queue\<close>

text \<open>
  An iterator points to a node of the sequence. \<^verbatim>\<open>g_sequence_remove\<close> frees the node, and what is
  asked of an iterator to a freed node is undefined. \<open>nodes\<close> are the nodes there are, \<open>None\<close> is the
  end iterator.
\<close>

function free_loop :: "nat option \<Rightarrow> (nat \<times> Event) list \<Rightarrow> unit abortable" where
  "free_loop None nodes = Some ()"
| "free_loop (Some iter) nodes = (case map_of nodes iter of
     None \<Rightarrow> None
   | Some ev \<Rightarrow> free_loop (Some iter) (filter (\<lambda>n. fst n \<noteq> iter) nodes))"
  by pat_completeness auto
termination
proof (relation "measure (\<lambda>(iter, nodes). length nodes)")
  fix iter ev and nodes :: "(nat \<times> Event) list"
  assume "map_of nodes iter = Some ev"
  then have "filter (\<lambda>n. fst n \<noteq> iter) nodes \<noteq> nodes" by (force simp: filter_id_conv dest!: map_of_SomeD)
  then show "((Some iter, filter (\<lambda>n. fst n \<noteq> iter) nodes), Some iter, nodes) \<in> measure (\<lambda>(iter, nodes). length nodes)"
    using length_filter_less [of _ nodes "\<lambda>n. fst n \<noteq> iter"] by (auto simp: filter_id_conv)
qed simp

definition eventqueue_free :: "EventQueue \<Rightarrow> unit abortable" where
  "eventqueue_free this = (let nodes = enumerate 0 (eq_sequence this) in
     free_loop (case nodes of [] \<Rightarrow> None | n # _ \<Rightarrow> Some (fst n)) nodes)"

lemma eventqueue_free_iff: "eventqueue_free q = (if eq_sequence q = [] then Some () else None)"
proof (cases "eq_sequence q")
  case Nil
  then show ?thesis by (simp add: eventqueue_free_def)
next
  case (Cons ev evs)
  have "map_of (filter (\<lambda>n. fst n \<noteq> 0) nodes) 0 = None" for nodes :: "(nat \<times> Event) list"
    by (induction nodes) auto
  with Cons show ?thesis by (simp add: eventqueue_free_def Let_def)
qed

subsection \<open>The tests\<close>

definition prepare :: "Event glib \<Rightarrow> EventQueue \<Rightarrow> EventQueue abortable" where
  "prepare G queue =
     eventqueue_add_all G queue [EVENT_START_MIGRATION, EVENT_YELLOW, EVENT_FAILED, EVENT_QUIT]"

definition test_queue :: "EventQueue abortable" where
  "test_queue = eventqueue_new 4 [EVENT_FAILED, EVENT_PEER_FAILOVER, EVENT_QUIT, EVENT_AUTOQUIT]"

fun expect_events :: "ColodEvent list \<Rightarrow> EventQueue \<Rightarrow> EventQueue abortable" where
  "expect_events [] queue = Some queue"
| "expect_events (e # es) queue = do {
     c_assert (eventqueue_pending queue);
     (event, queue1) \<leftarrow> eventqueue_remove queue;
     ev \<leftarrow> c_nonnull event;
     c_assert (ev_event ev = e);
     expect_events es queue1 }"

definition expect_empty :: "EventQueue \<Rightarrow> unit abortable" where
  "expect_empty queue = do {
     (event, queue1) \<leftarrow> eventqueue_remove queue;
     c_assert (event = None);
     first \<leftarrow> eventqueue_peek queue1;
     c_assert (first = None);
     eventqueue_free queue1 }"

definition test_a :: "Event glib \<Rightarrow> unit abortable" where
  "test_a G = do {
     queue \<leftarrow> test_queue;
     queue1 \<leftarrow> prepare G queue;
     (ret, queue2) \<leftarrow> eventqueue_add G queue1 EVENT_FAILED 0;
     c_assert (ret < 0);
     intr \<leftarrow> eventqueue_pending_interrupt queue2;
     c_assert intr;
     queue3 \<leftarrow> expect_events [EVENT_FAILED, EVENT_QUIT, EVENT_START_MIGRATION, EVENT_YELLOW] queue2;
     expect_empty queue3 }"

definition test_b :: "Event glib \<Rightarrow> unit abortable" where
  "test_b G = do {
     queue \<leftarrow> test_queue;
     queue1 \<leftarrow> prepare G queue;
     (ret, queue2) \<leftarrow> eventqueue_add G queue1 EVENT_FAILED 0;
     c_assert (ret < 0);
     queue3 \<leftarrow> eventqueue_set_interrupting G queue2 [EVENT_START_MIGRATION];
     intr \<leftarrow> eventqueue_pending_interrupt queue3;
     c_assert intr;
     queue4 \<leftarrow> expect_events [EVENT_START_MIGRATION, EVENT_FAILED, EVENT_QUIT, EVENT_YELLOW] queue3;
     expect_empty queue4 }"

definition test_c_queue :: "Event glib \<Rightarrow> EventQueue abortable" where
  "test_c_queue G = do {
     queue \<leftarrow> test_queue;
     queue1 \<leftarrow> prepare G queue;
     (event1, queue2) \<leftarrow> eventqueue_remove queue1;
     (event2, queue3) \<leftarrow> eventqueue_remove queue2;
     prepare G queue3 }"

definition test_c :: "Event glib \<Rightarrow> unit abortable" where
  "test_c G = do { queue \<leftarrow> test_c_queue G; eventqueue_free queue }"

subsection \<open>What they do\<close>

lemma expect_events_deliver:
  "eventqueue_inv q \<Longrightarrow> map ev_event (delivery (is_intr q) (arrivals q)) = es \<Longrightarrow>
   \<exists>q'. expect_events es q = Some q' \<and> eventqueue_inv q' \<and> eq_sequence q' = []"
proof (induction es arbitrary: q)
  case Nil
  then show ?case using arrivals_eq_Nil [of q] by simp
next
  case (Cons e es)
  then have ne: "eq_sequence q \<noteq> []" using arrivals_eq_Nil [of q] by (metis delivery_Nil list.map(1) neq_Nil_conv)
  obtain q1 where q1: "eventqueue_remove q = Some (Some (pick (is_intr q) (arrivals q)), q1)" "eventqueue_inv q1"
    "arrivals q1 = rest (is_intr q) (arrivals q)" "eq_interrupting q1 = eq_interrupting q"
    using eventqueue_remove_inv [OF Cons.prems(1) ne] .
  have "delivery (is_intr q) (arrivals q) = pick (is_intr q) (arrivals q) # delivery (is_intr q1) (arrivals q1)"
    using delivery_unfold [of "arrivals q" "is_intr q"] ne q1(3,4) by simp
  with Cons.prems(2) have "ev_event (pick (is_intr q) (arrivals q)) = e"
    "map ev_event (delivery (is_intr q1) (arrivals q1)) = es" by auto
  with Cons.IH [OF q1(2)] q1(1) ne eventqueue_invD(1) [OF Cons.prems(1)] show ?case
    by (auto simp: eventqueue_pending_wf)
qed

lemma expect_empty_ok: "eventqueue_inv q \<Longrightarrow> eq_sequence q = [] \<Longrightarrow> expect_empty q = Some ()"
  using eventqueue_invD(1) [of q]
  by (simp add: expect_empty_def eventqueue_remove_empty eventqueue_peek_wf eventqueue_free_iff)

lemma prepared:
  assumes "sequence_lawful G"
  obtains q0 q1 where "test_queue = Some q0" and "prepare G q0 = Some q1" and "eventqueue_inv q1"
    and "eventqueue_waiting q1 = [EVENT_START_MIGRATION, EVENT_YELLOW, EVENT_FAILED, EVENT_QUIT]"
    and "eq_interrupting q1 = (\<lambda>e. e \<in> {EVENT_FAILED, EVENT_PEER_FAILOVER, EVENT_QUIT, EVENT_AUTOQUIT})"
    and "eq_interrupting_always q1 = eq_interrupting q1" and "eq_size q1 = 4" and "young 4 q1"
proof -
  obtain q0 where q0: "test_queue = Some q0" "eventqueue_inv q0" "young 0 q0" "eq_sequence q0 = []" "eq_size q0 = 4"
    "eq_interrupting_always q0 = (\<lambda>e. e \<in> {EVENT_FAILED, EVENT_PEER_FAILOVER, EVENT_QUIT, EVENT_AUTOQUIT})"
    "eq_interrupting q0 = eq_interrupting_always q0"
    by (auto simp: test_queue_def eventqueue_new_ok eventqueue_empty_inv young_def)
  let ?es = "[EVENT_START_MIGRATION, EVENT_YELLOW, EVENT_FAILED, EVENT_QUIT]"
  have "eventqueue_waiting q0 = []" using q0(4) by (simp add: eventqueue_waiting_def)
  then obtain q1 where "eventqueue_add_all G q0 ?es = Some q1" "eventqueue_inv q1" "eventqueue_waiting q1 = ?es"
    "eq_interrupting_always q1 = eq_interrupting_always q0" "eq_interrupting q1 = eq_interrupting q0"
    "eq_size q1 = eq_size q0" and y: "young (0 + length ?es) q1"
    using eventqueue_add_all_inv [OF assms _ q0(2,3), of ?es] q0(4,5) by auto
  moreover from y have "young 4 q1" by (simp add: eval_nat_numeral)
  ultimately show thesis
    using q0 by (intro that [of q0 q1]) (simp_all add: prepare_def del: eventqueue_add_all.simps)
qed

lemma full_when_prepared:
  assumes "eventqueue_inv q" and "length (eventqueue_waiting q) = 4" and "eq_size q = 4" and "e \<noteq> EVENT_MAX"
  shows "eventqueue_add G q e 0 = Some (-1, q)"
  using assms eventqueue_add_full [OF eventqueue_invD(1) [OF assms(1)], of e G 0]
  by (simp add: eventqueue_waiting_def)

lemma eventqueue_add_all_refused:
  assumes "eventqueue_inv q" and "length (eventqueue_waiting q) = 4" and "eq_size q = 4" and "EVENT_MAX \<notin> set es"
  shows "eventqueue_add_all G q es = Some q"
  using assms(4) full_when_prepared [OF assms(1-3)] by (induction es) auto

lemma eventqueue_add_all_append:
  "eventqueue_add_all G q (xs @ ys) = do { q1 \<leftarrow> eventqueue_add_all G q xs; eventqueue_add_all G q1 ys }"
proof (induction xs arbitrary: q)
  case (Cons x xs)
  then show ?case by (cases "eventqueue_add G q x 0") auto
qed simp

lemma removed:
  assumes "eventqueue_inv q" and "eventqueue_waiting q \<noteq> []"
  obtains ev q' where "eventqueue_remove q = Some (Some ev, q')" and "eventqueue_inv q'"
    and "length (eventqueue_waiting q') = length (eventqueue_waiting q) - 1" and "eq_size q' = eq_size q"
    and "\<And>k. young k q \<Longrightarrow> young k q'"
proof -
  have ne: "eq_sequence q \<noteq> []" using assms(2) by (auto simp: eventqueue_waiting_def)
  then obtain ev evs where seq: "eq_sequence q = ev # evs" by (cases "eq_sequence q") auto
  let ?q = "q\<lparr>eq_sequence := evs, eq_used := eq_used q - 1\<rparr>"
  have rm: "eventqueue_remove q = Some (Some ev, ?q)"
    by (rule eventqueue_remove_Cons [OF eventqueue_invD(1) [OF assms(1)] seq])
  then have "eventqueue_inv ?q" using eventqueue_remove_inv [OF assms(1) ne] by (metis option.inject prod.inject)
  moreover have "young k ?q" if "young k q" for k using that seq by (simp add: young_def ev_age_def)
  ultimately show thesis using that [OF rm] seq by (simp add: eventqueue_waiting_def)
qed

lemma map_delivery: "map g (delivery (\<lambda>x. f (g x)) xs) = delivery f (map g xs)"
  by (simp add: delivery_def filter_map o_def)

lemma expect_all:
  assumes "eventqueue_inv q" and "delivery (eq_interrupting q) (eventqueue_waiting q) = es"
  shows "do { q' \<leftarrow> expect_events es q; expect_empty q' } = Some ()"
proof -
  have "map ev_event (delivery (is_intr q) (arrivals q)) = es"
    using assms(2) by (simp add: map_delivery eventqueue_waiting_def)
  from expect_events_deliver [OF assms(1) this] show ?thesis by (auto simp: expect_empty_ok)
qed

lemma pending_interrupt_waiting:
  "eventqueue_inv q \<Longrightarrow> eventqueue_pending_interrupt q = Some (\<exists>e\<in>set (eventqueue_waiting q). eq_interrupting q e)"
  by (simp add: eventqueue_pending_interrupt_inv eventqueue_waiting_def)

lemma test_a_passes:
  assumes "sequence_lawful G"
  shows "test_a G = Some ()"
proof -
  obtain q0 q1 where q: "test_queue = Some q0" "prepare G q0 = Some q1" "eventqueue_inv q1"
    "eventqueue_waiting q1 = [EVENT_START_MIGRATION, EVENT_YELLOW, EVENT_FAILED, EVENT_QUIT]"
    "eq_interrupting q1 = (\<lambda>e. e \<in> {EVENT_FAILED, EVENT_PEER_FAILOVER, EVENT_QUIT, EVENT_AUTOQUIT})" "eq_size q1 = 4"
    by (rule prepared [OF assms])
  have full: "eventqueue_add G q1 EVENT_FAILED 0 = Some (-1, q1)"
    using q(3,4,6) by (intro full_when_prepared) auto
  have out: "do { q' \<leftarrow> expect_events [EVENT_FAILED, EVENT_QUIT, EVENT_START_MIGRATION, EVENT_YELLOW] q1; expect_empty q' } = Some ()"
    by (rule expect_all [OF q(3)]) (simp add: q delivery_def)
  have "eventqueue_pending_interrupt q1 = Some True" by (simp add: pending_interrupt_waiting [OF q(3)] q)
  with out show ?thesis by (simp add: test_a_def q(1,2) full del: expect_events.simps)
qed

lemma test_b_passes:
  assumes "sequence_lawful G"
  shows "test_b G = Some ()"
proof -
  obtain q0 q1 where q: "test_queue = Some q0" "prepare G q0 = Some q1" "eventqueue_inv q1"
    "eventqueue_waiting q1 = [EVENT_START_MIGRATION, EVENT_YELLOW, EVENT_FAILED, EVENT_QUIT]"
    "eq_interrupting q1 = (\<lambda>e. e \<in> {EVENT_FAILED, EVENT_PEER_FAILOVER, EVENT_QUIT, EVENT_AUTOQUIT})"
    "eq_interrupting_always q1 = eq_interrupting q1" "eq_size q1 = 4"
    by (rule prepared [OF assms])
  have full: "eventqueue_add G q1 EVENT_FAILED 0 = Some (-1, q1)"
    using q(3,4,7) by (intro full_when_prepared) auto
  obtain q2 where q2: "eventqueue_set_interrupting G q1 [EVENT_START_MIGRATION] = Some q2" "eventqueue_inv q2"
    "arrivals q2 = arrivals q1" "eq_interrupting q2 = (\<lambda>e. eq_interrupting_always q1 e \<or> e \<in> set [EVENT_START_MIGRATION])"
    by (rule eventqueue_select_inv [OF assms q(3), of "[EVENT_START_MIGRATION]"]) simp
  then have "eventqueue_waiting q2 = eventqueue_waiting q1" by (simp add: eventqueue_waiting_def)
  note w = this q(4-6) q2(4)
  have out: "do { q' \<leftarrow> expect_events [EVENT_START_MIGRATION, EVENT_FAILED, EVENT_QUIT, EVENT_YELLOW] q2; expect_empty q' } = Some ()"
    by (rule expect_all [OF q2(2)]) (simp add: w delivery_def)
  have "eventqueue_pending_interrupt q2 = Some True" by (simp add: pending_interrupt_waiting [OF q2(2)] w)
  with out show ?thesis by (simp add: test_b_def q(1,2) q2(1) full del: expect_events.simps)
qed

lemma test_c_ends_full:
  assumes "sequence_lawful G"
  obtains queue where "test_c_queue G = Some queue" and "eq_sequence queue \<noteq> []"
proof -
  obtain q0 q1 where q: "test_queue = Some q0" "prepare G q0 = Some q1" "eventqueue_inv q1"
    "eventqueue_waiting q1 = [EVENT_START_MIGRATION, EVENT_YELLOW, EVENT_FAILED, EVENT_QUIT]" "eq_size q1 = 4" "young 4 q1"
    by (rule prepared [OF assms])
  then have ne1: "eventqueue_waiting q1 \<noteq> []" by simp
  obtain ev3 q3 where q3: "eventqueue_remove q1 = Some (Some ev3, q3)" "eventqueue_inv q3"
    "length (eventqueue_waiting q3) = length (eventqueue_waiting q1) - 1" "eq_size q3 = eq_size q1"
    "\<And>k. young k q1 \<Longrightarrow> young k q3"
    by (rule removed [OF q(3) ne1]) blast
  then have ne3: "eventqueue_waiting q3 \<noteq> []" using q(4) by auto
  obtain ev4 q4 where q4: "eventqueue_remove q3 = Some (Some ev4, q4)" "eventqueue_inv q4"
    "length (eventqueue_waiting q4) = length (eventqueue_waiting q3) - 1" "eq_size q4 = eq_size q3"
    "\<And>k. young k q3 \<Longrightarrow> young k q4"
    by (rule removed [OF q3(2) ne3]) blast
  have l: "length (eventqueue_waiting q4) = 2" "eq_size q4 = 4" using q q3 q4 by simp_all
  let ?ab = "[EVENT_START_MIGRATION, EVENT_YELLOW]"
  obtain q5 where q5: "eventqueue_add_all G q4 ?ab = Some q5" "eventqueue_inv q5"
    "eventqueue_waiting q5 = eventqueue_waiting q4 @ ?ab" "eq_size q5 = eq_size q4"
    using eventqueue_add_all_inv [OF assms _ q4(2) q4(5) [OF q3(5) [OF q(6)]], of ?ab] l
    by (auto simp: eventqueue_waiting_def)
  then have "eventqueue_add_all G q5 [EVENT_FAILED, EVENT_QUIT] = Some q5"
    using l by (intro eventqueue_add_all_refused) auto
  with q5(1) have "prepare G q4 = Some q5"
    using eventqueue_add_all_append [of G q4 ?ab "[EVENT_FAILED, EVENT_QUIT]"]
    by (simp add: prepare_def del: eventqueue_add_all.simps)
  then have "test_c_queue G = Some q5" by (simp add: test_c_queue_def q(1,2) q3(1) q4(1))
  moreover have "eq_sequence q5 \<noteq> []"
    using q5(3) arrivals_eq_Nil [of q5] by (metis append_is_Nil_conv eventqueue_waiting_def list.distinct(1) list.map(1))
  ultimately show thesis by (rule that)
qed

text \<open>
  The first two tests pass for every lawful GSequence. The third one leaves four events in the queue
  it releases, and eventqueue_free then asks an iterator whose node it has freed.
\<close>

theorem eventqueue_tests:
  assumes "sequence_lawful G"
  shows "test_a G = Some () \<and> test_b G = Some () \<and> (\<exists>queue. test_c_queue G = Some queue) \<and> test_c G = None"
proof -
  obtain queue where "test_c_queue G = Some queue" "eq_sequence queue \<noteq> []" by (rule test_c_ends_full [OF assms])
  then show ?thesis
    using test_a_passes [OF assms] test_b_passes [OF assms] by (simp add: test_c_def eventqueue_free_iff)
qed

theorem eventqueue_tests_witness:
  "test_b ref_glib = Some () \<and> test_c ref_glib = None"
  using eventqueue_tests [OF ref_sequence_lawful] by simp

end
