(* ===== verification/Gio_Channel.thy ===== *)
theory Gio_Channel
  imports Client
begin

text \<open>
  The two pieces of \<^verbatim>\<open>util.c\<close> between the daemon and GLib: making a channel of a file
  descriptor, and the source that a coroutine waiting for a lock is resumed by. What GLib
  documents about its channels and about the sources of a main context is stated as definitions.
\<close>

subsection \<open>Channels\<close>

text \<open>
  A channel as \<^verbatim>\<open>g_io_channel_unix_new\<close> makes it: text in UTF-8, blocking or not as the
  descriptor is, one reference, and the descriptor stays open when the last reference is dropped.
\<close>

record GIOChannel =
  gc_fd :: int
  gc_binary :: bool
  gc_nonblock :: bool
  gc_close_on_unref :: bool
  gc_ref_count :: nat

text \<open>The open descriptors, and those that have been shut down.\<close>

record Descriptors =
  fd_open :: "int list"
  fd_shutdown :: "int list"

definition g_io_channel_unix_new :: "int \<Rightarrow> GIOChannel" where
  "g_io_channel_unix_new fd = \<lparr>gc_fd = fd, gc_binary = False, gc_nonblock = False, gc_close_on_unref = False,
     gc_ref_count = 1\<rparr>"

definition g_io_channel_unref :: "GIOChannel \<Rightarrow> Descriptors \<Rightarrow> Descriptors" where
  "g_io_channel_unref channel d =
     (if gc_ref_count channel = 1 \<and> gc_close_on_unref channel
      then d\<lparr>fd_open := removeAll (gc_fd channel) (fd_open d)\<rparr> else d)"

text \<open>What the two calls that may fail report.\<close>

record channel_answers =
  ca_encoding :: "string option"
  ca_flags :: "string option"

definition colod_create_channel ::
    "channel_answers \<Rightarrow> int \<Rightarrow> Descriptors \<Rightarrow> GIOChannel fallible \<times> Descriptors" where
  "colod_create_channel a fd d =
     (let channel = g_io_channel_unix_new fd in
      case ca_encoding a of
        Some e \<Rightarrow> (Inl (GError (Some COLOD_ERROR_FATAL) (''Failed to set channel encoding: '' @ e)),
          g_io_channel_unref channel d)
      | None \<Rightarrow>
          let channel1 = channel\<lparr>gc_binary := True\<rparr> in
          case ca_flags a of
            Some e \<Rightarrow> (Inl (GError (Some COLOD_ERROR_FATAL) (''Failed to set channel nonblocking: '' @ e)),
              g_io_channel_unref channel1 d)
          | None \<Rightarrow> (Inr (channel1\<lparr>gc_nonblock := True, gc_close_on_unref := True\<rparr>), d))"

definition colod_shutdown_channel :: "GIOChannel \<Rightarrow> Descriptors \<Rightarrow> Descriptors" where
  "colod_shutdown_channel channel d = d\<lparr>fd_shutdown := gc_fd channel # fd_shutdown d\<rparr>"

text \<open>The answers as the components that make channels take them.\<close>

definition channel_error :: "channel_answers \<Rightarrow> gerror option" where
  "channel_error a = (case fst (colod_create_channel a 0 \<lparr>fd_open = [], fd_shutdown = []\<rparr>) of
     Inl e \<Rightarrow> Some e | Inr _ \<Rightarrow> None)"

text \<open>A channel owns its descriptor: the last reference closes it.\<close>

lemma created_channel:
  assumes "colod_create_channel a fd d = (Inr channel, d')"
  shows "d' = d \<and> gc_fd channel = fd \<and> gc_binary channel \<and> gc_nonblock channel \<and>
    set (fd_open (g_io_channel_unref channel d)) = set (fd_open d) - {fd}"
  using assms
  by (auto simp: colod_create_channel_def g_io_channel_unix_new_def g_io_channel_unref_def Let_def split: option.splits)

lemma channel_error_iff:
  "(case channel_error a of None \<Rightarrow> \<exists>channel. colod_create_channel a fd d = (Inr channel, d)
    | Some e \<Rightarrow> colod_create_channel a fd d = (Inl e, d))"
  by (auto simp: channel_error_def colod_create_channel_def g_io_channel_unix_new_def g_io_channel_unref_def Let_def
      split: option.splits)

subsection \<open>Connections of clients\<close>

text \<open>
  The loop of \<open>client_listener_new_client\<close> with the descriptors \<^verbatim>\<open>accept\<close> returns: a connection
  whose channel cannot be made is skipped, and \<open>No_more\<close> ends the loop. The first component of
  the result is the clients' channels.
\<close>

datatype accepted = Connection int channel_answers | No_more

fun accept_channels ::
    "accepted list \<Rightarrow> GIOChannel list \<Rightarrow> Descriptors \<Rightarrow> GIOChannel list \<times> Descriptors" where
  "accept_channels [] chs d = (chs, d)"
| "accept_channels (No_more # as) chs d = (chs, d)"
| "accept_channels (Connection fd a # as) chs d =
     (let d1 = d\<lparr>fd_open := fd # fd_open d\<rparr> in
      case colod_create_channel a fd d1 of
        (Inl e, d2) \<Rightarrow> accept_channels as chs d2
      | (Inr channel, d2) \<Rightarrow> accept_channels as (channel # chs) d2)"

text \<open>The descriptors of the connections that were skipped.\<close>

fun lost_descriptors :: "accepted list \<Rightarrow> int list" where
  "lost_descriptors (Connection fd a # as) =
     (if channel_error a = None then lost_descriptors as else fd # lost_descriptors as)"
| "lost_descriptors _ = []"

fun accept_answer_of :: "accepted \<Rightarrow> accept_answer" where
  "accept_answer_of (Connection fd a) = Accepted (channel_error a)"
| "accept_answer_of No_more = Would_block"

text \<open>The clients of \<open>accept_loop\<close> are those whose channel was made.\<close>

lemma accept_channels_clients:
  fixes s :: "'z ClientListener_scheme"
  assumes "accept_channels as chs d = (chs', d')" and "accept_loop G (map accept_answer_of as) s = (b, s')"
  shows "length (ls_clients s') + length chs = length (ls_clients s) + length chs'"
  using assms
proof (induction "as" chs d arbitrary: s rule: accept_channels.induct)
  case (3 fd a "as" chs d)
  let ?d1 = "d\<lparr>fd_open := fd # fd_open d\<rparr>"
  show ?case
  proof (cases "channel_error a")
    case None
    with channel_error_iff [of a fd ?d1] obtain channel where c: "colod_create_channel a fd ?d1 = (Inr channel, ?d1)"
      by auto
    have "length (ls_clients (snd (client_new G None s))) = Suc (length (ls_clients s))"
      by (simp add: client_new_def Let_def add_source_eq)
    moreover have "accept_channels as (channel # chs) ?d1 = (chs', d')" using "3.prems"(1) c by (simp add: Let_def)
    from "3.IH"(2) [OF refl c [symmetric] refl this] "3.prems"(2) None
    have "length (ls_clients s') + length (channel # chs) =
      length (ls_clients (snd (client_new G None s))) + length chs'" by simp
    ultimately show ?thesis by simp
  next
    case (Some e)
    with channel_error_iff [of a fd ?d1] have c: "colod_create_channel a fd ?d1 = (Inl e, ?d1)" by simp
    have "accept_channels as chs ?d1 = (chs', d')" using "3.prems"(1) c by (simp add: Let_def)
    from "3.IH"(1) [OF refl c [symmetric] refl this] "3.prems"(2) Some show ?thesis
      by (simp add: client_new_def)
  qed
qed auto

text \<open>Every accepted descriptor is owned by the channel of a client, or lost.\<close>

lemma accept_channels_descriptors:
  assumes "accept_channels as chs d = (chs', d')"
  shows "mset (fd_open d') + image_mset gc_fd (mset chs) =
    mset (fd_open d) + image_mset gc_fd (mset chs') + mset (lost_descriptors as)"
  using assms
proof (induction "as" chs d rule: accept_channels.induct)
  case (3 fd a "as" chs d)
  let ?d1 = "d\<lparr>fd_open := fd # fd_open d\<rparr>"
  show ?case
  proof (cases "channel_error a")
    case None
    with channel_error_iff [of a fd ?d1] obtain channel where c: "colod_create_channel a fd ?d1 = (Inr channel, ?d1)"
      by auto
    have "accept_channels as (channel # chs) ?d1 = (chs', d')" using "3.prems" c by (simp add: Let_def)
    from "3.IH"(2) [OF refl c [symmetric] refl this] created_channel [OF c] None show ?thesis by simp
  next
    case (Some e)
    with channel_error_iff [of a fd ?d1] have c: "colod_create_channel a fd ?d1 = (Inl e, ?d1)" by simp
    have "accept_channels as chs ?d1 = (chs', d')" using "3.prems" c by (simp add: Let_def)
    from "3.IH"(1) [OF refl c [symmetric] refl this] Some show ?thesis by simp
  qed
qed auto

subsection \<open>The progress source\<close>

text \<open>
  The functions of a source. \<open>gs_prepare\<close> is asked before the main loop polls: whether the source
  is ready, and how long the poll may take, where -1 is no limit. \<open>gs_check\<close> is asked afterwards,
  and \<open>gs_dispatch\<close> gets the result of the callback, which says whether the source stays.
\<close>

record GSourceFuncs =
  gs_prepare :: "bool \<times> int"
  gs_check :: bool
  gs_dispatch :: "bool \<Rightarrow> bool"

definition progress_source_prepare :: "bool \<times> int" where "progress_source_prepare = (False, -1)"
definition progress_source_check :: bool where "progress_source_check = True"
definition progress_source_dispatch :: "bool \<Rightarrow> bool" where "progress_source_dispatch continue = continue"

definition progress_source_funcs :: GSourceFuncs where
  "progress_source_funcs = \<lparr>gs_prepare = progress_source_prepare, gs_check = progress_source_check,
     gs_dispatch = progress_source_dispatch\<rparr>"

definition progress_source_add :: "'e glib \<Rightarrow> source \<Rightarrow> 'z MainContext_scheme \<Rightarrow> guint \<times> 'z MainContext_scheme" where
  "progress_source_add G func s = add_source G func s"

text \<open>
  The timeout the main context polls with, as GLib documents it: none is left when a source is
  ready already, and otherwise the shortest limit of a source counts.
\<close>

fun shorter :: "int \<Rightarrow> int \<Rightarrow> int" where
  "shorter t u = (if t < 0 then u else if u < 0 then t else min t u)"

definition poll_timeout :: "GSourceFuncs list \<Rightarrow> int" where
  "poll_timeout sources = foldr (\<lambda>src t. if fst (gs_prepare src) then 0 else shorter (snd (gs_prepare src)) t) sources (-1)"

definition ready_sources :: "GSourceFuncs list \<Rightarrow> GSourceFuncs list" where
  "ready_sources sources = filter (\<lambda>src. fst (gs_prepare src) \<or> gs_check src) sources"

text \<open>
  A coroutine that waits for a lock does not make the main loop spin: its source never shortens
  the poll. And it is asked again after every poll, whatever ended it.
\<close>

lemma progress_source_polls:
  "poll_timeout (us @ progress_source_funcs # vs) = poll_timeout (us @ vs)"
  "progress_source_funcs \<in> set (ready_sources (us @ progress_source_funcs # vs))"
  by (simp_all add: poll_timeout_def ready_sources_def progress_source_funcs_def progress_source_prepare_def
      progress_source_check_def)

definition colod_source_name_or_null :: "string option option \<Rightarrow> string" where
  "colod_source_name_or_null source = (case source of None \<Rightarrow> ''NULL'' | Some None \<Rightarrow> ''NULL'' | Some (Some name) \<Rightarrow> name)"

end
